(* ===== verification/Prelude.thy ===== *)
theory Prelude
  imports "HOL-Library.Word" "HOL-Library.State_Monad"
begin

unbundle bit_operations_syntax

text \<open>
  Shared vocabulary of the development: the machine integers of the driver, byte buffers and
  the little and big endian accessors every wire format uses, the address predicates, and a
  small weakest-precondition calculus for the components that thread state through calls to
  an environment.

  A C++ \<open>(pointer, length)\<close> pair is a \<open>bytes option\<close>: \<open>None\<close> is the null pointer and the length
  is the length of the list. A fixed array such as \<open>uint8_t[6]\<close> is a \<open>bytes\<close> value whose length
  the component's invariant states.
\<close>

section \<open>Machine integers and buffers\<close>

type_synonym u8 = "8 word"
type_synonym u16 = "16 word"
type_synonym u32 = "32 word"
type_synonym u64 = "64 word"
type_synonym bytes = "u8 list"

text \<open>\<open>wire\<close> collects the rewrite rules on buffers, \<open>wp\<close> those of the state calculus.\<close>

named_theorems wire
named_theorems fields
named_theorems wp_simps

definition piece :: "nat \<Rightarrow> nat \<Rightarrow> bytes \<Rightarrow> bytes" where
  "piece i n p = take n (drop i p)"

definition zeros :: "nat \<Rightarrow> bytes" where
  "zeros n = replicate n 0"

text \<open>Writing a run of bytes at an offset of a buffer that is long enough.\<close>

definition patch :: "nat \<Rightarrow> bytes \<Rightarrow> bytes \<Rightarrow> bytes" where
  "patch i bs p = take i p @ bs @ drop (i + length bs) p"

lemma length_piece [simp, wire]: "length (piece i n p) = min n (length p - i)"
  by (simp add: piece_def)

lemma piece_full [simp]: "piece 0 (length p) p = p"
  by (simp add: piece_def)

lemma nth_piece [wire]: "j < n \<Longrightarrow> i + n \<le> length p \<Longrightarrow> piece i n p ! j = p ! (i + j)"
  by (simp add: piece_def)

lemma piece_piece [wire]: "i' + n' \<le> n \<Longrightarrow> piece i' n' (piece i n p) = piece (i + i') n' p"
  by (simp add: piece_def take_drop min_def add.commute add.left_commute)

lemma piece_append_right: "length xs \<le> i \<Longrightarrow> piece i n (xs @ ys) = piece (i - length xs) n ys"
  by (simp add: piece_def)

lemma piece_append_left: "i + n \<le> length xs \<Longrightarrow> piece i n (xs @ ys) = piece i n xs"
  by (simp add: piece_def)

lemma piece_append_exact [simp]: "piece (length xs) (length ys) (xs @ ys @ zs) = ys"
  by (simp add: piece_def)

lemma length_zeros [simp, wire]: "length (zeros n) = n"
  by (simp add: zeros_def)

lemma nth_zeros [simp]: "i < n \<Longrightarrow> zeros n ! i = 0"
  by (simp add: zeros_def)

lemma length_patch [simp, wire]: "i + length bs \<le> length p \<Longrightarrow> length (patch i bs p) = length p"
  by (simp add: patch_def)

lemma nth_patch [wire]:
  assumes "i + length bs \<le> length p"
  shows "patch i bs p ! j = (if i \<le> j \<and> j < i + length bs then bs ! (j - i) else p ! j)"
proof (cases "j < i")
  case True
  with assms show ?thesis by (simp add: patch_def nth_append)
next
  case False
  with assms show ?thesis
    by (cases "j < length p") (auto simp: patch_def nth_append add.commute add.left_commute)
qed

lemma piece_patch_same: "i + length bs \<le> length p \<Longrightarrow> piece i (length bs) (patch i bs p) = bs"
  by (simp add: patch_def piece_def)

lemma piece_patch_other:
  assumes "i + length bs \<le> length p" and "j + n \<le> length p"
    and "j + n \<le> i \<or> i + length bs \<le> j"
  shows "piece j n (patch i bs p) = piece j n p"
  using assms by (intro nth_equalityI) (auto simp: nth_piece nth_patch)

section \<open>Endian accessors\<close>

definition le16 :: "bytes \<Rightarrow> nat \<Rightarrow> u16" where
  "le16 p i = ucast (p ! i) OR push_bit 8 (ucast (p ! (i + 1)))"

definition le32 :: "bytes \<Rightarrow> nat \<Rightarrow> u32" where
  "le32 p i = ucast (le16 p i) OR push_bit 16 (ucast (le16 p (i + 2)))"

definition be16 :: "bytes \<Rightarrow> nat \<Rightarrow> u16" where
  "be16 p i = push_bit 8 (ucast (p ! i)) OR ucast (p ! (i + 1))"

definition be32 :: "bytes \<Rightarrow> nat \<Rightarrow> u32" where
  "be32 p i = push_bit 24 (ucast (p ! i)) OR push_bit 16 (ucast (p ! (i + 1)))
     OR push_bit 8 (ucast (p ! (i + 2))) OR ucast (p ! (i + 3))"

definition put16 :: "u16 \<Rightarrow> bytes" where
  "put16 v = [ucast v, ucast (drop_bit 8 v)]"

definition put32 :: "u32 \<Rightarrow> bytes" where
  "put32 v = put16 (ucast v) @ put16 (ucast (drop_bit 16 v))"

definition put32be :: "u32 \<Rightarrow> bytes" where
  "put32be v = [ucast (drop_bit 24 v), ucast (drop_bit 16 v), ucast (drop_bit 8 v), ucast v]"

lemma length_put16 [simp, wire]: "length (put16 v) = 2"
  by (simp add: put16_def)

lemma length_put32 [simp, wire]: "length (put32 v) = 4"
  by (simp add: put32_def)

lemma length_put32be [simp, wire]: "length (put32be v) = 4"
  by (simp add: put32be_def)

lemma upt_32: "[0..<32] = [0, 1, 2, 3, 4, 5, 6, 7, 8, 9, 10, 11, 12, 13, 14, 15, 16, 17, 18, 19, 20, 21, 22, 23, 24, 25, 26, 27, 28, 29, 30, 31 :: nat]"
  by (simp add: upt_rec)

lemma le16_eqI: "p ! i = ucast v \<Longrightarrow> p ! Suc i = ucast (drop_bit 8 v) \<Longrightarrow> le16 p i = v"
  by (rule bit_eqI) (auto simp: le16_def bit_simps)

lemma le16_put16 [simp, wire]: "le16 (put16 v) 0 = v"
  by (rule le16_eqI) (simp_all add: put16_def)

lemma le32_eqI: "le16 p i = ucast v \<Longrightarrow> le16 p (i + 2) = ucast (drop_bit 16 v) \<Longrightarrow> le32 p i = v"
  by (rule bit_eqI) (auto simp: le32_def bit_simps)

lemma le32_put32 [simp, wire]: "le32 (put32 v) 0 = v"
  by (rule le32_eqI; rule le16_eqI) (simp_all add: put32_def put16_def)

lemma be32_put32be [simp, wire]: "be32 (put32be v) 0 = v"
proof (rule bit_eqI)
  fix n assume "possible_bit TYPE(32 word) n"
  consider "n < 8" | "8 \<le> n" "n < 16" | "16 \<le> n" "n < 24" | "24 \<le> n" by linarith
  then show "bit (be32 (put32be v) 0) n = bit v n"
    by cases (auto simp: be32_def put32be_def bit_simps nth_Cons' dest: bit_imp_le_length)
qed

text \<open>Reading at an offset is reading the piece there, so a field written by \<open>patch\<close> reads back.\<close>

lemma le16_piece: "i + 2 \<le> length p \<Longrightarrow> le16 p i = le16 (piece i 2 p) 0"
  by (simp add: le16_def piece_def)

lemma le32_piece: "i + 4 \<le> length p \<Longrightarrow> le32 p i = le32 (piece i 4 p) 0"
  by (simp add: le32_def le16_def piece_def numeral_eq_Suc)

lemma le16_at: "piece i 2 p = put16 v \<Longrightarrow> i + 2 \<le> length p \<Longrightarrow> le16 p i = v"
  by (simp add: le16_piece)

lemma le32_at: "piece i 4 p = put32 v \<Longrightarrow> i + 4 \<le> length p \<Longrightarrow> le32 p i = v"
  by (simp add: le32_piece)

text \<open>Reading from a buffer given as the concatenation of its fields (the collection \<open>fields\<close>).\<close>

lemma le16_Cons [fields]: "0 < i \<Longrightarrow> le16 (x # xs) i = le16 xs (i - 1)"
  by (cases i) (simp_all add: le16_def)

lemma le16_append [fields]: "length xs \<le> i \<Longrightarrow> le16 (xs @ ys) i = le16 ys (i - length xs)"
  by (simp add: le16_def nth_append Suc_diff_le)

lemma le16_put16_append [fields]: "le16 (put16 v @ ys) 0 = v"
  by (rule le16_eqI) (simp_all add: put16_def)

lemma le32_Cons [fields]: "0 < i \<Longrightarrow> le32 (x # xs) i = le32 xs (i - 1)"
  by (cases i) (simp_all add: le32_def le16_def)

lemma le32_append [fields]: "length xs \<le> i \<Longrightarrow> le32 (xs @ ys) i = le32 ys (i - length xs)"
  using le16_append [of xs i ys] le16_append [of xs "i + 2" ys] by (simp add: le32_def Suc_diff_le)

lemma le32_put32_append [fields]: "le32 (put32 v @ ys) 0 = v"
  by (rule le32_eqI; rule le16_eqI) (simp_all add: put32_def put16_def)

lemma nth_append_skip [fields]: "length xs \<le> i \<Longrightarrow> (xs @ ys) ! i = ys ! (i - length xs)"
  by (simp add: nth_append)

lemma nth_Cons_skip [fields]: "0 < i \<Longrightarrow> (x # xs) ! i = xs ! (i - 1)"
  by (cases i) simp_all

lemma piece_append_skip [fields]: "length xs \<le> i \<Longrightarrow> piece i n (xs @ ys) = piece (i - length xs) n ys"
  by (rule piece_append_right)

lemma piece_Cons_skip [fields]: "0 < i \<Longrightarrow> piece i n (x # xs) = piece (i - 1) n xs"
  by (cases i) (simp_all add: piece_def)

lemma piece_here [fields]: "length xs = n \<Longrightarrow> piece 0 n (xs @ ys) = xs"
  by (simp add: piece_def)

lemma piece_here_all [fields]: "length xs = n \<Longrightarrow> piece 0 n xs = xs"
  by (simp add: piece_def)

lemma unat_u8_less [simp]: "unat (b :: u8) < 256"
  using unsigned_less [of b, where 'a = nat] by simp

lemma unat_u16_less [simp]: "unat (b :: u16) < 65536"
  using unsigned_less [of b, where 'a = nat] by simp

lemma unat_u32_less [simp]: "unat (b :: u32) < 4294967296"
  using unsigned_less [of b, where 'a = nat] by simp

lemma unat_u64_less [simp]: "unat (b :: u64) < 18446744073709551616"
  using unsigned_less [of b, where 'a = nat] by simp

lemma unat_le16: "unat (le16 p i) = unat (p ! i) + 256 * unat (p ! (i + 1))"
proof -
  have "le16 p i = ucast (p ! i) + push_bit 8 (ucast (p ! (i + 1)))"
    unfolding le16_def
    by (rule disjunctive_add [symmetric]) (auto simp: bit_simps dest: bit_imp_le_length)
  moreover have "unat (p ! i) + 256 * unat (p ! Suc i) < 65536"
    using unat_u8_less [of "p ! i"] unat_u8_less [of "p ! Suc i"] by linarith
  ultimately show ?thesis
    by (simp add: push_bit_eq_mult unat_word_ariths unsigned_ucast_eq take_bit_eq_mod)
qed

lemma unat_be16: "unat (be16 p i) = 256 * unat (p ! i) + unat (p ! (i + 1))"
proof -
  have "be16 p i = le16 [p ! (i + 1), p ! i] 0"
    by (simp add: be16_def le16_def ac_simps)
  then show ?thesis by (simp add: unat_le16)
qed

lemma word_of_unat: "of_nat (unat w) = (w :: 'a :: len word)"
  by simp

lemma unat_eq_iff: "unat v = unat w \<longleftrightarrow> v = (w :: 'a :: len word)"
  by (metis word_of_unat)

lemma unat_ucast_up: "LENGTH('a) \<le> LENGTH('b) \<Longrightarrow> unat (ucast (w :: 'a :: len word) :: 'b :: len word) = unat w"
  by (simp add: unsigned_ucast_eq take_bit_nat_eq_self_iff order_less_le_trans [OF unsigned_less])

lemma uint_ucast_up: "LENGTH('a) \<le> LENGTH('b) \<Longrightarrow> uint (ucast (w :: 'a :: len word) :: 'b :: len word) = uint w"
  by (simp add: unsigned_ucast_eq take_bit_int_eq_self_iff order_less_le_trans [OF unsigned_less])

lemma ucast_up_eq_0: "LENGTH('a) \<le> LENGTH('b) \<Longrightarrow> (ucast (w :: 'a :: len word) :: 'b :: len word) = 0 \<longleftrightarrow> w = 0"
  by (metis unat_ucast_up unat_0 unat_eq_iff)

lemma unat_of_nat_u16 [wire]: "n < 65536 \<Longrightarrow> unat (of_nat n :: u16) = n"
  by (simp add: unat_of_nat)

lemma unat_of_nat_u32 [wire]: "n < 4294967296 \<Longrightarrow> unat (of_nat n :: u32) = n"
  by (simp add: unat_of_nat)

lemma unat_of_nat_u64 [wire]: "n < 18446744073709551616 \<Longrightarrow> unat (of_nat n :: u64) = n"
  by (simp add: unat_of_nat)

lemma unat_max_u64 [simp]: "unat (-1 :: u64) = 18446744073709551615"
  by (simp add: unsigned_minus_1_eq_mask mask_eq_exp_minus_1)

lemma max_u64_ge [simp]: "(w :: u64) \<le> -1"
  by simp

section \<open>Loops that may leave the enclosing function\<close>

text \<open>
  The body of a loop over a list of items either returns from the function (\<open>Inl\<close>) or goes on
  with the local state updated (\<open>Inr\<close>).
\<close>

fun for_each :: "('x \<Rightarrow> 's \<Rightarrow> 'r + 's) \<Rightarrow> 'x list \<Rightarrow> 's \<Rightarrow> 'r + 's" where
  "for_each body [] s = Inr s"
| "for_each body (x # xs) s = (case body x s of Inl r \<Rightarrow> Inl r | Inr s' \<Rightarrow> for_each body xs s')"

lemma for_each_append:
  "for_each body (xs @ ys) s = (case for_each body xs s of Inl r \<Rightarrow> Inl r | Inr s' \<Rightarrow> for_each body ys s')"
  by (induction xs arbitrary: s) (auto split: sum.split)

text \<open>The invariant rule; the invariant may speak about the items already visited.\<close>

lemma for_each_invariant:
  assumes "for_each body xs s = Inr s'" and "I [] s"
    and "\<And>ys x t t'. \<lbrakk>\<exists>zs. xs = ys @ x # zs; I ys t; body x t = Inr t'\<rbrakk> \<Longrightarrow> I (ys @ [x]) t'"
  shows "I xs s'"
proof -
  have "xs = vs @ us \<Longrightarrow> I vs t \<Longrightarrow> for_each body us t = Inr s' \<Longrightarrow> I xs s'" for us vs t
  proof (induction us arbitrary: vs t)
    case (Cons u us)
    then obtain t' where "body u t = Inr t'" "for_each body us t' = Inr s'"
      by (auto split: sum.splits)
    moreover from this Cons.prems have "I (vs @ [u]) t'" using assms(3) by blast
    ultimately show ?case using Cons.IH [of "vs @ [u]" t'] Cons.prems by simp
  qed simp
  from this [of "[]" xs s] assms(1,2) show ?thesis by simp
qed

section \<open>Addresses\<close>

text \<open>
  \<open>memcmp\<close> on buffers of equal length. Equality of six-byte addresses is list equality.
\<close>

fun memcmp :: "bytes \<Rightarrow> bytes \<Rightarrow> int" where
  "memcmp (a # as) (b # bs) = (if a = b then memcmp as bs else if a < b then -1 else 1)"
| "memcmp _ _ = 0"

text \<open>\<open>SyncDetail::unicast\<close> and its copies: some bit set, group bit clear.\<close>

definition unicast :: "bytes \<Rightarrow> bool" where
  "unicast p \<longleftrightarrow> foldr (OR) (take 6 p) 0 \<noteq> 0 \<and> p ! 0 AND 1 = 0"

definition awdl_bssid :: bytes where
  "awdl_bssid = [0, 0x25, 0, 0xff, 0x94, 0x73]"

lemma length_awdl_bssid [simp]: "length awdl_bssid = 6"
  by (simp add: awdl_bssid_def)

lemma memcmp_eq_0: "length a = length b \<Longrightarrow> memcmp a b = 0 \<longleftrightarrow> a = b"
  by (induction a b rule: memcmp.induct) auto

lemma memcmp_refl [simp]: "memcmp a a = 0"
  by (induction a) auto

lemma memcmp_antisym: "length a = length b \<Longrightarrow> memcmp b a = - memcmp a b"
  by (induction a b rule: memcmp.induct) auto

lemma memcmp_trans:
  "length a = length b \<Longrightarrow> length b = length c \<Longrightarrow> memcmp a b > 0 \<Longrightarrow> memcmp b c \<ge> 0 \<Longrightarrow> memcmp a c > 0"
proof (induction a b arbitrary: c rule: memcmp.induct)
  case (1 a as b bs)
  then obtain d ds where "c = d # ds" by (cases c) auto
  with 1 show ?case by (auto split: if_splits)
qed auto

section \<open>A weakest-precondition calculus for stateful code\<close>

text \<open>
  Components whose methods call a driver, a HAL or a callback are written in the library's state
  monad. \<open>wp m Q\<close> holds in a state when running \<open>m\<close> there gives a result and state in \<open>Q\<close>.
\<close>

definition wp :: "('s, 'a) state \<Rightarrow> ('a \<Rightarrow> 's \<Rightarrow> bool) \<Rightarrow> 's \<Rightarrow> bool" where
  "wp m Q s = (case run_state m s of (a, t) \<Rightarrow> Q a t)"

definition gets :: "('s \<Rightarrow> 'a) \<Rightarrow> ('s, 'a) state" where
  "gets f = State (\<lambda>s. (f s, s))"

definition modify :: "('s \<Rightarrow> 's) \<Rightarrow> ('s, unit) state" where
  "modify f = State (\<lambda>s. ((), f s))"

definition unless :: "bool \<Rightarrow> ('s, unit) state \<Rightarrow> ('s, unit) state" where
  "unless b m = (if b then State_Monad.return () else m)"

lemma run_gets [simp]: "run_state (gets f) s = (f s, s)"
  by (simp add: gets_def)

lemma run_modify [simp]: "run_state (modify f) s = ((), f s)"
  by (simp add: modify_def)

lemma wp_return [wp_simps]: "wp (State_Monad.return x) Q s = Q x s"
  by (simp add: wp_def)

lemma wp_bind [wp_simps]: "wp (State_Monad.bind m f) Q s = wp m (\<lambda>a. wp (f a) Q) s"
  by (simp add: wp_def split: prod.splits)

lemma wp_gets [wp_simps]: "wp (gets f) Q s = Q (f s) s"
  by (simp add: wp_def)

lemma wp_modify [wp_simps]: "wp (modify f) Q s = Q () (f s)"
  by (simp add: wp_def)

lemma wp_if [wp_simps]: "wp (if b then m else n) Q s = (if b then wp m Q s else wp n Q s)"
  by simp

lemma wp_unless [wp_simps]: "wp (unless b m) Q s = (if b then Q () s else wp m Q s)"
  by (simp add: unless_def wp_return)

lemma wp_let [wp_simps]: "wp (let x = t in f x) Q s = (let x = t in wp (f x) Q s)"
  by simp

lemma wp_State [wp_simps]: "wp (State f) Q s = (case f s of (a, t) \<Rightarrow> Q a t)"
  by (simp add: wp_def)

lemma wp_mono: "wp m Q s \<Longrightarrow> (\<And>a t. Q a t \<Longrightarrow> R a t) \<Longrightarrow> wp m R s"
  by (auto simp: wp_def split: prod.splits)

lemma wp_conj: "wp m Q s \<Longrightarrow> wp m R s \<Longrightarrow> wp m (\<lambda>a t. Q a t \<and> R a t) s"
  by (auto simp: wp_def split: prod.splits)

lemma wp_run: "wp m Q s \<Longrightarrow> Q (fst (run_state m s)) (snd (run_state m s))"
  by (auto simp: wp_def split: prod.splits)

end
