(* ===== verification/Awdl_Clock.thy ===== *)
theory Awdl_Clock
  imports Prelude
begin

text \<open>
  Clocks (\<open>include/AWDL/RTWAwdlClock.hpp\<close>): \<open>RadioClock32\<close> expands the hardware's 32-bit receive
  timestamps into a 64-bit timeline and \<open>AvailabilityClock\<close> does the availability-window arithmetic.
  Out-parameters are options: a call that returns \<open>false\<close> leaves its output zero, here \<open>None\<close>.
\<close>

section \<open>RadioClock32\<close>

record RadioClock32 =
  rc_initialized :: bool
  rc_low :: u32
  rc_host :: u64
  rc_radio :: u64

definition RadioClock32_reset :: RadioClock32 where
  "RadioClock32_reset = \<lparr>rc_initialized = False, rc_low = 0, rc_host = 0, rc_radio = 0\<rparr>"

definition RadioClock32_sample :: "u32 \<Rightarrow> u64 \<Rightarrow> bool \<Rightarrow> RadioClock32 \<Rightarrow> u64 option \<times> RadioClock32" where
  "RadioClock32_sample low hostUs valid c =
     (if \<not> valid then (None, c)
      else if \<not> rc_initialized c
      then (Some (ucast low), \<lparr>rc_initialized = True, rc_low = low, rc_host = hostUs, rc_radio = ucast low\<rparr>)
      else if hostUs < rc_host c \<or> hostUs - rc_host c \<ge> push_bit 31 1 then (None, RadioClock32_reset)
      else let delta = low - rc_low c in
        if delta \<ge> push_bit 31 1 \<or> rc_radio c > -1 - ucast delta then (None, c)
        else (Some (rc_radio c + ucast delta),
              c\<lparr>rc_radio := rc_radio c + ucast delta, rc_low := low, rc_host := hostUs\<rparr>))"

fun RadioClock32_run :: "(nat \<times> nat) list \<Rightarrow> RadioClock32 \<Rightarrow> u64 option list \<times> RadioClock32" where
  "RadioClock32_run [] c = ([], c)"
| "RadioClock32_run ((t, h) # xs) c =
     (case RadioClock32_sample (of_nat t) (of_nat h) True c of
        (r, c) \<Rightarrow> case RadioClock32_run xs c of (rs, c) \<Rightarrow> (r # rs, c))"

text \<open>
  \<open>RadioClock32_run\<close> feeds samples taken at true radio times \<open>t\<close> and host times \<open>h\<close> (microseconds,
  unbounded), of which the hardware delivers only the low 32 bits. \<open>sampled\<close> describes a stream whose
  consecutive samples are ordered and less than \<open>2 ^ 31\<close> microseconds apart on both clocks.
\<close>

fun sampled :: "(nat \<times> nat) list \<Rightarrow> bool" where
  "sampled ((t, h) # (t', h') # xs) \<longleftrightarrow>
     t \<le> t' \<and> t' < t + 2 ^ 31 \<and> h \<le> h' \<and> h' < h + 2 ^ 31 \<and> h' < 2 ^ 64 \<and> sampled ((t', h') # xs)"
| "sampled [(t, h)] \<longleftrightarrow> h < 2 ^ 64"
| "sampled [] \<longleftrightarrow> True"

definition tracks :: "nat \<Rightarrow> nat \<Rightarrow> nat \<Rightarrow> RadioClock32 \<Rightarrow> bool" where
  "tracks base t h c \<longleftrightarrow> rc_initialized c \<and> rc_low c = of_nat t \<and> rc_host c = of_nat h \<and>
     base \<le> t \<and> unat (rc_radio c) = t - base"

lemma sample_tracks:
  assumes "tracks base t h c" "t \<le> t'" "t' < t + 2 ^ 31" "h \<le> h'" "h' < h + 2 ^ 31" "h' < 2 ^ 64"
    "t' - base < 2 ^ 64"
  shows "\<exists>c'. RadioClock32_sample (of_nat t') (of_nat h') True c = (Some (of_nat (t' - base)), c') \<and> tracks base t' h' c'"
proof -
  have host: "\<not> (of_nat h' :: u64) < of_nat h" "unat ((of_nat h' :: u64) - of_nat h) = h' - h"
    using assms(4,6) by (simp_all add: word_less_nat_alt unat_of_nat_u64 unat_sub word_le_nat_alt)
  define dt where "dt = (of_nat t' :: u32) - of_nat t"
  have dt: "dt = of_nat (t' - t)" using assms(2) by (simp add: dt_def)
  have d: "unat dt = t' - t" unfolding dt by (rule unat_of_nat_u32) (use assms(2,3) in simp)
  then have d64: "unat (ucast dt :: u64) = t' - t" by (simp add: unat_ucast_up)
  have radio: "unat (rc_radio c) = t - base" "base \<le> t" using assms(1) by (simp_all add: tracks_def)
  have top: "unat (-1 - ucast dt :: u64) = 2 ^ 64 - 1 - (t' - t)"
    using d64 by (simp add: unat_sub)
  have sum: "unat (rc_radio c + ucast dt) = t' - base"
    using radio d64 assms(2,7) by (simp add: unat_word_ariths)
  then have sum': "rc_radio c + ucast dt = of_nat (t' - base)"
    by (metis word_of_unat)
  have small: "\<not> rc_radio c > -1 - ucast dt"
    unfolding word_less_nat_alt top using radio assms(2,7) by simp
  have gap: "\<not> (of_nat h' :: u64) - of_nat h \<ge> push_bit 31 1" "\<not> dt \<ge> push_bit 31 1"
    using host(2) d assms(2-5) by (simp_all add: word_le_nat_alt)
  have c: "rc_initialized c" "rc_low c = of_nat t" "rc_host c = of_nat h" using assms(1) by (simp_all add: tracks_def)
  show ?thesis
    unfolding RadioClock32_sample_def Let_def c dt_def [symmetric] sum' tracks_def
    using host(1) small gap assms(2) radio(2) c(1) sum sum' by simp
qed

lemma run_tracks:
  assumes "tracks base t h c" "sampled ((t, h) # xs)" "\<forall>(u, _) \<in> set xs. u - base < 2 ^ 64"
  shows "fst (RadioClock32_run xs c) = map (\<lambda>(u, _). Some (of_nat (u - base))) xs"
  using assms
proof (induction xs arbitrary: t h c)
  case (Cons x xs)
  obtain t' h' where x: "x = (t', h')" by (cases x)
  with Cons.prems obtain c' where c': "tracks base t' h' c'"
    "RadioClock32_sample (of_nat t') (of_nat h') True c = (Some (of_nat (t' - base)), c')"
    using sample_tracks [of base t h c t' h'] by auto
  with Cons x have "fst (RadioClock32_run xs c') = map (\<lambda>(u, _). Some (of_nat (u - base))) xs" by auto
  with c' x show ?case by (auto split: prod.splits)
qed simp

text \<open>
  C17: from the first sample on, \<open>RadioClock32\<close> reconstructs the true radio timeline from 32-bit
  timestamps. For every stream of ordered samples less than half the counter range apart, every
  sample is accepted and the reported time differs from the true time by one constant, a multiple of
  \<open>2 ^ 32\<close>, however often the hardware counter wrapped in between.
\<close>

theorem RadioClock32_reconstructs:
  assumes "sampled ((t, h) # xs)" and "\<forall>(u, _) \<in> set xs. u - (t - t mod 2 ^ 32) < 2 ^ 64"
  shows "fst (RadioClock32_run ((t, h) # xs) RadioClock32_reset) =
    map (\<lambda>(u, _). Some (of_nat (u - 2 ^ 32 * (t div 2 ^ 32)))) ((t, h) # xs)"
proof -
  let ?c = "\<lparr>rc_initialized = True, rc_low = of_nat t, rc_host = of_nat h, rc_radio = ucast (of_nat t :: u32)\<rparr>"
  have base: "t - t mod 2 ^ 32 = 2 ^ 32 * (t div 2 ^ 32)" "t - 2 ^ 32 * (t div 2 ^ 32) = t mod 2 ^ 32"
    by (simp_all add: minus_mod_eq_mult_div modulo_nat_def)
  have low: "unat (ucast (of_nat t :: u32) :: u64) = t mod 2 ^ 32"
    by (simp add: unat_ucast_up unat_of_nat)
  then have "tracks (2 ^ 32 * (t div 2 ^ 32)) t h ?c"
    using base(2) by (simp add: tracks_def)
  from run_tracks [OF this assms(1)] assms(2)
  have "fst (RadioClock32_run xs ?c) = map (\<lambda>(u, _). Some (of_nat (u - 2 ^ 32 * (t div 2 ^ 32)))) xs"
    by (simp only: base)
  moreover have "ucast (of_nat t :: u32) = (of_nat (t - 2 ^ 32 * (t div 2 ^ 32)) :: u64)"
    using low base(2) by (metis word_of_unat)
  ultimately show ?thesis
    by (auto simp: RadioClock32_sample_def RadioClock32_reset_def split: prod.splits)
qed

theorem RadioClock32_reconstructs_witness:
  "fst (RadioClock32_run [(4294967290, 5), (4294967300, 16), (6000000000, 1705032720)] RadioClock32_reset) =
     [Some 4294967290, Some 4294967300, Some 6000000000]"
  using RadioClock32_reconstructs [of 4294967290 5 "[(4294967300, 16), (6000000000, 1705032720)]"] by simp

section \<open>AvailabilityClock\<close>

record Window =
  win_counter :: u16
  win_phaseUs :: u32
  win_untilBoundaryUs :: u32
  win_startUs :: u64
  win_available :: bool
  win_txAllowed :: bool

record AvailabilityClock =
  ac_valid :: bool
  ac_epoch :: u64
  ac_counter :: u16
  ac_period :: u32
  ac_available :: u32
  ac_guard :: u32

definition AvailabilityClock_reset :: AvailabilityClock where
  "AvailabilityClock_reset = \<lparr>ac_valid = False, ac_epoch = 0, ac_counter = 0, ac_period = 0, ac_available = 0, ac_guard = 0\<rparr>"

definition AvailabilityClock_configure ::
  "u64 \<Rightarrow> u16 \<Rightarrow> u16 \<Rightarrow> u16 \<Rightarrow> u32 \<Rightarrow> AvailabilityClock \<Rightarrow> bool \<times> AvailabilityClock" where
  "AvailabilityClock_configure epochUs counter periodTu availableTu guardUs c =
     (let period = ucast periodTu * 1024; available = ucast availableTu * 1024 in
      if period = 0 \<or> available = 0 \<or> available > period \<or> guardUs \<ge> available \<or> guardUs \<ge> available - guardUs
      then (False, c)
      else (True, \<lparr>ac_valid = True, ac_epoch = epochUs, ac_counter = counter, ac_period = period,
                   ac_available = available, ac_guard = guardUs\<rparr>))"

definition AvailabilityClock_at :: "AvailabilityClock \<Rightarrow> u64 \<Rightarrow> Window option" where
  "AvailabilityClock_at c nowUs =
     (if \<not> ac_valid c \<or> nowUs < ac_epoch c then None
      else let elapsed = nowUs - ac_epoch c;
               windows = elapsed div ucast (ac_period c);
               phase = ucast (elapsed mod ucast (ac_period c)) :: u32 in
        Some \<lparr>win_counter = ac_counter c + ucast windows, win_phaseUs = phase,
              win_untilBoundaryUs = ac_period c - phase, win_startUs = nowUs - ucast phase,
              win_available = (phase < ac_available c),
              win_txAllowed = (phase \<ge> ac_guard c \<and> phase < ac_available c - ac_guard c)\<rparr>)"

definition AvailabilityClock_nextBoundary :: "AvailabilityClock \<Rightarrow> u64 \<Rightarrow> u64 option" where
  "AvailabilityClock_nextBoundary c nowUs =
     (case AvailabilityClock_at c nowUs of
        None \<Rightarrow> None
      | Some window \<Rightarrow>
          if nowUs > -1 - ucast (win_untilBoundaryUs window) then None
          else Some (nowUs + ucast (win_untilBoundaryUs window)))"

text \<open>What \<open>configure\<close> establishes; every other operation leaves the configuration alone.\<close>

definition AvailabilityClock_ok :: "AvailabilityClock \<Rightarrow> bool" where
  "AvailabilityClock_ok c \<longleftrightarrow> (ac_valid c \<longrightarrow>
     0 < ac_period c \<and> 0 < ac_available c \<and> ac_available c \<le> ac_period c \<and>
     unat (ac_guard c) + unat (ac_guard c) < unat (ac_available c))"

lemma AvailabilityClock_configure_ok:
  "AvailabilityClock_ok c \<Longrightarrow> AvailabilityClock_ok (snd (AvailabilityClock_configure e k p a g c))"
  by (auto simp: AvailabilityClock_configure_def AvailabilityClock_ok_def Let_def not_le not_less word_gt_0
      word_less_nat_alt word_le_nat_alt unat_sub)

lemma AvailabilityClock_reset_ok: "AvailabilityClock_ok AvailabilityClock_reset"
  by (simp add: AvailabilityClock_ok_def AvailabilityClock_reset_def)

text \<open>The window in exact arithmetic.\<close>

lemma at_nat:
  assumes "AvailabilityClock_ok c" and "AvailabilityClock_at c now = Some w"
  defines "e \<equiv> unat now - unat (ac_epoch c)" and "p \<equiv> unat (ac_period c)"
  shows "0 < p" "unat (ac_epoch c) \<le> unat now" "unat (win_phaseUs w) = e mod p"
    "unat (win_untilBoundaryUs w) = p - e mod p" "unat (win_startUs w) = unat now - e mod p"
    "win_counter w = ac_counter c + of_nat (e div p)"
    "win_available w \<longleftrightarrow> e mod p < unat (ac_available c)"
    "win_txAllowed w \<longleftrightarrow> unat (ac_guard c) \<le> e mod p \<and> e mod p < unat (ac_available c) - unat (ac_guard c)"
    "ac_valid c"
proof -
  have v: "ac_valid c" "ac_epoch c \<le> now" using assms(2) by (auto simp: AvailabilityClock_at_def Let_def split: if_splits)
  then have ok: "0 < ac_period c" "ac_guard c \<le> ac_available c"
    using assms(1) by (auto simp: AvailabilityClock_ok_def word_le_nat_alt)
  have e: "unat (now - ac_epoch c) = e" using v(2) by (simp add: e_def unat_sub)
  have p64: "unat (ucast (ac_period c) :: u64) = p" by (simp add: p_def unat_ucast_up)
  show p: "0 < p" using ok(1) by (simp add: p_def word_less_nat_alt)
  have "e mod p < p" using p by simp
  then have small: "e mod p < 2 ^ 32" using unat_u32_less [of "ac_period c"] unfolding p_def by (simp add: order_less_trans)
  define ph where "ph = (ucast ((now - ac_epoch c) mod ucast (ac_period c)) :: u32)"
  have ph: "unat ph = e mod p"
  proof -
    have "unat ((now - ac_epoch c) mod ucast (ac_period c)) = e mod p"
      by (simp only: unat_mod_distrib e p64)
    with small show ?thesis by (simp add: ph_def unsigned_ucast_eq take_bit_eq_mod)
  qed
  have w: "w = \<lparr>win_counter = ac_counter c + ucast ((now - ac_epoch c) div ucast (ac_period c)), win_phaseUs = ph,
      win_untilBoundaryUs = ac_period c - ph, win_startUs = now - ucast ph, win_available = (ph < ac_available c),
      win_txAllowed = (ph \<ge> ac_guard c \<and> ph < ac_available c - ac_guard c)\<rparr>"
    using assms(2) by (simp add: AvailabilityClock_at_def Let_def ph_def split: if_splits)
  show "ac_valid c" by fact
  show "unat (ac_epoch c) \<le> unat now" using v(2) by (simp add: word_le_nat_alt)
  show "unat (win_phaseUs w) = e mod p" by (simp add: w ph)
  have "ph \<le> ac_period c" using \<open>e mod p < p\<close> by (simp add: word_le_nat_alt ph p_def [symmetric])
  then show "unat (win_untilBoundaryUs w) = p - e mod p" by (simp add: w unat_sub ph p_def)
  have "e mod p \<le> e" by simp
  also have "e \<le> unat now" by (simp add: e_def)
  finally have "(ucast ph :: u64) \<le> now" by (simp add: word_le_nat_alt unat_ucast_up ph)
  then show "unat (win_startUs w) = unat now - e mod p" by (simp add: w unat_sub unat_ucast_up ph)
  have "(ucast ((now - ac_epoch c) div ucast (ac_period c)) :: u16) = of_nat (e div p)"
    unfolding e [symmetric] p64 [symmetric] unat_div_distrib [symmetric] by (rule of_nat_unat [symmetric])
  then show "win_counter w = ac_counter c + of_nat (e div p)" by (simp add: w)
  show "win_available w \<longleftrightarrow> e mod p < unat (ac_available c)" by (simp add: w word_less_nat_alt ph)
  show "win_txAllowed w \<longleftrightarrow> unat (ac_guard c) \<le> e mod p \<and> e mod p < unat (ac_available c) - unat (ac_guard c)"
    using ok(2) by (simp add: w word_less_nat_alt word_le_nat_alt unat_sub ph)
qed

text \<open>
  The window \<open>AvailabilityClock::at\<close> reports contains the present, starts a whole number of periods
  after the epoch, and permits transmission only inside the available part shortened by the guard at
  both ends; the deadline of \<open>nextBoundary\<close> is the end of that window, strictly in the future, and the
  window found there is the next one, with the sixteen-bit counter advanced by one and phase zero.
\<close>

theorem AvailabilityClock_windows:
  assumes "AvailabilityClock_ok c" and "AvailabilityClock_at c now = Some w"
    and "AvailabilityClock_nextBoundary c now = Some d"
  shows "win_startUs w \<le> now \<and> now < d \<and> unat d = unat (win_startUs w) + unat (ac_period c) \<and>
    unat (ac_period c) dvd (unat (win_startUs w) - unat (ac_epoch c)) \<and>
    (win_txAllowed w \<longrightarrow> unat (win_startUs w) + unat (ac_guard c) \<le> unat now \<and>
       unat now + unat (ac_guard c) < unat (win_startUs w) + unat (ac_available c)) \<and>
    (\<exists>w'. AvailabilityClock_at c d = Some w' \<and> win_counter w' = win_counter w + 1 \<and>
       win_phaseUs w' = 0 \<and> win_startUs w' = d)"
proof -
  define e where "e = unat now - unat (ac_epoch c)"
  define p where "p = unat (ac_period c)"
  note at = at_nat [OF assms(1,2), folded e_def p_def]
  have start: "unat (win_startUs w) = unat now - e mod p" and le: "e mod p \<le> unat now" "e mod p < p"
    using at(1,5) by (auto simp: e_def intro: order_trans [OF mod_less_eq_dividend])
  have nooverflow: "\<not> now > -1 - ucast (win_untilBoundaryUs w)" and d: "d = now + ucast (win_untilBoundaryUs w)"
    using assms(2,3) by (auto simp: AvailabilityClock_nextBoundary_def split: if_splits)
  have u64: "unat (ucast (win_untilBoundaryUs w) :: u64) = p - e mod p" by (simp add: unat_ucast_up at(4))
  have "unat now + (p - e mod p) < 2 ^ 64"
    using nooverflow u64 unat_u64_less [of "ucast (win_untilBoundaryUs w)"]
    by (simp add: word_less_nat_alt unat_sub)
  then have dn: "unat d = unat now + (p - e mod p)" by (simp add: d unat_word_ariths u64)
  have ep: "unat now - e mod p - unat (ac_epoch c) = p * (e div p)"
    using minus_mod_eq_mult_div [of e p] by (simp add: e_def diff_commute)
  have de: "unat d - unat (ac_epoch c) = p * (e div p + 1)"
  proof -
    have "unat d - unat (ac_epoch c) = e + (p - e mod p)" using at(2) by (simp add: dn e_def)
    also have "\<dots> = p * (e div p + 1)" using le(2) mult_div_mod_eq [of p e] unfolding distrib_left by linarith
    finally show ?thesis .
  qed
  have "\<not> d < ac_epoch c" unfolding word_less_nat_alt dn using at(2) by linarith
  then have "AvailabilityClock_at c d \<noteq> None"
    using at(9) unfolding AvailabilityClock_at_def Let_def by simp
  then obtain w' where w': "AvailabilityClock_at c d = Some w'" by blast
  note at' = at_nat [OF assms(1) w', folded p_def, unfolded de]
  have "win_phaseUs w' = 0" using at'(3) by (simp add: unat_eq_0 [symmetric])
  moreover have "win_startUs w' = d" using at'(5) by (simp add: unat_eq_iff [symmetric])
  moreover have "win_counter w' = win_counter w + 1" using at(1,6) at'(6) by (simp add: add.assoc)
  moreover have "win_txAllowed w \<longrightarrow> unat (win_startUs w) + unat (ac_guard c) \<le> unat now \<and>
       unat now + unat (ac_guard c) < unat (win_startUs w) + unat (ac_available c)"
    using at(8) start le by auto
  ultimately show ?thesis
    using start le dn ep w' by (simp add: word_le_nat_alt word_less_nat_alt p_def)
qed

theorem AvailabilityClock_windows_witness:
  "(let c = snd (AvailabilityClock_configure 1000 65535 64 16 3000 AvailabilityClock_reset) in
    AvailabilityClock_nextBoundary c 70000 = Some 132072 \<and>
    map_option win_counter (AvailabilityClock_at c 132072) = Some 1)"
proof -
  let ?c = "snd (AvailabilityClock_configure 1000 65535 64 16 3000 AvailabilityClock_reset)"
  have ok: "AvailabilityClock_ok ?c" by (intro AvailabilityClock_configure_ok AvailabilityClock_reset_ok)
  have d: "AvailabilityClock_nextBoundary ?c 70000 = Some 132072" by code_simp
  have "map_option win_counter (AvailabilityClock_at ?c 70000) = Some 0" by code_simp
  then obtain w where w: "AvailabilityClock_at ?c 70000 = Some w" "win_counter w = 0" by auto
  obtain w' where "AvailabilityClock_at ?c 132072 = Some w'" "win_counter w' = win_counter w + 1"
    using AvailabilityClock_windows [OF ok w(1) d] by blast
  with d w(2) show ?thesis unfolding Let_def by simp
qed

end
