(* ===== verification/Awdl_Data.thy ===== *)
theory Awdl_Data
  imports Prelude
begin

text \<open>
  The data codec (\<open>include/AWDL/RTWAwdlData.hpp\<close>): IPv6 over AWDL framing of single frames and the
  bounded reader of aggregates. A borrowed view holds the bytes its pointers refer to. An output
  buffer is a byte list of the caller's capacity; \<open>None\<close> is a call that returned \<open>false\<close>.
\<close>

section \<open>Definitions\<close>

definition data_mtu :: nat where "data_mtu = 1428"
definition maximumFrame :: nat where "maximumFrame = 26 + 16 + data_mtu"
definition maximumReceiveFrame :: nat where "maximumReceiveFrame = maximumFrame + 8"
definition maximumAggregateFrame :: nat where "maximumAggregateFrame = 11454"
definition maximumSubframes :: nat where "maximumSubframes = 32"

record View =
  view_destination :: bytes
  view_source :: bytes
  view_payload :: bytes
  view_sequence :: u16

definition bssidByte :: "nat \<Rightarrow> u8" where
  "bssidByte i = awdl_bssid ! i"

definition validSource :: "bytes \<Rightarrow> bool" where
  "validSource address \<longleftrightarrow> foldr (OR) (take 6 address) 0 \<noteq> 0 \<and> address ! 0 AND 1 = 0"

definition ipv6 :: "bytes \<Rightarrow> bool" where
  "ipv6 packet \<longleftrightarrow> length packet \<ge> 40 \<and> drop_bit 4 (packet ! 0) = 6 \<and>
     unat (be16 packet 4) = length packet - 40"

definition validEthernet :: "bytes option \<Rightarrow> bool" where
  "validEthernet ethernet = (case ethernet of None \<Rightarrow> False | Some e \<Rightarrow>
     length e \<ge> 14 \<and> length e \<le> 14 + data_mtu \<and> e ! 12 = 0x86 \<and> e ! 13 = 0xdd \<and>
     validSource (drop 6 e) \<and> ipv6 (drop 14 e))"

definition encode_prefix :: "u16 \<Rightarrow> bytes" where
  "encode_prefix dataSequence = [0xaa, 0xaa, 3, 0, 0x17, 0xf2, 8, 0, 3, 4,
     ucast dataSequence, ucast (drop_bit 8 dataSequence), 0, 0, 0x86, 0xdd]"

text \<open>
  The first 42 bytes are cleared and then filled field by field; the payload follows. The rest of the
  caller's buffer keeps its contents.
\<close>

definition DataCodec_encode :: "bytes option \<Rightarrow> bytes option \<Rightarrow> u16 \<Rightarrow> u16 \<Rightarrow> (nat \<times> bytes) option" where
  "DataCodec_encode ethernet out sequence dataSequence = (case out of None \<Rightarrow> None | Some out \<Rightarrow>
     if \<not> validEthernet ethernet \<or> length out < length (the ethernet) + 28 then None
     else let e = the ethernet;
              control = push_bit 4 (sequence AND 4095);
              header = [0x88, 0, 0, 0] @ piece 0 6 e @ piece 6 6 e @ map bssidByte [0..<6] @
                [ucast control, ucast (drop_bit 8 control)] @ [0, 0];
              frame = header @ encode_prefix dataSequence @ drop 14 e in
       Some (length e + 28, frame @ drop (length frame) out))"

definition inspectBody :: "bytes \<Rightarrow> bool \<Rightarrow> (bytes \<times> u16) option" where
  "inspectBody body qos =
     (let wrapped = qos \<and> length body \<ge> 8 \<and> take 6 body = [0xaa, 0xaa, 3, 0, 0, 0] in
      if wrapped \<and> unat (be16 body 6) \<noteq> length body - 8 then None
      else let body = (if wrapped then drop 8 body else body) in
        if length body < 16 then None
        else if take 10 body \<noteq> [0xaa, 0xaa, 3, 0, 0x17, 0xf2, 8, 0, 3, 4] then None
        else if body ! 12 \<noteq> 0 \<or> body ! 13 \<noteq> 0 \<or> body ! 14 \<noteq> 0x86 \<or> body ! 15 \<noteq> 0xdd then None
        else let payload = drop 16 body in
          if length payload > data_mtu \<or> \<not> ipv6 payload then None
          else Some (payload, le16 body 10))"

definition DataCodec_inspect :: "bytes option \<Rightarrow> View option" where
  "DataCodec_inspect frame = (case frame of None \<Rightarrow> None | Some f \<Rightarrow>
     if length f < 40 \<or> (f ! 0 \<noteq> 0x88 \<and> f ! 0 \<noteq> 0x08) \<or> f ! 1 AND (3 OR 4 OR 0x40 OR 0x80) \<noteq> 0 \<or>
        f ! 22 AND 15 \<noteq> 0 \<or> \<not> validSource (drop 10 f)
     then None
     else if \<not> list_all (\<lambda>i. f ! (16 + i) = bssidByte i) [0..<6] then None
     else let header = (if f ! 0 = 0x88 then 26 else 24) in
       if length f < header + 16 \<or> (header = 26 \<and> f ! 24 AND 0x80 \<noteq> 0) then None
       else (case inspectBody (drop header f) (header = 26) of
          None \<Rightarrow> None
        | Some (payload, seq) \<Rightarrow>
            Some \<lparr>view_destination = piece 4 6 f, view_source = piece 10 6 f, view_payload = payload, view_sequence = seq\<rparr>))"

text \<open>One pass over the subframes; \<open>index\<close> is the number of views already collected.\<close>

function aggregate_pass :: "bytes \<Rightarrow> nat \<Rightarrow> nat \<Rightarrow> View list \<Rightarrow> View list option" where
  "aggregate_pass f capacity offset views =
     (if \<not> offset < length f then Some views
      else if length f - offset < 14 \<or> length views \<ge> capacity then None
      else let sub = drop offset f in
        if piece 6 6 sub \<noteq> piece 10 6 f then None
        else let n = unat (be16 sub 12) in
          if n > length f - offset - 14 then None
          else (case inspectBody (take n (drop 14 sub)) True of
             None \<Rightarrow> None
           | Some (payload, seq) \<Rightarrow>
               let views = views @ [\<lparr>view_destination = piece 0 6 sub, view_source = piece 6 6 sub,
                                     view_payload = payload, view_sequence = seq\<rparr>];
                   offset = offset + (14 + n) in
               if offset = length f then Some views
               else let padding = (4 - (14 + n) mod 4) mod 4 in
                 if padding > length f - offset \<or> length f - offset - padding < 14 then None
                 else aggregate_pass f capacity (offset + padding) views))"
  by pat_completeness auto

termination aggregate_pass
  by (relation "measure (\<lambda>(f, _, offset, _). length f - offset)") auto

declare aggregate_pass.simps [simp del]

text \<open>
  The result carries the views of the second pass, whose number is the reported count; a caller that
  passes no storage sees the count only.
\<close>

definition DataCodec_inspectAggregate :: "bytes option \<Rightarrow> nat \<Rightarrow> View list option" where
  "DataCodec_inspectAggregate frame capacity = (case frame of None \<Rightarrow> None | Some f \<Rightarrow>
     if capacity = 0 \<or> length f < 26 \<or> length f > maximumAggregateFrame \<or> f ! 0 \<noteq> 0x88 \<or>
        f ! 1 AND (3 OR 4 OR 0x40 OR 0x80) \<noteq> 0 \<or> f ! 22 AND 15 \<noteq> 0 \<or> f ! 24 AND 0x80 = 0 \<or>
        \<not> validSource (drop 10 f)
     then None
     else if \<not> list_all (\<lambda>i. f ! (16 + i) = bssidByte i) [0..<6] then None
     else (case aggregate_pass f capacity 26 [] of
        None \<Rightarrow> None
      | Some counted \<Rightarrow>
          if counted = [] then None
          else (case aggregate_pass f capacity 26 [] of
             None \<Rightarrow> None
           | Some views \<Rightarrow> if views = [] then None else Some views)))"

definition DataCodec_validAggregate :: "bytes option \<Rightarrow> bool" where
  "DataCodec_validAggregate frame \<longleftrightarrow> DataCodec_inspectAggregate frame maximumSubframes \<noteq> None"

definition DataCodec_decode :: "bytes option \<Rightarrow> bytes option \<Rightarrow> (nat \<times> bytes \<times> u16) option" where
  "DataCodec_decode frame ethernet = (case ethernet of None \<Rightarrow> None | Some e \<Rightarrow>
     (case DataCodec_inspect frame of
        None \<Rightarrow> None
      | Some view \<Rightarrow>
          if length e < 14 + length (view_payload view) then None
          else let out = view_destination view @ view_source view @ [0x86, 0xdd] @ view_payload view in
            Some (14 + length (view_payload view), out @ drop (length out) e, view_sequence view)))"

section \<open>Single frames\<close>

lemma validSource_piece: "i + 6 \<le> length p \<Longrightarrow> validSource (drop i p) = validSource (piece i 6 p)"
  by (simp add: validSource_def piece_def)

lemma inspectBody_SomeD:
  assumes "inspectBody body qos = Some (payload, seq)"
  shows "ipv6 payload \<and> length payload \<le> data_mtu"
  using assms by (auto simp: inspectBody_def Let_def split: if_splits)

lemma inspectBody_encode:
  assumes "ipv6 payload" "length payload \<le> data_mtu"
  shows "inspectBody (encode_prefix ds @ payload) qos = Some (payload, ds)"
proof -
  have "le16 (encode_prefix ds @ payload) 10 = ds"
    by (rule le16_eqI) (simp_all add: encode_prefix_def)
  with assms show ?thesis by (simp add: inspectBody_def encode_prefix_def)
qed

lemma inspect_SomeD:
  assumes "DataCodec_inspect (Some f) = Some v"
  shows "validSource (view_source v) \<and> length (view_source v) = 6 \<and> length (view_destination v) = 6 \<and>
    ipv6 (view_payload v) \<and> length (view_payload v) \<le> data_mtu"
  using assms
  by (auto simp: DataCodec_inspect_def Let_def validSource_piece simp del: upt_rec_numeral
      dest: inspectBody_SomeD split: if_splits option.splits)

lemma validEthernet_build:
  assumes "length d = 6" "length s = 6" "validSource s" "ipv6 payload" "length payload \<le> data_mtu"
  shows "validEthernet (Some (d @ s @ [0x86, 0xdd] @ payload))"
  using assms by (simp add: validEthernet_def nth_append validSource_def)

lemma inspect_encode:
  assumes "length d = 6" "length s = 6" "validSource s" "ipv6 payload" "length payload \<le> data_mtu" "c AND 15 = 0"
  shows "DataCodec_inspect (Some ([0x88, 0, 0, 0] @ d @ s @ map bssidByte [0..<6] @ [c, c'] @ [0, 0] @
      encode_prefix ds @ payload)) =
    Some \<lparr>view_destination = d, view_source = s, view_payload = payload, view_sequence = ds\<rparr>"
proof -
  obtain d0 d1 d2 d3 d4 d5 where d: "d = [d0, d1, d2, d3, d4, d5]"
    using assms(1) by (auto simp: numeral_eq_Suc length_Suc_conv)
  obtain s0 s1 s2 s3 s4 s5 where s: "s = [s0, s1, s2, s3, s4, s5]"
    using assms(2) by (auto simp: numeral_eq_Suc length_Suc_conv)
  have len: "length payload \<ge> 40" using assms(4) by (simp add: ipv6_def)
  have "drop 26 ([0x88, 0, 0, 0] @ d @ s @ map bssidByte [0..<6] @ [c, c'] @ [0, 0] @ encode_prefix ds @ payload) =
    encode_prefix ds @ payload" by (simp add: d s)
  moreover have "map bssidByte [0..<6] = awdl_bssid" by (simp add: bssidByte_def awdl_bssid_def upt_rec)
  ultimately show ?thesis using assms(3-) len
    by (simp add: DataCodec_inspect_def d s piece_def inspectBody_encode validSource_def awdl_bssid_def
        bssidByte_def upt_rec)
qed

lemma ethernet_split:
  assumes "validEthernet (Some e)"
  shows "e = piece 0 6 e @ piece 6 6 e @ [0x86, 0xdd] @ drop 14 e"
proof -
  have len: "14 \<le> length e" and ty: "e ! 12 = 0x86" "e ! 13 = 0xdd"
    using assms by (simp_all add: validEthernet_def)
  have "drop 12 e = e ! 12 # e ! 13 # drop 14 e"
    using len by (simp add: Cons_nth_drop_Suc [symmetric] numeral_eq_Suc)
  then have "e = take 12 e @ [0x86, 0xdd] @ drop 14 e"
    using append_take_drop_id [of 12 e] by (simp add: ty)
  moreover have "take 12 e = piece 0 6 e @ piece 6 6 e"
    using take_add [of 6 6 e] by (simp add: piece_def)
  ultimately show ?thesis by simp
qed

lemma control_low_nibble: "(ucast (push_bit 4 (q AND 4095 :: u16)) :: u8) AND 15 = 0"
proof -
  have "(15 :: u8) = mask 4" by (simp add: mask_eq_exp_minus_1)
  then have nibble: "bit (15 :: u8) n \<longleftrightarrow> n < 4" for n by (simp only: bit_mask_iff) auto
  show ?thesis
    by (rule bit_eqI) (unfold bit_and_iff bit_unsigned_iff bit_push_bit_iff nibble, simp)
qed

lemma length_encode_prefix [simp]: "length (encode_prefix ds) = 16"
  by (simp add: encode_prefix_def)

lemma encode_frame:
  assumes "DataCodec_encode (Some e) (Some out) sequence ds = Some (n, out')"
  shows "\<exists>c c'. c AND 15 = 0 \<and> take n out' = [0x88, 0, 0, 0] @ piece 0 6 e @ piece 6 6 e @ map bssidByte [0..<6] @ [c, c'] @ [0, 0] @ encode_prefix ds @ drop 14 e"
    and "validEthernet (Some e)" and "n = length e + 28" and "length (take n out') = n"
proof -
  define c where "c = push_bit 4 (sequence AND 4095)"
  define f where "f = [0x88, 0, 0, 0] @ piece 0 6 e @ piece 6 6 e @ map bssidByte [0..<6] @ [ucast c, ucast (drop_bit 8 c)] @ [0, 0] @ encode_prefix ds @ drop 14 e"
  show v: "validEthernet (Some e)" using assms by (auto simp: DataCodec_encode_def split: if_splits)
  then have "14 \<le> length e" by (simp add: validEthernet_def)
  then have l: "length f = length e + 28" by (simp add: f_def encode_prefix_def)
  have n: "n = length e + 28" "out' = f @ drop (length f) out"
    using assms by (auto simp: DataCodec_encode_def Let_def f_def c_def add.assoc simp del: upt_rec_numeral split: if_splits)
  have t: "take n out' = f" using l n by simp
  then show "length (take n out') = n" using l n(1) by simp
  show "n = length e + 28" by (rule n(1))
  show "\<exists>c c'. c AND 15 = 0 \<and> take n out' = [0x88, 0, 0, 0] @ piece 0 6 e @ piece 6 6 e @ map bssidByte [0..<6] @ [c, c'] @ [0, 0] @ encode_prefix ds @ drop 14 e"
    using control_low_nibble [of sequence] t unfolding f_def c_def by blast
qed

text \<open>
  C12: encoding and decoding are inverse. Every Ethernet frame that \<open>encode\<close> accepts is written as a
  frame of 28 more bytes that \<open>decode\<close> maps back to the same Ethernet frame and data sequence number;
  the bytes of the output buffer behind the frame are untouched.
\<close>

theorem DataCodec_round_trip:
  assumes "DataCodec_encode (Some e) (Some out) sequence ds = Some (n, out')" and "length e \<le> length buf"
  shows "n = length e + 28 \<and> length out' = length out \<and> drop n out' = drop n out \<and>
    DataCodec_decode (Some (take n out')) (Some buf) = Some (length e, e @ drop (length e) buf, ds)"
proof -
  define c where "c = push_bit 4 (sequence AND 4095)"
  define frame where "frame = ([0x88, 0, 0, 0] @ piece 0 6 e @ piece 6 6 e @ map bssidByte [0..<6] @
      [ucast c, ucast (drop_bit 8 c)] @ [0, 0]) @ encode_prefix ds @ drop 14 e"
  have valid: "validEthernet (Some e)" and cap: "length e + 28 \<le> length out"
    and res: "n = length e + 28" "out' = frame @ drop (length frame) out"
    using assms(1) unfolding DataCodec_encode_def Let_def c_def frame_def by (simp_all split: if_splits)
  have ok: "14 \<le> length e" "validSource (piece 6 6 e)" "ipv6 (drop 14 e)" "length (drop 14 e) \<le> data_mtu"
    using valid validSource_piece [of 6 e] by (auto simp: validEthernet_def)
  have len: "length frame = length e + 28" using ok(1) by (simp add: frame_def encode_prefix_def)
  have "ucast c AND 15 = (0 :: u8)" unfolding c_def by (rule control_low_nibble)
  then have "DataCodec_inspect (Some frame) =
    Some \<lparr>view_destination = piece 0 6 e, view_source = piece 6 6 e, view_payload = drop 14 e, view_sequence = ds\<rparr>"
    using inspect_encode [of "piece 0 6 e" "piece 6 6 e" "drop 14 e" "ucast c"] ok
    by (simp add: frame_def)
  then have "DataCodec_decode (Some frame) (Some buf) = Some (length e, e @ drop (length e) buf, ds)"
    using ok(1) assms(2) ethernet_split [OF valid] by (simp add: DataCodec_decode_def Let_def)
  with res cap len show ?thesis by simp
qed

definition sample_ethernet :: bytes where
  "sample_ethernet = [2, 0, 0, 0, 0, 7, 2, 0, 0, 0, 0, 9, 0x86, 0xdd] @ [0x60, 0, 0, 0, 0, 2] @ zeros 34 @ [1, 2]"

theorem DataCodec_round_trip_witness:
  "(\<exists>out'. DataCodec_encode (Some sample_ethernet) (Some (zeros 100)) 7 0x1234 = Some (84, out') \<and>
     DataCodec_decode (Some (take 84 out')) (Some (zeros 56)) = Some (56, sample_ethernet, 0x1234))"
proof -
  have "map_option fst (DataCodec_encode (Some sample_ethernet) (Some (zeros 100)) 7 0x1234) = Some 84" by code_simp
  then obtain out' where "DataCodec_encode (Some sample_ethernet) (Some (zeros 100)) 7 0x1234 = Some (84, out')" by auto
  moreover have "length sample_ethernet = 56" by (simp add: sample_ethernet_def)
  ultimately show ?thesis
    using DataCodec_round_trip [of sample_ethernet "zeros 100" 7 "0x1234" 84 out' "zeros 56"] by auto
qed

text \<open>
  Whatever bytes arrive, a frame that \<open>decode\<close> accepts is delivered as a well-formed IPv6 Ethernet
  frame: of at most the AWDL MTU plus header, with a unicast non-zero source and an IPv6 length field
  that matches, so it would be accepted by \<open>encode\<close> again.
\<close>

theorem DataCodec_decode_valid:
  assumes "DataCodec_decode frame buf = Some (n, out, ds)"
  shows "validEthernet (Some (take n out)) \<and> n \<le> 14 + data_mtu \<and>
    length out = length (the buf) \<and> drop n out = drop n (the buf)"
proof -
  obtain f b where fb: "frame = Some f" "buf = Some b"
    using assms by (cases frame; cases buf) (simp_all add: DataCodec_decode_def DataCodec_inspect_def)
  then obtain v where v: "DataCodec_inspect (Some f) = Some v" "n = 14 + length (view_payload v)"
    "14 + length (view_payload v) \<le> length b"
    "out = (view_destination v @ view_source v @ [0x86, 0xdd] @ view_payload v) @
       drop (length (view_destination v @ view_source v @ [0x86, 0xdd] @ view_payload v)) b"
    using assms by (auto simp: DataCodec_decode_def Let_def split: option.splits if_splits)
  note ok = inspect_SomeD [OF v(1)]
  let ?e = "view_destination v @ view_source v @ [0x86, 0xdd] @ view_payload v"
  have len: "length ?e = n" using ok v(2) by simp
  have "validEthernet (Some ?e)" using ok by (intro validEthernet_build) simp_all
  moreover have "take n out = ?e" "drop n out = drop n b" "length out = length b"
    unfolding v(4) len [symmetric] using v(2,3) len by simp_all
  ultimately show ?thesis using ok v(2) fb by simp
qed

definition sample_frame :: bytes where
  "sample_frame = [0x08, 0, 0, 0] @ [2, 0, 0, 0, 0, 7] @ [2, 0, 0, 0, 0, 9] @ awdl_bssid @ [0x10, 0] @
     encode_prefix 5 @ [0x60, 0, 0, 0, 0, 1] @ zeros 34 @ [9]"

theorem DataCodec_decode_valid_witness:
  "(\<exists>out. DataCodec_decode (Some sample_frame) (Some (zeros 80)) = Some (55, out, 5) \<and>
     validEthernet (Some (take 55 out)))"
proof -
  have "map_option (\<lambda>(n, _, ds). (n, ds)) (DataCodec_decode (Some sample_frame) (Some (zeros 80))) = Some (55, 5)"
    by code_simp
  then obtain out where "DataCodec_decode (Some sample_frame) (Some (zeros 80)) = Some (55, out, 5)" by auto
  with DataCodec_decode_valid show ?thesis by blast
qed

section \<open>Aggregates\<close>

text \<open>
  The wire form of an aggregate: subframes of destination, transmitter, length and body, each but the
  last padded to a multiple of four bytes.
\<close>

definition subframe :: "bytes \<Rightarrow> bytes \<times> u16 \<times> bytes \<Rightarrow> bytes" where
  "subframe sa = (\<lambda>(da, ds, payload). da @ sa @
     [ucast (drop_bit 8 (of_nat (16 + length payload) :: u16)), ucast (of_nat (16 + length payload) :: u16)] @
     encode_prefix ds @ payload)"

definition padding :: "nat \<Rightarrow> bytes" where
  "padding n = zeros ((4 - n mod 4) mod 4)"

fun subframes :: "bytes \<Rightarrow> (bytes \<times> u16 \<times> bytes) list \<Rightarrow> bytes" where
  "subframes sa [] = []"
| "subframes sa [x] = subframe sa x"
| "subframes sa (x # xs) = subframe sa x @ padding (length (subframe sa x)) @ subframes sa xs"

definition subframe_ok :: "bytes \<times> u16 \<times> bytes \<Rightarrow> bool" where
  "subframe_ok = (\<lambda>(da, ds, payload). length da = 6 \<and> ipv6 payload \<and> length payload \<le> data_mtu)"

definition view_of :: "bytes \<Rightarrow> bytes \<times> u16 \<times> bytes \<Rightarrow> View" where
  "view_of sa = (\<lambda>(da, ds, payload).
     \<lparr>view_destination = da, view_source = sa, view_payload = payload, view_sequence = ds\<rparr>)"

lemma length_subframe:
  "length sa = 6 \<Longrightarrow> subframe_ok (da, ds, payload) \<Longrightarrow> length (subframe sa (da, ds, payload)) = 14 + (16 + length payload)"
  by (simp add: subframe_def subframe_ok_def)

lemma subframes_Cons:
  "xs \<noteq> [] \<Longrightarrow> subframes sa (x # xs) = subframe sa x @ padding (length (subframe sa x)) @ subframes sa xs"
  by (cases xs) simp_all

lemma length_subframes_ge:
  "length sa = 6 \<Longrightarrow> subframe_ok x \<Longrightarrow> 30 \<le> length (subframes sa (x # xs))"
  by (cases xs; cases x) (simp_all add: length_subframe)

lemma subframe_fields:
  assumes "length sa = 6" "subframe_ok (da, ds, payload)" and sub_def: "sub = subframe sa (da, ds, payload) @ rest"
  shows "piece 0 6 sub = da" "piece 6 6 sub = sa" "unat (be16 sub 12) = 16 + length payload"
    "take (16 + length payload) (drop 14 sub) = encode_prefix ds @ payload"
proof -
  have len: "length da = 6" "length payload \<le> 1428" using assms(2) by (simp_all add: subframe_ok_def data_mtu_def)
  let ?n = "of_nat (16 + length payload) :: u16"
  have sub: "sub = da @ sa @ [ucast (drop_bit 8 ?n), ucast ?n] @ encode_prefix ds @ payload @ rest"
    by (simp add: sub_def subframe_def)
  show "piece 0 6 sub = da" "piece 6 6 sub = sa" using len assms(1) by (simp_all add: sub piece_def)
  show "take (16 + length payload) (drop 14 sub) = encode_prefix ds @ payload"
    using len assms(1) by (simp add: sub)
  have "be16 sub 12 = le16 [ucast ?n, ucast (drop_bit 8 ?n)] 0"
    using len assms(1) by (simp add: sub be16_def le16_def nth_append ac_simps)
  also have "\<dots> = ?n" by (rule le16_eqI) simp_all
  finally show "unat (be16 sub 12) = 16 + length payload"
    using len(2) by (simp only: unat_of_nat_u16)
qed

lemma aggregate_pass_encode:
  assumes "piece 10 6 f = sa" "length sa = 6" "list_all subframe_ok xs" "xs \<noteq> []"
    "offset \<le> length f" "drop offset f = subframes sa xs" "length acc + length xs \<le> capacity"
  shows "aggregate_pass f capacity offset acc = Some (acc @ map (view_of sa) xs)"
  using assms(3-)
proof (induction xs arbitrary: offset acc)
  case (Cons x xs)
  obtain da ds payload where x: "x = (da, ds, payload)" by (cases x)
  define n where "n = 16 + length payload"
  obtain rest where f: "drop offset f = subframe sa x @ rest"
    and rest: "rest = (if xs = [] then [] else padding (length (subframe sa x)) @ subframes sa xs)"
    using Cons.prems(4) by (cases "xs = []") (auto simp: subframes_Cons)
  have ok: "subframe_ok (da, ds, payload)" using Cons.prems(1) x by simp
  note fields = subframe_fields [OF assms(2) ok, folded x, OF f, folded n_def]
  have len: "length (subframe sa x) = 14 + n" using length_subframe [OF assms(2) ok] by (simp add: x n_def)
  have lf: "length f - offset = 14 + n + length rest" using arg_cong [OF f, of length] len by simp
  have body: "inspectBody (encode_prefix ds @ payload) True = Some (payload, ds)"
    using ok by (intro inspectBody_encode) (simp_all add: subframe_ok_def)
  have view: "\<lparr>view_destination = da, view_source = sa, view_payload = payload, view_sequence = ds\<rparr> = view_of sa x"
    by (simp add: view_of_def x)
  have step: "aggregate_pass f capacity offset acc =
    (if offset + (14 + n) = length f then Some (acc @ [view_of sa x])
     else let pad = (4 - (14 + n) mod 4) mod 4 in
       if pad > length f - (offset + (14 + n)) \<or> length f - (offset + (14 + n)) - pad < 14 then None
       else aggregate_pass f capacity (offset + (14 + n) + pad) (acc @ [view_of sa x]))"
    using Cons.prems(5) lf fields assms(1) body
    by (subst aggregate_pass.simps) (simp add: Let_def view)
  show ?case
  proof (cases "xs = []")
    case True
    then have "offset + (14 + n) = length f" using lf rest Cons.prems(3) by simp
    with True show ?thesis by (simp add: step)
  next
    case False
    define pad where "pad = (4 - (14 + n) mod 4) mod 4"
    have r: "rest = zeros pad @ subframes sa xs" using False rest by (simp add: padding_def len pad_def)
    obtain y ys where "xs = y # ys" using False by (cases xs) auto
    then have big: "30 \<le> length (subframes sa xs)"
      using Cons.prems(1) length_subframes_ge [OF assms(2), of y ys] by simp
    have "drop (offset + (14 + n) + pad) f = drop (14 + n + pad) (drop offset f)"
      by (simp add: add.commute add.left_commute)
    also have "\<dots> = subframes sa xs" by (simp add: f r len [symmetric])
    finally have "aggregate_pass f capacity (offset + (14 + n) + pad) (acc @ [view_of sa x]) =
        Some ((acc @ [view_of sa x]) @ map (view_of sa) xs)"
      using Cons.prems False lf r big by (intro Cons.IH) simp_all
    moreover have lr: "length rest = pad + length (subframes sa xs)" using r by simp
    have "offset + (14 + n) \<noteq> length f" using lf lr big by linarith
    moreover have "\<not> pad > length f - (offset + (14 + n))" "\<not> length f - (offset + (14 + n)) - pad < 14"
      using lf lr big by linarith+
    ultimately show ?thesis by (simp add: step pad_def [symmetric] Let_def del: diff_diff_left)
  qed
qed simp

definition amsdu :: "u8 \<Rightarrow> bytes \<Rightarrow> bytes \<Rightarrow> u8 \<Rightarrow> (bytes \<times> u16 \<times> bytes) list \<Rightarrow> bytes" where
  "amsdu c ra sa c' xs = [0x88, 0, 0, 0] @ ra @ sa @ awdl_bssid @ [c, c'] @ [0x80, 0] @ subframes sa xs"

text \<open>
  C13: an aggregate of complete subframes from one unicast transmitter, within the frame size and the
  subframe capacity, is read as exactly those subframes in order: destinations, payloads and sequence
  numbers are the ones that were put in.
\<close>

theorem inspectAggregate_complete:
  assumes "length ra = 6" "length sa = 6" "validSource sa" "c AND 15 = 0" "xs \<noteq> []" "list_all subframe_ok xs"
    "length xs \<le> capacity" "length (amsdu c ra sa c' xs) \<le> maximumAggregateFrame"
  shows "DataCodec_inspectAggregate (Some (amsdu c ra sa c' xs)) capacity = Some (map (view_of sa) xs)"
proof -
  define f where "f = amsdu c ra sa c' xs"
  obtain r0 r1 r2 r3 r4 r5 where r: "ra = [r0, r1, r2, r3, r4, r5]"
    using assms(1) by (auto simp: numeral_eq_Suc length_Suc_conv)
  obtain s0 s1 s2 s3 s4 s5 where s: "sa = [s0, s1, s2, s3, s4, s5]"
    using assms(2) by (auto simp: numeral_eq_Suc length_Suc_conv)
  have f: "f = [0x88, 0, 0, 0, r0, r1, r2, r3, r4, r5, s0, s1, s2, s3, s4, s5, 0, 0x25, 0, 0xff, 0x94, 0x73,
      c, c', 0x80, 0] @ subframes sa xs"
    by (simp add: f_def amsdu_def r s awdl_bssid_def)
  have "aggregate_pass f capacity 26 [] = Some ([] @ map (view_of sa) xs)"
    using assms(2,5-7) by (intro aggregate_pass_encode) (simp_all add: f piece_def s)
  moreover have "validSource (drop 10 f)" using assms(3) by (simp add: f s validSource_def)
  moreover have "list_all (\<lambda>i. f ! (16 + i) = bssidByte i) [0..<6]"
    by (simp add: f upt_rec bssidByte_def awdl_bssid_def)
  moreover have "26 \<le> length f" "f ! 0 = 0x88" "f ! 1 = 0" "f ! 22 = c" "f ! 24 = 0x80" by (simp_all add: f)
  moreover have "length f \<le> maximumAggregateFrame" using assms(8) by (simp add: f_def)
  moreover have "capacity \<noteq> 0" using assms(5,7) by (cases xs) auto
  ultimately have "DataCodec_inspectAggregate (Some f) capacity = Some (map (view_of sa) xs)"
    using assms(4,5) unfolding DataCodec_inspectAggregate_def by simp
  then show ?thesis by (simp add: f_def)
qed

definition member_ok :: "bytes \<Rightarrow> View \<Rightarrow> bool" where
  "member_ok f v \<longleftrightarrow> length (view_destination v) = 6 \<and> view_source v = piece 10 6 f \<and> ipv6 (view_payload v) \<and> length (view_payload v) \<le> data_mtu"

lemma aggregate_pass_step:
  assumes "aggregate_pass f capacity offset acc = Some views" "offset < length f"
  obtains v where "length acc < capacity" "member_ok f v" "views = acc @ [v]"
  | v offset' where "length acc < capacity" "member_ok f v" "offset < offset'"
      "aggregate_pass f capacity offset' (acc @ [v]) = Some views"
proof -
  define sub where "sub = drop offset f"
  define n where "n = unat (be16 sub 12)"
  have eq: "aggregate_pass f capacity offset acc =
     (if length f - offset < 14 \<or> length acc \<ge> capacity then None
      else if piece 6 6 sub \<noteq> piece 10 6 f \<or> n > length f - offset - 14 then None
      else (case inspectBody (take n (drop 14 sub)) True of
             None \<Rightarrow> None
           | Some (payload, seq) \<Rightarrow>
               let views = acc @ [\<lparr>view_destination = piece 0 6 sub, view_source = piece 6 6 sub,
                                     view_payload = payload, view_sequence = seq\<rparr>];
                   offset = offset + (14 + n) in
               if offset = length f then Some views
               else let padding = (4 - (14 + n) mod 4) mod 4 in
                 if padding > length f - offset \<or> length f - offset - padding < 14 then None
                 else aggregate_pass f capacity (offset + padding) views))"
    using assms(2) by (subst aggregate_pass.simps) (unfold sub_def n_def Let_def, simp)
  obtain payload seq where ok: "length acc < capacity" "piece 6 6 sub = piece 10 6 f"
    "inspectBody (take n (drop 14 sub)) True = Some (payload, seq)" "14 \<le> length f - offset"
    using assms(1) unfolding eq by (auto split: if_splits option.splits)
  let ?v = "\<lparr>view_destination = piece 0 6 sub, view_source = piece 6 6 sub, view_payload = payload, view_sequence = seq\<rparr>"
  have v: "member_ok f ?v" using ok(2,4) inspectBody_SomeD [OF ok(3)] by (simp add: member_ok_def sub_def)
  show thesis
  proof (cases "offset + (14 + n) = length f")
    case True
    then have "views = acc @ [?v]"
      using assms(1) ok unfolding eq by (simp add: Let_def split: if_splits)
    with ok(1) v that(1) show thesis by blast
  next
    case False
    then have "aggregate_pass f capacity (offset + (14 + n) + (4 - (14 + n) mod 4) mod 4) (acc @ [?v]) = Some views"
      using assms(1) ok unfolding eq by (simp add: Let_def split: if_splits)
    then show thesis by (rule that(2) [OF ok(1) v, rotated]) simp
  qed
qed

lemma aggregate_pass_sound:
  assumes "aggregate_pass f capacity offset acc = Some views" "length acc \<le> capacity" "list_all (member_ok f) acc"
  shows "length views \<le> capacity \<and> list_all (member_ok f) views"
  using assms
proof (induction "length f - offset" arbitrary: offset acc rule: less_induct)
  case less
  show ?case
  proof (cases "offset < length f")
    case True
    with less.prems(1) show ?thesis
    proof (cases rule: aggregate_pass_step)
      case (1 v)
      with less.prems show ?thesis by simp
    next
      case (2 v offset')
      with less.prems True show ?thesis by (simp add: less.hyps [of offset' "acc @ [v]"])
    qed
  next
    case False
    with less.prems show ?thesis by (simp add: aggregate_pass.simps)
  qed
qed

text \<open>
  An aggregate from the air never yields more members than the caller has room for, and every member
  is an IPv6 packet of at most the MTU whose source is the frame's unicast transmitter. A frame with any
  malformed subframe yields no member at all.
\<close>

theorem inspectAggregate_sound:
  assumes "DataCodec_inspectAggregate (Some f) capacity = Some views"
  shows "views \<noteq> [] \<and> length views \<le> capacity \<and> validSource (piece 10 6 f) \<and>
    list_all (\<lambda>v. view_source v = piece 10 6 f \<and> ipv6 (view_payload v) \<and> length (view_payload v) \<le> data_mtu) views"
proof -
  have "aggregate_pass f capacity 26 [] = Some views" "views \<noteq> []" "validSource (drop 10 f)" "26 \<le> length f"
    using assms by (auto simp: DataCodec_inspectAggregate_def split: if_splits option.splits)
  with aggregate_pass_sound [of f capacity 26 "[]" views] show ?thesis
    by (simp add: validSource_piece list_all_iff member_ok_def)
qed

definition sample_amsdu :: bytes where
  "sample_amsdu = amsdu 0x20 [2, 0, 0, 0, 0, 7] [2, 0, 0, 0, 0, 9] 0
     [([2, 0, 0, 0, 0, 7], 5, [0x60, 0, 0, 0, 0, 1] @ zeros 34 @ [9]), ([2, 0, 0, 0, 0, 7], 6, [0x60, 0, 0, 0, 0, 0] @ zeros 34)]"

theorem inspectAggregate_complete_witness:
  "map_option (map view_sequence) (DataCodec_inspectAggregate (Some sample_amsdu) 32) = Some [5, 6]"
proof -
  have "DataCodec_inspectAggregate (Some sample_amsdu) 32 = Some (map (view_of [2, 0, 0, 0, 0, 9])
     [([2, 0, 0, 0, 0, 7], 5, [0x60, 0, 0, 0, 0, 1] @ zeros 34 @ [9]), ([2, 0, 0, 0, 0, 7], 6, [0x60, 0, 0, 0, 0, 0] @ zeros 34)])"
    unfolding sample_amsdu_def by (rule inspectAggregate_complete) code_simp+
  then show ?thesis by (simp add: view_of_def)
qed

theorem inspectAggregate_sound_witness:
  "(\<exists>views. DataCodec_inspectAggregate (Some sample_amsdu) 2 = Some views \<and> length views \<le> 2)"
proof -
  have "DataCodec_inspectAggregate (Some sample_amsdu) 2 \<noteq> None" by code_simp
  then obtain views where "DataCodec_inspectAggregate (Some sample_amsdu) 2 = Some views" by blast
  with inspectAggregate_sound show ?thesis by blast
qed

end
