(* ===== verification/Awdl_Replay.thy ===== *)
theory Awdl_Replay
  imports Prelude
begin

text \<open>
  The per-stream duplicate filter (\<open>include/AWDL/RTWAwdlDataReplay.hpp\<close>): a 64-entry sliding window
  over 12- or 16-bit sequence numbers with an idle restart. It is shown to refine a filter on
  unbounded stream positions that remembers everything it accepted.
\<close>

section \<open>Definitions\<close>

record DataReplayWindow =
  rw_bitmap :: u64
  rw_lastRx :: u64
  rw_sequence :: u16
  rw_active :: bool
  rw_sequenceBits :: u8

definition DataReplayWindow0 :: DataReplayWindow where
  "DataReplayWindow0 = \<lparr>rw_bitmap = 0, rw_lastRx = 0, rw_sequence = 0, rw_active = False, rw_sequenceBits = 0\<rparr>"

definition DataReplayWindow_accept :: "u16 \<Rightarrow> u64 \<Rightarrow> DataReplayWindow \<Rightarrow> bool \<times> DataReplayWindow" where
  "DataReplayWindow_accept seq now w =
     (if \<not> rw_active w \<or> now < rw_lastRx w \<or> now - rw_lastRx w > 3000000
      then (True, \<lparr>rw_bitmap = 1, rw_lastRx = now, rw_sequence = seq, rw_active = True,
                   rw_sequenceBits = (if seq > 0xfff then 16 else 0)\<rparr>)
      else let bits = (if seq > 0xfff then 16
                       else if rw_sequenceBits w = 0 \<and> rw_sequence w \<ge> 0xfc0 \<and> seq < 0x800 then 12
                       else rw_sequenceBits w);
               w' = w\<lparr>rw_lastRx := now, rw_sequenceBits := bits\<rparr>;
               mask = (if bits = 12 then 0xfff else 0xffff :: u32);
               forward = (ucast seq - ucast (rw_sequence w)) AND mask;
               delta = (if forward \<le> mask div 2 then uint forward else uint forward - uint (mask + 1)) in
        if delta > 0
        then (True, w'\<lparr>rw_bitmap := (if delta \<ge> 64 then 1 else push_bit (nat delta) (rw_bitmap w) OR 1),
                      rw_sequence := seq\<rparr>)
        else let back = (ucast (rw_sequence w) - ucast seq) AND mask in
          if back \<ge> 64 \<or> rw_bitmap w AND push_bit (unat back) 1 \<noteq> 0 then (False, w')
          else (True, w'\<lparr>rw_bitmap := rw_bitmap w OR push_bit (unat back) 1\<rparr>))"

section \<open>The filter on stream positions\<close>

text \<open>
  A sender numbers its packets by an unbounded position and transmits the position modulo
  \<open>2 ^ b\<close>. The specification accepts a position that is newer than every accepted one, or at most 63
  behind the newest and not accepted before.
\<close>

definition filter_accept :: "int \<Rightarrow> int \<times> int set \<Rightarrow> bool \<times> int \<times> int set" where
  "filter_accept n = (\<lambda>(newest, seen).
     if n > newest then (True, n, insert n seen)
     else if newest - n \<ge> 64 \<or> n \<in> seen then (False, newest, seen)
     else (True, newest, insert n seen))"

fun filter_run :: "int list \<Rightarrow> int \<times> int set \<Rightarrow> bool list" where
  "filter_run [] s = []"
| "filter_run (n # ns) s = (case filter_accept n s of (r, s) \<Rightarrow> r # filter_run ns s)"

fun window_run :: "nat \<Rightarrow> (int \<times> u64) list \<Rightarrow> DataReplayWindow \<Rightarrow> bool list" where
  "window_run b [] w = []"
| "window_run b ((n, t) # xs) w =
     (case DataReplayWindow_accept (of_int (n mod 2 ^ b)) t w of (r, w) \<Rightarrow> r # window_run b xs w)"

definition tracked :: "nat \<Rightarrow> DataReplayWindow \<Rightarrow> int \<times> int set \<Rightarrow> bool" where
  "tracked b w = (\<lambda>(newest, seen). rw_active w \<and> rw_sequenceBits w = of_nat b \<and>
     rw_sequence w = of_int (newest mod 2 ^ b) \<and> (\<forall>m \<in> seen. m \<le> newest) \<and>
     (\<forall>i < 64. bit (rw_bitmap w) i \<longleftrightarrow> newest - int i \<in> seen))"

text \<open>Positions that stay within half the number space of the newest, at times no more than 3 s apart.\<close>

fun in_reach :: "nat \<Rightarrow> int \<Rightarrow> u64 \<Rightarrow> (int \<times> u64) list \<Rightarrow> bool" where
  "in_reach b newest prev [] \<longleftrightarrow> True"
| "in_reach b newest prev ((n, t) # xs) \<longleftrightarrow>
     - (2 ^ (b - 1)) < n - newest \<and> n - newest < 2 ^ (b - 1) \<and> prev \<le> t \<and> t - prev \<le> 3000000 \<and>
     in_reach b (max newest n) t xs"

section \<open>Refinement\<close>

lemma and_low_mask: "(x :: u32) AND 0xfff = take_bit 12 x" "(x :: u32) AND 0xffff = take_bit 16 x"
  by (simp_all add: take_bit_eq_mask mask_eq_exp_minus_1)

lemma mod_half_range:
  fixes d m :: int
  assumes "0 < m" "- m < d" "d < m"
  shows "(if d mod (2 * m) \<le> m - 1 then d mod (2 * m) else d mod (2 * m) - 2 * m) = d"
proof (cases "0 \<le> d")
  case True
  then show ?thesis using assms by simp
next
  case False
  then have "d mod (2 * m) = d + 2 * m"
    using assms by (subst mod_add_self2 [symmetric], subst mod_pos_pos_trivial) simp_all
  with False assms show ?thesis by simp
qed

lemma uint_seq: "b \<in> {12, 16} \<Longrightarrow> uint (of_int (n mod 2 ^ b) :: u16) = n mod 2 ^ b"
  by (auto simp: uint_word_of_int_eq take_bit_eq_mod)

lemma uint_difference:
  assumes "b \<in> {12, 16}"
  shows "uint (take_bit b (ucast (of_int (n mod 2 ^ b) :: u16) - ucast (of_int (k mod 2 ^ b) :: u16) :: u32)) = (n - k) mod 2 ^ b"
proof -
  have up: "uint (ucast (v :: u16) :: u32) = uint v" for v by (simp add: uint_ucast_up)
  have "uint (take_bit b (x - y :: u32)) = (uint x - uint y) mod 2 ^ b" for x y
  proof -
    have "uint (take_bit b (x - y :: u32)) = (uint x - uint y) mod 2 ^ LENGTH(32) mod 2 ^ b"
      unfolding unsigned_take_bit_eq uint_word_ariths by (rule take_bit_eq_mod)
    also have "\<dots> = (uint x - uint y) mod 2 ^ b"
      by (rule mod_mod_cancel) (use assms in \<open>auto intro: le_imp_power_dvd\<close>)
    finally show ?thesis .
  qed
  then show ?thesis
    by (simp only: up uint_seq [OF assms] mod_diff_eq)
qed

text \<open>The signed distance and the backward distance the code computes are the true ones.\<close>

definition seq_mask :: "nat \<Rightarrow> u32" where
  "seq_mask b = (if b = 12 then 0xfff else 0xffff)"

lemma distances:
  assumes b: "b \<in> {12, 16}" and reach: "- (2 ^ (b - 1)) < n - k" "n - k < 2 ^ (b - 1)"
  defines "forward \<equiv> (ucast (of_int (n mod 2 ^ b) :: u16) - ucast (of_int (k mod 2 ^ b) :: u16)) AND seq_mask b"
    and "behind \<equiv> (ucast (of_int (k mod 2 ^ b) :: u16) - ucast (of_int (n mod 2 ^ b) :: u16)) AND seq_mask b"
  shows "(if forward \<le> seq_mask b div 2 then uint forward else uint forward - uint (seq_mask b + 1)) = n - k"
    and "n \<le> k \<Longrightarrow> uint behind = k - n"
proof -
  have and': "x AND seq_mask b = take_bit b x" for x
    using b by (auto simp: seq_mask_def and_low_mask)
  have f: "uint forward = (n - k) mod 2 ^ b" and g: "uint behind = (k - n) mod 2 ^ b"
    unfolding forward_def behind_def and' by (simp_all only: uint_difference [OF b])
  have half: "uint (seq_mask b div 2) = 2 ^ (b - 1) - 1" "uint (seq_mask b + 1) = 2 * 2 ^ (b - 1)" "(2 :: int) ^ b = 2 * 2 ^ (b - 1)"
    using b by (auto simp: seq_mask_def)
  show "(if forward \<le> seq_mask b div 2 then uint forward else uint forward - uint (seq_mask b + 1)) = n - k"
    unfolding word_le_def f half by (rule mod_half_range) (use reach in simp_all)
  show "uint behind = k - n" if "n \<le> k"
    unfolding g half using reach(1) that by (intro mod_pos_pos_trivial) simp_all
qed

lemma accept_tracked:
  assumes b: "b \<in> {12, 16}" and tr: "tracked b w (k, seen)" and reach: "- (2 ^ (b - 1)) < n - k" "n - k < 2 ^ (b - 1)"
    and time: "rw_lastRx w \<le> t" "t - rw_lastRx w \<le> 3000000"
  shows "\<exists>r w' s'. DataReplayWindow_accept (of_int (n mod 2 ^ b)) t w = (r, w') \<and>
    filter_accept n (k, seen) = (r, s') \<and> tracked b w' s' \<and> rw_lastRx w' = t \<and> fst s' = max k n"
proof -
  let ?seq = "of_int (n mod 2 ^ b) :: u16"
  let ?w = "w\<lparr>rw_lastRx := t, rw_sequenceBits := of_nat b\<rparr>"
  define behind where "behind = (ucast (of_int (k mod 2 ^ b) :: u16) - ucast ?seq) AND seq_mask b"
  have act: "rw_active w" "rw_sequenceBits w = of_nat b" and sq: "rw_sequence w = of_int (k mod 2 ^ b)"
    and le: "\<forall>m \<in> seen. m \<le> k" and bits: "\<And>i. i < 64 \<Longrightarrow> bit (rw_bitmap w) i \<longleftrightarrow> k - int i \<in> seen"
    using tr by (auto simp: tracked_def)
  have small: "b = 12 \<Longrightarrow> \<not> ?seq > 0xfff"
    using uint_seq [OF b, of n] by (simp add: word_less_def not_less)
  have mode: "(if ?seq > 0xfff then 16 else if rw_sequenceBits w = 0 \<and> rw_sequence w \<ge> 0xfc0 \<and> ?seq < 0x800 then 12
      else rw_sequenceBits w) = of_nat b" "(if of_nat b = (12 :: u8) then 0xfff else 0xffff) = seq_mask b"
    using b act(2) small by (auto simp: seq_mask_def)
  have time': "\<not> t < rw_lastRx w" "\<not> t - rw_lastRx w > 3000000" using time by (simp_all add: not_less)
  have eq: "DataReplayWindow_accept ?seq t w =
     (if n - k > 0
      then (True, ?w\<lparr>rw_bitmap := (if n - k \<ge> 64 then 1 else push_bit (nat (n - k)) (rw_bitmap w) OR 1), rw_sequence := ?seq\<rparr>)
      else if behind \<ge> 64 \<or> rw_bitmap w AND push_bit (unat behind) 1 \<noteq> 0 then (False, ?w)
      else (True, ?w\<lparr>rw_bitmap := rw_bitmap w OR push_bit (unat behind) 1\<rparr>))"
    unfolding DataReplayWindow_accept_def Let_def unfolding mode
    unfolding sq distances(1) [OF b reach] behind_def [symmetric]
    using act time' by simp
  show ?thesis
  proof (cases "n > k")
    case True
    have "bit (if n - k \<ge> 64 then 1 else push_bit (nat (n - k)) (rw_bitmap w) OR 1) i \<longleftrightarrow> n - int i \<in> insert n seen"
      if "i < 64" for i
    proof -
      have "n - int i \<in> seen \<longleftrightarrow> nat (n - k) \<le> i \<and> bit (rw_bitmap w) (i - nat (n - k))"
        using bits [of "i - nat (n - k)"] that le True by (auto simp: algebra_simps)
      with that True show ?thesis by (auto simp: bit_simps)
    qed
    with True le act show ?thesis
      by (auto simp: eq filter_accept_def tracked_def)
  next
    case False
    then have bk: "uint behind = k - n" unfolding behind_def using distances(2) [OF b reach] by simp
    then have ub: "unat behind = nat (k - n)" "behind \<ge> 64 \<longleftrightarrow> k - n \<ge> 64"
      by (simp_all add: word_le_def flip: nat_uint_eq)
    have old: "k - n < 64 \<Longrightarrow> rw_bitmap w AND push_bit (unat behind) 1 \<noteq> 0 \<longleftrightarrow> n \<in> seen"
      using False bits [of "nat (k - n)"] by (simp add: ub push_bit_eq_mult and_exp_eq_0_iff_not_bit)
    have new: "bit (rw_bitmap w OR push_bit (unat behind) 1) i \<longleftrightarrow> k - int i \<in> insert n seen" if "i < 64" "k - n < 64" for i
      using that False bits [of i] by (auto simp: bit_or_iff bit_exp_iff ub)
    show ?thesis
      using False le act sq bits old new
      by (auto simp: eq filter_accept_def tracked_def ub(2))
  qed
qed

definition accepted :: "int list \<Rightarrow> bool list \<Rightarrow> int list" where
  "accepted ns rs = map fst (filter snd (zip ns rs))"

lemma accepted_simps [simp]:
  "accepted [] rs = []" "accepted (n # ns) (r # rs) = (if r then [n] else []) @ accepted ns rs"
  by (simp_all add: accepted_def)

lemma filter_run_distinct:
  assumes "\<forall>m \<in> seen. m \<le> k"
  shows "distinct (accepted ns (filter_run ns (k, seen))) \<and> set (accepted ns (filter_run ns (k, seen))) \<inter> seen = {}"
  using assms
proof (induction ns arbitrary: k seen)
  case (Cons n ns)
  consider "n > k" | "n \<le> k" "k - n \<ge> 64 \<or> n \<in> seen" | "n \<le> k" "\<not> (k - n \<ge> 64 \<or> n \<in> seen)" by linarith
  then show ?case
  proof cases
    case 1
    then have "\<forall>m \<in> insert n seen. m \<le> n" "n \<notin> seen" using Cons.prems by force+
    with 1 Cons.IH [of "insert n seen" n] show ?thesis by (auto simp: filter_accept_def)
  next
    case 2
    with Cons.IH [of seen k] Cons.prems show ?thesis by (simp add: filter_accept_def)
  next
    case 3
    with Cons.IH [of "insert n seen" k] Cons.prems show ?thesis by (auto simp: filter_accept_def)
  qed
qed simp

lemma window_run_filter:
  assumes "b \<in> {12, 16}" "tracked b w s" "in_reach b (fst s) (rw_lastRx w) xs"
  shows "window_run b xs w = filter_run (map fst xs) s"
  using assms(2,3)
proof (induction xs arbitrary: w s)
  case (Cons x xs)
  obtain n t k seen where x: "x = (n, t)" "s = (k, seen)" by (cases x; cases s) auto
  with Cons.prems obtain r w' s' where step: "DataReplayWindow_accept (of_int (n mod 2 ^ b)) t w = (r, w')"
    "filter_accept n (k, seen) = (r, s')" "tracked b w' s'" "rw_lastRx w' = t" "fst s' = max k n"
    using accept_tracked [OF assms(1), of w k seen n t] by auto
  then have "window_run b xs w' = filter_run (map fst xs) s'"
    using Cons.prems x by (intro Cons.IH) simp_all
  with step x show ?case by simp
qed simp

text \<open>
  C14: in 12- and in 16-bit mode, as long as positions stay within half the number space of the newest one
  and the stream is never silent for more than three seconds, the duplicate filter answers exactly like
  the filter on unbounded positions, through any number of sequence number wraps; in particular no
  position is ever accepted twice, nor one accepted earlier accepted again.
\<close>

theorem replay_filter_correct:
  assumes "b \<in> {12, 16}" and "tracked b w (k, seen)" and "in_reach b k (rw_lastRx w) xs"
  shows "window_run b xs w = filter_run (map fst xs) (k, seen) \<and>
    distinct (accepted (map fst xs) (window_run b xs w)) \<and>
    set (accepted (map fst xs) (window_run b xs w)) \<inter> seen = {}"
proof -
  have run: "window_run b xs w = filter_run (map fst xs) (k, seen)"
    using assms by (intro window_run_filter) simp_all
  have "\<forall>m \<in> seen. m \<le> k" using assms(2) by (simp add: tracked_def)
  from filter_run_distinct [OF this, of "map fst xs"] show ?thesis by (simp add: run)
qed

text \<open>A stream whose first sequence number needs 16 bits is tracked from that packet on.\<close>

lemma tracked_first:
  assumes "0xfff < n mod 2 ^ 16"
  shows "fst (DataReplayWindow_accept (of_int (n mod 2 ^ 16)) t DataReplayWindow0)"
    and "tracked 16 (snd (DataReplayWindow_accept (of_int (n mod 2 ^ 16)) t DataReplayWindow0)) (n, {n})"
    and "rw_lastRx (snd (DataReplayWindow_accept (of_int (n mod 2 ^ 16)) t DataReplayWindow0)) = t"
proof -
  have "uint (of_int (n mod 2 ^ 16) :: u16) = n mod 2 ^ 16" using uint_seq [of 16 n] by simp
  then have "(of_int (n mod 2 ^ 16) :: u16) > 0xfff" using assms by (simp add: word_less_def)
  then have eq: "DataReplayWindow_accept (of_int (n mod 2 ^ 16)) t DataReplayWindow0 =
      (True, \<lparr>rw_bitmap = 1, rw_lastRx = t, rw_sequence = of_int (n mod 2 ^ 16), rw_active = True, rw_sequenceBits = 16\<rparr>)"
    by (simp add: DataReplayWindow_accept_def DataReplayWindow0_def)
  show "fst (DataReplayWindow_accept (of_int (n mod 2 ^ 16)) t DataReplayWindow0)"
    and "tracked 16 (snd (DataReplayWindow_accept (of_int (n mod 2 ^ 16)) t DataReplayWindow0)) (n, {n})"
    and "rw_lastRx (snd (DataReplayWindow_accept (of_int (n mod 2 ^ 16)) t DataReplayWindow0)) = t"
    unfolding eq by (auto simp: tracked_def bit_1_iff)
qed

theorem replay_filter_correct_witness:
  "window_run 16 [(65537, 20), (65535, 30), (65537, 40), (65535, 50)]
     (snd (DataReplayWindow_accept 65534 10 DataReplayWindow0)) = [True, True, False, False]"
proof -
  let ?w = "snd (DataReplayWindow_accept (of_int (65534 mod 2 ^ 16)) 10 DataReplayWindow0)"
  have "window_run 16 [(65537, 20), (65535, 30), (65537, 40), (65535, 50)] ?w =
      filter_run [65537, 65535, 65537, 65535] (65534, {65534})"
    using replay_filter_correct [of 16 ?w 65534 "{65534}" "[(65537, 20), (65535, 30), (65537, 40), (65535, 50)]"]
      tracked_first [of 65534 10] by simp
  then show ?thesis by (simp add: filter_accept_def)
qed

end
