(* ===== verification/Awdl_TxGate.thy ===== *)
theory Awdl_TxGate
  imports Prelude
begin

text \<open>
  The transmit gate (\<open>include/AWDL/RTWAwdlTxGate.hpp\<close>). Each sequentially consistent atomic access is
  one function on the gate; producers and the radio owner are programs of such accesses whose
  interleavings are the runs of \<open>gate_step\<close>. The gate keeps every producer out of the guarded section
  once the owner has paused it and seen it drained.
\<close>

section \<open>The gate and its atomic accesses\<close>

record TxGate =
  tg_paused :: u32
  tg_users :: u32

definition TxGate_isPaused :: "TxGate \<Rightarrow> bool" where
  "TxGate_isPaused g \<longleftrightarrow> tg_paused g \<noteq> 0"

definition TxGate_drained :: "TxGate \<Rightarrow> bool" where
  "TxGate_drained g \<longleftrightarrow> tg_users g = 0"

definition TxGate_leave :: "TxGate \<Rightarrow> TxGate" where
  "TxGate_leave g = g\<lparr>tg_users := tg_users g - 1\<rparr>"

definition TxGate_pause :: "TxGate \<Rightarrow> bool \<times> TxGate" where
  "TxGate_pause g = (if tg_paused g = 0 then (True, g\<lparr>tg_paused := 1\<rparr>) else (False, g))"

definition TxGate_resume :: "TxGate \<Rightarrow> TxGate" where
  "TxGate_resume g = g\<lparr>tg_paused := 0\<rparr>"

text \<open>One round of the compare-and-exchange loop with the count last seen.\<close>

definition TxGate_cas :: "u32 \<Rightarrow> TxGate \<Rightarrow> (bool \<times> u32) \<times> TxGate" where
  "TxGate_cas count g = (if tg_users g = count then ((True, count), g\<lparr>tg_users := count + 1\<rparr>)
                         else ((False, tg_users g), g))"

text \<open>The entry of a producer that is not interleaved with others: the exchange succeeds at once.\<close>

definition TxGate_enter :: "TxGate \<Rightarrow> bool \<times> TxGate" where
  "TxGate_enter g =
     (if TxGate_isPaused g then (False, g)
      else let count = tg_users g in
        if count = -1 then (False, g)
        else (case TxGate_cas count g of (_, g') \<Rightarrow>
          if TxGate_isPaused g' then (False, TxGate_leave g') else (True, g')))"

text \<open>\<open>TxGuard\<close> enters in its constructor and leaves in its destructor if it entered.\<close>

definition TxGuard_scope :: "(bool \<Rightarrow> TxGate \<Rightarrow> TxGate) \<Rightarrow> TxGate \<Rightarrow> TxGate" where
  "TxGuard_scope body g =
     (case TxGate_enter g of (entered, g) \<Rightarrow>
        let g = body entered g in if entered then TxGate_leave g else g)"

section \<open>Interleavings\<close>

datatype producer = Outside | Checked | Counting u32 | Entered | Inside | Leaving

datatype owner = Running | Paused | Drained

record gate_world =
  gw_gate :: TxGate
  gw_producer :: "nat \<Rightarrow> producer"
  gw_owner :: owner

definition gate_init :: gate_world where
  "gate_init = \<lparr>gw_gate = \<lparr>tg_paused = 0, tg_users = 0\<rparr>, gw_producer = (\<lambda>_. Outside), gw_owner = Running\<rparr>"

abbreviation at_producer :: "gate_world \<Rightarrow> nat \<Rightarrow> producer \<Rightarrow> gate_world" where
  "at_producer s t p \<equiv> s\<lparr>gw_producer := (gw_producer s)(t := p)\<rparr>"

inductive gate_step :: "gate_world \<Rightarrow> gate_world \<Rightarrow> bool" where
  enter_check: "gw_producer s t = Outside \<Longrightarrow> \<not> TxGate_isPaused (gw_gate s) \<Longrightarrow> gate_step s (at_producer s t Checked)"
| enter_load: "gw_producer s t = Checked \<Longrightarrow> gate_step s (at_producer s t (Counting (tg_users (gw_gate s))))"
| enter_full: "gw_producer s t = Counting count \<Longrightarrow> count = -1 \<Longrightarrow> gate_step s (at_producer s t Outside)"
| enter_cas: "gw_producer s t = Counting count \<Longrightarrow> count \<noteq> -1 \<Longrightarrow>
    TxGate_cas count (gw_gate s) = ((True, seen), g) \<Longrightarrow> gate_step s (at_producer (s\<lparr>gw_gate := g\<rparr>) t Entered)"
| enter_retry: "gw_producer s t = Counting count \<Longrightarrow> count \<noteq> -1 \<Longrightarrow>
    TxGate_cas count (gw_gate s) = ((False, seen), g) \<Longrightarrow> gate_step s (at_producer (s\<lparr>gw_gate := g\<rparr>) t (Counting seen))"
| enter_done: "gw_producer s t = Entered \<Longrightarrow> \<not> TxGate_isPaused (gw_gate s) \<Longrightarrow> gate_step s (at_producer s t Inside)"
| enter_refused: "gw_producer s t = Entered \<Longrightarrow> TxGate_isPaused (gw_gate s) \<Longrightarrow> gate_step s (at_producer s t Leaving)"
| finish: "gw_producer s t = Inside \<Longrightarrow> gate_step s (at_producer s t Leaving)"
| leave: "gw_producer s t = Leaving \<Longrightarrow>
    gate_step s (at_producer (s\<lparr>gw_gate := TxGate_leave (gw_gate s)\<rparr>) t Outside)"
| pause: "gw_owner s = Running \<Longrightarrow> TxGate_pause (gw_gate s) = (True, g) \<Longrightarrow> gate_step s (s\<lparr>gw_gate := g, gw_owner := Paused\<rparr>)"
| drained: "gw_owner s = Paused \<Longrightarrow> TxGate_drained (gw_gate s) \<Longrightarrow> gate_step s (s\<lparr>gw_owner := Drained\<rparr>)"
| resume: "gw_owner s \<noteq> Running \<Longrightarrow> gate_step s (s\<lparr>gw_gate := TxGate_resume (gw_gate s), gw_owner := Running\<rparr>)"

inductive gate_reachable :: "gate_world \<Rightarrow> bool" where
  start: "gate_reachable gate_init"
| step: "gate_reachable s \<Longrightarrow> gate_step s s' \<Longrightarrow> gate_reachable s'"

section \<open>Mutual exclusion\<close>

definition held :: "(nat \<Rightarrow> producer) \<Rightarrow> nat set" where
  "held ps = {t. ps t \<in> {Entered, Inside, Leaving}}"

abbreviation holders :: "gate_world \<Rightarrow> nat set" where
  "holders s \<equiv> held (gw_producer s)"

definition gate_inv :: "gate_world \<Rightarrow> bool" where
  "gate_inv s \<longleftrightarrow> finite (holders s) \<and> unat (tg_users (gw_gate s)) = card (holders s) \<and>
     (gw_owner s \<noteq> Running \<longleftrightarrow> TxGate_isPaused (gw_gate s)) \<and>
     (gw_owner s = Drained \<longrightarrow> (\<forall>t. gw_producer s t \<noteq> Inside))"

lemma held_update:
  "held (ps(t := p)) = (if p \<in> {Entered, Inside, Leaving} then insert t (held ps) else held ps - {t})"
  by (auto simp: held_def)

lemma held_same:
  "(p \<in> {Entered, Inside, Leaving}) = (ps t \<in> {Entered, Inside, Leaving}) \<Longrightarrow> held (ps(t := p)) = held ps"
  by (auto simp: held_def)

lemma unat_increment: "(c :: u32) \<noteq> -1 \<Longrightarrow> unat (c + 1) = Suc (unat c)"
  by (metis add.commute add_eq_0_iff unatSuc)

lemma gate_inv_init: "gate_inv gate_init"
  by (simp add: gate_inv_def gate_init_def held_def TxGate_isPaused_def)

lemma gate_inv_step:
  assumes "gate_step s s'" "gate_inv s"
  shows "gate_inv s'"
  using assms
proof (cases rule: gate_step.cases)
  case (enter_cas t count seen g)
  then have g: "g = (gw_gate s)\<lparr>tg_users := count + 1\<rparr>" "tg_users (gw_gate s) = count"
    by (auto simp: TxGate_cas_def split: if_splits)
  have "t \<notin> holders s" using enter_cas by (simp add: held_def)
  with enter_cas g assms(2) show ?thesis
    by (simp add: gate_inv_def held_update unat_increment TxGate_isPaused_def)
next
  case (leave t)
  then have t: "t \<in> holders s" by (simp add: held_def)
  then have "card (holders s) \<noteq> 0" using assms(2) by (auto simp: gate_inv_def)
  then have "tg_users (gw_gate s) \<noteq> 0" using assms(2) by (auto simp: gate_inv_def)
  with leave t assms(2) show ?thesis
    by (simp add: gate_inv_def held_update TxGate_leave_def unat_minus_one TxGate_isPaused_def)
next
  case drained
  then have "holders s = {}" using assms(2) by (auto simp: gate_inv_def TxGate_drained_def)
  then have "gw_producer s t \<noteq> Inside" for t by (auto simp: held_def)
  with drained assms(2) show ?thesis by (simp add: gate_inv_def)
qed (auto simp: gate_inv_def held_same TxGate_isPaused_def TxGate_cas_def TxGate_pause_def TxGate_resume_def
    split: if_splits)

lemma gate_inv_reachable: "gate_reachable s \<Longrightarrow> gate_inv s"
  by (induction rule: gate_reachable.induct) (auto intro: gate_inv_init gate_inv_step)

text \<open>
  C15: in every interleaving of any number of producers with the radio owner, once the owner has paused
  the gate and seen it drained no producer is inside the guarded section, and none gets in until the
  owner resumes; throughout, the user count is exactly the number of producers that hold a reference,
  so it neither wraps nor underflows.
\<close>

theorem TxGate_exclusion:
  assumes "gate_reachable s"
  shows "unat (tg_users (gw_gate s)) = card (holders s) \<and>
    (gw_owner s = Drained \<longrightarrow> TxGate_isPaused (gw_gate s) \<and> gw_producer s t \<noteq> Inside)"
  using gate_inv_reachable [OF assms] by (auto simp: gate_inv_def)

lemma sample_gate_run:
  "gate_reachable \<lparr>gw_gate = \<lparr>tg_paused = 1, tg_users = 0\<rparr>, gw_producer = (\<lambda>_. Outside)(7 := Checked), gw_owner = Drained\<rparr>"
    (is "gate_reachable ?s3")
proof -
  let ?s1 = "gate_init\<lparr>gw_producer := (gw_producer gate_init)(7 := Checked)\<rparr>"
  have 1: "gate_reachable ?s1"
    by (rule gate_reachable.step [OF gate_reachable.start enter_check]) (simp_all add: gate_init_def TxGate_isPaused_def)
  let ?s2 = "?s1\<lparr>gw_gate := \<lparr>tg_paused = 1, tg_users = 0\<rparr>, gw_owner := Paused\<rparr>"
  have 2: "gate_reachable ?s2"
    by (rule gate_reachable.step [OF 1 pause]) (simp_all add: gate_init_def TxGate_pause_def)
  have "gate_reachable (?s2\<lparr>gw_owner := Drained\<rparr>)"
    by (rule gate_reachable.step [OF 2 drained]) (simp_all add: TxGate_drained_def)
  then show ?thesis by (simp add: gate_init_def)
qed

theorem TxGate_exclusion_witness:
  "gw_producer \<lparr>gw_gate = \<lparr>tg_paused = 1, tg_users = 0\<rparr>, gw_producer = (\<lambda>_. Outside)(7 := Checked), gw_owner = Drained\<rparr> 7 \<noteq> Inside"
  using TxGate_exclusion [OF sample_gate_run, of 7] by simp

text \<open>A guard that runs alone gives back exactly the reference it took.\<close>

lemma TxGuard_scope_balanced:
  assumes "\<And>entered g. body entered g = g"
  shows "TxGuard_scope body g = g"
  using assms
  by (simp add: TxGuard_scope_def TxGate_enter_def TxGate_cas_def TxGate_isPaused_def TxGate_leave_def Let_def)

end
