(* ===== verification/Awdl_Coordinator.thy ===== *)
theory Awdl_Coordinator
  imports Prelude
begin

text \<open>
  The asynchronous radio lease bookkeeping (\<open>include/AWDL/RTWAwdlRadioCoordinator.hpp\<close>). Calls are
  serialized by the owning work queue, so a run is a list of operations. The token generation
  invalidates completions of switches that are no longer current.
\<close>

section \<open>Definitions\<close>

datatype CoordState = CoStopped | CoHome | CoSwitchingOut | CoAway | CoReturning | CoFailed

record Request =
  rq_token :: u64
  rq_channel :: u16

record RadioCoordinator =
  co_state :: CoordState
  co_generation :: u64
  co_deadline :: u64
  co_home :: u16
  co_target :: u16
  co_maximumAway :: u32
  co_concurrent :: bool

definition RadioCoordinator0 :: RadioCoordinator where
  "RadioCoordinator0 = \<lparr>co_state = CoStopped, co_generation = 0, co_deadline = 0, co_home = 0, co_target = 0,
     co_maximumAway = 0, co_concurrent = False\<rparr>"

definition nextGeneration :: "u64 \<Rightarrow> u64" where
  "nextGeneration g = (if g + 1 = 0 then g + 1 + 1 else g + 1)"

definition RadioCoordinator_start :: "u16 \<Rightarrow> u32 \<Rightarrow> bool \<Rightarrow> RadioCoordinator \<Rightarrow> bool \<times> RadioCoordinator" where
  "RadioCoordinator_start home maximumAwayUs concurrentStation c =
     (if co_state c \<noteq> CoStopped \<or> home = 0 \<or> maximumAwayUs = 0 \<or> maximumAwayUs > 100000 then (False, c)
      else (True, c\<lparr>co_generation := nextGeneration (co_generation c), co_home := home,
                    co_maximumAway := maximumAwayUs, co_concurrent := concurrentStation, co_state := CoHome\<rparr>))"

definition RadioCoordinator_request ::
  "u16 \<Rightarrow> u32 \<Rightarrow> u64 \<Rightarrow> bool \<Rightarrow> bool \<Rightarrow> RadioCoordinator \<Rightarrow> Request option \<times> RadioCoordinator" where
  "RadioCoordinator_request channel durationUs nowUs allowed stationAssociated c =
     (if co_state c \<noteq> CoHome \<or> \<not> allowed \<or> channel = 0 \<or> durationUs = 0 \<or> durationUs > co_maximumAway c \<or>
         (stationAssociated \<and> \<not> co_concurrent c) \<or> nowUs > -1 - ucast durationUs
      then (None, c)
      else let g = nextGeneration (co_generation c) in
        (Some \<lparr>rq_token = g, rq_channel = channel\<rparr>,
         c\<lparr>co_generation := g, co_target := channel, co_deadline := nowUs + ucast durationUs, co_state := CoSwitchingOut\<rparr>))"

definition RadioCoordinator_switched :: "u64 \<Rightarrow> bool \<Rightarrow> u64 \<Rightarrow> RadioCoordinator \<Rightarrow> bool \<times> RadioCoordinator" where
  "RadioCoordinator_switched token success nowUs c =
     (if token \<noteq> co_generation c then (False, c)
      else if co_state c = CoSwitchingOut
      then (True, c\<lparr>co_state := (if success \<and> nowUs < co_deadline c then CoAway else CoFailed)\<rparr>)
      else if co_state c = CoReturning
      then (True, c\<lparr>co_state := (if success then CoHome else CoFailed)\<rparr>)
      else (False, c))"

definition RadioCoordinator_due :: "u64 \<Rightarrow> RadioCoordinator \<Rightarrow> bool" where
  "RadioCoordinator_due nowUs c \<longleftrightarrow> (co_state c = CoSwitchingOut \<or> co_state c = CoAway) \<and> nowUs \<ge> co_deadline c"

definition RadioCoordinator_beginReturn :: "RadioCoordinator \<Rightarrow> Request option \<times> RadioCoordinator" where
  "RadioCoordinator_beginReturn c =
     (if co_state c \<noteq> CoSwitchingOut \<and> co_state c \<noteq> CoAway \<and> co_state c \<noteq> CoFailed then (None, c)
      else let g = nextGeneration (co_generation c) in
        (Some \<lparr>rq_token = g, rq_channel = co_home c\<rparr>, c\<lparr>co_generation := g, co_state := CoReturning\<rparr>))"

definition RadioCoordinator_stop :: "RadioCoordinator \<Rightarrow> RadioCoordinator" where
  "RadioCoordinator_stop c = \<lparr>co_state = CoStopped, co_generation = nextGeneration (co_generation c), co_deadline = 0,
     co_home = 0, co_target = 0, co_maximumAway = 0, co_concurrent = False\<rparr>"

section \<open>Runs\<close>

datatype coord_op = OpStart u16 u32 bool | OpRequest u16 u32 u64 bool bool | OpSwitched u64 bool u64
  | OpBeginReturn | OpStop

fun coord_exec :: "coord_op \<Rightarrow> RadioCoordinator \<Rightarrow> RadioCoordinator" where
  "coord_exec (OpStart h m k) c = snd (RadioCoordinator_start h m k c)"
| "coord_exec (OpRequest ch d n a s) c = snd (RadioCoordinator_request ch d n a s c)"
| "coord_exec (OpSwitched t ok n) c = snd (RadioCoordinator_switched t ok n c)"
| "coord_exec OpBeginReturn c = snd (RadioCoordinator_beginReturn c)"
| "coord_exec OpStop c = RadioCoordinator_stop c"

definition coord_run :: "coord_op list \<Rightarrow> RadioCoordinator \<Rightarrow> RadioCoordinator" where
  "coord_run ops c = fold coord_exec ops c"

definition coord_inv :: "RadioCoordinator \<Rightarrow> bool" where
  "coord_inv c \<longleftrightarrow>
     (if co_state c = CoStopped
      then co_home c = 0 \<and> co_target c = 0 \<and> co_deadline c = 0 \<and> co_maximumAway c = 0
      else co_home c \<noteq> 0 \<and> 0 < co_maximumAway c \<and> co_maximumAway c \<le> 100000 \<and> co_generation c \<noteq> 0 \<and>
        (co_state c \<in> {CoSwitchingOut, CoAway} \<longrightarrow> co_target c \<noteq> 0))"

lemmas coord_defs = RadioCoordinator_start_def RadioCoordinator_request_def RadioCoordinator_switched_def
  RadioCoordinator_beginReturn_def RadioCoordinator_stop_def

lemma nextGeneration_nonzero [simp]: "nextGeneration g \<noteq> 0"
  by (auto simp: nextGeneration_def)

lemma coord_inv_exec: "coord_inv c \<Longrightarrow> coord_inv (coord_exec op c)"
  by (cases op) (auto simp: coord_inv_def coord_defs Let_def word_gt_0 split: if_splits)

lemma coord_inv_run: "coord_inv c \<Longrightarrow> coord_inv (coord_run ops c)"
  by (induction ops arbitrary: c) (simp_all add: coord_run_def coord_inv_exec)

section \<open>Token generations\<close>

text \<open>Generations walk through all \<open>2 ^ 64 - 1\<close> non-zero values before one repeats.\<close>

definition generation_index :: "u64 \<Rightarrow> nat" where
  "generation_index g = unat g - 1"

lemma generation_index_less: "generation_index g < 18446744073709551615"
  using unat_u64_less [of g] unfolding generation_index_def by linarith

lemma generation_index_next:
  assumes "g \<noteq> 0"
  shows "generation_index (nextGeneration g) = (generation_index g + 1) mod 18446744073709551615"
proof (cases "g = -1")
  case True
  then show ?thesis by (simp add: nextGeneration_def generation_index_def)
next
  case False
  have "unat g \<noteq> unat (-1 :: u64)" using False by (simp only: unat_eq_iff not_False_eq_True)
  then have "unat g < 18446744073709551615" using unat_u64_less [of g] unfolding unat_max_u64 by linarith
  moreover have "0 < unat g" using assms by (simp add: unat_gt_0)
  moreover have "g + 1 \<noteq> 0" using False by (metis add.commute add_eq_0_iff)
  moreover from this have "unat (g + 1) = unat g + 1" using unatSuc [of g] by (simp add: add.commute)
  ultimately show ?thesis by (simp add: nextGeneration_def generation_index_def)
qed

lemma generation_index_after:
  "g \<noteq> 0 \<Longrightarrow> (nextGeneration ^^ k) g \<noteq> 0 \<and>
     generation_index ((nextGeneration ^^ k) g) = (generation_index g + k) mod 18446744073709551615"
proof (induction k)
  case 0
  then show ?case using generation_index_less [of g] by simp
next
  case (Suc k)
  then show ?case by (simp add: generation_index_next mod_Suc_eq)
qed

lemma generation_after_distinct:
  assumes "g \<noteq> 0" "0 < k" "k < 18446744073709551615"
  shows "(nextGeneration ^^ k) g \<noteq> g"
proof
  assume "(nextGeneration ^^ k) g = g"
  then have "(generation_index g + k) mod 18446744073709551615 = generation_index g"
    using generation_index_after [OF assms(1), of k] by simp
  then have "(generation_index g + k) mod 18446744073709551615 = generation_index g mod 18446744073709551615"
    using generation_index_less [of g] by simp
  then have "18446744073709551615 dvd generation_index g + k - generation_index g"
    by (subst mod_eq_dvd_iff_nat [symmetric]) simp_all
  with assms(2,3) show False by (auto dest: dvd_imp_le)
qed

fun renewals :: "coord_op list \<Rightarrow> RadioCoordinator \<Rightarrow> nat" where
  "renewals [] c = 0"
| "renewals (op # ops) c =
     (if co_generation (coord_exec op c) = co_generation c then 0 else 1) + renewals ops (coord_exec op c)"

lemma coord_run_simps [simp]: "coord_run [] c = c" "coord_run (op # ops) c = coord_run ops (coord_exec op c)"
  by (simp_all add: coord_run_def)

lemma nextGeneration_changes: "nextGeneration g \<noteq> g"
  by (cases "g = 0") (use generation_after_distinct [of g 1] in \<open>auto simp: nextGeneration_def\<close>)

lemma generation_exec:
  "co_generation (coord_exec op c) = co_generation c \<or> co_generation (coord_exec op c) = nextGeneration (co_generation c)"
  by (cases op) (auto simp: coord_defs Let_def)

lemma generation_run: "co_generation (coord_run ops c) = (nextGeneration ^^ renewals ops c) (co_generation c)"
proof (induction ops arbitrary: c)
  case (Cons op ops)
  then show ?case
    using generation_exec [of op c] nextGeneration_changes [of "co_generation c"]
    by (auto simp: funpow_swap1)
qed simp

lemma issued_token:
  assumes "RadioCoordinator_request ch d n a s c = (Some rq, c') \<or> RadioCoordinator_beginReturn c = (Some rq, c')"
  shows "rq_token rq = co_generation c' \<and> co_generation c' \<noteq> 0"
  using assms by (auto simp: coord_defs Let_def split: if_splits)

text \<open>
  A channel switch that was superseded can never complete. After a request or a return was issued
  and the coordinator has moved on (a return, a stop, a restart or another request, in any run with
  fewer than \<open>2 ^ 64 - 1\<close> new generations), the completion of the old token is refused and changes nothing.
\<close>

theorem RadioCoordinator_stale_token:
  assumes "RadioCoordinator_request ch d n a s c = (Some rq, c') \<or> RadioCoordinator_beginReturn c = (Some rq, c')"
    and "0 < renewals ops c'" and "renewals ops c' < 18446744073709551615"
  shows "RadioCoordinator_switched (rq_token rq) success t (coord_run ops c') = (False, coord_run ops c')"
proof -
  have "(nextGeneration ^^ renewals ops c') (co_generation c') \<noteq> co_generation c'"
    using issued_token [OF assms(1)] assms(2,3) generation_after_distinct by blast
  then have "rq_token rq \<noteq> co_generation (coord_run ops c')"
    using issued_token [OF assms(1)] by (simp add: generation_run)
  then show ?thesis by (simp add: RadioCoordinator_switched_def)
qed

theorem RadioCoordinator_stale_token_witness:
  "(let c = snd (RadioCoordinator_start 6 16000 True RadioCoordinator0);
        c' = snd (RadioCoordinator_request 44 9000 100 True True c) in
    RadioCoordinator_switched 2 True 500 (coord_run [OpBeginReturn] c') = (False, coord_run [OpBeginReturn] c'))"
proof -
  let ?c = "snd (RadioCoordinator_start 6 16000 True RadioCoordinator0)"
  let ?c' = "snd (RadioCoordinator_request 44 9000 100 True True ?c)"
  have rq: "RadioCoordinator_request 44 9000 100 True True ?c = (Some \<lparr>rq_token = 2, rq_channel = 44\<rparr>, ?c')"
    by (simp add: RadioCoordinator_start_def RadioCoordinator0_def RadioCoordinator_request_def nextGeneration_def)
  have "renewals [OpBeginReturn] ?c' = 1"
    by (simp add: RadioCoordinator_start_def RadioCoordinator0_def RadioCoordinator_request_def nextGeneration_def
        RadioCoordinator_beginReturn_def)
  with RadioCoordinator_stale_token [OF disjI1 [OF rq], of "[OpBeginReturn]" True 500] show ?thesis by (simp add: Let_def)
qed

text \<open>While the generation stands still only a completion can have moved the state, away from the switch.\<close>

abbreviation leased :: "CoordState set" where
  "leased \<equiv> {CoSwitchingOut, CoAway, CoFailed}"

lemma lease_exec:
  assumes "co_state c \<in> leased" "co_generation (coord_exec op c) = co_generation c"
  shows "\<exists>st \<in> leased. coord_exec op c = c\<lparr>co_state := st\<rparr>"
  using assms nextGeneration_changes [of "co_generation c"]
  by (cases op) (auto simp: coord_defs Let_def split: if_splits)

lemma lease_run:
  assumes "co_state c \<in> leased" "renewals ops c = 0"
  shows "\<exists>st \<in> leased. coord_run ops c = c\<lparr>co_state := st\<rparr>"
  using assms
proof (induction ops arbitrary: c)
  case Nil
  then show ?case by (intro bexI [of _ "co_state c"]) simp_all
next
  case (Cons op ops)
  then have "co_generation (coord_exec op c) = co_generation c" "renewals ops (coord_exec op c) = 0"
    by (simp_all split: if_splits)
  with Cons.prems(1) obtain st where st: "st \<in> leased" "coord_exec op c = c\<lparr>co_state := st\<rparr>" "renewals ops (c\<lparr>co_state := st\<rparr>) = 0"
    using lease_exec by metis
  with Cons.IH [of "c\<lparr>co_state := st\<rparr>"] show ?case by simp
qed



end
