(* ===== verification/Awdl_Frame.thy ===== *)
theory Awdl_Frame
  imports Prelude
begin

text \<open>
  AWDL framing (\<open>include/AWDL/RTWAwdlFrame.hpp\<close>): the type-length-value cursor, the action body
  parser and the management frame parser. The \<open>while (cursor.next(tlv))\<close> loops of the sources are
  \<open>cursor_while\<close>, whose body either leaves the enclosing function with a result (\<open>Inl\<close>) or
  continues with new local state (\<open>Inr\<close>). The lemmas show that the cursor accepts exactly the
  concatenations of encoded TLVs and visits them in order.
\<close>

section \<open>Data and operations\<close>

datatype ParseResult = NotAwdl | ParseMalformed | ParseValid

record ActionInfo =
  ai_version :: u8
  ai_subtype :: u8
  ai_tlvCount :: u16
  ai_tlvTypes :: u64

definition ActionInfo0 :: ActionInfo where
  "ActionInfo0 = \<lparr>ai_version = 0, ai_subtype = 0, ai_tlvCount = 0, ai_tlvTypes = 0\<rparr>"

record Tlv =
  tlv_type :: u8
  tlv_data :: bytes

record TlvCursor =
  cur_bytes :: "bytes option"
  cur_remaining :: nat
  cur_malformed :: bool

definition TlvCursor_make :: "bytes option \<Rightarrow> nat \<Rightarrow> TlvCursor" where
  "TlvCursor_make p n = \<lparr>cur_bytes = p, cur_remaining = n, cur_malformed = False\<rparr>"

definition TlvCursor_next :: "TlvCursor \<Rightarrow> Tlv option \<times> TlvCursor" where
  "TlvCursor_next c =
     (if cur_remaining c = 0 \<or> cur_malformed c then (None, c)
      else case cur_bytes c of
        None \<Rightarrow> (None, c\<lparr>cur_malformed := True\<rparr>)
      | Some b \<Rightarrow>
          if cur_remaining c < 3 then (None, c\<lparr>cur_malformed := True\<rparr>)
          else let n = unat (le16 b 1) in
            if n > cur_remaining c - 3 then (None, c\<lparr>cur_malformed := True\<rparr>)
            else (Some \<lparr>tlv_type = b ! 0, tlv_data = piece 3 n b\<rparr>,
                  c\<lparr>cur_bytes := Some (drop (3 + n) b), cur_remaining := cur_remaining c - (3 + n)\<rparr>))"

text \<open>Every successful \<open>next\<close> consumes at least three bytes, which bounds every cursor loop.\<close>

lemma TlvCursor_next_less:
  "TlvCursor_next c = (Some t, c') \<Longrightarrow> cur_remaining c' < cur_remaining c"
  by (auto simp: TlvCursor_next_def Let_def split: if_splits option.splits)

function cursor_while :: "(Tlv \<Rightarrow> 's \<Rightarrow> 'r + 's) \<Rightarrow> TlvCursor \<Rightarrow> 's \<Rightarrow> 'r + ('s \<times> TlvCursor)" where
  "cursor_while body c s =
     (case TlvCursor_next c of
        (None, c') \<Rightarrow> Inr (s, c')
      | (Some t, c') \<Rightarrow> (case body t s of Inl r \<Rightarrow> Inl r | Inr s' \<Rightarrow> cursor_while body c' s'))"
  by pat_completeness auto

termination cursor_while
  by (relation "measure (\<lambda>(_, c, _). cur_remaining c)") (auto intro: TlvCursor_next_less [OF sym])

declare cursor_while.simps [simp del]

definition parseAction_body :: "Tlv \<Rightarrow> ActionInfo \<Rightarrow> unit + ActionInfo" where
  "parseAction_body t parsed =
     (let parsed = parsed\<lparr>ai_tlvCount := ai_tlvCount parsed + 1\<rparr> in
      Inr (if tlv_type t < 64
           then parsed\<lparr>ai_tlvTypes := ai_tlvTypes parsed OR push_bit (unat (tlv_type t)) 1\<rparr>
           else parsed))"

definition parseAction :: "bytes option \<Rightarrow> ParseResult \<times> ActionInfo" where
  "parseAction body = (case body of
     None \<Rightarrow> (NotAwdl, ActionInfo0)
   | Some b \<Rightarrow>
       if length b < 5 \<or> b ! 0 \<noteq> 127 \<or> b ! 1 \<noteq> 0 \<or> b ! 2 \<noteq> 0x17 \<or> b ! 3 \<noteq> 0xf2 \<or> b ! 4 \<noteq> 8
       then (NotAwdl, ActionInfo0)
       else if length b < 16 \<or> length b > 4096 \<or> b ! 5 = 0 then (ParseMalformed, ActionInfo0)
       else let parsed = ActionInfo0\<lparr>ai_version := b ! 5, ai_subtype := b ! 6\<rparr>;
                cursor = TlvCursor_make (Some (drop 16 b)) (length b - 16) in
         (case cursor_while parseAction_body cursor parsed of
            Inl _ \<Rightarrow> (ParseMalformed, ActionInfo0)
          | Inr (parsed, cursor) \<Rightarrow>
              if cur_malformed cursor then (ParseMalformed, ActionInfo0) else (ParseValid, parsed)))"

definition parseFrame :: "bytes option \<Rightarrow> ParseResult \<times> ActionInfo" where
  "parseFrame frame = (case frame of
     None \<Rightarrow> (NotAwdl, ActionInfo0)
   | Some f \<Rightarrow>
       if length f < 24 \<or> f ! 0 \<noteq> 0xd0 \<or> f ! 1 AND (0x03 OR 0x04 OR 0x40 OR 0x80) \<noteq> 0
          \<or> f ! 22 AND 15 \<noteq> 0
       then (NotAwdl, ActionInfo0)
       else parseAction (Some (drop 24 f)))"

section \<open>What the cursor accepts\<close>

text \<open>The wire form of a TLV and of a TLV list.\<close>

definition encode_tlv :: "Tlv \<Rightarrow> bytes" where
  "encode_tlv t = tlv_type t # put16 (of_nat (length (tlv_data t))) @ tlv_data t"

definition encode_tlvs :: "Tlv list \<Rightarrow> bytes" where
  "encode_tlvs ts = concat (map encode_tlv ts)"

definition tlv_ok :: "Tlv \<Rightarrow> bool" where
  "tlv_ok t \<longleftrightarrow> length (tlv_data t) < 65536"

definition cursor_at :: "bytes \<Rightarrow> TlvCursor" where
  "cursor_at b = TlvCursor_make (Some b) (length b)"

lemma cursor_at_drop: "TlvCursor_make (Some (drop n b)) (length b - n) = cursor_at (drop n b)"
  by (simp add: cursor_at_def)

lemma encode_tlvs_simps [simp]:
  "encode_tlvs [] = []" "encode_tlvs (t # ts) = encode_tlv t @ encode_tlvs ts"
  by (simp_all add: encode_tlvs_def)

lemma encode_tlvs_append [simp]: "encode_tlvs (ts @ us) = encode_tlvs ts @ encode_tlvs us"
  by (simp add: encode_tlvs_def)

lemma length_encode_tlv [simp]: "length (encode_tlv t) = 3 + length (tlv_data t)"
  by (simp add: encode_tlv_def)

lemma length_encode_tlvs_ge: "3 * length ts \<le> length (encode_tlvs ts)"
  by (induction ts) auto

lemma next_nil [simp]: "TlvCursor_next (cursor_at []) = (None, cursor_at [])"
  by (simp add: TlvCursor_next_def cursor_at_def TlvCursor_make_def)

lemma le16_encode_tlv: "le16 (encode_tlv t @ r) (Suc 0) = of_nat (length (tlv_data t))"
  by (rule le16_eqI) (simp_all add: encode_tlv_def put16_def)

lemma next_encode_tlv [simp]:
  assumes "tlv_ok t"
  shows "TlvCursor_next (cursor_at (encode_tlv t @ r)) = (Some t, cursor_at r)"
proof -
  have "unat (le16 (encode_tlv t @ r) (Suc 0)) = length (tlv_data t)"
    using assms by (simp add: le16_encode_tlv tlv_ok_def unat_of_nat_u16)
  moreover have "encode_tlv t ! 0 = tlv_type t" "drop 3 (encode_tlv t) = tlv_data t"
    by (simp_all add: encode_tlv_def put16_def)
  ultimately show ?thesis
    by (simp add: TlvCursor_next_def cursor_at_def TlvCursor_make_def piece_def nth_append Let_def)
qed

text \<open>A successful step is the encoding of the TLV it returned followed by what is left.\<close>

lemma next_SomeD:
  assumes "TlvCursor_next (cursor_at b) = (Some t, c)"
  shows "\<exists>r. b = encode_tlv t @ r \<and> c = cursor_at r \<and> tlv_ok t"
proof -
  let ?n = "unat (le16 b 1)"
  have len: "3 \<le> length b" "?n \<le> length b - 3"
    and t: "t = \<lparr>tlv_type = b ! 0, tlv_data = piece 3 ?n b\<rparr>" and c: "c = cursor_at (drop (3 + ?n) b)"
    using assms by (auto simp: TlvCursor_next_def cursor_at_def TlvCursor_make_def Let_def split: if_splits)
  have data: "length (piece 3 ?n b) = ?n" using len by simp
  obtain x y z ys where b: "b = x # y # z # ys"
    using len by (auto simp: Suc_le_length_iff numeral_eq_Suc)
  have "put16 (le16 b 1) = [y, z]"
    by (auto simp: b put16_def le16_def intro!: bit_eqI) (auto simp: bit_simps dest: bit_imp_le_length)
  then have "b = encode_tlv t @ drop (3 + ?n) b"
    unfolding encode_tlv_def t Tlv.select_convs data word_of_unat
    by (simp add: b piece_def numeral_3_eq_3)
  moreover have "tlv_ok t" by (simp add: tlv_ok_def t min_less_iff_disj)
  ultimately show ?thesis using c by blast
qed

lemma cursor_while_encode:
  assumes "list_all tlv_ok ts"
  shows "cursor_while body (cursor_at (encode_tlvs ts @ r)) s =
    (case for_each body ts s of Inl x \<Rightarrow> Inl x | Inr s' \<Rightarrow> cursor_while body (cursor_at r) s')"
  using assms
proof (induction ts arbitrary: s)
  case (Cons t ts)
  then show ?case
    by (subst cursor_while.simps) (simp split: sum.split)
qed simp

lemma cursor_while_nil [simp]: "cursor_while body (cursor_at []) s = Inr (s, cursor_at [])"
  by (simp add: cursor_while.simps)

lemma not_malformed_at [simp]: "\<not> cur_malformed (cursor_at b)" "cur_remaining (cursor_at b) = length b"
  by (simp_all add: cursor_at_def TlvCursor_make_def)

lemma next_NoneD:
  "TlvCursor_next (cursor_at b) = (None, c) \<Longrightarrow> \<not> cur_malformed c \<Longrightarrow> b = [] \<and> c = cursor_at []"
  by (auto simp: TlvCursor_next_def cursor_at_def TlvCursor_make_def Let_def split: if_splits)

lemma cursor_while_InrD:
  assumes "cursor_while body (cursor_at b) s = Inr (s', c)" and "\<not> cur_malformed c"
  shows "\<exists>ts. b = encode_tlvs ts \<and> list_all tlv_ok ts \<and> for_each body ts s = Inr s'"
  using assms
proof (induction "length b" arbitrary: b s rule: less_induct)
  case less
  show ?case
  proof (cases "TlvCursor_next (cursor_at b)")
    case (Pair t c')
    show ?thesis
    proof (cases t)
      case None
      with Pair less.prems have "b = []" "s = s'"
        by (auto simp: cursor_while.simps [of body "cursor_at b"] dest: next_NoneD)
      then show ?thesis by (intro exI [of _ "[]"]) simp
    next
      case (Some t')
      with Pair obtain r where r: "b = encode_tlv t' @ r" "c' = cursor_at r" "tlv_ok t'"
        using next_SomeD by blast
      with Some less.prems obtain s1 where s1: "body t' s = Inr s1"
        "cursor_while body (cursor_at r) s1 = Inr (s', c)"
        by (auto simp: cursor_while.simps [of body "cursor_at (encode_tlv t' @ r)"] split: sum.splits)
      have "length r < length b" using r by simp
      with less.hyps s1 less.prems obtain ts where
        "r = encode_tlvs ts" "list_all tlv_ok ts" "for_each body ts s1 = Inr s'"
        by blast
      with r s1 show ?thesis by (intro exI [of _ "t' # ts"]) simp
    qed
  qed
qed

lemma cursor_while_InlD: "cursor_while body c s = Inl r \<Longrightarrow> \<exists>t u. body t u = Inl r"
proof (induction body c s rule: cursor_while.induct)
  case (1 body c s)
  then show ?case
    by (subst (asm) (2) cursor_while.simps) (auto split: prod.splits option.splits sum.splits)
qed

text \<open>Two TLV sequences with the same wire form are the same sequence.\<close>

lemma encode_tlvs_inject:
  assumes "list_all tlv_ok ts" and "list_all tlv_ok us" and "encode_tlvs ts = encode_tlvs us"
  shows "ts = us"
proof -
  have collect: "for_each (\<lambda>t acc. Inr (acc @ [t]) :: unit + _) vs acc = Inr (acc @ vs)" for vs acc
    by (induction vs arbitrary: acc) simp_all
  let ?body = "\<lambda>t acc. Inr (acc @ [t]) :: unit + _"
  have "cursor_while ?body (cursor_at (encode_tlvs ts @ [])) [] = Inr (ts, cursor_at [])"
    using assms(1) by (subst cursor_while_encode) (simp_all add: collect)
  moreover have "cursor_while ?body (cursor_at (encode_tlvs us @ [])) [] = Inr (us, cursor_at [])"
    using assms(2) by (subst cursor_while_encode) (simp_all add: collect)
  ultimately show ?thesis using assms(3) by simp
qed

section \<open>The action parser\<close>

definition awdl_header :: "bytes \<Rightarrow> bool" where
  "awdl_header b \<longleftrightarrow> 16 \<le> length b \<and> length b \<le> 4096 \<and> b ! 5 \<noteq> 0 \<and> take 5 b = [127, 0, 0x17, 0xf2, 8]"

definition tlv_type_bits :: "Tlv list \<Rightarrow> u64" where
  "tlv_type_bits ts = foldr (\<lambda>t m. if tlv_type t < 64 then m OR push_bit (unat (tlv_type t)) 1 else m) ts 0"

definition action_info :: "bytes \<Rightarrow> Tlv list \<Rightarrow> ActionInfo" where
  "action_info b ts = \<lparr>ai_version = b ! 5, ai_subtype = b ! 6,
     ai_tlvCount = of_nat (length ts), ai_tlvTypes = tlv_type_bits ts\<rparr>"

lemma take5_eq:
  "5 \<le> length b \<Longrightarrow> take 5 b = [v0, v1, v2, v3, v4] \<longleftrightarrow>
     b ! 0 = v0 \<and> b ! 1 = v1 \<and> b ! 2 = v2 \<and> b ! 3 = v3 \<and> b ! 4 = v4"
  by (auto simp: list_eq_iff_nth_eq numeral_eq_Suc less_Suc_eq)

lemma run_parseAction_body:
  "for_each parseAction_body ts p = Inr (p\<lparr>ai_tlvCount := ai_tlvCount p + of_nat (length ts),
     ai_tlvTypes := ai_tlvTypes p OR tlv_type_bits ts\<rparr>)"
  by (induction ts arbitrary: p) (simp_all add: parseAction_body_def tlv_type_bits_def Let_def ac_simps)

lemma parseAction_encode:
  assumes "awdl_header b" and "drop 16 b = encode_tlvs ts" and "list_all tlv_ok ts"
  shows "parseAction (Some b) = (ParseValid, action_info b ts)"
proof -
  have "cursor_while parseAction_body (cursor_at (drop 16 b)) p =
      Inr (p\<lparr>ai_tlvCount := ai_tlvCount p + of_nat (length ts),
             ai_tlvTypes := ai_tlvTypes p OR tlv_type_bits ts\<rparr>, cursor_at [])" for p
    using cursor_while_encode [OF assms(3), of parseAction_body "[]" p] assms(2)
    by (simp add: run_parseAction_body)
  with assms(1) show ?thesis
    by (auto simp: parseAction_def cursor_at_drop awdl_header_def take5_eq ActionInfo0_def action_info_def)
qed

lemma parseAction_ValidD:
  assumes "parseAction (Some b) = (ParseValid, info)"
  shows "\<exists>ts. awdl_header b \<and> drop 16 b = encode_tlvs ts \<and> list_all tlv_ok ts \<and> info = action_info b ts"
proof -
  have hdr: "awdl_header b"
    using assms by (auto simp: parseAction_def awdl_header_def take5_eq Let_def split: if_splits)
  obtain p c where "cursor_while parseAction_body (cursor_at (drop 16 b))
      (ActionInfo0\<lparr>ai_version := b ! 5, ai_subtype := b ! 6\<rparr>) = Inr (p, c)" "\<not> cur_malformed c"
    using assms
    by (auto simp: parseAction_def Let_def cursor_at_drop split: if_splits sum.splits prod.splits)
  then obtain ts where "drop 16 b = encode_tlvs ts" "list_all tlv_ok ts"
    by (auto dest: cursor_while_InrD)
  with hdr assms parseAction_encode show ?thesis by auto
qed

lemma bit_tlv_type_bits:
  "bit (tlv_type_bits ts) k \<longleftrightarrow> k < 64 \<and> (\<exists>t \<in> set ts. unat (tlv_type t) = k)"
proof (induction ts)
  case (Cons t ts)
  have "tlv_type t < 64 \<longleftrightarrow> unat (tlv_type t) < 64"
    by (simp add: word_less_nat_alt)
  with Cons show ?case
    by (auto simp: tlv_type_bits_def bit_simps)
qed (simp add: tlv_type_bits_def)

lemma awdl_tlvs_bound: "awdl_header b \<Longrightarrow> drop 16 b = encode_tlvs ts \<Longrightarrow> length ts \<le> 1360"
  using length_encode_tlvs_ge [of ts] by (auto simp: awdl_header_def dest: arg_cong [of _ _ length])

text \<open>
  C10: \<open>parseAction\<close> accepts a body exactly when it is a well-formed AWDL envelope of at most 4096
  bytes followed by a sequence of complete TLVs with no bytes left over; the sequence is the one
  the cursor visits, the sixteen-bit TLV count it reports is exact, and bit \<open>k\<close> of the type mask is
  set exactly when some TLV of the body has type \<open>k < 64\<close>.
\<close>

theorem parseAction_correct:
  "parseAction (Some b) = (ParseValid, info) \<longleftrightarrow>
     awdl_header b \<and> ai_version info = b ! 5 \<and> ai_subtype info = b ! 6 \<and>
     (\<exists>ts. drop 16 b = encode_tlvs ts \<and> list_all tlv_ok ts \<and> unat (ai_tlvCount info) = length ts \<and>
        (\<forall>k. bit (ai_tlvTypes info) k \<longleftrightarrow> k < 64 \<and> (\<exists>t. t \<in> set ts \<and> unat (tlv_type t) = k)))"
  (is "?L \<longleftrightarrow> ?R")
proof
  assume ?L
  then obtain ts where ts: "awdl_header b" "drop 16 b = encode_tlvs ts" "list_all tlv_ok ts"
    "info = action_info b ts" using parseAction_ValidD by blast
  moreover have "length ts < 65536" using awdl_tlvs_bound [OF ts(1,2)] by simp
  ultimately show ?R
    by (auto simp: action_info_def unat_of_nat_u16 bit_tlv_type_bits)
next
  assume ?R
  then obtain ts where hdr: "awdl_header b" "ai_version info = b ! 5" "ai_subtype info = b ! 6"
    and ts: "drop 16 b = encode_tlvs ts" "list_all tlv_ok ts" "unat (ai_tlvCount info) = length ts"
    and bits: "\<And>k. bit (ai_tlvTypes info) k \<longleftrightarrow> k < 64 \<and> (\<exists>t. t \<in> set ts \<and> unat (tlv_type t) = k)"
    by blast
  have "ai_tlvCount info = of_nat (length ts)" using ts(3) by (metis word_of_unat)
  moreover have "ai_tlvTypes info = tlv_type_bits ts"
    by (rule bit_eqI) (simp add: bits bit_tlv_type_bits Bex_def)
  ultimately have "info = action_info b ts" using hdr by (simp add: action_info_def)
  with parseAction_encode [OF hdr(1) ts(1,2)] show ?L by simp
qed

end
