(* ===== verification/Awdl_Sync.thy ===== *)
theory Awdl_Sync
  imports Awdl_Frame
begin

text \<open>
  The synchronization decoder (\<open>include/AWDL/RTWAwdlSync.hpp\<close>): channel sequences and the master
  indication / periodic synchronization action body. A decode returns its verdict together with
  the output record, which stays zero unless the verdict is \<open>SyncValid\<close>.
\<close>

section \<open>Data\<close>

datatype SyncDecode = SyncValid | NotSynchronization | SyncUnsupported | SyncMalformed

record ChannelSequence =
  cs_channel :: bytes
  cs_auxiliary :: bytes
  cs_encoding :: u8
  cs_stride :: u8
  cs_count :: u8

definition ChannelSequence0 :: ChannelSequence where
  "ChannelSequence0 = \<lparr>cs_channel = zeros 16, cs_auxiliary = zeros 16, cs_encoding = 0, cs_stride = 0, cs_count = 0\<rparr>"

record SyncMessage =
  sm_sequence :: ChannelSequence
  sm_phyTxTime :: u32
  sm_targetTxTime :: u32
  sm_periodTu :: u16
  sm_actionPeriodTu :: u16
  sm_countdownTu :: u16
  sm_commonTu :: u16
  sm_counter :: u16
  sm_remainingTu :: u16
  sm_apAlignment :: u16
  sm_subtype :: u8
  sm_presence :: u8
  sm_guardTu :: u8
  sm_nextChannel :: u8
  sm_masterChannel :: u8
  sm_master :: bytes
  sm_syncMaster :: bytes
  sm_syncAddress :: bytes
  sm_masterCounter :: u32
  sm_selfCounter :: u32
  sm_masterMetric :: u32
  sm_selfMetric :: u32
  sm_height :: u32
  sm_electionPresent :: bool
  sm_versionPresent :: bool
  sm_version :: u8
  sm_deviceClass :: u8

definition SyncMessage0 :: SyncMessage where
  "SyncMessage0 = \<lparr>sm_sequence = ChannelSequence0, sm_phyTxTime = 0, sm_targetTxTime = 0,
     sm_periodTu = 0, sm_actionPeriodTu = 0, sm_countdownTu = 0, sm_commonTu = 0, sm_counter = 0,
     sm_remainingTu = 0, sm_apAlignment = 0, sm_subtype = 0, sm_presence = 0, sm_guardTu = 0,
     sm_nextChannel = 0, sm_masterChannel = 0, sm_master = zeros 6, sm_syncMaster = zeros 6,
     sm_syncAddress = zeros 6, sm_masterCounter = 0, sm_selfCounter = 0, sm_masterMetric = 0,
     sm_selfMetric = 0, sm_height = 0, sm_electionPresent = False, sm_versionPresent = False,
     sm_version = 0, sm_deviceClass = 0\<rparr>"

section \<open>Channel sequences\<close>

definition sameSequence :: "ChannelSequence \<Rightarrow> ChannelSequence \<Rightarrow> bool" where
  "sameSequence a b \<longleftrightarrow>
     cs_count a = cs_count b \<and> cs_stride a = cs_stride b \<and>
     list_all (\<lambda>i. \<not> (cs_channel a ! i \<noteq> cs_channel b ! i \<or>
                      (cs_encoding a = 3 \<and> cs_encoding b = 3 \<and> cs_auxiliary a ! i \<noteq> cs_auxiliary b ! i)))
       [0..<unat (cs_count a)]"

definition sequence_width :: "u8 \<Rightarrow> nat" where
  "sequence_width encoding = (if encoding = 0 then 1 else if encoding = 1 \<or> encoding = 3 then 2 else 0)"

definition decodeSequence_entry :: "bytes \<Rightarrow> nat \<Rightarrow> nat \<Rightarrow> ChannelSequence \<Rightarrow> SyncDecode + ChannelSequence" where
  "decodeSequence_entry p width i decoded =
     (let entry = drop (6 + i * width) p;
          channel = entry ! (if p ! 1 = 1 then 1 else 0) in
      if channel > 196 then Inl SyncUnsupported
      else let decoded = decoded\<lparr>cs_channel := (cs_channel decoded)[i := channel]\<rparr>;
               decoded = (if width = 2
                 then decoded\<lparr>cs_auxiliary := (cs_auxiliary decoded)[i := entry ! (if p ! 1 = 1 then 0 else 1)]\<rparr>
                 else decoded);
               opclass = cs_auxiliary decoded ! i in
        if p ! 1 = 3 \<and> channel \<noteq> 0 \<and>
           (if channel \<le> 14 then opclass < 81 \<or> opclass > 84 else opclass < 115 \<or> opclass > 130)
        then Inl SyncUnsupported
        else Inr decoded)"

definition decodeChannelSequence :: "bytes option \<Rightarrow> SyncDecode \<times> ChannelSequence" where
  "decodeChannelSequence q = (case q of None \<Rightarrow> (SyncMalformed, ChannelSequence0) | Some p \<Rightarrow>
     (if length p < 6 then (SyncMalformed, ChannelSequence0)
      else let width = sequence_width (p ! 1) in
        if width = 0 \<or> p ! 0 \<noteq> 15 \<or> p ! 2 \<noteq> 0 \<or> p ! 3 > 15 \<or> le16 p 4 \<noteq> 0xffff
        then (SyncUnsupported, ChannelSequence0)
        else let used = 6 + 16 * width in
          if length p < used \<or> length p - used > 3 then (SyncMalformed, ChannelSequence0)
          else if list_ex (\<lambda>b. b \<noteq> 0) (drop used p) then (SyncMalformed, ChannelSequence0)
          else let decoded = ChannelSequence0\<lparr>cs_count := 16, cs_encoding := p ! 1, cs_stride := p ! 3 + 1\<rparr> in
            (case for_each (decodeSequence_entry p width) [0..<16] decoded of
               Inl r \<Rightarrow> (r, ChannelSequence0)
             | Inr decoded \<Rightarrow> (SyncValid, decoded))))"

section \<open>The synchronization action\<close>

record SyncLocals =
  sl_decoded :: SyncMessage
  sl_haveSync :: bool
  sl_haveSequence :: bool
  sl_haveEmbedded :: bool
  sl_embedded :: ChannelSequence
  sl_electedMaster :: bytes

text \<open>The synchronization parameters TLV (type 4).\<close>

definition decodeSync_params :: "bytes \<Rightarrow> SyncMessage \<Rightarrow> SyncMessage" where
  "decodeSync_params p d = d\<lparr>sm_nextChannel := p ! 0, sm_countdownTu := le16 p 1, sm_masterChannel := p ! 3,
     sm_guardTu := p ! 4, sm_periodTu := le16 p 5, sm_actionPeriodTu := le16 p 7, sm_commonTu := le16 p 13,
     sm_remainingTu := le16 p 15, sm_syncMaster := piece 21 6 p, sm_master := piece 21 6 p,
     sm_presence := p ! 27, sm_counter := le16 p 29, sm_apAlignment := le16 p 31\<rparr>"

definition sync_params_bad :: "SyncMessage \<Rightarrow> bool" where
  "sync_params_bad d \<longleftrightarrow>
     sm_periodTu d = 0 \<or> sm_actionPeriodTu d = 0 \<or> sm_presence d = 0 \<or> sm_presence d > 16 \<or>
     sm_presence d AND (sm_presence d - 1) \<noteq> 0 \<or>
     (ucast (sm_countdownTu d) :: u32) > ucast (sm_periodTu d) * ucast (sm_presence d) \<or>
     (ucast (sm_commonTu d) :: u32) > ucast (sm_periodTu d) * ucast (sm_presence d) \<or>
     \<not> unicast (sm_master d)"

definition decodeSync_type4 :: "bytes \<Rightarrow> SyncLocals \<Rightarrow> SyncDecode + SyncLocals" where
  "decodeSync_type4 p l =
     (if sl_haveSync l \<or> length p < 33 then Inl SyncMalformed
      else let d = decodeSync_params p (sl_decoded l);
               l = l\<lparr>sl_haveSync := True, sl_decoded := d\<rparr> in
        if sync_params_bad d then Inl SyncMalformed
        else if sm_periodTu d > 1024 \<or> sm_actionPeriodTu d > 4096 then Inl SyncUnsupported
        else if length p > 33
        then (case decodeChannelSequence (Some (drop 33 p)) of
                (SyncValid, e) \<Rightarrow> Inr (l\<lparr>sl_embedded := e, sl_haveEmbedded := True\<rparr>)
              | (status, _) \<Rightarrow> Inl status)
        else Inr l)"

definition decodeSync_type18 :: "bytes \<Rightarrow> SyncLocals \<Rightarrow> SyncDecode + SyncLocals" where
  "decodeSync_type18 p l =
     (if sl_haveSequence l then Inl SyncMalformed
      else case decodeChannelSequence (Some p) of
        (SyncValid, s) \<Rightarrow> Inr (l\<lparr>sl_decoded := (sl_decoded l)\<lparr>sm_sequence := s\<rparr>, sl_haveSequence := True\<rparr>)
      | (status, _) \<Rightarrow> Inl status)"

text \<open>The election parameters TLV (type 24).\<close>

definition decodeSync_type24 :: "bytes \<Rightarrow> SyncLocals \<Rightarrow> SyncDecode + SyncLocals" where
  "decodeSync_type24 p l =
     (if sm_electionPresent (sl_decoded l) \<or> length p < 40 then Inl SyncMalformed
      else let d = (sl_decoded l)\<lparr>sm_electionPresent := True, sm_syncAddress := piece 6 6 p,
                     sm_masterCounter := le32 p 12, sm_height := le32 p 16, sm_masterMetric := le32 p 20,
                     sm_selfMetric := le32 p 24, sm_selfCounter := le32 p 36\<rparr>;
               l = l\<lparr>sl_decoded := d, sl_electedMaster := piece 0 6 p\<rparr> in
        if \<not> unicast (sl_electedMaster l) \<or> \<not> unicast (sm_syncAddress d) then Inl SyncMalformed
        else Inr l)"

definition decodeSync_type21 :: "bytes \<Rightarrow> SyncLocals \<Rightarrow> SyncDecode + SyncLocals" where
  "decodeSync_type21 p l =
     (if sm_versionPresent (sl_decoded l) \<or> length p < 2 then Inl SyncMalformed
      else Inr (l\<lparr>sl_decoded := (sl_decoded l)\<lparr>sm_versionPresent := True, sm_version := p ! 0,
                                               sm_deviceClass := p ! 1\<rparr>\<rparr>))"

definition decodeSync_body :: "Tlv \<Rightarrow> SyncLocals \<Rightarrow> SyncDecode + SyncLocals" where
  "decodeSync_body t l =
     (if tlv_type t = 4 then decodeSync_type4 (tlv_data t) l
      else if tlv_type t = 18 then decodeSync_type18 (tlv_data t) l
      else if tlv_type t = 24 then decodeSync_type24 (tlv_data t) l
      else if tlv_type t = 21 then decodeSync_type21 (tlv_data t) l
      else Inr l)"

definition decodeSync_finish :: "SyncLocals \<Rightarrow> SyncDecode \<times> SyncMessage" where
  "decodeSync_finish l =
     (let d = sl_decoded l in
      if \<not> sl_haveSync l then (NotSynchronization, SyncMessage0)
      else let d = (if sm_electionPresent d then d\<lparr>sm_master := sl_electedMaster l\<rparr> else d) in
        if \<not> sl_haveSequence l \<and> \<not> sl_haveEmbedded l then (SyncUnsupported, SyncMessage0)
        else if sl_haveSequence l \<and> sl_haveEmbedded l \<and>
          (cs_count (sm_sequence d) \<noteq> cs_count (sl_embedded l) \<or>
           cs_stride (sm_sequence d) \<noteq> cs_stride (sl_embedded l) \<or>
           (\<not> (cs_encoding (sl_embedded l) = 1 \<and> cs_encoding (sm_sequence d) = 3) \<and>
            \<not> sameSequence (sm_sequence d) (sl_embedded l)))
        then (SyncMalformed, SyncMessage0)
        else let d = (if \<not> sl_haveSequence l then d\<lparr>sm_sequence := sl_embedded l\<rparr> else d) in
          if cs_stride (sm_sequence d) \<noteq> sm_presence d then (SyncMalformed, SyncMessage0)
          else (SyncValid, d))"

definition SyncLocals0 :: "u8 \<Rightarrow> bytes \<Rightarrow> SyncLocals" where
  "SyncLocals0 subtype body = \<lparr>sl_decoded = SyncMessage0\<lparr>sm_subtype := subtype, sm_phyTxTime := le32 body 8,
     sm_targetTxTime := le32 body 12\<rparr>, sl_haveSync = False, sl_haveSequence = False,
     sl_haveEmbedded = False, sl_embedded = ChannelSequence0, sl_electedMaster = zeros 6\<rparr>"

definition decodeSyncAction :: "bytes option \<Rightarrow> SyncDecode \<times> SyncMessage" where
  "decodeSyncAction body =
     (case parseAction body of
        (NotAwdl, _) \<Rightarrow> (NotSynchronization, SyncMessage0)
      | (ParseMalformed, _) \<Rightarrow> (SyncMalformed, SyncMessage0)
      | (ParseValid, envelope) \<Rightarrow>
          if ai_version envelope \<noteq> 0x10 \<or> (ai_subtype envelope \<noteq> 0 \<and> ai_subtype envelope \<noteq> 3)
          then (SyncUnsupported, SyncMessage0)
          else let b = the body in
            (case cursor_while decodeSync_body (TlvCursor_make (Some (drop 16 b)) (length b - 16)) 
                (SyncLocals0 (ai_subtype envelope) b) of
               Inl r \<Rightarrow> (r, SyncMessage0)
             | Inr (l, cursor) \<Rightarrow>
                 if cur_malformed cursor then (SyncMalformed, SyncMessage0) else decodeSync_finish l))"

section \<open>What a decoded channel sequence is\<close>

definition entry_channel :: "bytes \<Rightarrow> nat \<Rightarrow> u8" where
  "entry_channel p i = p ! (6 + i * sequence_width (p ! 1) + (if p ! 1 = 1 then 1 else 0))"

definition entry_auxiliary :: "bytes \<Rightarrow> nat \<Rightarrow> u8" where
  "entry_auxiliary p i = p ! (6 + i * sequence_width (p ! 1) + (if p ! 1 = 1 then 0 else 1))"

definition opclass_ok :: "u8 \<Rightarrow> u8 \<Rightarrow> bool" where
  "opclass_ok channel opclass \<longleftrightarrow> channel = 0 \<or>
     (if channel \<le> 14 then 81 \<le> opclass \<and> opclass \<le> 84 else 115 \<le> opclass \<and> opclass \<le> 130)"

definition entry_ok :: "bytes \<Rightarrow> nat \<Rightarrow> bool" where
  "entry_ok p i \<longleftrightarrow> entry_channel p i \<le> 196 \<and>
     (p ! 1 = 3 \<longrightarrow> opclass_ok (entry_channel p i) (entry_auxiliary p i))"

lemma list_update_fill:
  "k < length xs \<Longrightarrow> (map f [0..<k] @ drop k xs)[k := f k] = map f [0..<Suc k] @ drop (Suc k) xs"
  by (simp add: list_update_append Cons_nth_drop_Suc [symmetric])

lemma decode_entry:
  assumes "w = sequence_width (p ! 1)" and "6 + i * w \<le> length p" and "i < length (cs_auxiliary d)"
  shows "decodeSequence_entry p w i d =
    (if entry_ok p i
     then Inr (d\<lparr>cs_channel := (cs_channel d)[i := entry_channel p i],
                 cs_auxiliary := if w = 2
                   then (cs_auxiliary d)[i := entry_auxiliary p i] else cs_auxiliary d\<rparr>)
     else Inl SyncUnsupported)"
proof -
  have nth: "drop (6 + i * w) p ! j = p ! (6 + i * w + j)" for j
    using assms(2) by (simp add: add.commute)
  have ch: "entry_channel p i = drop (6 + i * w) p ! (if p ! 1 = 1 then 1 else 0)"
    and aux: "entry_auxiliary p i = drop (6 + i * w) p ! (if p ! 1 = 1 then 0 else 1)"
    by (simp_all only: nth entry_channel_def entry_auxiliary_def assms(1) [symmetric])
  have w: "p ! 1 = 3 \<Longrightarrow> w = 2" by (simp add: assms(1) sequence_width_def)
  have ok: "(c \<noteq> 0 \<and> (if c \<le> 14 then a < 81 \<or> a > 84 else a < 115 \<or> a > 130)) = (\<not> opclass_ok c a)" for c a
    by (auto simp: opclass_ok_def not_le not_less)
  show ?thesis
    unfolding decodeSequence_entry_def Let_def entry_ok_def ok ch [symmetric] aux [symmetric]
    using assms(3) w by (cases "p ! 1 = 3") (simp_all add: not_le)
qed

lemma decode_entries:
  assumes len: "w = sequence_width (p ! 1)" "6 + 16 * w \<le> length p" "length (cs_channel d) = 16" "length (cs_auxiliary d) = 16"
    and k: "k \<le> 16"
  shows "for_each (decodeSequence_entry p w) [0..<k] d =
    (if list_all (entry_ok p) [0..<k]
     then Inr (d\<lparr>cs_channel := map (entry_channel p) [0..<k] @ drop k (cs_channel d),
                 cs_auxiliary := if w = 2
                   then map (entry_auxiliary p) [0..<k] @ drop k (cs_auxiliary d) else cs_auxiliary d\<rparr>)
     else Inl SyncUnsupported)"
  using k
proof (induction k)
  case (Suc k)
  have idx: "6 + k * w \<le> length p"
    using len(2) Suc.prems mult_right_mono [of k 16 w] by linarith
  have upt: "[0..<Suc k] = [0..<k] @ [k]" by simp
  show ?case
    unfolding upt for_each_append using Suc len(2-) idx
    by (simp add: decode_entry [OF len(1)] list_update_fill [unfolded upt])
qed simp

text \<open>The fields a valid sequence can have: sixteen channels, a stride of one to sixteen slots.\<close>

definition wf_channel_sequence :: "ChannelSequence \<Rightarrow> bool" where
  "wf_channel_sequence s \<longleftrightarrow>
     cs_count s = 16 \<and> length (cs_channel s) = 16 \<and> length (cs_auxiliary s) = 16 \<and>
     1 \<le> cs_stride s \<and> cs_stride s \<le> 16 \<and> cs_encoding s \<in> {0, 1, 3} \<and>
     list_all (\<lambda>c. c \<le> 196) (cs_channel s) \<and>
     (cs_encoding s = 3 \<longrightarrow> list_all2 opclass_ok (cs_channel s) (cs_auxiliary s))"

definition sequence_header :: "bytes \<Rightarrow> bool" where
  "sequence_header p \<longleftrightarrow> 6 \<le> length p \<and> p ! 0 = 15 \<and> sequence_width (p ! 1) \<noteq> 0 \<and> p ! 2 = 0 \<and> p ! 3 \<le> 15 \<and>
     le16 p 4 = 0xffff \<and> 6 + 16 * sequence_width (p ! 1) \<le> length p \<and>
     length p \<le> 9 + 16 * sequence_width (p ! 1) \<and>
     list_all (\<lambda>b. b = 0) (drop (6 + 16 * sequence_width (p ! 1)) p)"

definition sequence_of :: "bytes \<Rightarrow> ChannelSequence" where
  "sequence_of p = \<lparr>cs_channel = map (entry_channel p) [0..<16],
     cs_auxiliary = (if p ! 1 = 0 then zeros 16 else map (entry_auxiliary p) [0..<16]),
     cs_encoding = p ! 1, cs_stride = p ! 3 + 1, cs_count = 16\<rparr>"

lemma sequence_width_0: "sequence_width e = 0 \<longleftrightarrow> e \<notin> {0, 1, 3}"
  by (simp add: sequence_width_def)

lemma decodeChannelSequence_header:
  "decodeChannelSequence (Some p) =
     (if sequence_header p
      then (case for_each (decodeSequence_entry p (sequence_width (p ! 1))) [0..<16]
              (ChannelSequence0\<lparr>cs_count := 16, cs_encoding := p ! 1, cs_stride := p ! 3 + 1\<rparr>) of
              Inl r \<Rightarrow> (r, ChannelSequence0) | Inr decoded \<Rightarrow> (SyncValid, decoded))
      else (if length p < 6 then SyncMalformed
            else if sequence_width (p ! 1) = 0 \<or> p ! 0 \<noteq> 15 \<or> p ! 2 \<noteq> 0 \<or> p ! 3 > 15 \<or> le16 p 4 \<noteq> 0xffff
            then SyncUnsupported else SyncMalformed, ChannelSequence0))"
  unfolding decodeChannelSequence_def sequence_header_def Let_def list_ex_iff list_all_iff
  by (auto simp: not_less simp del: upt_rec_numeral for_each.simps)

lemma decodeChannelSequence_Valid_iff:
  "decodeChannelSequence (Some p) = (SyncValid, s) \<longleftrightarrow>
     sequence_header p \<and> list_all (entry_ok p) [0..<16] \<and> s = sequence_of p"
proof (cases "sequence_header p")
  case True
  then have "for_each (decodeSequence_entry p (sequence_width (p ! 1))) [0..<16]
      (ChannelSequence0\<lparr>cs_count := 16, cs_encoding := p ! 1, cs_stride := p ! 3 + 1\<rparr>) =
      (if list_all (entry_ok p) [0..<16] then Inr (sequence_of p) else Inl SyncUnsupported)"
    by (subst decode_entries) (auto simp: sequence_header_def ChannelSequence0_def sequence_of_def
        sequence_width_def simp del: upt_rec_numeral split: if_splits)
  with True show ?thesis
    unfolding decodeChannelSequence_header by auto
qed (simp add: decodeChannelSequence_header)

lemma plus_one_stride: "(x :: u8) \<le> 15 \<Longrightarrow> 1 \<le> x + 1 \<and> x + 1 \<le> 16"
proof -
  assume "x \<le> 15"
  then have "unat x \<le> 15" by (simp add: word_le_nat_alt)
  then have "unat (x + 1) = unat x + 1" by (simp add: unat_word_ariths)
  with \<open>unat x \<le> 15\<close> show ?thesis by (simp add: word_le_nat_alt)
qed

lemma wf_sequence_of:
  assumes "sequence_header p" and "list_all (entry_ok p) [0..<16]"
  shows "wf_channel_sequence (sequence_of p)"
proof -
  have "cs_encoding (sequence_of p) \<in> {0, 1, 3}"
    using assms(1) by (auto simp: sequence_of_def sequence_header_def sequence_width_0)
  moreover have "list_all (\<lambda>c. c \<le> 196) (map (entry_channel p) [0..<16])"
    using assms(2) by (auto simp: list_all_iff entry_ok_def simp del: upt_rec_numeral)
  moreover have "p ! 1 = 3 \<Longrightarrow> list_all2 opclass_ok (map (entry_channel p) [0..<16]) (map (entry_auxiliary p) [0..<16])"
    using assms(2) by (auto simp: list_all2_conv_all_nth list_all_iff entry_ok_def simp del: upt_rec_numeral)
  moreover have "1 \<le> p ! 3 + 1 \<and> p ! 3 + 1 \<le> 16"
    using assms(1) plus_one_stride by (simp add: sequence_header_def)
  ultimately show ?thesis
    by (simp add: wf_channel_sequence_def sequence_of_def del: upt_rec_numeral)
qed

lemma decodeChannelSequence_wf:
  "decodeChannelSequence (Some p) = (SyncValid, s) \<Longrightarrow> wf_channel_sequence s"
  by (auto simp: decodeChannelSequence_Valid_iff intro: wf_sequence_of)

section \<open>What a decoded synchronization message is\<close>

definition wf_sync_params :: "SyncMessage \<Rightarrow> bool" where
  "wf_sync_params d \<longleftrightarrow>
     sm_presence d \<in> {1, 2, 4, 8, 16} \<and>
     0 < sm_periodTu d \<and> sm_periodTu d \<le> 1024 \<and> 0 < sm_actionPeriodTu d \<and> sm_actionPeriodTu d \<le> 4096 \<and>
     unat (sm_countdownTu d) \<le> unat (sm_periodTu d) * unat (sm_presence d) \<and>
     unat (sm_commonTu d) \<le> unat (sm_periodTu d) * unat (sm_presence d) \<and>
     unicast (sm_syncMaster d)"

definition wf_sync :: "SyncMessage \<Rightarrow> bool" where
  "wf_sync d \<longleftrightarrow> wf_sync_params d \<and> wf_channel_sequence (sm_sequence d) \<and>
     cs_stride (sm_sequence d) = sm_presence d \<and> length (sm_master d) = 6 \<and> unicast (sm_master d) \<and>
     length (sm_syncAddress d) = 6 \<and> (sm_electionPresent d \<longrightarrow> unicast (sm_syncAddress d))"

text \<open>The clock fields of a message are those of the synchronization TLV \<open>p\<close>.\<close>

definition clock_fields_of :: "bytes \<Rightarrow> SyncMessage \<Rightarrow> bool" where
  "clock_fields_of p d \<longleftrightarrow>
     sm_countdownTu d = le16 p 1 \<and> sm_periodTu d = le16 p 5 \<and> sm_actionPeriodTu d = le16 p 7 \<and>
     sm_commonTu d = le16 p 13 \<and> sm_remainingTu d = le16 p 15 \<and> sm_syncMaster d = piece 21 6 p \<and>
     sm_presence d = p ! 27 \<and> sm_counter d = le16 p 29 \<and> sm_apAlignment d = le16 p 31"

definition typed :: "u8 \<Rightarrow> Tlv list \<Rightarrow> Tlv list" where
  "typed k ts = filter (\<lambda>t. tlv_type t = k) ts"

lemma typed_snoc [simp]:
  "typed k [] = []" "typed k (ts @ [t]) = typed k ts @ (if tlv_type t = k then [t] else [])"
  by (simp_all add: typed_def)

lemma unat_mult_u16_u8: "unat (ucast (a :: u16) * ucast (b :: u8) :: u32) = unat a * unat b"
proof -
  have "unat a * unat b < 65536 * 256" by (rule mult_strict_mono) simp_all
  then show ?thesis by (simp add: unat_word_ariths unat_ucast_up)
qed

lemma power_of_two_presence:
  "(x :: u8) \<noteq> 0 \<Longrightarrow> x \<le> 16 \<Longrightarrow> x AND (x - 1) = 0 \<Longrightarrow> x \<in> {1, 2, 4, 8, 16}"
proof -
  assume x: "x \<noteq> 0" "x \<le> 16" "x AND (x - 1) = 0"
  then have "0 < unat x" "unat x \<le> 16" by (simp_all add: word_le_nat_alt word_gt_0 unat_gt_0)
  then have "unat x \<in> set [1..<17]" by simp
  moreover have "list_all (\<lambda>n. (of_nat n :: u8) AND (of_nat n - 1) = 0 \<longrightarrow> (of_nat n :: u8) \<in> {1, 2, 4, 8, 16}) [1..<17]"
    by code_simp
  ultimately show ?thesis using x(3) unfolding list_all_iff by (metis word_of_unat)
qed

lemma wf_sync_paramsI:
  assumes "\<not> sync_params_bad d" "\<not> (sm_periodTu d > 1024 \<or> sm_actionPeriodTu d > 4096)"
    "sm_syncMaster d = sm_master d"
  shows "wf_sync_params d"
proof -
  have "sm_presence d \<in> {1, 2, 4, 8, 16}"
    using assms(1) by (intro power_of_two_presence) (auto simp: sync_params_bad_def)
  moreover have "unat (ucast (v :: u16) :: u32) = unat v" for v by (simp add: unat_ucast_up)
  ultimately show ?thesis
    using assms unfolding wf_sync_params_def sync_params_bad_def
    by (simp add: not_less word_le_nat_alt unat_mult_u16_u8 word_gt_0)
qed

text \<open>The loop invariant of the decoder, relative to the TLVs already visited.\<close>

definition decode_inv :: "Tlv list \<Rightarrow> SyncLocals \<Rightarrow> bool" where
  "decode_inv ts l \<longleftrightarrow>
     (let d = sl_decoded l in
      length (typed 4 ts) = (if sl_haveSync l then 1 else 0) \<and>
      length (typed 18 ts) = (if sl_haveSequence l then 1 else 0) \<and>
      length (typed 24 ts) = (if sm_electionPresent d then 1 else 0) \<and>
      length (typed 21 ts) = (if sm_versionPresent d then 1 else 0) \<and>
      (sl_haveSync l \<longrightarrow> 33 \<le> length (tlv_data (hd (typed 4 ts))) \<and>
         clock_fields_of (tlv_data (hd (typed 4 ts))) d \<and> wf_sync_params d \<and> sm_master d = sm_syncMaster d) \<and>
      (sl_haveSequence l \<longrightarrow> wf_channel_sequence (sm_sequence d)) \<and>
      (sl_haveEmbedded l \<longrightarrow> wf_channel_sequence (sl_embedded l)) \<and>
      length (sl_electedMaster l) = 6 \<and> length (sm_syncAddress d) = 6 \<and>
      (sm_electionPresent d \<longrightarrow> unicast (sl_electedMaster l) \<and> unicast (sm_syncAddress d)))"

lemma wf_sync_params_cong:
  "wf_sync_params (d\<lparr>sm_sequence := a\<rparr>) = wf_sync_params d"
  "wf_sync_params (d\<lparr>sm_master := m\<rparr>) = wf_sync_params d"
  "wf_sync_params (d\<lparr>sm_versionPresent := b, sm_version := v, sm_deviceClass := c\<rparr>) = wf_sync_params d"
  "wf_sync_params (d\<lparr>sm_electionPresent := b, sm_syncAddress := sa, sm_masterCounter := c1, sm_height := h,
     sm_masterMetric := m1, sm_selfMetric := m2, sm_selfCounter := c2\<rparr>) = wf_sync_params d"
  by (simp_all add: wf_sync_params_def)

lemma decodeSync_params_other [simp]:
  "sm_sequence (decodeSync_params p d) = sm_sequence d"
  "sm_electionPresent (decodeSync_params p d) = sm_electionPresent d"
  "sm_versionPresent (decodeSync_params p d) = sm_versionPresent d"
  "sm_syncAddress (decodeSync_params p d) = sm_syncAddress d"
  "sm_master (decodeSync_params p d) = sm_syncMaster (decodeSync_params p d)"
  by (simp_all add: decodeSync_params_def)

lemma decodeSync_type4_inv:
  assumes "decode_inv ts l" "tlv_type t = 4" "decodeSync_type4 (tlv_data t) l = Inr l'"
  shows "decode_inv (ts @ [t]) l'"
proof -
  let ?p = "tlv_data t" and ?d = "decodeSync_params (tlv_data t) (sl_decoded l)"
  have new: "\<not> sl_haveSync l" "33 \<le> length ?p" "\<not> sync_params_bad ?d"
    "\<not> (sm_periodTu ?d > 1024 \<or> sm_actionPeriodTu ?d > 4096)"
    using assms(3) by (auto simp: decodeSync_type4_def Let_def not_less split: if_splits)
  have wf: "wf_sync_params ?d"
    by (rule wf_sync_paramsI [OF new(3,4)]) (simp add: decodeSync_params_def)
  have cf: "clock_fields_of ?p ?d" by (simp add: clock_fields_of_def decodeSync_params_def)
  consider "l' = l\<lparr>sl_haveSync := True, sl_decoded := ?d\<rparr>"
    | e where "wf_channel_sequence e" "l' = l\<lparr>sl_haveSync := True, sl_decoded := ?d, sl_embedded := e, sl_haveEmbedded := True\<rparr>"
    using assms(3) new
    by (auto simp: decodeSync_type4_def Let_def split: if_splits prod.splits SyncDecode.splits
        dest: decodeChannelSequence_wf)
  then show ?thesis
    using assms(1,2) new(1,2) wf cf
    by cases (simp_all add: decode_inv_def Let_def)
qed

lemma decodeSync_body_inv:
  assumes "decode_inv ts l" "decodeSync_body t l = Inr l'"
  shows "decode_inv (ts @ [t]) l'"
proof -
  consider "tlv_type t = 4" | "tlv_type t = 18" | "tlv_type t = 24" | "tlv_type t = 21"
    | "tlv_type t \<notin> {4, 18, 24, 21}" by blast
  then show ?thesis
  proof cases
    case 1
    with assms decodeSync_type4_inv show ?thesis by (simp add: decodeSync_body_def)
  next
    case 2
    then obtain s where "wf_channel_sequence s" "\<not> sl_haveSequence l"
      "l' = l\<lparr>sl_decoded := (sl_decoded l)\<lparr>sm_sequence := s\<rparr>, sl_haveSequence := True\<rparr>"
      using assms(2) by (auto simp: decodeSync_body_def decodeSync_type18_def split: if_splits prod.splits
          SyncDecode.splits dest: decodeChannelSequence_wf)
    with 2 assms(1) show ?thesis
      by (simp add: decode_inv_def Let_def wf_sync_params_cong clock_fields_of_def)
  next
    case 3
    let ?p = "tlv_data t"
    have "l' = l\<lparr>sl_decoded := (sl_decoded l)\<lparr>sm_electionPresent := True, sm_syncAddress := piece 6 6 ?p,
        sm_masterCounter := le32 ?p 12, sm_height := le32 ?p 16, sm_masterMetric := le32 ?p 20,
        sm_selfMetric := le32 ?p 24, sm_selfCounter := le32 ?p 36\<rparr>, sl_electedMaster := piece 0 6 ?p\<rparr>"
      "\<not> sm_electionPresent (sl_decoded l)" "40 \<le> length ?p" "unicast (piece 0 6 ?p)" "unicast (piece 6 6 ?p)"
      using 3 assms(2) by (simp_all add: decodeSync_body_def decodeSync_type24_def Let_def split: if_splits)
    with 3 assms(1) show ?thesis
      by (simp add: decode_inv_def Let_def wf_sync_params_cong clock_fields_of_def)
  next
    case 4
    let ?p = "tlv_data t"
    have "l' = l\<lparr>sl_decoded := (sl_decoded l)\<lparr>sm_versionPresent := True, sm_version := ?p ! 0,
        sm_deviceClass := ?p ! 1\<rparr>\<rparr>" "\<not> sm_versionPresent (sl_decoded l)"
      using 4 assms(2) by (simp_all add: decodeSync_body_def decodeSync_type21_def split: if_splits)
    with 4 assms(1) show ?thesis
      by (simp add: decode_inv_def Let_def wf_sync_params_cong clock_fields_of_def)
  next
    case 5
    with assms show ?thesis by (simp add: decodeSync_body_def decode_inv_def Let_def)
  qed
qed

lemma decode_inv_init: "decode_inv [] (SyncLocals0 k b)"
  by (simp add: decode_inv_def SyncLocals0_def SyncMessage0_def)

lemma decode_inv_finish:
  assumes "decode_inv ts l" and "decodeSync_finish l = (SyncValid, m)"
  shows "wf_sync m \<and> sl_haveSync l \<and> clock_fields_of (tlv_data (hd (typed 4 ts))) m"
proof -
  define d where "d = sl_decoded l"
  define d1 where "d1 = (if sm_electionPresent d then d\<lparr>sm_master := sl_electedMaster l\<rparr> else d)"
  define d2 where "d2 = (if \<not> sl_haveSequence l then d1\<lparr>sm_sequence := sl_embedded l\<rparr> else d1)"
  have m: "m = d2" and have': "sl_haveSync l" "sl_haveSequence l \<or> sl_haveEmbedded l"
    "cs_stride (sm_sequence d2) = sm_presence d2"
    using assms(2) unfolding decodeSync_finish_def Let_def d_def [symmetric] d1_def [symmetric] d2_def [symmetric]
    by (auto split: if_splits)
  have inv: "wf_sync_params d" "clock_fields_of (tlv_data (hd (typed 4 ts))) d" "sm_master d = sm_syncMaster d"
    "33 \<le> length (tlv_data (hd (typed 4 ts)))" "length (sl_electedMaster l) = 6" "length (sm_syncAddress d) = 6"
    "sl_haveSequence l \<Longrightarrow> wf_channel_sequence (sm_sequence d)"
    "sl_haveEmbedded l \<Longrightarrow> wf_channel_sequence (sl_embedded l)"
    "sm_electionPresent d \<Longrightarrow> unicast (sl_electedMaster l) \<and> unicast (sm_syncAddress d)"
    using assms(1) have'(1) by (simp_all add: decode_inv_def Let_def d_def)
  have seq: "wf_channel_sequence (sm_sequence d2)"
    using have'(2) inv(7,8) by (auto simp: d2_def d1_def)
  have "length (sm_master d) = 6 \<and> unicast (sm_master d)"
    using inv(1-4) by (auto simp: wf_sync_params_def clock_fields_of_def)
  then have "length (sm_master d2) = 6 \<and> unicast (sm_master d2)"
    using inv(5,9) by (simp add: d2_def d1_def)
  moreover have "wf_sync_params d2" "clock_fields_of (tlv_data (hd (typed 4 ts))) d2"
    "sm_syncAddress d2 = sm_syncAddress d" "sm_electionPresent d2 = sm_electionPresent d"
    using inv(1,2) by (simp_all add: d2_def d1_def wf_sync_params_cong clock_fields_of_def)
  ultimately show ?thesis
    using m have' seq inv(6,9) by (simp add: wf_sync_def)
qed

lemma decodeSync_body_not_valid: "decodeSync_body t l \<noteq> Inl SyncValid"
  by (auto simp: decodeSync_body_def decodeSync_type4_def decodeSync_type18_def decodeSync_type24_def
      decodeSync_type21_def Let_def split: prod.splits SyncDecode.splits)

lemma decodeSyncAction_ValidD:
  assumes "decodeSyncAction (Some b) = (SyncValid, m)"
  obtains ts l where "awdl_header b" "drop 16 b = encode_tlvs ts" "b ! 5 = 0x10" "b ! 6 = 0 \<or> b ! 6 = 3"
    "for_each decodeSync_body ts (SyncLocals0 (b ! 6) b) = Inr l" "decodeSync_finish l = (SyncValid, m)"
proof -
  obtain envelope where env: "parseAction (Some b) = (ParseValid, envelope)"
    using assms by (auto simp: decodeSyncAction_def split: prod.splits ParseResult.splits)
  then obtain us where us: "awdl_header b" "envelope = action_info b us" using parseAction_ValidD by blast
  obtain l c where l: "cursor_while decodeSync_body (cursor_at (drop 16 b)) (SyncLocals0 (b ! 6) b) = Inr (l, c)"
    "\<not> cur_malformed c" "decodeSync_finish l = (SyncValid, m)" "b ! 5 = 0x10" "b ! 6 = 0 \<or> b ! 6 = 3"
    using assms env us
    by (auto simp: decodeSyncAction_def cursor_at_drop action_info_def split: if_splits sum.splits
        dest: cursor_while_InlD simp: decodeSync_body_not_valid)
  then obtain ts where "drop 16 b = encode_tlvs ts" "for_each decodeSync_body ts (SyncLocals0 (b ! 6) b) = Inr l"
    using cursor_while_InrD [OF l(1,2)] by auto
  with l us that show thesis by blast
qed

lemma decodeSyncAction_facts:
  assumes "decodeSyncAction (Some b) = (SyncValid, m)"
  obtains ts l where "awdl_header b" "drop 16 b = encode_tlvs ts" "decode_inv ts l" "wf_sync m"
    "sl_haveSync l" "clock_fields_of (tlv_data (hd (typed 4 ts))) m"
proof -
  obtain ts l where ts: "awdl_header b" "drop 16 b = encode_tlvs ts"
    "for_each decodeSync_body ts (SyncLocals0 (b ! 6) b) = Inr l" "decodeSync_finish l = (SyncValid, m)"
    using decodeSyncAction_ValidD [OF assms] by metis
  have inv: "decode_inv ts l"
    using ts(3) decode_inv_init by (rule for_each_invariant) (auto intro: decodeSync_body_inv)
  with decode_inv_finish [OF this ts(4)] ts(1,2) that show thesis by blast
qed

lemma decodeSyncAction_wf: "decodeSyncAction (Some b) = (SyncValid, m) \<Longrightarrow> wf_sync m"
  by (erule decodeSyncAction_facts)

text \<open>
  C11: a synchronization body that decodes as valid carries exactly one synchronization TLV and at most
  one channel sequence, election and version TLV; the clock fields of the record are the bytes of that
  synchronization TLV, and the record is well formed: the presence is 1, 2, 4, 8 or 16, the periods are
  in range, countdown and common window fit in the advertised period, the sixteen channels are at most
  196 with an operating class of their band, the stride equals the presence, and every address that an
  election uses is unicast.
\<close>

theorem decodeSyncAction_sound:
  assumes "decodeSyncAction (Some b) = (SyncValid, m)"
  shows "wf_sync m \<and> (\<exists>ts t. awdl_header b \<and> drop 16 b = encode_tlvs ts \<and> typed 4 ts = [t] \<and>
     clock_fields_of (tlv_data t) m \<and>
     length (typed 18 ts) \<le> 1 \<and> length (typed 24 ts) \<le> 1 \<and> length (typed 21 ts) \<le> 1)"
proof -
  obtain ts l where f: "awdl_header b" "drop 16 b = encode_tlvs ts" "decode_inv ts l" "wf_sync m"
    "sl_haveSync l" "clock_fields_of (tlv_data (hd (typed 4 ts))) m"
    using decodeSyncAction_facts [OF assms] .
  then obtain t where "typed 4 ts = [t]" by (auto simp: decode_inv_def Let_def length_Suc_conv)
  moreover have "length (typed 18 ts) \<le> 1 \<and> length (typed 24 ts) \<le> 1 \<and> length (typed 21 ts) \<le> 1"
    using f(3) by (simp add: decode_inv_def Let_def split: if_splits)
  ultimately show ?thesis using f by auto
qed

definition sample_psf :: bytes where
  "sample_psf = [127, 0, 0x17, 0xf2, 8, 0x10, 3, 0] @ put32 1000 @ put32 900 @
     [4, 55, 0, 44] @ put16 64 @ [44, 0] @ put16 16 @ put16 110 @ put16 0 @ put16 16 @ put16 16 @ put16 16 @
     [3, 3, 3, 3] @ [2, 0, 0, 0, 0, 9] @ [4, 0] @ put16 8 @ put16 8 @
     [15, 0, 0, 3, 0xff, 0xff] @ replicate 16 44"

theorem decodeSyncAction_sound_witness:
  "fst (decodeSyncAction (Some sample_psf)) = SyncValid \<and> wf_sync (snd (decodeSyncAction (Some sample_psf)))"
proof -
  have valid: "fst (decodeSyncAction (Some sample_psf)) = SyncValid" by code_simp
  then have "decodeSyncAction (Some sample_psf) = (SyncValid, snd (decodeSyncAction (Some sample_psf)))"
    by (simp add: prod_eq_iff)
  with valid decodeSyncAction_sound show ?thesis by blast
qed

end
