(* ===== verification/Awdl_Election.thy ===== *)
theory Awdl_Election
  imports Awdl_Sync
begin

text \<open>
  The election and clock state of an AWDL node (\<open>include/AWDL/RTWAwdlElection.hpp\<close>): advertisements,
  the peer table, deferred controls, the election with its clock discipline, and the reception of
  action frames. Methods of \<open>Election::State\<close> are functions on the record \<open>ElectionState\<close>; the
  pieces of the long method \<open>elect\<close> are separate definitions in the order of its text. Signed
  32-bit intermediate values that cannot leave the 32-bit range are integers.
\<close>

section \<open>Sequences and advertisements\<close>

definition maxPeers :: nat where "maxPeers = 16"
definition slots :: nat where "slots = 16"
definition peerLifetimeUs :: u64 where "peerLifetimeUs = 3000000"
definition awUs :: u64 where "awUs = 16 * 1024"

record Sequence =
  sq_channels :: bytes
  sq_count :: u8
  sq_step :: u8

definition validPresence :: "u32 \<Rightarrow> bool" where
  "validPresence n \<longleftrightarrow> n \<noteq> 0 \<and> n \<le> 16 \<and> n AND (n - 1) = 0"

definition validSequence :: "Sequence \<Rightarrow> bool" where
  "validSequence s \<longleftrightarrow> sq_count s = of_nat slots \<and> validPresence (ucast (sq_step s) + 1) \<and>
     list_all (\<lambda>i. sq_channels s ! i \<le> 196) [0..<unat (sq_count s)]"

record Advertisement =
  ad_sequence :: Sequence
  ad_master :: bytes
  ad_sync :: bytes
  ad_period :: u16
  ad_counter :: u16
  ad_down :: u16
  ad_presence :: u8
  ad_metric :: u32
  ad_distance :: u32
  ad_masterCounter :: u32
  ad_selfCounter :: u32

definition Sequence0 :: Sequence where
  "Sequence0 = \<lparr>sq_channels = zeros slots, sq_count = 0, sq_step = 0\<rparr>"

definition Advertisement0 :: Advertisement where
  "Advertisement0 = \<lparr>ad_sequence = Sequence0, ad_master = zeros 6, ad_sync = zeros 6, ad_period = 0, ad_counter = 0,
     ad_down = 0, ad_presence = 0, ad_metric = 0, ad_distance = 0, ad_masterCounter = 0, ad_selfCounter = 0\<rparr>"

definition parseAdvertisement :: "bytes option \<Rightarrow> Advertisement option" where
  "parseAdvertisement frame =
     (if fst (parseFrame frame) \<noteq> ParseValid then None
      else let f = the frame in
        if \<not> unicast (drop 10 f) \<or> piece 16 6 f \<noteq> awdl_bssid then None
        else (case decodeSyncAction (Some (drop 24 f)) of
          (SyncValid, decoded) \<Rightarrow>
            if sm_periodTu decoded \<noteq> 16 \<or> sm_countdownTu decoded = 0 \<or> sm_height decoded > 10 \<or>
               (ucast (sm_counter decoded) :: u32) mod ucast (sm_presence decoded) \<noteq>
                 (ucast (sm_presence decoded) * 16 - ucast (sm_countdownTu decoded)) div 16
            then None
            else Some \<lparr>ad_sequence = \<lparr>sq_channels = map (\<lambda>i. cs_channel (sm_sequence decoded) ! i) [0..<slots],
                         sq_count = cs_count (sm_sequence decoded), sq_step = cs_stride (sm_sequence decoded) - 1\<rparr>,
                       ad_master = sm_master decoded,
                       ad_sync = (if sm_electionPresent decoded then sm_syncAddress decoded else piece 10 6 f),
                       ad_period = sm_periodTu decoded, ad_counter = sm_counter decoded, ad_down = sm_countdownTu decoded,
                       ad_presence = sm_presence decoded, ad_metric = sm_masterMetric decoded,
                       ad_distance = sm_height decoded, ad_masterCounter = sm_masterCounter decoded,
                       ad_selfCounter = sm_selfCounter decoded\<rparr>
        | _ \<Rightarrow> None))"

section \<open>Peers\<close>

record Peer =
  pe_mac :: bytes
  pe_advertisement :: Advertisement
  pe_seen :: u64
  pe_epoch :: u64
  pe_baseCounter :: u16
  pe_used :: bool

definition Peer0 :: Peer where
  "Peer0 = \<lparr>pe_mac = zeros 6, pe_advertisement = Advertisement0, pe_seen = 0, pe_epoch = 0, pe_baseCounter = 0, pe_used = False\<rparr>"

text \<open>\<open>now < seen || now - seen > peerLifetimeUs\<close>, the staleness test the methods share.\<close>

definition stale :: "u64 \<Rightarrow> Peer \<Rightarrow> bool" where
  "stale now p \<longleftrightarrow> now < pe_seen p \<or> now - pe_seen p > peerLifetimeUs"

definition Peer_channel :: "Peer \<Rightarrow> u64 \<Rightarrow> u8" where
  "Peer_channel p now =
     (let s = ad_sequence (pe_advertisement p) in
      if \<not> pe_used p \<or> now < pe_epoch p \<or> stale now p \<or> \<not> validSequence s then 0
      else let counter = pe_baseCounter p + ucast ((now - pe_epoch p) div awUs) in
        sq_channels s ! ((unat counter div (unat (sq_step s) + 1)) mod unat (sq_count s)))"

section \<open>The node state\<close>

record Controls =
  ct_sequence :: Sequence
  ct_presence :: u8
  ct_role :: u8
  ct_forced :: bytes
  ct_parent :: bytes
  ct_parentSelected :: bool

record ElectionState =
  es_mac :: bytes
  es_master :: bytes
  es_sync :: bytes
  es_forcedSync :: bytes
  es_sequence :: Sequence
  es_ownSequence :: Sequence
  es_peers :: "Peer list"
  es_epoch :: u64
  es_baseCounter :: u16
  es_dataCounter :: u16
  es_frameCounter :: u16
  es_psfPeriod :: u16
  es_metric :: u32
  es_masterMetric :: u32
  es_distance :: u32
  es_masterCounter :: u32
  es_selfCounter :: u32
  es_synchronized :: bool
  es_electionEpoch :: u64
  es_presence :: u8
  es_ownPresence :: u8
  es_syncRole :: u8
  es_minExtension :: bytes
  es_nativeElectionManaged :: bool
  es_nativeParentSelected :: bool
  es_nativeParent :: bytes
  es_clockSampleAt :: u64
  es_clockCorrections :: u64
  es_clockRejected :: u64
  es_clockHoldUntil :: u64
  es_clockDeferredAt :: u64
  es_clockDeferred :: u64
  es_nativeClockSelected :: bool
  es_nativeTimelineStarted :: bool
  es_controlsHeld :: bool
  es_controlsDirty :: bool
  es_nativeClockHoldover :: bool
  es_nativeClockValidated :: bool
  es_nativeClockAcquisitionPending :: bool
  es_clockSampleRejected :: bool
  es_nativeHoldoverTransitions :: u64
  es_nativeClockAcquisitions :: u64
  es_clockParent :: bytes
  es_clockRoot :: bytes
  es_acquisitionParent :: bytes
  es_acquisitionRoot :: bytes
  es_acquisitionRootKnown :: bool
  es_controlsDeferred :: u64
  es_pendingControls :: Controls

definition Controls0 :: Controls where
  "Controls0 = \<lparr>ct_sequence = Sequence0, ct_presence = 0, ct_role = 0, ct_forced = zeros 6, ct_parent = zeros 6,
     ct_parentSelected = False\<rparr>"

definition ElectionState0 :: ElectionState where
  "ElectionState0 = \<lparr>es_mac = zeros 6, es_master = zeros 6, es_sync = zeros 6, es_forcedSync = zeros 6,
     es_sequence = Sequence0, es_ownSequence = Sequence0, es_peers = replicate maxPeers Peer0, es_epoch = 0,
     es_baseCounter = 0, es_dataCounter = 0, es_frameCounter = 0, es_psfPeriod = 0, es_metric = 0,
     es_masterMetric = 0, es_distance = 0, es_masterCounter = 0, es_selfCounter = 0, es_synchronized = False,
     es_electionEpoch = 0, es_presence = 0, es_ownPresence = 0, es_syncRole = 0, es_minExtension = zeros 4,
     es_nativeElectionManaged = False, es_nativeParentSelected = False, es_nativeParent = zeros 6,
     es_clockSampleAt = 0, es_clockCorrections = 0, es_clockRejected = 0, es_clockHoldUntil = 0,
     es_clockDeferredAt = 0, es_clockDeferred = 0, es_nativeClockSelected = False,
     es_nativeTimelineStarted = False, es_controlsHeld = False, es_controlsDirty = False,
     es_nativeClockHoldover = False, es_nativeClockValidated = False, es_nativeClockAcquisitionPending = False,
     es_clockSampleRejected = False, es_nativeHoldoverTransitions = 0, es_nativeClockAcquisitions = 0,
     es_clockParent = zeros 6, es_clockRoot = zeros 6, es_acquisitionParent = zeros 6, es_acquisitionRoot = zeros 6,
     es_acquisitionRootKnown = False, es_controlsDeferred = 0, es_pendingControls = Controls0\<rparr>"

section \<open>Clock and schedule queries\<close>

definition es_elapsed :: "ElectionState \<Rightarrow> u64 \<Rightarrow> u64" where
  "es_elapsed s now = (if now \<ge> es_epoch s then now - es_epoch s else 0)"

definition State_counter :: "ElectionState \<Rightarrow> u64 \<Rightarrow> u16" where
  "State_counter s now = es_baseCounter s + ucast (es_elapsed s now div awUs)"

definition State_untilNext :: "ElectionState \<Rightarrow> u64 \<Rightarrow> u32" where
  "State_untilNext s now =
     (if \<not> validPresence (ucast (es_presence s)) then 0
      else let period = ucast (es_presence s) * ucast awUs;
               elapsed = es_elapsed s now in
        period - ucast ((ucast (es_baseCounter s mod ucast (es_presence s)) * awUs + elapsed mod ucast period) mod ucast period))"

definition State_radioScheduleReady :: "ElectionState \<Rightarrow> bool" where
  "State_radioScheduleReady s \<longleftrightarrow> es_syncRole s \<noteq> 2 \<or> es_synchronized s \<or>
     (es_nativeClockHoldover s \<and> es_nativeElectionManaged s \<and> es_nativeClockSelected s \<and>
      es_nativeClockValidated s \<and> es_nativeParentSelected s \<and> es_clockParent s = es_nativeParent s)"

definition sequence_channel :: "Sequence \<Rightarrow> u16 \<Rightarrow> u8" where
  "sequence_channel q counter = sq_channels q ! ((unat counter div (unat (sq_step q) + 1)) mod unat (sq_count q))"

definition State_channel :: "ElectionState \<Rightarrow> u64 \<Rightarrow> u8" where
  "State_channel s now =
     (if \<not> State_radioScheduleReady s then 0
      else if validSequence (es_sequence s) then sequence_channel (es_sequence s) (State_counter s now) else 0)"

definition State_find :: "ElectionState \<Rightarrow> bytes option \<Rightarrow> nat option" where
  "State_find s address = (case address of None \<Rightarrow> None | Some a \<Rightarrow>
     List.find (\<lambda>i. pe_used (es_peers s ! i) \<and> pe_mac (es_peers s ! i) = a) [0..<maxPeers])"

section \<open>Controls\<close>

definition holdClock :: "u64 \<Rightarrow> ElectionState \<Rightarrow> ElectionState" where
  "holdClock until s = s\<lparr>es_clockHoldUntil := until\<rparr>"

definition holdControls :: "ElectionState \<Rightarrow> ElectionState" where
  "holdControls s =
     (if es_controlsHeld s then s
      else s\<lparr>es_pendingControls := \<lparr>ct_sequence = es_ownSequence s, ct_presence = es_ownPresence s,
               ct_role = es_syncRole s, ct_forced = es_forcedSync s, ct_parent = es_nativeParent s,
               ct_parentSelected = es_nativeParentSelected s\<rparr>,
             es_controlsHeld := True, es_controlsDirty := False\<rparr>)"

definition discardControls :: "ElectionState \<Rightarrow> ElectionState" where
  "discardControls s = s\<lparr>es_controlsHeld := False, es_controlsDirty := False\<rparr>"

definition requestedRole :: "ElectionState \<Rightarrow> u8" where
  "requestedRole s = (if es_controlsHeld s then ct_role (es_pendingControls s) else es_syncRole s)"

definition requestedParentIs :: "ElectionState \<Rightarrow> bytes \<Rightarrow> bool" where
  "requestedParentIs s address =
     (if es_controlsHeld s then ct_parentSelected (es_pendingControls s) \<and> ct_parent (es_pendingControls s) = address
      else es_nativeParentSelected s \<and> es_nativeParent s = address)"

definition deferControls :: "Controls \<Rightarrow> ElectionState \<Rightarrow> ElectionState" where
  "deferControls c s = s\<lparr>es_pendingControls := c, es_controlsDirty := True, es_controlsDeferred := es_controlsDeferred s + 1\<rparr>"

definition selectNativeParent :: "bytes \<Rightarrow> bytes option \<Rightarrow> bool \<Rightarrow> ElectionState \<Rightarrow> ElectionState" where
  "selectNativeParent address root acquire s =
     (let keepRoot = (root = None \<and> es_nativeClockAcquisitionPending s \<and> es_acquisitionParent s = address);
          pending = (acquire \<or> \<not> es_nativeClockSelected s \<or> es_clockParent s \<noteq> address \<or>
                     (case root of None \<Rightarrow> False | Some r \<Rightarrow> es_clockRoot s \<noteq> r));
          s = s\<lparr>es_nativeElectionManaged := True,
                es_nativeClockAcquisitionPending := (if keepRoot then True else pending),
                es_acquisitionParent := address,
                es_acquisitionRootKnown := (if keepRoot then es_acquisitionRootKnown s else root \<noteq> None),
                es_acquisitionRoot := (case root of None \<Rightarrow> es_acquisitionRoot s | Some r \<Rightarrow> r)\<rparr> in
      if es_controlsHeld s
      then (let c = es_pendingControls s in
            if \<not> ct_parentSelected c \<or> ct_parent c \<noteq> address
            then deferControls (c\<lparr>ct_parent := address, ct_parentSelected := True\<rparr>) s else s)
      else s\<lparr>es_nativeClockHoldover := (if es_nativeParent s \<noteq> address then False else es_nativeClockHoldover s),
             es_nativeParent := address, es_nativeParentSelected := True\<rparr>)"

definition clearNativeParent :: "ElectionState \<Rightarrow> ElectionState" where
  "clearNativeParent s =
     (let s = s\<lparr>es_nativeClockAcquisitionPending := False, es_acquisitionRootKnown := False\<rparr> in
      if es_controlsHeld s
      then (let c = es_pendingControls s in
            if ct_parentSelected c then deferControls (c\<lparr>ct_parentSelected := False\<rparr>) s else s)
      else s\<lparr>es_nativeParentSelected := False, es_nativeClockSelected := False, es_nativeClockValidated := False,
             es_nativeClockHoldover := False, es_clockSampleRejected := False, es_synchronized := False,
             es_nativeParent := zeros 6, es_clockParent := zeros 6, es_clockRoot := zeros 6,
             es_master := es_mac s, es_sync := es_mac s, es_sequence := es_ownSequence s, es_presence := es_ownPresence s,
             es_masterMetric := es_metric s, es_masterCounter := es_selfCounter s, es_distance := 0\<rparr>)"

definition State_init :: "bytes option \<Rightarrow> Sequence \<Rightarrow> u64 \<Rightarrow> u32 \<Rightarrow> bool \<Rightarrow> ElectionState \<Rightarrow> bool \<times> ElectionState" where
  "State_init address initial now initialMetric nativeManaged s =
     (case address of None \<Rightarrow> (False, s) | Some a \<Rightarrow>
      if \<not> unicast a \<or> \<not> validSequence initial then (False, s)
      else (True, ElectionState0\<lparr>es_mac := a, es_master := a, es_sync := a,
              es_forcedSync := a, es_epoch := now, es_electionEpoch := now, es_metric := initialMetric,
              es_masterMetric := initialMetric, es_presence := sq_step initial + 1, es_ownPresence := sq_step initial + 1,
              es_syncRole := 1, es_psfPeriod := 110, es_sequence := initial, es_ownSequence := initial,
              es_nativeElectionManaged := nativeManaged, es_minExtension := replicate 4 3\<rparr>))"

definition setSyncRole :: "u32 \<Rightarrow> bytes option \<Rightarrow> ElectionState \<Rightarrow> bool \<times> ElectionState" where
  "setSyncRole role address s =
     (case address of None \<Rightarrow> (False, s) | Some a \<Rightarrow>
      if role < 1 \<or> role > 3 \<or> \<not> unicast a \<or>
         (if role = 2 then a = es_mac s
          else if role = 3 then a \<noteq> es_mac s
          else \<not> es_nativeElectionManaged s \<and> a \<noteq> es_mac s)
      then (False, s)
      else if es_controlsHeld s
      then (True, let c = es_pendingControls s in
             if ct_role c \<noteq> ucast role \<or> ct_forced c \<noteq> a
             then deferControls (c\<lparr>ct_role := ucast role, ct_forced := a\<rparr>) s else s)
      else if es_syncRole s = ucast role \<and> es_forcedSync s = a then (True, s)
      else let s = holdClock 0 s in
        (True, s\<lparr>es_syncRole := ucast role, es_forcedSync := a, es_synchronized := False, es_nativeClockHoldover := False,
                 es_sequence := es_ownSequence s, es_presence := es_ownPresence s, es_master := es_mac s,
                 es_sync := es_mac s, es_masterMetric := es_metric s, es_masterCounter := es_selfCounter s, es_distance := 0\<rparr>))"

definition setPresence :: "u8 \<Rightarrow> u64 \<Rightarrow> ElectionState \<Rightarrow> bool \<times> ElectionState" where
  "setPresence value now s =
     (if \<not> validPresence (ucast value) then (False, s)
      else if es_controlsHeld s
      then (True, let c = es_pendingControls s in
             if ct_presence c \<noteq> value
             then deferControls (c\<lparr>ct_presence := value, ct_sequence := (ct_sequence c)\<lparr>sq_step := value - 1\<rparr>\<rparr>) s else s)
      else let s = s\<lparr>es_ownPresence := value, es_ownSequence := (es_ownSequence s)\<lparr>sq_step := value - 1\<rparr>\<rparr> in
        (True, if es_synchronized s then s
               else s\<lparr>es_baseCounter := State_counter s now, es_epoch := now - es_elapsed s now mod awUs,
                      es_presence := value, es_sequence := (es_sequence s)\<lparr>sq_step := value - 1\<rparr>\<rparr>))"

definition setSequence :: "Sequence \<Rightarrow> u64 \<Rightarrow> ElectionState \<Rightarrow> bool \<times> ElectionState" where
  "setSequence value now s =
     (if \<not> validSequence value \<or> \<not> validPresence (ucast (sq_step value) + 1) then (False, s)
      else (True,
        if es_controlsHeld s
        then (let c = es_pendingControls s in
              if ct_sequence c \<noteq> value
              then deferControls (c\<lparr>ct_sequence := value, ct_presence := sq_step value + 1\<rparr>) s else s)
        else let s = s\<lparr>es_ownSequence := value\<rparr>;
                 s = snd (setPresence (sq_step value + 1) now s) in
          s\<lparr>es_sequence := value, es_presence := sq_step value + 1\<rparr>))"

definition setSocialChannel :: "nat \<Rightarrow> u8 \<Rightarrow> u64 \<Rightarrow> ElectionState \<Rightarrow> ElectionState" where
  "setSocialChannel index channel now s =
     (let desired = (if es_controlsHeld s then ct_sequence (es_pendingControls s) else es_ownSequence s) in
      if index \<ge> unat (sq_count desired) then s
      else snd (setSequence (desired\<lparr>sq_channels := (sq_channels desired)[index := channel]\<rparr>) now s))"

section \<open>The election\<close>

text \<open>Only a top master advances its own election counter.\<close>

definition elect_counter :: "u64 \<Rightarrow> ElectionState \<Rightarrow> ElectionState" where
  "elect_counter now s =
     (if now < es_electionEpoch s \<or> es_synchronized s \<or> es_nativeClockHoldover s then s\<lparr>es_electionEpoch := now\<rparr>
      else let intervals = (now - es_electionEpoch s) div 3140000 in
        s\<lparr>es_selfCounter := es_selfCounter s + ucast intervals,
          es_electionEpoch := es_electionEpoch s + intervals * 3140000\<rparr>)"

text \<open>The rank comparisons of an unmanaged election: against this node, and between two candidates.\<close>

definition outranks_self :: "ElectionState \<Rightarrow> Peer \<Rightarrow> bool" where
  "outranks_self s p \<longleftrightarrow>
     (let a = pe_advertisement p; rank = sint (ad_masterCounter a - es_selfCounter s) in
      \<not> (ad_metric a < es_metric s \<or>
         (ad_metric a = es_metric s \<and>
          (rank < 0 \<or> (rank = 0 \<and> (ad_distance a \<noteq> 0 \<or> memcmp (pe_mac p) (es_mac s) \<le> 0))))))"

definition outranks_peer :: "Peer \<Rightarrow> Peer \<Rightarrow> bool" where
  "outranks_peer p q \<longleftrightarrow>
     (let a = pe_advertisement p; b = pe_advertisement q; rank = sint (ad_masterCounter a - ad_masterCounter b) in
      ad_metric a > ad_metric b \<or>
      (ad_metric a = ad_metric b \<and>
       (rank > 0 \<or> (rank = 0 \<and>
         (ad_distance a < ad_distance b \<or>
          (ad_distance a = ad_distance b \<and> memcmp (pe_mac p) (pe_mac q) > 0))))))"

definition elect_candidate :: "u64 \<Rightarrow> nat \<Rightarrow> ElectionState \<times> nat option \<Rightarrow> ElectionState \<times> nat option" where
  "elect_candidate now i = (\<lambda>(s, best).
     let p0 = es_peers s ! i;
         p = (if pe_used p0 \<and> stale now p0 then p0\<lparr>pe_used := False\<rparr> else p0);
         s = s\<lparr>es_peers := (es_peers s)[i := p]\<rparr>;
         a = pe_advertisement p in
     if \<not> pe_used p \<or> ad_master a = es_mac s then (s, best)
     else if ad_distance a \<ge> 10 \<or> ad_sync a = es_mac s then (s, best)
     else if es_syncRole s = 3 then (s, best)
     else if es_nativeElectionManaged s then (s, if pe_mac p = es_nativeParent s then Some i else best)
     else if es_syncRole s = 2 then (s, if pe_mac p = es_forcedSync s then Some i else best)
     else if \<not> outranks_self s p then (s, best)
     else (case best of
        None \<Rightarrow> (s, Some i)
      | Some b \<Rightarrow> (s, if outranks_peer p (es_peers s ! b) then Some i else best)))"

definition elect_best :: "u64 \<Rightarrow> ElectionState \<Rightarrow> ElectionState \<times> nat option" where
  "elect_best now s = fold (elect_candidate now) [0..<maxPeers] (s, None)"

text \<open>No candidate: hold the native clock over, or fall back to this node as its own master.\<close>

definition elect_none :: "ElectionState \<Rightarrow> ElectionState" where
  "elect_none s =
     (if es_nativeElectionManaged s \<and> es_nativeClockSelected s \<and> es_nativeClockValidated s \<and>
         es_nativeParentSelected s \<and> es_syncRole s \<noteq> 3 \<and> es_clockParent s = es_nativeParent s
      then s\<lparr>es_nativeHoldoverTransitions := es_nativeHoldoverTransitions s + (if es_nativeClockHoldover s then 0 else 1),
             es_nativeClockHoldover := True, es_synchronized := False, es_sequence := es_ownSequence s,
             es_presence := es_ownPresence s, es_master := es_clockRoot s, es_sync := es_clockParent s\<rparr>
      else let s = s\<lparr>es_nativeClockHoldover := False\<rparr>;
               s = (if es_synchronized s
                    then holdClock 0 (s\<lparr>es_sequence := es_ownSequence s, es_presence := es_ownPresence s\<rparr>) else s) in
        s\<lparr>es_synchronized := False, es_masterMetric := es_metric s, es_masterCounter := es_selfCounter s,
          es_distance := 0, es_master := es_mac s, es_sync := es_mac s\<rparr>)"

definition sameClock :: "Peer \<Rightarrow> ElectionState \<Rightarrow> bool" where
  "sameClock p s =
     (if es_nativeElectionManaged s
      then es_nativeClockSelected s \<and> es_clockParent s = pe_mac p \<and> es_clockRoot s = ad_master (pe_advertisement p)
      else es_synchronized s \<and> es_sync s = pe_mac p \<and> es_master s = ad_master (pe_advertisement p))"

text \<open>An observation of a clock tree that native has not selected.\<close>

definition enterHoldover :: "ElectionState \<Rightarrow> ElectionState" where
  "enterHoldover s =
     s\<lparr>es_nativeHoldoverTransitions := es_nativeHoldoverTransitions s + (if es_nativeClockHoldover s then 0 else 1),
       es_nativeClockHoldover := True\<rparr>"

definition elect_reject :: "Peer \<Rightarrow> ElectionState \<Rightarrow> ElectionState" where
  "elect_reject p s =
     (let s = (if pe_seen p > es_clockSampleAt s
               then s\<lparr>es_clockSampleAt := pe_seen p, es_clockRejected := es_clockRejected s + 1\<rparr> else s) in
      enterHoldover (s\<lparr>es_clockSampleRejected := True, es_synchronized := False\<rparr>))"

definition elect_defer :: "Peer \<Rightarrow> ElectionState \<Rightarrow> ElectionState" where
  "elect_defer p s =
     (if pe_seen p > es_clockDeferredAt s
      then s\<lparr>es_clockDeferredAt := pe_seen p, es_clockDeferred := es_clockDeferred s + 1\<rparr> else s)"

definition elect_commit :: "bool \<Rightarrow> Peer \<Rightarrow> ElectionState \<Rightarrow> ElectionState" where
  "elect_commit same p s =
     (let a = pe_advertisement p;
          s = s\<lparr>es_nativeClockHoldover := es_clockSampleRejected s, es_synchronized := \<not> es_clockSampleRejected s,
                es_master := ad_master a, es_sync := pe_mac p,
                es_sequence := (if es_nativeElectionManaged s then es_ownSequence s else ad_sequence a),
                es_presence := (if es_nativeElectionManaged s then es_ownPresence s else ad_presence a),
                es_masterMetric := ad_metric a, es_masterCounter := ad_masterCounter a,
                es_distance := ad_distance a + 1\<rparr> in
      if es_nativeElectionManaged s \<and> \<not> same
      then s\<lparr>es_nativeClockSelected := True, es_nativeClockValidated := False, es_clockParent := pe_mac p,
             es_clockRoot := ad_master a\<rparr>
      else s)"

definition elect_acquire :: "Peer \<Rightarrow> ElectionState \<Rightarrow> ElectionState" where
  "elect_acquire p s =
     (let s = (holdClock 0 s)\<lparr>es_epoch := pe_epoch p, es_baseCounter := pe_baseCounter p, es_clockSampleAt := pe_seen p\<rparr> in
      if es_nativeElectionManaged s
      then s\<lparr>es_nativeClockValidated := True, es_nativeClockAcquisitionPending := False, es_clockSampleRejected := False,
             es_nativeClockHoldover := False, es_synchronized := True,
             es_nativeClockAcquisitions := es_nativeClockAcquisitions s + 1\<rparr>
      else s)"

text \<open>The distance of the peer's clock from this node's, in microseconds; it fits 32 signed bits.\<close>

definition clock_delta :: "u64 \<Rightarrow> Peer \<Rightarrow> ElectionState \<Rightarrow> int" where
  "clock_delta now p s =
     (let local = es_elapsed s now;
          remote = (if now \<ge> pe_epoch p then now - pe_epoch p else 0) in
      sint (pe_baseCounter p + ucast (remote div awUs) - State_counter s now) * 16384
      + uint (remote mod awUs) - uint (local mod awUs))"

definition clock_correct :: "u64 \<Rightarrow> int \<Rightarrow> ElectionState \<Rightarrow> ElectionState" where
  "clock_correct now correction s =
     (if correction = 0 then s
      else let base = State_counter s now;
               phase = uint (es_elapsed s now mod awUs) + correction;
               (base, phase) = (if phase < 0 then (base - 1, phase + 16384)
                                else if phase \<ge> 16384 then (base + 1, phase - 16384) else (base, phase)) in
        if now \<ge> of_int phase
        then s\<lparr>es_epoch := now - of_int phase, es_baseCounter := base, es_clockCorrections := es_clockCorrections s + 1\<rparr>
        else s)"

definition elect_slew :: "u64 \<Rightarrow> Peer \<Rightarrow> ElectionState \<Rightarrow> ElectionState" where
  "elect_slew now p s =
     (let delta = clock_delta now p s in
      if delta > 5 * 1024 \<or> delta < -5 * 1024
      then enterHoldover (s\<lparr>es_clockSampleAt := pe_seen p, es_clockRejected := es_clockRejected s + 1,
                            es_clockSampleRejected := True, es_synchronized := False\<rparr>)
      else let s = (if es_nativeElectionManaged s
                    then s\<lparr>es_nativeClockValidated := True, es_clockSampleRejected := False,
                           es_nativeClockHoldover := False, es_synchronized := True\<rparr> else s) in
        if now < es_clockHoldUntil s then elect_defer p s
        else clock_correct now (if delta > 512 then 512 else if delta < -512 then -512 else delta)
               (s\<lparr>es_clockSampleAt := pe_seen p\<rparr>))"

definition elect_apply :: "u64 \<Rightarrow> Peer \<Rightarrow> ElectionState \<Rightarrow> ElectionState" where
  "elect_apply now p s =
     (let same = sameClock p s;
          adopt = (\<not> es_nativeElectionManaged s \<or> es_nativeClockAcquisitionPending s \<or>
                   (\<not> es_nativeClockSelected s \<and> \<not> es_nativeTimelineStarted s)) in
      if es_nativeElectionManaged s \<and> es_nativeClockAcquisitionPending s \<and>
         (es_acquisitionParent s \<noteq> pe_mac p \<or>
          (es_acquisitionRootKnown s \<and> es_acquisitionRoot s \<noteq> ad_master (pe_advertisement p)))
      then s
      else if es_nativeElectionManaged s \<and> \<not> same \<and> \<not> adopt then elect_reject p s
      else if adopt \<and> es_nativeElectionManaged s \<and> now < es_clockHoldUntil s then elect_defer p s
      else let s = elect_commit same p s in
        if adopt then elect_acquire p s
        else if \<not> same \<or> pe_seen p > es_clockSampleAt s then elect_slew now p s
        else s)"

definition elect :: "u64 \<Rightarrow> ElectionState \<Rightarrow> ElectionState" where
  "elect now s =
     (if es_controlsHeld s then s
      else let s = elect_counter now s in
        if es_nativeElectionManaged s \<and> \<not> es_nativeParentSelected s then s
        else (case elect_best now s of
           (s, None) \<Rightarrow> elect_none s
         | (s, Some best) \<Rightarrow> elect_apply now (es_peers s ! best) s))"

definition commitControls :: "u64 \<Rightarrow> ElectionState \<Rightarrow> ElectionState" where
  "commitControls now s =
     (let c = es_pendingControls s;
          s = snd (setSyncRole (ucast (ct_role c)) (Some (ct_forced c)) s);
          s = snd (setSequence (ct_sequence c) now s);
          s = s\<lparr>es_nativeParent := ct_parent c, es_nativeParentSelected := ct_parentSelected c\<rparr> in
      if es_nativeElectionManaged s \<and> \<not> es_nativeParentSelected s then clearNativeParent s else s)"

definition releaseControls :: "u64 \<Rightarrow> ElectionState \<Rightarrow> bool \<times> ElectionState" where
  "releaseControls now s =
     (if \<not> es_controlsHeld s then (False, s)
      else let changed = es_controlsDirty s;
               s = s\<lparr>es_controlsHeld := False, es_controlsDirty := False\<rparr> in
        (changed, elect now (if changed then commitControls now s else s)))"

definition receive_slot :: "ElectionState \<Rightarrow> bytes \<Rightarrow> u64 \<Rightarrow> nat option" where
  "receive_slot s address now =
     (case State_find s (Some address) of
        Some i \<Rightarrow> Some i
      | None \<Rightarrow> List.find (\<lambda>i. \<not> pe_used (es_peers s ! i) \<or> stale now (es_peers s ! i)) [0..<maxPeers])"

definition receiveAction :: "bytes option \<Rightarrow> u64 \<Rightarrow> ElectionState \<Rightarrow> nat option \<times> ElectionState" where
  "receiveAction frame now s =
     (case parseAdvertisement frame of
        None \<Rightarrow> (None, s)
      | Some a \<Rightarrow>
          let f = the frame; source = piece 10 6 f in
          if source = es_mac s then (None, s)
          else let elapsed = ucast (ucast (ad_presence a) * ucast (ad_period a) - ucast (ad_down a) :: u32) * 1024 in
            if now < elapsed then (None, s)
            else (case receive_slot s source now of
               None \<Rightarrow> (None, s)
             | Some idx \<Rightarrow>
                 let p = \<lparr>pe_mac = source, pe_advertisement = a, pe_seen = now, pe_epoch = now - elapsed,
                          pe_baseCounter = ad_counter a - ad_counter a mod ucast (ad_presence a), pe_used = True\<rparr> in
                 (Some idx, elect now (s\<lparr>es_peers := (es_peers s)[idx := p]\<rparr>))))"

end
