(* ===== verification/Awdl_Election_Inv.thy ===== *)
theory Awdl_Election_Inv
  imports Awdl_Election
begin

text \<open>
  The well-formedness invariant of the election state and its preservation by every operation:
  sequences are valid and match the presence, addresses that go on the air are unicast, the peer
  table has sixteen entries whose used ones hold decoded advertisements, and the distance to the
  master is at most ten.
\<close>

section \<open>The invariant\<close>

definition addr :: "bytes \<Rightarrow> bool" where
  "addr a \<longleftrightarrow> length a = 6 \<and> unicast a"

definition wf_seq :: "Sequence \<Rightarrow> bool" where
  "wf_seq q \<longleftrightarrow> length (sq_channels q) = 16 \<and> validSequence q"

definition wf_adv :: "Advertisement \<Rightarrow> bool" where
  "wf_adv a \<longleftrightarrow> wf_seq (ad_sequence a) \<and> ad_presence a = sq_step (ad_sequence a) + 1 \<and> addr (ad_master a) \<and>
     length (ad_sync a) = 6 \<and> ad_distance a \<le> 10 \<and> ad_period a = 16 \<and> 0 < ad_down a \<and>
     unat (ad_down a) \<le> 16 * unat (ad_presence a) \<and>
     unat (ad_counter a) mod unat (ad_presence a) = (16 * unat (ad_presence a) - unat (ad_down a)) div 16"

definition wf_peer :: "Peer \<Rightarrow> bool" where
  "wf_peer p \<longleftrightarrow> (pe_used p \<longrightarrow> wf_adv (pe_advertisement p) \<and> addr (pe_mac p))"

definition wf_controls :: "Controls \<Rightarrow> bool" where
  "wf_controls c \<longleftrightarrow> wf_seq (ct_sequence c) \<and> ct_presence c = sq_step (ct_sequence c) + 1 \<and>
     ct_role c \<in> {1, 2, 3} \<and> addr (ct_forced c)"

text \<open>The part about the schedule that is in force, and the rest.\<close>

definition wf_schedule :: "ElectionState \<Rightarrow> bool" where
  "wf_schedule s \<longleftrightarrow> wf_seq (es_sequence s) \<and> es_presence s = sq_step (es_sequence s) + 1 \<and>
     addr (es_master s) \<and> addr (es_sync s) \<and> es_distance s \<le> 10"

definition wf_own :: "ElectionState \<Rightarrow> bool" where
  "wf_own s \<longleftrightarrow> addr (es_mac s) \<and> wf_seq (es_ownSequence s) \<and> es_ownPresence s = sq_step (es_ownSequence s) + 1 \<and>
     es_syncRole s \<in> {1, 2, 3} \<and> addr (es_forcedSync s) \<and> length (es_minExtension s) = 4"

definition wf_peers :: "ElectionState \<Rightarrow> bool" where
  "wf_peers s \<longleftrightarrow> length (es_peers s) = maxPeers \<and> list_all wf_peer (es_peers s)"

definition wf_clock :: "ElectionState \<Rightarrow> bool" where
  "wf_clock s \<longleftrightarrow> (es_nativeClockSelected s \<longrightarrow>
     es_nativeElectionManaged s \<and> addr (es_clockRoot s) \<and> addr (es_clockParent s))"

definition wf_pending :: "ElectionState \<Rightarrow> bool" where
  "wf_pending s \<longleftrightarrow> (es_controlsHeld s \<longrightarrow> wf_controls (es_pendingControls s))"

definition wf_state :: "ElectionState \<Rightarrow> bool" where
  "wf_state s \<longleftrightarrow> wf_schedule s \<and> wf_own s \<and> wf_peers s \<and> wf_clock s \<and> wf_pending s"

lemmas wf_defs = wf_schedule_def wf_own_def wf_peers_def wf_clock_def wf_pending_def

text \<open>Fields that the invariant does not constrain.\<close>

lemma wf_neutral [simp]:
  "wf_state (s\<lparr>es_clockSampleAt := x0\<rparr>) = wf_state s"
  "wf_state (s\<lparr>es_clockRejected := x1\<rparr>) = wf_state s"
  "wf_state (s\<lparr>es_clockSampleRejected := x2\<rparr>) = wf_state s"
  "wf_state (s\<lparr>es_synchronized := x3\<rparr>) = wf_state s"
  "wf_state (s\<lparr>es_nativeClockValidated := x4\<rparr>) = wf_state s"
  "wf_state (s\<lparr>es_nativeClockHoldover := x5\<rparr>) = wf_state s"
  "wf_state (s\<lparr>es_nativeHoldoverTransitions := x6\<rparr>) = wf_state s"
  "wf_state (s\<lparr>es_epoch := x7\<rparr>) = wf_state s"
  "wf_state (s\<lparr>es_baseCounter := x8\<rparr>) = wf_state s"
  "wf_state (s\<lparr>es_clockCorrections := x9\<rparr>) = wf_state s"
  "wf_state (s\<lparr>es_clockHoldUntil := x10\<rparr>) = wf_state s"
  "wf_state (s\<lparr>es_clockDeferredAt := x11\<rparr>) = wf_state s"
  "wf_state (s\<lparr>es_clockDeferred := x12\<rparr>) = wf_state s"
  "wf_state (s\<lparr>es_electionEpoch := x13\<rparr>) = wf_state s"
  "wf_state (s\<lparr>es_selfCounter := x14\<rparr>) = wf_state s"
  "wf_state (s\<lparr>es_nativeClockAcquisitionPending := x15\<rparr>) = wf_state s"
  "wf_state (s\<lparr>es_nativeClockAcquisitions := x16\<rparr>) = wf_state s"
  "wf_state (s\<lparr>es_masterMetric := x17\<rparr>) = wf_state s"
  "wf_state (s\<lparr>es_masterCounter := x18\<rparr>) = wf_state s"
  "wf_state (s\<lparr>es_nativeParent := x19\<rparr>) = wf_state s"
  "wf_state (s\<lparr>es_nativeParentSelected := x20\<rparr>) = wf_state s"
  "wf_state (s\<lparr>es_frameCounter := x21\<rparr>) = wf_state s"
  "wf_state (s\<lparr>es_psfPeriod := x22\<rparr>) = wf_state s"
  "wf_state (s\<lparr>es_dataCounter := x23\<rparr>) = wf_state s"
  "wf_state (s\<lparr>es_nativeTimelineStarted := x24\<rparr>) = wf_state s"
  "wf_state (s\<lparr>es_acquisitionParent := x25\<rparr>) = wf_state s"
  "wf_state (s\<lparr>es_acquisitionRoot := x26\<rparr>) = wf_state s"
  "wf_state (s\<lparr>es_acquisitionRootKnown := x27\<rparr>) = wf_state s"
  "wf_state (s\<lparr>es_controlsDirty := x28\<rparr>) = wf_state s"
  "wf_state (s\<lparr>es_controlsDeferred := x29\<rparr>) = wf_state s"
  "wf_state (s\<lparr>es_metric := x31\<rparr>) = wf_state s"
  by (simp_all add: wf_state_def wf_defs)

section \<open>Presence arithmetic\<close>

lemma presence_word: "validPresence (ucast (v :: u8)) \<Longrightarrow> v \<noteq> 0 \<and> ucast (v - 1) + 1 = (ucast v :: u32)"
proof -
  assume "validPresence (ucast v)"
  then have v: "v \<noteq> 0" by (auto simp: validPresence_def)
  then have "unat (v - 1) = unat v - 1" "0 < unat v" by (simp_all add: unat_minus_one unat_gt_0)
  then have "unat (ucast (v - 1) + 1 :: u32) = unat (ucast v :: u32)"
    using unat_u8_less [of v] by (simp add: unat_word_ariths unat_ucast_up del: unat_u8_less)
  then have "ucast (v - 1) + 1 = (ucast v :: u32)" by (simp only: unat_eq_iff)
  with v show ?thesis by simp
qed

lemma step_word:
  assumes "validPresence (ucast (v :: u8) + 1)"
  shows "ucast (v + 1) = (ucast v + 1 :: u32)" "v + 1 \<noteq> 0"
proof -
  have "unat (ucast v + 1 :: u32) = unat v + 1" using unat_u8_less [of v]
    by (simp add: unat_word_ariths unat_ucast_up del: unat_u8_less)
  moreover have "(ucast v + 1 :: u32) \<le> 16" using assms by (simp add: validPresence_def)
  ultimately have v: "unat v + 1 \<le> 16" by (simp add: word_le_nat_alt)
  then have "unat (v + 1) = unat v + 1" by (simp add: unat_word_ariths)
  moreover have "unat (ucast v + 1 :: u32) = unat v + 1" using v by (simp add: unat_word_ariths unat_ucast_up)
  ultimately have "unat (ucast (v + 1) :: u32) = unat (ucast v + 1 :: u32)" by (simp add: unat_ucast_up)
  then show "ucast (v + 1) = (ucast v + 1 :: u32)" by (simp only: unat_eq_iff)
  show "v + 1 \<noteq> 0" using \<open>unat (v + 1) = unat v + 1\<close> by force
qed

lemma wf_seq_channels:
  "wf_seq q \<longleftrightarrow> sq_count q = 16 \<and> length (sq_channels q) = 16 \<and> validPresence (ucast (sq_step q) + 1) \<and>
     list_all (\<lambda>c. c \<le> 196) (sq_channels q)"
  by (auto simp: wf_seq_def validSequence_def slots_def list_all_length)

lemma wf_seq_presence: "wf_seq q \<Longrightarrow> validPresence (ucast (sq_step q + 1))"
  by (simp add: wf_seq_channels step_word)

lemma wf_seq_step: "wf_seq q \<Longrightarrow> validPresence (ucast v) \<Longrightarrow> wf_seq (q\<lparr>sq_step := v - 1\<rparr>)"
  by (simp add: wf_seq_channels presence_word)

lemma validPresence_iff: "validPresence (ucast (v :: u8)) \<longleftrightarrow> v \<in> {1, 2, 4, 8, 16}"
proof
  assume valid: "validPresence (ucast v)"
  then have "ucast (v - 1) = (ucast v - 1 :: u32)" using presence_word [of v] by (metis add_diff_cancel_right')
  then have "ucast (v AND (v - 1)) = (0 :: u32)"
    using valid by (simp add: validPresence_def unsigned_and_eq)
  then have "v AND (v - 1) = 0" by (simp add: ucast_up_eq_0)
  moreover have "v \<noteq> 0" "v \<le> 16" using valid by (auto simp: validPresence_def word_le_nat_alt unat_ucast_up)
  ultimately show "v \<in> {1, 2, 4, 8, 16}" using power_of_two_presence [of v] by simp
qed (auto simp: validPresence_def)

section \<open>Controls preserve the invariant\<close>

lemma wf_defer:
  "wf_state s \<Longrightarrow> es_controlsHeld s \<Longrightarrow> wf_controls c \<Longrightarrow> wf_state (deferControls c s)"
  by (simp add: wf_state_def wf_defs deferControls_def)

lemma wf_held: "wf_state s \<Longrightarrow> es_controlsHeld s \<Longrightarrow> wf_controls (es_pendingControls s)"
  by (simp add: wf_state_def wf_pending_def)

lemma wf_holdClock: "wf_state s \<Longrightarrow> wf_state (holdClock t s)"
  by (simp add: wf_state_def wf_defs holdClock_def)

lemma wf_holdControls: "wf_state s \<Longrightarrow> wf_state (holdControls s)"
  by (simp add: wf_state_def wf_defs holdControls_def wf_controls_def)

lemma wf_discardControls: "wf_state s \<Longrightarrow> wf_state (discardControls s)"
  by (simp add: wf_state_def wf_defs discardControls_def)

lemma wf_selectNativeParent: "wf_state s \<Longrightarrow> wf_state (selectNativeParent address root acquire s)"
  by (simp add: wf_state_def wf_defs selectNativeParent_def deferControls_def wf_controls_def Let_def split: option.split)

lemma wf_clearNativeParent: "wf_state s \<Longrightarrow> wf_state (clearNativeParent s)"
  by (simp add: wf_state_def wf_defs clearNativeParent_def deferControls_def wf_controls_def Let_def)

lemma wf_init:
  assumes "State_init (Some a) initial now metric native s = (True, s')" "length a = 6" "length (sq_channels initial) = 16"
  shows "wf_state s'"
proof -
  have "addr a" "wf_seq initial" using assms by (auto simp: State_init_def addr_def wf_seq_def split: if_splits)
  moreover have "list_all wf_peer (replicate maxPeers Peer0)" by (simp add: list_all_length wf_peer_def Peer0_def)
  ultimately show ?thesis
    using assms(1) by (auto simp: State_init_def wf_state_def wf_defs ElectionState0_def split: if_splits)
qed

lemma role_word: "\<not> (role < 1 \<or> role > 3) \<Longrightarrow> (ucast (role :: u32) :: u8) \<in> {1, 2, 3}"
proof -
  assume "\<not> (role < 1 \<or> role > 3)"
  then have "0 < unat role" "unat role \<le> 3" by (simp_all add: not_less word_le_nat_alt unat_gt_0)
  then have "unat role = 1 \<or> unat role = 2 \<or> unat role = 3" by linarith
  then have "role \<in> {of_nat 1, of_nat 2, of_nat 3}" by (metis insertCI word_of_unat)
  then show ?thesis by auto
qed

lemma wf_setSyncRole:
  assumes "wf_state s" "case address of None \<Rightarrow> True | Some a \<Rightarrow> length a = 6"
  shows "wf_state (snd (setSyncRole role address s))"
proof (cases "fst (setSyncRole role address s)")
  case True
  then obtain a where a: "address = Some a" "addr a" "(ucast role :: u8) \<in> {1, 2, 3}"
    using assms(2) role_word [of role] by (auto simp: setSyncRole_def addr_def split: option.splits if_splits)
  with assms(1) show ?thesis
    by (simp add: setSyncRole_def wf_state_def wf_defs deferControls_def wf_controls_def holdClock_def Let_def)
qed (use assms(1) in \<open>auto simp: setSyncRole_def Let_def split: option.splits if_splits\<close>)

lemma wf_setPresence: "wf_state s \<Longrightarrow> wf_state (snd (setPresence value now s))"
  by (simp add: setPresence_def wf_state_def wf_defs deferControls_def wf_controls_def wf_seq_step presence_word Let_def)

lemma wf_setSequence:
  assumes "wf_state s" "length (sq_channels value) = 16"
  shows "wf_state (snd (setSequence value now s))"
proof (cases "validSequence value")
  case True
  then have seq: "wf_seq value" using assms(2) by (simp add: wf_seq_def)
  let ?s = "s\<lparr>es_ownSequence := value\<rparr>"
  have "wf_state (s\<lparr>es_ownSequence := value, es_ownPresence := sq_step value + 1\<rparr>)"
    using assms(1) seq by (simp add: wf_state_def wf_defs)
  with seq assms(1) wf_seq_presence [OF seq] show ?thesis
    by (simp add: setSequence_def setPresence_def wf_state_def wf_defs deferControls_def wf_controls_def Let_def)
qed (use assms(1) in \<open>simp add: setSequence_def\<close>)

lemma wf_setSocialChannel:
  assumes "wf_state s"
  shows "wf_state (setSocialChannel index channel now s)"
proof -
  let ?d = "if es_controlsHeld s then ct_sequence (es_pendingControls s) else es_ownSequence s"
  have "length (sq_channels ?d) = 16"
    using assms by (simp add: wf_state_def wf_defs wf_controls_def wf_seq_def)
  then show ?thesis using assms by (simp add: setSocialChannel_def wf_setSequence Let_def)
qed

section \<open>The election preserves the invariant\<close>

lemma wf_elect_counter: "wf_state s \<Longrightarrow> wf_state (elect_counter now s)"
  by (simp add: elect_counter_def wf_state_def wf_defs Let_def)

text \<open>The candidate loop only clears the \<open>used\<close> flag of stale entries.\<close>

definition expire :: "u64 \<Rightarrow> Peer \<Rightarrow> Peer" where
  "expire now p = (if pe_used p \<and> stale now p then p\<lparr>pe_used := False\<rparr> else p)"

definition eligible :: "ElectionState \<Rightarrow> Peer \<Rightarrow> bool" where
  "eligible s p \<longleftrightarrow> pe_used p \<and> ad_master (pe_advertisement p) \<noteq> es_mac s \<and> ad_distance (pe_advertisement p) < 10 \<and>
     ad_sync (pe_advertisement p) \<noteq> es_mac s \<and> es_syncRole s \<noteq> 3 \<and>
     (if es_nativeElectionManaged s then pe_mac p = es_nativeParent s
      else if es_syncRole s = 2 then pe_mac p = es_forcedSync s else outranks_self s p)"

definition pick :: "ElectionState \<Rightarrow> Peer list \<Rightarrow> nat \<Rightarrow> nat option \<Rightarrow> nat option" where
  "pick s ps i best =
     (if \<not> eligible s (ps ! i) then best
      else if es_nativeElectionManaged s \<or> es_syncRole s = 2 then Some i
      else (case best of None \<Rightarrow> Some i | Some b \<Rightarrow> if outranks_peer (ps ! i) (ps ! b) then Some i else best))"

lemma elect_candidate_eq:
  assumes "i < length (es_peers s)" "\<And>b. best = Some b \<Longrightarrow> b < i"
  shows "elect_candidate now i (s, best) =
    (s\<lparr>es_peers := (es_peers s)[i := expire now (es_peers s ! i)]\<rparr>,
     pick s ((es_peers s)[i := expire now (es_peers s ! i)]) i best)"
proof -
  let ?ps = "(es_peers s)[i := expire now (es_peers s ! i)]"
  have "?ps ! i = expire now (es_peers s ! i)" using assms(1) by simp
  moreover have "best = Some b \<Longrightarrow> ?ps ! b = es_peers s ! b" for b using assms(2) [of b] by simp
  moreover have "outranks_self (s\<lparr>es_peers := qs\<rparr>) p = outranks_self s p" for qs p by (simp add: outranks_self_def)
  ultimately show ?thesis
    by (auto simp: elect_candidate_def pick_def eligible_def expire_def Let_def not_le split: option.splits)
qed

lemma pick_less: "(\<And>b. best = Some b \<Longrightarrow> b < i) \<Longrightarrow> pick s ps i best = Some b \<Longrightarrow> b < Suc i"
  by (auto simp: pick_def less_Suc_eq split: if_splits option.splits)

lemma pick_cong:
  "ps ! i = qs ! i \<Longrightarrow> (\<And>b. best = Some b \<Longrightarrow> ps ! b = qs ! b) \<Longrightarrow> pick s ps i best = pick s qs i best"
  by (auto simp: pick_def split: option.split)

lemma pick_peers [simp]: "pick (s\<lparr>es_peers := qs\<rparr>) ps i best = pick s ps i best"
  by (simp add: pick_def eligible_def outranks_self_def)

definition best_of :: "ElectionState \<Rightarrow> Peer list \<Rightarrow> nat \<Rightarrow> nat option" where
  "best_of s ps k = fold (pick s ps) [0..<k] None"

lemma best_of_Suc: "best_of s ps (Suc k) = pick s ps k (best_of s ps k)"
  by (simp add: best_of_def)

lemma best_of_less: "best_of s ps k = Some b \<Longrightarrow> b < k"
proof (induction k arbitrary: b)
  case (Suc k)
  then show ?case using pick_less [of "best_of s ps k" k s ps b] by (simp add: best_of_Suc)
qed (simp add: best_of_def)

lemma elect_best_prefix:
  assumes "length (es_peers s) = maxPeers" "k \<le> maxPeers" and ps_def: "ps = map (expire now) (es_peers s)"
  shows "fold (elect_candidate now) [0..<k] (s, None) =
    (s\<lparr>es_peers := take k ps @ drop k (es_peers s)\<rparr>, best_of s ps k)"
  using assms(2)
proof (induction k)
  case 0
  then show ?case by (simp add: best_of_def)
next
  case (Suc k)
  let ?t = "s\<lparr>es_peers := take k ps @ drop k (es_peers s)\<rparr>"
  have len: "length ps = maxPeers" using assms(1) by (simp add: ps_def)
  have nth: "es_peers ?t ! k = es_peers s ! k"
    using Suc.prems assms(1) len by (simp add: nth_append)
  have upd: "(es_peers ?t)[k := expire now (es_peers s ! k)] = take (Suc k) ps @ drop (Suc k) (es_peers s)"
    using Suc.prems assms(1) len
    by (simp add: list_update_append Cons_nth_drop_Suc [symmetric] take_Suc_conv_app_nth ps_def)
  have same: "pick s (take (Suc k) ps @ drop (Suc k) (es_peers s)) k (best_of s ps k) = pick s ps k (best_of s ps k)"
    using Suc.prems len best_of_less [of s ps k] by (intro pick_cong) (auto simp: nth_append less_Suc_eq)
  have "elect_candidate now k (?t, best_of s ps k) =
    (?t\<lparr>es_peers := take (Suc k) ps @ drop (Suc k) (es_peers s)\<rparr>, best_of s ps (Suc k))"
    using Suc.prems assms(1) len best_of_less
    by (subst elect_candidate_eq) (simp_all only: nth upd pick_peers same best_of_Suc, simp_all)
  with Suc show ?case by simp
qed

lemma elect_best_eq:
  assumes "length (es_peers s) = maxPeers"
  shows "elect_best now s =
    (s\<lparr>es_peers := map (expire now) (es_peers s)\<rparr>, best_of s (map (expire now) (es_peers s)) maxPeers)"
  using elect_best_prefix [OF assms order_refl refl, of now] assms by (simp add: elect_best_def)

lemma best_of_eligible: "best_of s ps k = Some b \<Longrightarrow> eligible s (ps ! b)"
proof (induction k arbitrary: b)
  case (Suc k)
  then show ?case by (auto simp: best_of_Suc pick_def split: if_splits option.splits)
qed (simp add: best_of_def)

lemma best_of_None: "best_of s ps k = None \<Longrightarrow> i < k \<Longrightarrow> \<not> eligible s (ps ! i)"
proof (induction k)
  case (Suc k)
  then show ?case by (auto simp: best_of_Suc pick_def less_Suc_eq split: if_splits option.splits)
qed simp

lemma wf_expire: "wf_peer p \<Longrightarrow> wf_peer (expire now p)"
  by (simp add: wf_peer_def expire_def)

lemma expire_eligible: "eligible s (expire now p) \<Longrightarrow> expire now p = p \<and> \<not> stale now p"
  by (auto simp: expire_def eligible_def split: if_splits)

text \<open>What the rest of the election may assume of the chosen peer.\<close>

definition electable :: "ElectionState \<Rightarrow> Peer \<Rightarrow> bool" where
  "electable s p \<longleftrightarrow> wf_adv (pe_advertisement p) \<and> addr (pe_mac p) \<and> ad_distance (pe_advertisement p) < 10"

lemma elect_cases:
  assumes "wf_peers s" "\<not> es_controlsHeld s"
  obtains "es_nativeElectionManaged s" "\<not> es_nativeParentSelected s" "elect now s = elect_counter now s"
  | ps where "ps = map (expire now) (es_peers s)"
      "elect now s = elect_none ((elect_counter now s)\<lparr>es_peers := ps\<rparr>)"
      "best_of (elect_counter now s) ps maxPeers = None" "es_nativeElectionManaged s \<longrightarrow> es_nativeParentSelected s"
  | ps b where "ps = map (expire now) (es_peers s)" "b < maxPeers" "best_of (elect_counter now s) ps maxPeers = Some b"
      "eligible (elect_counter now s) (ps ! b)" "electable s (ps ! b)"
      "elect now s = elect_apply now (ps ! b) ((elect_counter now s)\<lparr>es_peers := ps\<rparr>)"
      "ps ! b = es_peers s ! b" "\<not> stale now (ps ! b)" "es_nativeElectionManaged s \<longrightarrow> es_nativeParentSelected s"
proof -
  let ?c = "elect_counter now s" and ?ps = "map (expire now) (es_peers s)"
  have peers: "es_peers ?c = es_peers s" "es_nativeElectionManaged ?c = es_nativeElectionManaged s"
    "es_nativeParentSelected ?c = es_nativeParentSelected s" by (simp_all add: elect_counter_def Let_def)
  have best: "elect_best now ?c = (?c\<lparr>es_peers := ?ps\<rparr>, best_of ?c ?ps maxPeers)"
    using elect_best_eq [of ?c now] assms(1) by (simp add: peers wf_peers_def)
  show thesis
  proof (cases "es_nativeElectionManaged s \<and> \<not> es_nativeParentSelected s")
    case True
    with assms(2) peers that(1) show thesis by (simp add: elect_def Let_def)
  next
    case native: False
    show thesis
    proof (cases "best_of ?c ?ps maxPeers")
      case None
      with native assms(2) best peers have "elect now s = elect_none (?c\<lparr>es_peers := ?ps\<rparr>)"
        by (auto simp: elect_def Let_def)
      with None native that(2) show thesis by blast
    next
      case (Some b)
      have b: "b < maxPeers" "eligible ?c (?ps ! b)" using best_of_less best_of_eligible Some by blast+
      moreover have "wf_peer (?ps ! b)"
        using assms(1) b(1) by (auto simp: wf_peers_def list_all_length intro: wf_expire)
      ultimately have "electable s (?ps ! b)" by (auto simp: electable_def eligible_def wf_peer_def)
      moreover have "elect now s = elect_apply now (?ps ! b) (?c\<lparr>es_peers := ?ps\<rparr>)"
        using Some native assms(2) best peers by (auto simp: elect_def Let_def)
      moreover have "?ps ! b = es_peers s ! b" "\<not> stale now (?ps ! b)"
        using expire_eligible [of ?c now "es_peers s ! b"] b assms(1) by (auto simp: wf_peers_def)
      ultimately show thesis using Some b native that(3) by blast
    qed
  qed
qed

lemma wf_elect_none: "wf_state s \<Longrightarrow> wf_state (elect_none s)"
  by (auto simp: elect_none_def wf_state_def wf_defs holdClock_def Let_def)

lemma wf_enterHoldover [simp]: "wf_state (enterHoldover s) = wf_state s"
  by (simp add: enterHoldover_def)

lemma wf_elect_reject [simp]: "wf_state (elect_reject p s) = wf_state s"
  by (simp add: elect_reject_def Let_def)

lemma wf_elect_defer [simp]: "wf_state (elect_defer p s) = wf_state s"
  by (simp add: elect_defer_def)

lemma distance_increment: "(d :: u32) < 10 \<Longrightarrow> d + 1 \<le> 10"
  using unat_u32_less [of d] by (simp add: word_le_nat_alt word_less_nat_alt unat_word_ariths del: unat_u32_less)

lemma wf_elect_commit: "wf_state s \<Longrightarrow> electable t p \<Longrightarrow> wf_state (elect_commit same p s)"
  by (simp add: elect_commit_def electable_def wf_state_def wf_defs wf_adv_def distance_increment Let_def)

lemma wf_elect_acquire [simp]: "wf_state (elect_acquire p s) = wf_state s"
  by (simp add: elect_acquire_def holdClock_def Let_def)

lemma wf_clock_correct [simp]: "wf_state (clock_correct now c s) = wf_state s"
  by (simp add: clock_correct_def Let_def split: prod.split)

lemma wf_elect_slew [simp]: "wf_state (elect_slew now p s) = wf_state s"
  by (simp add: elect_slew_def Let_def)

lemma wf_elect_apply: "wf_state s \<Longrightarrow> electable t p \<Longrightarrow> wf_state (elect_apply now p s)"
  by (simp add: elect_apply_def Let_def wf_elect_commit)

lemma wf_set_peers: "wf_state s \<Longrightarrow> length ps = maxPeers \<Longrightarrow> list_all wf_peer ps \<Longrightarrow> wf_state (s\<lparr>es_peers := ps\<rparr>)"
  by (simp add: wf_state_def wf_defs)

lemma wf_elect:
  assumes "wf_state s"
  shows "wf_state (elect now s)"
proof (cases "es_controlsHeld s")
  case False
  have ps: "length (map (expire now) (es_peers s)) = maxPeers" "list_all wf_peer (map (expire now) (es_peers s))"
    using assms by (auto simp: wf_state_def wf_peers_def list_all_iff intro: wf_expire)
  have c: "wf_state ((elect_counter now s)\<lparr>es_peers := map (expire now) (es_peers s)\<rparr>)"
    by (intro wf_set_peers wf_elect_counter assms ps)
  have "wf_peers s" using assms by (simp add: wf_state_def)
  then show ?thesis
    using False by (cases rule: elect_cases [where now = now])
      (auto intro: c wf_elect_none wf_elect_apply wf_elect_counter assms)
qed (use assms in \<open>simp add: elect_def\<close>)

lemma wf_commitControls:
  assumes "wf_state s" "wf_controls (es_pendingControls s)"
  shows "wf_state (commitControls now s)"
proof -
  let ?c = "es_pendingControls s"
  have "wf_state (snd (setSyncRole (ucast (ct_role ?c)) (Some (ct_forced ?c)) s))" (is "wf_state ?s1")
    using assms by (intro wf_setSyncRole) (auto simp: wf_controls_def addr_def)
  then have "wf_state (snd (setSequence (ct_sequence ?c) now ?s1))"
    using assms(2) by (intro wf_setSequence) (auto simp: wf_controls_def wf_seq_def)
  then show ?thesis by (simp add: commitControls_def Let_def wf_clearNativeParent)
qed

lemma wf_releaseControls: "wf_state s \<Longrightarrow> wf_state (snd (releaseControls now s))"
  using wf_held [of s] wf_discardControls [of s] wf_commitControls [of "discardControls s" now]
  by (auto simp: releaseControls_def discardControls_def Let_def wf_elect)

section \<open>Receiving advertisements\<close>

lemma parseAdvertisement_SomeD:
  assumes "parseAdvertisement frame = Some a"
  obtains f d where "frame = Some f" "24 \<le> length f" "unicast (drop 10 f)" "wf_sync d" "sm_periodTu d = 16"
    "sm_countdownTu d \<noteq> 0" "\<not> sm_height d > 10"
    "(ucast (sm_counter d) :: u32) mod ucast (sm_presence d) = (ucast (sm_presence d) * 16 - ucast (sm_countdownTu d)) div 16"
    "a = \<lparr>ad_sequence = \<lparr>sq_channels = map (\<lambda>i. cs_channel (sm_sequence d) ! i) [0..<slots],
             sq_count = cs_count (sm_sequence d), sq_step = cs_stride (sm_sequence d) - 1\<rparr>,
           ad_master = sm_master d, ad_sync = (if sm_electionPresent d then sm_syncAddress d else piece 10 6 f),
           ad_period = sm_periodTu d, ad_counter = sm_counter d, ad_down = sm_countdownTu d,
           ad_presence = sm_presence d, ad_metric = sm_masterMetric d, ad_distance = sm_height d,
           ad_masterCounter = sm_masterCounter d, ad_selfCounter = sm_selfCounter d\<rparr>"
proof -
  obtain f where f: "frame = Some f" "24 \<le> length f"
    using assms by (cases frame) (auto simp: parseAdvertisement_def parseFrame_def split: if_splits)
  with assms obtain d where "decodeSyncAction (Some (drop 24 f)) = (SyncValid, d)"
    by (auto simp: parseAdvertisement_def Let_def split: if_splits prod.splits SyncDecode.splits)
  then show thesis
    using assms f decodeSyncAction_wf that [of f d]
    by (simp add: parseAdvertisement_def Let_def split: if_splits)
qed

lemma advertised_phase:
  fixes c d :: u16 and p :: u8
  assumes "p \<noteq> 0" "unat d \<le> 16 * unat p"
    "(ucast c :: u32) mod ucast p = (ucast p * 16 - ucast d) div 16"
  shows "unat c mod unat p = (16 * unat p - unat d) div 16"
proof -
  have p16: "unat (ucast p * 16 :: u32) = unat p * 16"
    using unat_u8_less [of p] by (simp add: unat_word_ariths unat_ucast_up del: unat_u8_less)
  have d: "unat (ucast d :: u32) = unat d" by (simp add: unat_ucast_up)
  then have le: "(ucast d :: u32) \<le> ucast p * 16" using p16 assms(2) by (simp only: word_le_nat_alt)
  have "unat ((ucast c :: u32) mod ucast p) = unat ((ucast p * 16 - ucast d :: u32) div 16)" using assms(3) by (simp only:)
  then have "unat (ucast c :: u32) mod unat (ucast p :: u32) = (unat (ucast p * 16 :: u32) - unat (ucast d :: u32)) div unat (16 :: u32)"
    by (simp only: unat_mod_distrib unat_div_distrib unat_sub [OF le])
  moreover have "unat (ucast c :: u32) = unat c" "unat (ucast p :: u32) = unat p" by (simp_all add: unat_ucast_up)
  ultimately show ?thesis by (simp only: p16 d) (simp add: mult.commute)
qed

lemma wf_parseAdvertisement:
  assumes "parseAdvertisement frame = Some a"
  shows "wf_adv a"
proof -
  obtain f d where d: "frame = Some f" "24 \<le> length f" "wf_sync d" "sm_periodTu d = 16" "sm_countdownTu d \<noteq> 0"
    "\<not> sm_height d > 10"
    "(ucast (sm_counter d) :: u32) mod ucast (sm_presence d) = (ucast (sm_presence d) * 16 - ucast (sm_countdownTu d)) div 16"
    and a: "a = \<lparr>ad_sequence = \<lparr>sq_channels = map (\<lambda>i. cs_channel (sm_sequence d) ! i) [0..<slots],
             sq_count = cs_count (sm_sequence d), sq_step = cs_stride (sm_sequence d) - 1\<rparr>,
           ad_master = sm_master d, ad_sync = (if sm_electionPresent d then sm_syncAddress d else piece 10 6 f),
           ad_period = sm_periodTu d, ad_counter = sm_counter d, ad_down = sm_countdownTu d,
           ad_presence = sm_presence d, ad_metric = sm_masterMetric d, ad_distance = sm_height d,
           ad_masterCounter = sm_masterCounter d, ad_selfCounter = sm_selfCounter d\<rparr>"
    using parseAdvertisement_SomeD [OF assms] by metis
  have params: "sm_presence d \<in> {1, 2, 4, 8, 16}" "unat (sm_countdownTu d) \<le> unat (sm_periodTu d) * unat (sm_presence d)"
    and seq: "wf_channel_sequence (sm_sequence d)" "cs_stride (sm_sequence d) = sm_presence d"
    and m: "length (sm_master d) = 6" "unicast (sm_master d)" "length (sm_syncAddress d) = 6"
    using d(3) by (simp_all add: wf_sync_def wf_sync_params_def)
  have nz: "sm_presence d \<noteq> 0" using params(1) by auto
  have down: "unat (sm_countdownTu d) \<le> 16 * unat (sm_presence d)" using params(2) d(4) by simp
  have chans: "map (\<lambda>i. cs_channel (sm_sequence d) ! i) [0..<slots] = cs_channel (sm_sequence d)"
    using seq(1) map_nth [of "cs_channel (sm_sequence d)"] by (simp add: wf_channel_sequence_def slots_def)
  have "validPresence (ucast (sm_presence d - 1) + 1)"
    using presence_word [of "sm_presence d"] params(1) by (simp add: validPresence_iff)
  then have "wf_seq (ad_sequence a)"
    using seq by (simp add: a wf_seq_channels chans wf_channel_sequence_def)
  moreover have "unat (sm_counter d) mod unat (sm_presence d) = (16 * unat (sm_presence d) - unat (sm_countdownTu d)) div 16"
    using nz down d(7) by (rule advertised_phase)
  ultimately show ?thesis
    using d(2,4,5,6) m seq(2) down
    by (simp add: wf_adv_def a addr_def not_less word_gt_0)
qed

lemma receive_slot_less: "receive_slot s a now = Some i \<Longrightarrow> i < maxPeers"
  by (auto simp: receive_slot_def State_find_def find_Some_iff split: option.splits)

lemma wf_receiveAction:
  assumes "wf_state s"
  shows "wf_state (snd (receiveAction frame now s))"
proof (cases "fst (receiveAction frame now s)")
  case None
  then have "snd (receiveAction frame now s) = s"
    by (auto simp: receiveAction_def Let_def split: option.splits if_splits)
  with assms show ?thesis by simp
next
  case (Some idx)
  then obtain a where a: "parseAdvertisement frame = Some a" and slot: "receive_slot s (piece 10 6 (the frame)) now = Some idx"
    by (auto simp: receiveAction_def Let_def split: option.splits if_splits)
  obtain f where f: "frame = Some f" "24 \<le> length f" "unicast (drop 10 f)"
    using parseAdvertisement_SomeD [OF a] by metis
  then have "addr (piece 10 6 f)" by (simp add: addr_def unicast_def piece_def)
  then have peers: "list_all wf_peer ((es_peers s)[idx := p])"
    if "pe_mac p = piece 10 6 f" "pe_advertisement p = a" for p
    using assms wf_parseAdvertisement [OF a] that
    by (auto simp: wf_state_def wf_peers_def wf_peer_def list_all_iff dest: set_update_subset_insert [THEN subsetD])
  moreover have "length (es_peers s) = maxPeers" using assms by (simp add: wf_state_def wf_peers_def)
  ultimately show ?thesis
    using Some a f slot by (auto simp: receiveAction_def Let_def intro!: wf_elect wf_set_peers assms split: option.splits if_splits)
qed

section \<open>Runs\<close>

datatype election_op =
    OpHoldClock u64 | OpHoldControls | OpDiscardControls | OpReleaseControls u64
  | OpSelectNativeParent bytes "bytes option" bool | OpClearNativeParent | OpSetSyncRole u32 bytes
  | OpSetPresence u8 u64 | OpSetSequence Sequence u64 | OpSetSocialChannel nat u8 u64
  | OpElect u64 | OpReceiveAction bytes u64

fun election_exec :: "election_op \<Rightarrow> ElectionState \<Rightarrow> ElectionState" where
  "election_exec (OpHoldClock t) s = holdClock t s"
| "election_exec OpHoldControls s = holdControls s"
| "election_exec OpDiscardControls s = discardControls s"
| "election_exec (OpReleaseControls now) s = snd (releaseControls now s)"
| "election_exec (OpSelectNativeParent a r q) s = selectNativeParent a r q s"
| "election_exec OpClearNativeParent s = clearNativeParent s"
| "election_exec (OpSetSyncRole role a) s = snd (setSyncRole role (Some a) s)"
| "election_exec (OpSetPresence v now) s = snd (setPresence v now s)"
| "election_exec (OpSetSequence q now) s = snd (setSequence q now s)"
| "election_exec (OpSetSocialChannel i c now) s = setSocialChannel i c now s"
| "election_exec (OpElect now) s = elect now s"
| "election_exec (OpReceiveAction f now) s = snd (receiveAction (Some f) now s)"

text \<open>The array arguments of the methods have their declared sizes.\<close>

fun op_typed :: "election_op \<Rightarrow> bool" where
  "op_typed (OpSetSyncRole role a) \<longleftrightarrow> length a = 6"
| "op_typed (OpSetSequence q now) \<longleftrightarrow> length (sq_channels q) = 16"
| "op_typed _ \<longleftrightarrow> True"

lemma wf_election_exec: "wf_state s \<Longrightarrow> op_typed op \<Longrightarrow> wf_state (election_exec op s)"
  by (cases op) (simp_all add: wf_holdClock wf_holdControls wf_discardControls wf_releaseControls wf_selectNativeParent
      wf_clearNativeParent wf_setSyncRole wf_setPresence wf_setSequence wf_setSocialChannel wf_elect wf_receiveAction)

lemma wf_election_run: "wf_state s \<Longrightarrow> list_all op_typed ops \<Longrightarrow> wf_state (fold election_exec ops s)"
  by (induction ops arbitrary: s) (simp_all add: wf_election_exec)

text \<open>
  C5: from initialisation on, whatever frames are received and whatever controls arrive in whatever
  order, the election state stays well formed: the schedule in force has sixteen valid channels and a
  step that matches the presence, the advertised master and synchronization addresses are unicast, the
  distance is at most ten, and every peer entry in use holds a decoded advertisement.
\<close>

theorem election_invariant:
  assumes "State_init (Some a) initial now metric native s = (True, s')" and "length a = 6"
    and "length (sq_channels initial) = 16" and "list_all op_typed ops"
  shows "wf_state (fold election_exec ops s')"
  using wf_init [OF assms(1-3)] assms(4) by (rule wf_election_run)

definition sample_sequence :: Sequence where
  "sample_sequence = \<lparr>sq_channels = replicate 16 44, sq_count = 16, sq_step = 3\<rparr>"

definition sample_state :: ElectionState where
  "sample_state = snd (State_init (Some [2, 0, 0, 0, 0, 1]) sample_sequence 1000 500 True ElectionState0)"

theorem election_invariant_witness:
  "wf_state (fold election_exec [OpHoldControls, OpSetPresence 8 2000, OpReleaseControls 3000] sample_state)"
proof -
  have valid: "validSequence sample_sequence" by code_simp
  have "unicast [2, 0, 0, 0, 0, 1]" by code_simp
  with valid have "State_init (Some [2, 0, 0, 0, 0, 1]) sample_sequence 1000 500 True ElectionState0 = (True, sample_state)"
    by (simp add: sample_state_def State_init_def)
  then show ?thesis by (rule election_invariant) (simp_all add: sample_sequence_def)
qed

text \<open>
  What the radio, the event producer and the advertised clock read of the state: none of it moves
  while controls are held.
\<close>

definition radio_view :: "ElectionState \<Rightarrow> Sequence \<times> u8 \<times> u8 \<times> bytes \<times> bytes \<times> u64 \<times> u16 \<times> bool" where
  "radio_view s = (es_sequence s, es_presence s, es_syncRole s, es_master s, es_sync s, es_epoch s, es_baseCounter s,
     State_radioScheduleReady s)"

lemma radio_view_defer [simp]: "radio_view (deferControls c s) = radio_view s"
  by (simp add: radio_view_def deferControls_def State_radioScheduleReady_def)

lemma radio_view_timeline:
  assumes "radio_view s = radio_view s'"
  shows "State_channel s t = State_channel s' t" "State_counter s t = State_counter s' t" "State_untilNext s t = State_untilNext s' t"
  using assms by (simp_all add: radio_view_def State_channel_def State_counter_def State_untilNext_def es_elapsed_def)

fun releases :: "election_op \<Rightarrow> bool" where
  "releases (OpReleaseControls now) \<longleftrightarrow> True"
| "releases OpDiscardControls \<longleftrightarrow> True"
| "releases _ \<longleftrightarrow> False"

lemma held_exec:
  assumes "wf_state s" "es_controlsHeld s" "\<not> releases op"
  shows "es_controlsHeld (election_exec op s) \<and> radio_view (election_exec op s) = radio_view s"
proof (cases op)
  case (OpSelectNativeParent a r q)
  have "es_nativeClockSelected s \<longrightarrow> es_nativeElectionManaged s" using assms(1) by (simp add: wf_state_def wf_clock_def)
  with OpSelectNativeParent assms(2) show ?thesis
    by (auto simp: selectNativeParent_def radio_view_def deferControls_def State_radioScheduleReady_def Let_def)
next
  case (OpSetSocialChannel i c now)
  with assms(2) show ?thesis
    by (auto simp: setSocialChannel_def setSequence_def radio_view_def deferControls_def State_radioScheduleReady_def Let_def)
next
  case (OpReceiveAction f now)
  with assms(2) show ?thesis
    by (auto simp: receiveAction_def elect_def radio_view_def State_radioScheduleReady_def Let_def split: option.splits)
qed (use assms in \<open>auto simp: holdClock_def holdControls_def clearNativeParent_def setSyncRole_def setPresence_def
    setSequence_def elect_def radio_view_def deferControls_def State_radioScheduleReady_def Let_def\<close>)

lemma held_run:
  assumes "wf_state s" "es_controlsHeld s" "list_all op_typed ops" "list_all (\<lambda>op. \<not> releases op) ops"
  shows "es_controlsHeld (fold election_exec ops s) \<and> radio_view (fold election_exec ops s) = radio_view s"
  using assms
proof (induction ops arbitrary: s)
  case (Cons op ops)
  then have "es_controlsHeld (election_exec op s)" "radio_view (election_exec op s) = radio_view s"
    using held_exec [of s op] by simp_all
  with Cons.IH [of "election_exec op s"] Cons.prems wf_election_exec show ?case by simp
qed simp

text \<open>
  C6: while an availability window is open its controls are held, and nothing that happens before they
  are released or discarded moves the radio: received advertisements, elections, and requests for another
  role, parent, presence or channel sequence leave the channel, the window counter and the time to the
  next window unchanged at every instant, as well as the role, master and synchronization source.
\<close>

theorem held_controls_freeze_schedule:
  assumes "wf_state s" and "es_controlsHeld s" and "list_all op_typed ops" and "list_all (\<lambda>op. \<not> releases op) ops"
  shows "(let s' = fold election_exec ops s in
    es_controlsHeld s' \<and> State_channel s' t = State_channel s t \<and> State_counter s' t = State_counter s t \<and>
    State_untilNext s' t = State_untilNext s t \<and> es_syncRole s' = es_syncRole s \<and>
    es_master s' = es_master s \<and> es_sync s' = es_sync s)"
proof -
  note run = held_run [OF assms]
  have view: "radio_view (fold election_exec ops s) = radio_view s" using run by simp
  with run radio_view_timeline [OF view] show ?thesis by (simp add: radio_view_def Let_def)
qed

lemma wf_sample_state: "wf_state sample_state"
proof -
  have "validSequence sample_sequence" "unicast [2, 0, 0, 0, 0, 1]" by code_simp+
  then have "State_init (Some [2, 0, 0, 0, 0, 1]) sample_sequence 1000 500 True ElectionState0 = (True, sample_state)"
    by (simp add: sample_state_def State_init_def)
  then show ?thesis by (rule wf_init) (simp_all add: sample_sequence_def)
qed

theorem held_controls_freeze_schedule_witness:
  "State_channel (fold election_exec [OpSetSequence (sample_sequence\<lparr>sq_channels := replicate 16 149\<rparr>) 2000, OpElect 2500]
     (holdControls sample_state)) 3000 = State_channel (holdControls sample_state) 3000"
  using held_controls_freeze_schedule [OF wf_holdControls [OF wf_sample_state], of
      "[OpSetSequence (sample_sequence\<lparr>sq_channels := replicate 16 149\<rparr>) 2000, OpElect 2500]" 3000]
  by (simp add: holdControls_def Let_def)

end
