(* ===== verification/Awdl_Election_Rank.thy ===== *)
theory Awdl_Election_Rank
  imports Awdl_Election_Inv
begin

text \<open>
  What the election decides: the winner of an unmanaged election is a maximum of the rank order, a
  managed election only ever follows the parent native selected, and clock discipline converges
  without overshooting.
\<close>

section \<open>Rank is an order\<close>

text \<open>
  Within half the range of the 32-bit election counter above some base, the rank comparison is the
  comparison of one number, in which metric, counter, nearness and address are digits.
\<close>

fun mac_value :: "bytes \<Rightarrow> nat" where
  "mac_value [] = 0"
| "mac_value (b # bs) = unat b * 256 ^ length bs + mac_value bs"

lemma mac_value_less: "mac_value bs < 256 ^ length bs"
proof (induction bs)
  case (Cons b bs)
  have "unat b + 1 \<le> 256" using unat_u8_less [of b] by linarith
  from mult_right_mono [OF this, of "256 ^ length bs"]
  have "unat b * 256 ^ length bs + 256 ^ length bs \<le> 256 * 256 ^ length bs" by (simp add: algebra_simps)
  moreover have "unat b * 256 ^ length bs + mac_value bs < unat b * 256 ^ length bs + 256 ^ length bs" using Cons by simp
  ultimately have "unat b * 256 ^ length bs + mac_value bs < 256 * 256 ^ length bs" by linarith
  then show ?case by simp
qed simp

lemma digits_less:
  fixes a b c d m :: nat
  assumes "b < m" "d < m"
  shows "a * m + b < c * m + d \<longleftrightarrow> a < c \<or> (a = c \<and> b < d)"
proof -
  have "a * m + m \<le> c * m" if "a < c" using that mult_le_mono1 [of "Suc a" c m] by simp
  moreover have "c * m + m \<le> a * m" if "c < a" using that mult_le_mono1 [of "Suc c" a m] by simp
  ultimately show ?thesis using assms by (cases a c rule: linorder_cases) auto
qed

lemma memcmp_mac_value: "length a = length b \<Longrightarrow> memcmp a b > 0 \<longleftrightarrow> mac_value b < mac_value a"
proof (induction a b rule: memcmp.induct)
  case (1 a as b bs)
  then show ?case
    using digits_less [of "mac_value bs" "256 ^ length bs" "mac_value as" "unat b" "unat a"]
      mac_value_less [of as] mac_value_less [of bs]
    by (auto simp: word_less_nat_alt unat_eq_iff not_less)
qed auto

definition rank_key :: "u32 \<Rightarrow> Peer \<Rightarrow> nat" where
  "rank_key base p = (let a = pe_advertisement p in
     ((unat (ad_metric a) * 2 ^ 32 + unat (ad_masterCounter a - base)) * 16 + (10 - unat (ad_distance a))) * 2 ^ 48 +
     mac_value (pe_mac p))"

definition in_counter_window :: "u32 \<Rightarrow> Peer \<Rightarrow> bool" where
  "in_counter_window base p \<longleftrightarrow> ad_masterCounter (pe_advertisement p) - base < 0x80000000"

lemma sint_difference:
  assumes "unat ((x :: u32) - base) < 2 ^ 31" "unat (y - base) < 2 ^ 31"
  shows "sint (x - y) = int (unat (x - base)) - int (unat (y - base))"
proof -
  let ?a = "unat (x - base)" and ?b = "unat (y - base)"
  have "x - y = of_int (int ?a - int ?b)" by simp
  moreover have "?a < 2147483648" "?b < 2147483648" using assms by simp_all
  then have "- 2147483648 \<le> int ?a - int ?b" "int ?a - int ?b < 2147483648" by linarith+
  then have "signed_take_bit 31 (int ?a - int ?b) = int ?a - int ?b"
    by (intro signed_take_bit_int_eq_self) simp_all
  ultimately show ?thesis by (simp only: sint_sbintrunc') simp
qed

lemma outranks_rank_key:
  assumes "wf_adv (pe_advertisement p)" "wf_adv (pe_advertisement q)" "length (pe_mac p) = 6" "length (pe_mac q) = 6"
    "in_counter_window base p" "in_counter_window base q"
  shows "outranks_peer p q \<longleftrightarrow> rank_key base q < rank_key base p"
proof -
  let ?a = "pe_advertisement p" and ?b = "pe_advertisement q"
  let ?ca = "unat (ad_masterCounter ?a - base)" and ?cb = "unat (ad_masterCounter ?b - base)"
  have d: "unat (ad_distance ?a) \<le> 10" "unat (ad_distance ?b) \<le> 10"
    using assms(1,2) by (simp_all add: wf_adv_def word_le_nat_alt)
  have w: "?ca < 2 ^ 31" "?cb < 2 ^ 31" using assms(5,6) by (simp_all add: in_counter_window_def word_less_nat_alt)
  have rank: "sint (ad_masterCounter ?a - ad_masterCounter ?b) = int ?ca - int ?cb"
    using w by (rule sint_difference)
  have r: "sint (ad_masterCounter ?a - ad_masterCounter ?b) > 0 \<longleftrightarrow> ?cb < ?ca"
    "sint (ad_masterCounter ?a - ad_masterCounter ?b) = 0 \<longleftrightarrow> ?cb = ?ca"
    unfolding rank by linarith+
  have mac: "mac_value (pe_mac p) < 2 ^ 48" "mac_value (pe_mac q) < 2 ^ 48"
    using mac_value_less [of "pe_mac p"] mac_value_less [of "pe_mac q"] assms(3,4) by simp_all
  have "rank_key base q < rank_key base p \<longleftrightarrow>
     unat (ad_metric ?b) < unat (ad_metric ?a) \<or> (unat (ad_metric ?b) = unat (ad_metric ?a) \<and>
       (?cb < ?ca \<or> (?cb = ?ca \<and>
         (10 - unat (ad_distance ?b) < 10 - unat (ad_distance ?a) \<or>
          (10 - unat (ad_distance ?b) = 10 - unat (ad_distance ?a) \<and> mac_value (pe_mac q) < mac_value (pe_mac p))))))"
    unfolding rank_key_def Let_def digits_less [OF mac(2,1)]
    using digits_less [of "10 - unat (ad_distance ?b)" 16 "10 - unat (ad_distance ?a)"]
      digits_less [of ?cb "2 ^ 32" ?ca "unat (ad_metric ?b)" "unat (ad_metric ?a)"] w
    by (auto simp: algebra_simps)
  moreover have "10 - unat (ad_distance ?b) < 10 - unat (ad_distance ?a) \<longleftrightarrow> ad_distance ?a < ad_distance ?b"
    "10 - unat (ad_distance ?b) = 10 - unat (ad_distance ?a) \<longleftrightarrow> ad_distance ?a = ad_distance ?b"
    unfolding word_less_nat_alt unat_eq_iff [symmetric] using d by linarith+
  moreover have "memcmp (pe_mac p) (pe_mac q) > 0 \<longleftrightarrow> mac_value (pe_mac q) < mac_value (pe_mac p)"
    using assms(3,4) by (intro memcmp_mac_value) simp
  moreover have "ad_metric ?b < ad_metric ?a \<longleftrightarrow> unat (ad_metric ?b) < unat (ad_metric ?a)"
    "ad_metric ?a = ad_metric ?b \<longleftrightarrow> unat (ad_metric ?b) = unat (ad_metric ?a)"
    unfolding word_less_nat_alt unat_eq_iff by auto
  ultimately show ?thesis
    unfolding outranks_peer_def Let_def r by (simp only: simp_thms)
qed

section \<open>The winner of an unmanaged election\<close>

lemma best_of_maximal:
  assumes "\<not> es_nativeElectionManaged s" "es_syncRole s \<noteq> 2" "best_of s ps k = Some b" "i < k" "eligible s (ps ! i)"
    "\<And>i. i < k \<Longrightarrow> eligible s (ps ! i) \<Longrightarrow> wf_peer (ps ! i) \<and> in_counter_window base (ps ! i)"
  shows "rank_key base (ps ! i) \<le> rank_key base (ps ! b)"
  using assms(3-)
proof (induction k arbitrary: b i)
  case (Suc k)
  have key: "outranks_peer (ps ! i) (ps ! j) \<longleftrightarrow> rank_key base (ps ! j) < rank_key base (ps ! i)"
    if "i < Suc k" "j < Suc k" "eligible s (ps ! i)" "eligible s (ps ! j)" for i j
    using Suc.prems(4) [OF that(1,3)] Suc.prems(4) [OF that(2,4)] that(3,4)
    by (intro outranks_rank_key) (auto simp: wf_peer_def eligible_def addr_def)
  have old: "rank_key base (ps ! j) \<le> rank_key base (ps ! c)" if "best_of s ps k = Some c" "j < k" "eligible s (ps ! j)" for c j
    using Suc.IH [OF that] Suc.prems(4) by simp
  show ?case
  proof (cases "best_of s ps k")
    case None
    have "i = k" using best_of_None [OF None, of i] Suc.prems(2,3) by (auto simp: less_Suc_eq)
    with None Suc.prems(1,3) assms(1,2) show ?thesis by (auto simp: best_of_Suc pick_def split: if_splits)
  next
    case (Some c)
    have c: "c < Suc k" "eligible s (ps ! c)" using best_of_less [OF Some] best_of_eligible [OF Some] by simp_all
    show ?thesis
    proof (cases "eligible s (ps ! k) \<and> rank_key base (ps ! c) < rank_key base (ps ! k)")
      case True
      with Some Suc.prems(1) assms(1,2) key [OF lessI c(1) _ c(2)] have "b = k"
        by (simp add: best_of_Suc pick_def split: if_splits)
      with True old [OF Some, of i] Suc.prems(2,3) show ?thesis by (auto simp: less_Suc_eq)
    next
      case False
      with Some Suc.prems(1) assms(1,2) key [OF lessI c(1) _ c(2)] have "b = c"
        by (auto simp: best_of_Suc pick_def split: if_splits)
      with False old [OF Some, of i] Suc.prems(2,3) show ?thesis by (auto simp: less_Suc_eq)
    qed
  qed
qed simp

definition contender :: "u64 \<Rightarrow> ElectionState \<Rightarrow> Peer \<Rightarrow> bool" where
  "contender now s p \<longleftrightarrow> p \<in> set (es_peers s) \<and> \<not> stale now p \<and> eligible (elect_counter now s) p"

lemma contender_nth:
  assumes "contender now s q"
  obtains i where "i < length (es_peers s)" "map (expire now) (es_peers s) ! i = q"
proof -
  obtain i where i: "i < length (es_peers s)" "es_peers s ! i = q"
    using assms by (auto simp: contender_def in_set_conv_nth)
  moreover have "expire now q = q" using assms by (simp add: contender_def expire_def)
  ultimately show thesis by (intro that [of i]) simp_all
qed

text \<open>
  C7: an unmanaged node that may follow others and knows a live, loop-free peer that outranks it follows
  the best of them: it takes over clock, master and synchronization address of a contender that no other
  contender outranks by metric, election counter, distance and address. Without a contender it is its own
  master. Counters are compared within half of their 32-bit range.
\<close>

theorem elect_winner:
  assumes "wf_state s" and "\<not> es_controlsHeld s" and "\<not> es_nativeElectionManaged s" and "es_syncRole s = 1"
    and "\<forall>p \<in> set (es_peers s). pe_used p \<longrightarrow> in_counter_window base p"
  shows "(\<exists>p. contender now s p \<and> es_sync (elect now s) = pe_mac p \<and>
       es_master (elect now s) = ad_master (pe_advertisement p) \<and> es_epoch (elect now s) = pe_epoch p \<and>
       es_baseCounter (elect now s) = pe_baseCounter p \<and>
       (\<forall>q. contender now s q \<longrightarrow> \<not> outranks_peer q p)) \<or>
    ((\<forall>q. \<not> contender now s q) \<and> es_sync (elect now s) = es_mac s \<and> es_master (elect now s) = es_mac s)"
proof -
  let ?c = "elect_counter now s"
  have c: "es_peers ?c = es_peers s" "es_mac ?c = es_mac s" "es_nativeElectionManaged ?c = es_nativeElectionManaged s"
    "es_syncRole ?c = es_syncRole s" by (simp_all add: elect_counter_def Let_def)
  have peers: "wf_peers s" using assms(1) by (simp add: wf_state_def)
  then have len: "length (es_peers s) = maxPeers" by (simp add: wf_peers_def)
  from peers assms(2) show ?thesis
  proof (cases rule: elect_cases [where now = now])
    case 1
    with assms(3) show ?thesis by simp
  next
    case (2 ps)
    have "\<not> contender now s q" for q
    proof
      assume "contender now s q"
      then obtain i where "i < maxPeers" "ps ! i = q" "eligible ?c q"
        using contender_nth [of now s q] 2(1) len by (metis contender_def)
      with best_of_None [OF 2(3)] show False by blast
    qed
    with 2(2) assms(3) c show ?thesis by (simp add: elect_none_def holdClock_def Let_def)
  next
    case (3 ps b)
    let ?p = "ps ! b"
    have p: "contender now s ?p" using 3(2,4,7,8) len by (simp add: contender_def)
    have max: "\<not> outranks_peer q ?p" if cq: "contender now s q" for q
    proof -
      obtain i where i: "i < maxPeers" "ps ! i = q" using contender_nth [OF cq] 3(1) len by metis
      have ok: "wf_peer (ps ! j) \<and> in_counter_window base (ps ! j)" if "j < maxPeers" "eligible ?c (ps ! j)" for j
      proof -
        have "ps ! j = es_peers s ! j" using expire_eligible [of ?c now "es_peers s ! j"] that 3(1) len by simp
        with that len peers assms(5) show ?thesis by (auto simp: wf_peers_def list_all_length eligible_def)
      qed
      have q: "eligible ?c q" using cq by (simp add: contender_def)
      have le: "rank_key base q \<le> rank_key base ?p"
        using best_of_maximal [of ?c ps maxPeers b i base] 3(3) i q ok assms(3,4) c by simp
      have "outranks_peer q ?p \<longleftrightarrow> rank_key base ?p < rank_key base q"
        using ok [OF i(1)] ok [OF 3(2,4)] i q 3(4)
        by (intro outranks_rank_key) (auto simp: wf_peer_def eligible_def addr_def)
      with le show ?thesis by simp
    qed
    have "es_sync (elect now s) = pe_mac ?p" "es_master (elect now s) = ad_master (pe_advertisement ?p)"
      "es_epoch (elect now s) = pe_epoch ?p" "es_baseCounter (elect now s) = pe_baseCounter ?p"
      using 3(6) assms(3) c
      by (simp_all add: elect_apply_def elect_acquire_def elect_commit_def holdClock_def Let_def)
    with p max show ?thesis by blast
  qed
qed

definition sample_peer :: "u8 \<Rightarrow> u32 \<Rightarrow> Peer" where
  "sample_peer k metric = \<lparr>pe_mac = [2, 0, 0, 0, 0, k],
     pe_advertisement = \<lparr>ad_sequence = sample_sequence, ad_master = [2, 0, 0, 0, 0, k], ad_sync = [2, 0, 0, 0, 0, k],
       ad_period = 16, ad_counter = 8, ad_down = 64, ad_presence = 4, ad_metric = metric, ad_distance = 0,
       ad_masterCounter = 7, ad_selfCounter = 7\<rparr>,
     pe_seen = 2000, pe_epoch = 2000, pe_baseCounter = 8, pe_used = True\<rparr>"

definition sample_unmanaged :: ElectionState where
  "sample_unmanaged = (sample_state\<lparr>es_nativeElectionManaged := False\<rparr>)
     \<lparr>es_peers := [sample_peer 7 600, sample_peer 9 800] @ replicate 14 Peer0\<rparr>"

lemma wf_sample_unmanaged: "wf_state sample_unmanaged"
proof -
  have "es_nativeClockSelected sample_state = False" by code_simp
  then have "wf_state (sample_state\<lparr>es_nativeElectionManaged := False\<rparr>)"
    using wf_sample_state by (simp add: wf_state_def wf_defs)
  moreover have "list_all wf_peer ([sample_peer 7 600, sample_peer 9 800] @ replicate 14 Peer0)"
    by code_simp
  ultimately show ?thesis unfolding sample_unmanaged_def by (intro wf_set_peers) (simp_all add: maxPeers_def)
qed

theorem elect_winner_witness:
  "(\<exists>p. contender 3000 sample_unmanaged p \<and> es_sync (elect 3000 sample_unmanaged) = pe_mac p \<and>
     \<not> outranks_peer (sample_peer 9 800) p)"
proof -
  have flags: "\<not> es_controlsHeld sample_unmanaged" "\<not> es_nativeElectionManaged sample_unmanaged" "es_syncRole sample_unmanaged = 1"
    by code_simp+
  have "\<forall>p \<in> set (es_peers sample_unmanaged). pe_used p \<longrightarrow> in_counter_window 0 p" by code_simp
  moreover have "contender 3000 sample_unmanaged (sample_peer 9 800)" by code_simp
  ultimately show ?thesis using elect_winner [OF wf_sample_unmanaged flags, of 0 3000] by blast
qed

section \<open>Managed elections follow the selected parent\<close>

lemma elect_pieces [simp]:
  "es_sequence (elect_reject p s) = es_sequence s" "es_epoch (elect_reject p s) = es_epoch s"
  "es_baseCounter (elect_reject p s) = es_baseCounter s" "es_synchronized (elect_reject p s) = False"
  "es_sequence (elect_defer p s) = es_sequence s" "es_epoch (elect_defer p s) = es_epoch s"
  "es_baseCounter (elect_defer p s) = es_baseCounter s" "es_synchronized (elect_defer p s) = es_synchronized s"
  "es_sync (elect_defer p s) = es_sync s"
  "es_sequence (elect_acquire p s) = es_sequence s" "es_sync (elect_acquire p s) = es_sync s"
  "es_sequence (enterHoldover s) = es_sequence s" "es_sync (enterHoldover s) = es_sync s"
  "es_sequence (clock_correct now d s) = es_sequence s" "es_sync (clock_correct now d s) = es_sync s"
  "es_sync (elect_commit same p s) = pe_mac p" "es_ownSequence (elect_commit same p s) = es_ownSequence s"
  "es_sequence (elect_commit same p s) = (if es_nativeElectionManaged s then es_ownSequence s else ad_sequence (pe_advertisement p))"
  by (simp_all add: elect_reject_def elect_defer_def elect_acquire_def enterHoldover_def clock_correct_def
      elect_commit_def holdClock_def Let_def split: prod.split)

lemma elect_slew_pieces [simp]:
  "es_sequence (elect_slew now p s) = es_sequence s" "es_sync (elect_slew now p s) = es_sync s"
  by (simp_all add: elect_slew_def Let_def)

lemma elect_apply_outcomes:
  "elect_apply now p s \<in> {s, elect_reject p s, elect_defer p s} \<union>
     (let s' = elect_commit (sameClock p s) p s in {s', elect_acquire p s', elect_slew now p s'})"
  unfolding elect_apply_def Let_def by simp

lemma elect_apply_parent:
  assumes "es_nativeElectionManaged s"
  shows "es_sequence (elect_apply now p s) \<in> {es_sequence s, es_ownSequence s}"
    and "es_epoch (elect_apply now p s) \<noteq> es_epoch s \<or> es_baseCounter (elect_apply now p s) \<noteq> es_baseCounter s \<or>
      (es_synchronized (elect_apply now p s) \<and> \<not> es_synchronized s) \<Longrightarrow> es_sync (elect_apply now p s) = pe_mac p"
  using elect_apply_outcomes [of now p s] assms by (auto simp: Let_def)

text \<open>
  C8: a node whose election native manages never follows anybody on its own. Its channel sequence stays
  the one in force or becomes the one native programmed; and if an election moves its clock or makes it
  synchronized, then native had selected a parent, that parent was heard within the last three seconds,
  and it is the node's synchronization source afterwards.
\<close>

theorem managed_election_authority:
  assumes "wf_state s" and "es_nativeElectionManaged s"
  shows "(let s' = elect now s in
    es_sequence s' \<in> {es_sequence s, es_ownSequence s} \<and>
    (es_epoch s' \<noteq> es_epoch s \<or> es_baseCounter s' \<noteq> es_baseCounter s \<or> (es_synchronized s' \<and> \<not> es_synchronized s) \<longrightarrow>
       es_nativeParentSelected s \<and> es_sync s' = es_nativeParent s \<and>
       (\<exists>p. p \<in> set (es_peers s) \<and> pe_used p \<and> \<not> stale now p \<and> pe_mac p = es_nativeParent s)))"
proof (cases "es_controlsHeld s")
  case True
  then show ?thesis by (simp add: elect_def)
next
  case False
  let ?c = "elect_counter now s"
  have c: "es_sequence ?c = es_sequence s" "es_ownSequence ?c = es_ownSequence s" "es_epoch ?c = es_epoch s"
    "es_baseCounter ?c = es_baseCounter s" "es_synchronized ?c = es_synchronized s" "es_nativeParent ?c = es_nativeParent s"
    "es_nativeElectionManaged ?c = es_nativeElectionManaged s" "es_nativeParentSelected ?c = es_nativeParentSelected s"
    by (simp_all add: elect_counter_def Let_def)
  have peers: "wf_peers s" using assms(1) by (simp add: wf_state_def)
  then have len: "length (es_peers s) = maxPeers" by (simp add: wf_peers_def)
  from peers False show ?thesis
  proof (cases rule: elect_cases [where now = now])
    case 1
    with c show ?thesis by simp
  next
    case (2 ps)
    with c show ?thesis by (auto simp: elect_none_def holdClock_def Let_def)
  next
    case (3 ps b)
    let ?s = "?c\<lparr>es_peers := ps\<rparr>"
    have mac: "pe_mac (ps ! b) = es_nativeParent s" using 3(4) assms(2) c by (simp add: eligible_def)
    have "\<exists>p. p \<in> set (es_peers s) \<and> pe_used p \<and> \<not> stale now p \<and> pe_mac p = es_nativeParent s"
      using mac 3(2,4,7,8) len by (intro exI [of _ "ps ! b"]) (auto simp: eligible_def)
    then show ?thesis
      using elect_apply_parent [of ?s now "ps ! b"] assms(2) mac 3(6,9) c by (simp add: Let_def)
  qed
qed

theorem managed_election_authority_witness:
  "es_sequence (elect 5000 sample_state) \<in> {es_sequence sample_state, es_ownSequence sample_state}"
proof -
  have "es_nativeElectionManaged sample_state" by code_simp
  from managed_election_authority [OF wf_sample_state this, of 5000] show ?thesis unfolding Let_def by blast
qed

section \<open>Clock discipline\<close>

lemma sint_of_int_u16: "- 32768 \<le> k \<Longrightarrow> k < 32768 \<Longrightarrow> sint (of_int k :: u16) = k"
  by (simp add: sint_sbintrunc' signed_take_bit_int_eq_self)

lemma sint_minus_u16:
  fixes x :: u16
  assumes "- 32768 \<le> sint x - k" "sint x - k < 32768"
  shows "sint (x - of_int k) = sint x - k"
proof -
  have "x - of_int k = of_int (sint x - k)" by simp
  then show ?thesis using sint_of_int_u16 [OF assms] by (simp only:)
qed

lemma clock_correct_delta:
  assumes now: "16384 \<le> now" and c: "\<bar>c\<bar> \<le> 512" and near: "\<bar>clock_delta now p s\<bar> \<le> 5120"
  shows "clock_delta now p (clock_correct now c s) = clock_delta now p s - c"
proof (cases "c = 0")
  case True
  then show ?thesis by (simp add: clock_correct_def)
next
  case False
  define L where "L = uint (es_elapsed s now mod awUs)"
  define R where "R = (if now \<ge> pe_epoch p then now - pe_epoch p else 0)"
  define D where "D = sint (pe_baseCounter p + ucast (R div awUs) - State_counter s now)"
  define k where "k = (if L + c < 0 then - 1 else if L + c \<ge> 16384 then 1 else (0 :: int))"
  define ph where "ph = L + c - 16384 * k"
  have aw: "uint awUs = 16384" by (simp add: awUs_def)
  have bounds: "0 \<le> L" "L < 16384" "0 \<le> uint (R mod awUs)" "uint (R mod awUs) < 16384"
    by (simp_all add: L_def uint_mod_distrib aw)
  have delta: "clock_delta now p s = D * 16384 + uint (R mod awUs) - L"
    by (simp add: clock_delta_def Let_def D_def R_def L_def)
  have D: "- 2 < D" "D < 2" using near bounds unfolding delta by linarith+
  have ph: "0 \<le> ph" "ph < 16384" "k \<in> {-1, 0, 1}"
    using bounds c by (auto simp: ph_def k_def)
  have phw: "uint (of_int ph :: u64) = ph" using ph by (simp add: uint_word_of_int_eq take_bit_int_eq_self)
  then have le: "(of_int ph :: u64) \<le> now" using now ph(2) by (simp add: word_le_def)
  have eq: "clock_correct now c s = s\<lparr>es_epoch := now - of_int ph, es_baseCounter := State_counter s now + of_int k,
      es_clockCorrections := es_clockCorrections s + 1\<rparr>"
    using False le by (auto simp: clock_correct_def Let_def L_def [symmetric] ph_def k_def algebra_simps)
  have el: "es_elapsed (clock_correct now c s) now = of_int ph"
    unfolding eq es_elapsed_def using le by (simp add: word_sub_le_iff)
  have "(of_int ph :: u64) < awUs" using phw ph aw by (simp add: word_less_def)
  then have dm: "(of_int ph :: u64) div awUs = 0" "(of_int ph :: u64) mod awUs = of_int ph"
    by (simp_all add: div_word_less mod_word_less)
  then have counter: "State_counter (clock_correct now c s) now = State_counter s now + of_int k"
    unfolding State_counter_def [of "clock_correct now c s"] el by (simp add: eq)
  have "sint (pe_baseCounter p + ucast (R div awUs) - (State_counter s now + of_int k)) = D - k"
    using sint_minus_u16 [of "pe_baseCounter p + ucast (R div awUs) - State_counter s now" k] D ph(3)
    by (auto simp: D_def algebra_simps)
  then have "clock_delta now p (clock_correct now c s) = (D - k) * 16384 + uint (R mod awUs) - ph"
    unfolding clock_delta_def Let_def R_def [symmetric] el counter dm(2) phw by simp
  then show ?thesis by (simp add: delta ph_def algebra_simps)
qed

text \<open>
  C9: clock discipline is bounded and converges. On a fresh observation of the selected clock within
  5 TU the node moves its own clock towards it by the whole distance or by 512 microseconds, whichever is
  less, so the distance shrinks and never changes sign; a discontinuous observation leaves the clock
  alone and withdraws the claim of being synchronized.
\<close>

theorem elect_slew_converges:
  assumes "es_clockHoldUntil s \<le> now" and "16384 \<le> now"
  shows "(let d = clock_delta now p s; s' = elect_slew now p s in
    if \<bar>d\<bar> \<le> 5 * 1024 then clock_delta now p s' = d - max (- 512) (min 512 d)
    else es_epoch s' = es_epoch s \<and> es_baseCounter s' = es_baseCounter s \<and> \<not> es_synchronized s')"
proof -
  define d where "d = clock_delta now p s"
  have keep: "clock_delta now p (s\<lparr>es_nativeClockValidated := a, es_clockSampleRejected := b, es_nativeClockHoldover := c,
      es_synchronized := e, es_clockSampleAt := t\<rparr>) = clock_delta now p s"
    "clock_delta now p (s\<lparr>es_clockSampleAt := t\<rparr>) = clock_delta now p s" for a b c e t
    by (simp_all add: clock_delta_def es_elapsed_def State_counter_def)
  have clamp: "(if d > 512 then 512 else if d < - 512 then - 512 else d) = max (- 512) (min 512 d)" by auto
  show ?thesis
  proof (cases "\<bar>d\<bar> \<le> 5 * 1024")
    case True
    then have in_range: "\<not> (d > 5 * 1024 \<or> d < - 5 * 1024)" by linarith
    have "clock_delta now p (elect_slew now p s) = d - max (- 512) (min 512 d)"
      unfolding elect_slew_def Let_def d_def [symmetric] clamp
      using in_range assms(1) True keep
      by (auto simp: not_less d_def [symmetric] clock_correct_delta [OF assms(2)])
    with True show ?thesis by (simp add: d_def Let_def)
  next
    case False
    then have "d > 5 * 1024 \<or> d < - 5 * 1024" by linarith
    with False show ?thesis by (auto simp: elect_slew_def enterHoldover_def Let_def d_def [symmetric])
  qed
qed

theorem elect_slew_converges_witness:
  "clock_delta 20000 ((sample_peer 7 600)\<lparr>pe_baseCounter := 0\<rparr>)
     (elect_slew 20000 ((sample_peer 7 600)\<lparr>pe_baseCounter := 0\<rparr>) sample_state) = - 488"
proof -
  have "clock_delta 20000 ((sample_peer 7 600)\<lparr>pe_baseCounter := 0\<rparr>) sample_state = - 1000" by code_simp
  moreover have "es_clockHoldUntil sample_state \<le> 20000" by code_simp
  ultimately show ?thesis
    using elect_slew_converges [of sample_state 20000 "(sample_peer 7 600)\<lparr>pe_baseCounter := 0\<rparr>"] by (simp add: Let_def)
qed

end
