(* ===== verification/Awdl_Wire.thy ===== *)
theory Awdl_Wire
  imports Awdl_Election_Inv
begin

text \<open>
  The advertisement a node transmits (\<open>writeSequence\<close>, \<open>writeSync\<close>, \<open>writeElection\<close> and
  \<open>buildSynchronization\<close> of \<open>include/AWDL/RTWAwdlElection.hpp\<close>) and what a receiver makes of it. The
  writers fill a zeroed buffer field by field; here each is the list of its fields, with the bytes
  that stay zero written out.
\<close>

section \<open>Definitions\<close>

definition writeSequence :: "Sequence \<Rightarrow> bytes" where
  "writeSequence q = [sq_count q - 1, 0, 0, sq_step q] @ put16 0xffff @ take (unat (sq_count q)) (sq_channels q)"

definition remainingTu :: "ElectionState \<Rightarrow> u64 \<Rightarrow> u16" where
  "remainingTu s now =
     (let remaining = State_untilNext s now; duration = ucast (es_presence s) * ucast awUs; elapsed = duration - remaining in
      if elapsed < ucast awUs then ucast ((ucast awUs - elapsed) div 1024) else 0)"

definition writeSync :: "ElectionState \<Rightarrow> u64 \<Rightarrow> bytes" where
  "writeSync s now =
     [State_channel s now] @ put16 (ucast ((State_untilNext s now + 1023) div 1024)) @ [State_channel s now, 0] @
     put16 16 @ [0, 0, 0, 0] @ put16 16 @ put16 16 @ put16 (remainingTu s now) @
     map (\<lambda>e. if e < es_presence s then e else es_presence s - 1) (es_minExtension s) @
     es_master s @ [es_presence s, 0] @ put16 (State_counter s now) @ put16 (State_counter s now) @
     writeSequence (es_sequence s)"

definition writeElection :: "ElectionState \<Rightarrow> bytes" where
  "writeElection s = es_master s @ es_sync s @ put32 (es_masterCounter s) @ put32 (es_distance s) @
     put32 (es_masterMetric s) @ put32 (es_metric s) @ zeros 8 @ put32 (es_selfCounter s)"

definition syncLength :: "ElectionState \<Rightarrow> nat" where
  "syncLength s = 39 + unat (sq_count (es_sequence s))"

definition buildSynchronization ::
  "bytes option \<Rightarrow> u64 \<Rightarrow> u32 \<Rightarrow> u32 \<Rightarrow> u8 \<Rightarrow> ElectionState \<Rightarrow> (nat \<times> bytes \<times> ElectionState) option" where
  "buildSynchronization frame now phyTime targetTime subtype s =
     (let n = 40 + 3 + syncLength s + 43 in
      case frame of None \<Rightarrow> None | Some out \<Rightarrow>
      if length out < n \<or> (subtype \<noteq> 0 \<and> subtype \<noteq> 3) \<or> \<not> validSequence (es_sequence s) \<or>
         (ucast (sq_step (es_sequence s)) + 1 :: u32) \<noteq> ucast (es_presence s) \<or> \<not> State_radioScheduleReady s \<or>
         now < es_epoch s \<or> \<not> unicast (es_mac s)
      then None
      else let header = [0xd0, 0, 0, 0] @ replicate 6 255 @ es_mac s @ awdl_bssid @
                 put16 (push_bit 4 (es_frameCounter s AND 4095));
               body = [127, 0, 0x17, 0xf2, 8, 0x10, subtype, 0] @ put32 phyTime @ put32 targetTime @
                 [4] @ put16 (of_nat (syncLength s)) @ writeSync s now @ [24] @ put16 40 @ writeElection s;
               f = patch 50 (put16 (es_psfPeriod s)) (header @ body) in
        Some (n, f @ drop n out, s\<lparr>es_frameCounter := es_frameCounter s + 1\<rparr>))"

section \<open>The clock fields in exact arithmetic\<close>

definition aw_phase :: "ElectionState \<Rightarrow> u64 \<Rightarrow> nat" where
  "aw_phase s now = ((unat (es_baseCounter s) mod unat (es_presence s)) * 16384 + (unat now - unat (es_epoch s)))
     mod (unat (es_presence s) * 16384)"

lemma presence_dvd: "p \<in> {1, 2, 4, 8, 16 :: u8} \<Longrightarrow> 0 < unat p \<and> unat p dvd 16 \<and> unat p \<le> 16"
  by auto

lemma untilNext_nat:
  assumes "es_presence s \<in> {1, 2, 4, 8, 16}" "es_epoch s \<le> now"
  shows "unat (State_untilNext s now) = unat (es_presence s) * 16384 - aw_phase s now"
    and "aw_phase s now < unat (es_presence s) * 16384"
proof -
  define P where "P = unat (es_presence s)"
  have P: "0 < P" "P \<le> 16" using presence_dvd [OF assms(1)] by (simp_all add: P_def)
  have valid: "validPresence (ucast (es_presence s))" using assms(1) by (simp only: validPresence_iff)
  define period where "period = (ucast (es_presence s) * ucast awUs :: u32)"
  have period: "unat period = P * 16384"
    using P by (simp add: period_def awUs_def unat_word_ariths unat_ucast_up P_def [symmetric])
  have p64: "unat (ucast period :: u64) = P * 16384" by (simp add: unat_ucast_up period)
  have elapsed: "unat (es_elapsed s now) = unat now - unat (es_epoch s)"
    using assms(2) by (simp add: es_elapsed_def unat_sub)
  have "unat (ucast (es_presence s) :: u16) = P" by (simp add: unat_ucast_up P_def)
  then have base: "unat (ucast (es_baseCounter s mod ucast (es_presence s)) :: u64) = unat (es_baseCounter s) mod P"
    by (simp add: unat_ucast_up unat_mod_distrib)
  define q :: u64 where "q = es_elapsed s now mod ucast period"
  have q: "unat q = (unat now - unat (es_epoch s)) mod (P * 16384)" by (simp add: q_def unat_mod_distrib elapsed p64)
  have "unat (es_baseCounter s) mod P < P" "unat q < P * 16384" using P by (simp_all add: q)
  then have "unat (es_baseCounter s) mod P * 16384 + unat q < 18446744073709551616" using P by linarith
  then have sum: "unat (ucast (es_baseCounter s mod ucast (es_presence s)) * awUs + q) = unat (es_baseCounter s) mod P * 16384 + unat q"
    using base by (simp add: unat_word_ariths(1,2) awUs_def)
  define x where "x = (ucast (es_baseCounter s mod ucast (es_presence s)) * awUs + q) mod (ucast period :: u64)"
  have x: "unat x = aw_phase s now"
    by (simp add: x_def unat_mod_distrib sum p64 q aw_phase_def P_def mod_add_right_eq)
  show lt: "aw_phase s now < unat (es_presence s) * 16384" using P by (simp add: aw_phase_def P_def)
  then have "aw_phase s now < 2 ^ 32" using P by (simp add: P_def)
  then have x32: "unat (ucast x :: u32) = aw_phase s now"
    by (simp add: unsigned_ucast_eq x take_bit_nat_eq_self)
  then have "(ucast x :: u32) \<le> period" using lt by (simp add: word_le_nat_alt period P_def)
  then have "unat (period - ucast x) = P * 16384 - aw_phase s now" by (simp add: unat_sub period x32)
  then show "unat (State_untilNext s now) = unat (es_presence s) * 16384 - aw_phase s now"
    using valid by (simp add: State_untilNext_def Let_def period_def x_def q_def P_def)
qed

lemma counter_nat:
  assumes "es_epoch s \<le> now"
  shows "unat (State_counter s now) = (unat (es_baseCounter s) + (unat now - unat (es_epoch s)) div 16384) mod 65536"
proof -
  have "unat (es_elapsed s now div awUs) = (unat now - unat (es_epoch s)) div 16384"
    using assms by (simp add: es_elapsed_def unat_sub unat_div_distrib awUs_def)
  then show ?thesis
    by (simp add: State_counter_def unat_word_ariths(1) unsigned_ucast_eq take_bit_eq_mod mod_add_right_eq)
qed

text \<open>The slot within the presence period is the counter modulo the presence.\<close>

lemma aw_phase_slot:
  assumes "es_presence s \<in> {1, 2, 4, 8, 16}" "es_epoch s \<le> now"
  shows "aw_phase s now div 16384 = unat (State_counter s now) mod unat (es_presence s)"
proof -
  define P where "P = unat (es_presence s)"
  define e where "e = unat now - unat (es_epoch s)"
  define b where "b = unat (es_baseCounter s)"
  have P: "0 < P" "P dvd 16" using presence_dvd [OF assms(1)] by (simp_all add: P_def)
  have "P dvd 65536" using P(2) by (rule dvd_trans) simp
  have "aw_phase s now div 16384 = ((b mod P * 16384 + e) div 16384) mod P"
    by (simp add: aw_phase_def P_def b_def e_def mod_mult2_eq [of _ 16384, simplified] mult.commute [of _ 16384])
  also have "\<dots> = (b mod P + e div 16384) mod P" by simp
  also have "\<dots> = (b + e div 16384) mod P" by (simp add: mod_add_left_eq)
  also have "\<dots> = (b + e div 16384) mod 65536 mod P" using \<open>P dvd 65536\<close> by (simp add: mod_mod_cancel)
  finally show ?thesis using assms(2) by (simp add: counter_nat P_def b_def e_def)
qed

lemma round_up_div:
  assumes "(a :: nat) < P * 16384"
  shows "(P * 16384 - a + 1023) div 1024 = 16 * P - a div 1024"
proof -
  define q r where "q = a div 1024" and "r = a mod 1024"
  have a: "a = 1024 * q + r" "r < 1024" by (simp_all add: q_def r_def)
  then have "q < 16 * P" using assms by linarith
  then have "P * 16384 - a + 1023 = 1024 * (16 * P - q) + (1023 - r)" using a assms by (simp add: right_diff_distrib')
  then show ?thesis using a(2) by (simp only: q_def [symmetric])
qed

lemma down_nat:
  assumes "es_presence s \<in> {1, 2, 4, 8, 16}" "es_epoch s \<le> now"
  shows "unat (ucast ((State_untilNext s now + 1023) div 1024) :: u16) = 16 * unat (es_presence s) - aw_phase s now div 1024"
proof -
  define P where "P = unat (es_presence s)"
  have P: "0 < P" "P \<le> 16" using presence_dvd [OF assms(1)] by (simp_all add: P_def)
  have u: "unat (State_untilNext s now) = P * 16384 - aw_phase s now" "aw_phase s now < P * 16384"
    using untilNext_nat [OF assms] by (simp_all add: P_def)
  then have "unat (State_untilNext s now) + 1023 < 4294967296" using P by linarith
  then have "unat ((State_untilNext s now + 1023) div 1024) = (P * 16384 - aw_phase s now + 1023) div 1024"
    by (simp add: unat_div_distrib unat_word_ariths(1) u)
  also have "\<dots> = 16 * P - aw_phase s now div 1024" using u(2) by (simp add: round_up_div)
  finally have *: "unat ((State_untilNext s now + 1023) div 1024) = 16 * P - aw_phase s now div 1024" .
  moreover have "16 * P - aw_phase s now div 1024 < 65536" using P by simp
  ultimately show ?thesis by (simp add: unsigned_ucast_eq take_bit_nat_eq_self P_def)
qed

section \<open>The frame as an envelope and two TLVs\<close>

definition sync_data :: "ElectionState \<Rightarrow> u64 \<Rightarrow> bytes" where
  "sync_data s now = patch 7 (put16 (es_psfPeriod s)) (writeSync s now)"

definition sync_tlvs :: "ElectionState \<Rightarrow> u64 \<Rightarrow> Tlv list" where
  "sync_tlvs s now = [\<lparr>tlv_type = 4, tlv_data = sync_data s now\<rparr>, \<lparr>tlv_type = 24, tlv_data = writeElection s\<rparr>]"

definition sync_header :: "ElectionState \<Rightarrow> bytes" where
  "sync_header s = [0xd0, 0, 0, 0] @ replicate 6 255 @ es_mac s @ awdl_bssid @ put16 (push_bit 4 (es_frameCounter s AND 4095))"

definition sync_envelope :: "u32 \<Rightarrow> u32 \<Rightarrow> u8 \<Rightarrow> bytes" where
  "sync_envelope phyTime targetTime subtype = [127, 0, 0x17, 0xf2, 8, 0x10, subtype, 0] @ put32 phyTime @ put32 targetTime"

definition sync_frame :: "ElectionState \<Rightarrow> u64 \<Rightarrow> u32 \<Rightarrow> u32 \<Rightarrow> u8 \<Rightarrow> bytes" where
  "sync_frame s now phyTime targetTime subtype =
     sync_header s @ sync_envelope phyTime targetTime subtype @ encode_tlvs (sync_tlvs s now)"

lemma wf_state_lengths:
  assumes "wf_state s"
  shows "length (es_mac s) = 6" "length (es_master s) = 6" "length (es_sync s) = 6" "length (es_minExtension s) = 4"
    "sq_count (es_sequence s) = 16" "length (sq_channels (es_sequence s)) = 16"
  using assms by (simp_all add: wf_state_def wf_schedule_def wf_own_def addr_def wf_seq_channels)

lemma length_writers [simp]:
  assumes "wf_state s"
  shows "length (writeSync s now) = 55" "length (writeElection s) = 40" "syncLength s = 55" "length (sync_data s now) = 55"
    "length (sync_header s) = 24"
  using wf_state_lengths [OF assms]
  by (simp_all add: writeSync_def writeSequence_def writeElection_def syncLength_def sync_data_def sync_header_def)

lemma length_sync_envelope [simp]: "length (sync_envelope p t b) = 16"
  by (simp add: sync_envelope_def)

lemma patch_append_right: "length xs \<le> i \<Longrightarrow> patch i bs (xs @ ys) = xs @ patch (i - length xs) bs ys"
  by (simp add: patch_def)

lemma patch_append_left: "i + length bs \<le> length xs \<Longrightarrow> patch i bs (xs @ ys) = patch i bs xs @ ys"
  by (simp add: patch_def)

lemma sync_tlvs_ok [simp]: "wf_state s \<Longrightarrow> list_all tlv_ok (sync_tlvs s now)"
  by (simp add: sync_tlvs_def tlv_ok_def)

text \<open>On a well-formed state the builder fails only for its documented reasons.\<close>

lemma buildSynchronization_eq:
  assumes "wf_state s"
  shows "buildSynchronization (Some out) now phyTime targetTime subtype s =
    (if length out < 141 \<or> (subtype \<noteq> 0 \<and> subtype \<noteq> 3) \<or> \<not> State_radioScheduleReady s \<or> now < es_epoch s then None
     else Some (141, sync_frame s now phyTime targetTime subtype @ drop 141 out, s\<lparr>es_frameCounter := es_frameCounter s + 1\<rparr>))"
proof -
  have *: "validSequence (es_sequence s)" "es_presence s = sq_step (es_sequence s) + 1" "unicast (es_mac s)"
    using assms by (simp_all add: wf_state_def wf_schedule_def wf_own_def addr_def wf_seq_def)
  moreover have "(ucast (sq_step (es_sequence s)) + 1 :: u32) = ucast (es_presence s)"
    using * by (simp add: step_word validSequence_def)
  moreover have "patch 50 (put16 (es_psfPeriod s)) (sync_header s @ sync_envelope phyTime targetTime subtype @
      ([4] @ put16 55) @ writeSync s now @ [24] @ put16 40 @ writeElection s) = sync_frame s now phyTime targetTime subtype"
    using assms by (simp add: patch_append_right patch_append_left sync_frame_def sync_tlvs_def encode_tlv_def sync_data_def
        del: append_Cons append_Nil)
  ultimately show ?thesis
    using assms by (simp add: buildSynchronization_def Let_def sync_header_def sync_envelope_def)
qed

section \<open>Decoding what was built\<close>

lemma sync_data_fields:
  assumes "wf_state s"
    and p_def: "p = sync_data s now"
  shows "le16 p 1 = ucast ((State_untilNext s now + 1023) div 1024)" "le16 p 5 = 16" "le16 p 7 = es_psfPeriod s"
    "le16 p 13 = 16" "piece 21 6 p = es_master s" "p ! 27 = es_presence s" "le16 p 29 = State_counter s now"
    "drop 33 p = writeSequence (es_sequence s)"
proof -
  note len = wf_state_lengths [OF assms(1)]
  have p: "p = [State_channel s now] @ put16 (ucast ((State_untilNext s now + 1023) div 1024)) @ [State_channel s now, 0] @
     put16 16 @ put16 (es_psfPeriod s) @ [0, 0] @ put16 16 @ put16 16 @ put16 (remainingTu s now) @
     map (\<lambda>e. if e < es_presence s then e else es_presence s - 1) (es_minExtension s) @
     es_master s @ [es_presence s, 0] @ put16 (State_counter s now) @ put16 (State_counter s now) @
     writeSequence (es_sequence s)"
    by (simp add: p_def sync_data_def writeSync_def patch_def)
  show "le16 p 1 = ucast ((State_untilNext s now + 1023) div 1024)" "le16 p 5 = 16" "le16 p 7 = es_psfPeriod s"
    "le16 p 13 = 16" "piece 21 6 p = es_master s" "p ! 27 = es_presence s" "le16 p 29 = State_counter s now"
    "drop 33 p = writeSequence (es_sequence s)"
    by (simp_all add: p fields len)
qed

lemma writeElection_fields:
  assumes "wf_state s"
    and p_def: "p = writeElection s"
  shows "piece 0 6 p = es_master s" "piece 6 6 p = es_sync s" "le32 p 12 = es_masterCounter s" "le32 p 16 = es_distance s"
    "le32 p 20 = es_masterMetric s" "le32 p 24 = es_metric s" "le32 p 36 = es_selfCounter s"
proof -
  note len = wf_state_lengths [OF assms(1)]
  show "piece 0 6 p = es_master s" "piece 6 6 p = es_sync s" "le32 p 12 = es_masterCounter s" "le32 p 16 = es_distance s"
    "le32 p 20 = es_masterMetric s" "le32 p 24 = es_metric s" "le32 p 36 = es_selfCounter s"
    by (simp_all add: p_def writeElection_def fields len)
qed

text \<open>A valid sequence survives the wire.\<close>

lemma decode_writeSequence:
  assumes "wf_seq q"
  shows "decodeChannelSequence (Some (writeSequence q)) =
    (SyncValid, \<lparr>cs_channel = sq_channels q, cs_auxiliary = zeros 16, cs_encoding = 0, cs_stride = sq_step q + 1, cs_count = 16\<rparr>)"
proof -
  let ?p = "writeSequence q"
  have q: "sq_count q = 16" "length (sq_channels q) = 16" "list_all (\<lambda>c. c \<le> 196) (sq_channels q)"
    "validPresence (ucast (sq_step q) + 1)" using assms by (simp_all add: wf_seq_channels)
  have p: "?p = [15, 0, 0, sq_step q] @ put16 0xffff @ sq_channels q" using q by (simp add: writeSequence_def)
  have step: "sq_step q \<le> 15"
  proof -
    have "unat (ucast (sq_step q) + 1 :: u32) = unat (sq_step q) + 1" using unat_u8_less [of "sq_step q"]
      by (simp add: unat_word_ariths unat_ucast_up del: unat_u8_less)
    moreover have "(ucast (sq_step q) + 1 :: u32) \<le> 16" using q(4) by (simp add: validPresence_def)
    ultimately show ?thesis by (simp add: word_le_nat_alt)
  qed
  have nth: "?p ! 0 = 15" "?p ! 1 = 0" "?p ! 2 = 0" "?p ! 3 = sq_step q" "le16 ?p 4 = 0xffff" "length ?p = 22"
    by (simp_all add: p fields q)
  have ch: "entry_channel ?p i = sq_channels q ! i" if "i < 16" for i
    using that by (simp add: entry_channel_def nth sequence_width_def) (simp add: p put16_def)
  have "sequence_header ?p" using step unfolding sequence_header_def nth by (simp add: sequence_width_def nth)
  moreover have "list_all (entry_ok ?p) [0..<16]"
    using q(2,3) unfolding entry_ok_def nth by (auto simp: list_all_length ch simp del: upt_rec_numeral)
  moreover have "map (entry_channel ?p) [0..<16] = sq_channels q"
    using q(2) by (intro nth_equalityI) (simp_all add: ch del: upt_rec_numeral)
  then have "sequence_of ?p = \<lparr>cs_channel = sq_channels q, cs_auxiliary = zeros 16, cs_encoding = 0, cs_stride = sq_step q + 1, cs_count = 16\<rparr>"
    unfolding sequence_of_def nth by simp
  ultimately show ?thesis by (simp only: decodeChannelSequence_Valid_iff)
qed

definition transmittable :: "ElectionState \<Rightarrow> u64 \<Rightarrow> bool" where
  "transmittable s now \<longleftrightarrow> wf_state s \<and> es_epoch s \<le> now \<and> 1 \<le> es_psfPeriod s \<and> es_psfPeriod s \<le> 4096"

lemma transmittable_presence: "transmittable s now \<Longrightarrow> es_presence s \<in> {1, 2, 4, 8, 16}"
  by (simp only: transmittable_def wf_state_def wf_schedule_def validPresence_iff [symmetric] wf_seq_presence)

definition sent_message :: "ElectionState \<Rightarrow> u64 \<Rightarrow> SyncMessage \<Rightarrow> SyncMessage" where
  "sent_message s now d = (decodeSync_params (sync_data s now) d)
     \<lparr>sm_electionPresent := True, sm_syncAddress := es_sync s, sm_masterCounter := es_masterCounter s,
      sm_height := es_distance s, sm_masterMetric := es_masterMetric s, sm_selfMetric := es_metric s,
      sm_selfCounter := es_selfCounter s, sm_master := es_master s,
      sm_sequence := \<lparr>cs_channel = sq_channels (es_sequence s), cs_auxiliary = zeros 16, cs_encoding = 0,
        cs_stride = sq_step (es_sequence s) + 1, cs_count = 16\<rparr>\<rparr>"

lemma sent_params_ok:
  assumes "transmittable s now"
  shows "\<not> sync_params_bad (decodeSync_params (sync_data s now) d)"
proof -
  have s: "wf_state s" "es_epoch s \<le> now" "1 \<le> es_psfPeriod s" using assms by (simp_all add: transmittable_def)
  note P = transmittable_presence [OF assms]
  have pres: "es_presence s \<noteq> 0 \<and> es_presence s \<le> 16 \<and> es_presence s AND (es_presence s - 1) = 0" using P by auto
  have "unat (16 * ucast (es_presence s) :: u32) = 16 * unat (es_presence s)"
    using presence_dvd [OF P] by (simp add: unat_word_ariths unat_ucast_up)
  then have "(ucast (ucast ((State_untilNext s now + 1023) div 1024) :: u16) :: u32) \<le> 16 * ucast (es_presence s)"
    "(16 :: u32) \<le> 16 * ucast (es_presence s)"
    using down_nat [OF P s(2)] presence_dvd [OF P] by (simp_all add: word_le_nat_alt unat_ucast_up)
  moreover have "unicast (es_master s)" using s(1) by (simp add: wf_state_def wf_schedule_def addr_def)
  moreover have "es_psfPeriod s \<noteq> 0" using s(3) by auto
  ultimately show ?thesis
    using pres by (simp add: sync_params_bad_def decodeSync_params_def sync_data_fields [OF s(1) refl, simplified] not_less)
qed

lemma sent_locals:
  assumes "transmittable s now"
  shows "\<exists>l. for_each decodeSync_body (sync_tlvs s now) (SyncLocals0 subtype body) = Inr l \<and>
     decodeSync_finish l = (SyncValid, sent_message s now (sl_decoded (SyncLocals0 subtype body))) \<and>
     \<not> sm_versionPresent (sl_decoded l)"
proof -
  have s: "wf_state s" "es_psfPeriod s \<le> 4096" "wf_seq (es_sequence s)" "es_presence s = sq_step (es_sequence s) + 1"
    and u: "unicast (es_master s)" "unicast (es_sync s)"
    using assms by (simp_all add: transmittable_def wf_state_def wf_schedule_def addr_def)
  let ?q = "\<lparr>cs_channel = sq_channels (es_sequence s), cs_auxiliary = zeros 16, cs_encoding = 0,
        cs_stride = sq_step (es_sequence s) + 1, cs_count = 16\<rparr>"
  define l where "l = SyncLocals0 subtype body"
  have l: "\<not> sl_haveSync l" "\<not> sl_haveSequence l" "\<not> sm_electionPresent (sl_decoded l)" "\<not> sm_versionPresent (sl_decoded l)"
    by (simp_all add: l_def SyncLocals0_def SyncMessage0_def)
  have four: "decodeSync_type4 (sync_data s now) l = Inr (l\<lparr>sl_haveSync := True,
      sl_decoded := decodeSync_params (sync_data s now) (sl_decoded l), sl_embedded := ?q, sl_haveEmbedded := True\<rparr>)"
    using s l sent_params_ok [OF assms] by (simp add: decodeSync_type4_def Let_def decode_writeSequence
        sync_data_fields [OF s(1) refl] decodeSync_params_def sync_data_fields [OF s(1) refl, simplified] not_less)
  have pres: "sm_presence (decodeSync_params (sync_data s now) d) = sq_step (es_sequence s) + 1"
    "sm_electionPresent (decodeSync_params (sync_data s now) d) = sm_electionPresent d"
    "sm_versionPresent (decodeSync_params (sync_data s now) d) = sm_versionPresent d" for d
    using s by (simp_all add: decodeSync_params_def sync_data_fields [OF s(1) refl])
  show ?thesis
    using s u l unfolding l_def [symmetric]
    by (simp add: sync_tlvs_def decodeSync_body_def four decodeSync_type24_def writeElection_fields [OF s(1) refl]
        decodeSync_finish_def sent_message_def pres)
qed

text \<open>Further TLVs a sender may append: they must not carry timing or election data, and at most one
  complete version TLV.\<close>

definition version_tlvs :: "Tlv list \<Rightarrow> Tlv list" where
  "version_tlvs ts = filter (\<lambda>t. tlv_type t = 21) ts"

definition extra_ok :: "Tlv list \<Rightarrow> bool" where
  "extra_ok ts \<longleftrightarrow> list_all tlv_ok ts \<and> list_all (\<lambda>t. tlv_type t \<notin> {4, 18, 24}) ts \<and> length (encode_tlvs ts) \<le> 3979 \<and>
     length (version_tlvs ts) \<le> 1 \<and> list_all (\<lambda>t. 2 \<le> length (tlv_data t)) (version_tlvs ts)"

definition versioned :: "bool \<Rightarrow> u8 \<Rightarrow> u8 \<Rightarrow> SyncMessage \<Rightarrow> SyncMessage" where
  "versioned present v c d = d\<lparr>sm_versionPresent := present, sm_version := v, sm_deviceClass := c\<rparr>"

lemma versioned_sent: "versioned p v c (sent_message s now d) = sent_message s now (versioned p v c d)"
  by (simp add: versioned_def sent_message_def decodeSync_params_def)

lemma versioned_same: "versioned (sm_versionPresent d) (sm_version d) (sm_deviceClass d) d = d"
  by (simp add: versioned_def)

lemma versioned_versioned [simp]: "versioned p v c (versioned p' v' c' d) = versioned p v c d"
  by (simp add: versioned_def)

lemma finish_versioned:
  "decodeSync_finish l = (SyncValid, d) \<Longrightarrow>
   decodeSync_finish (l\<lparr>sl_decoded := versioned p v c (sl_decoded l)\<rparr>) = (SyncValid, versioned p v c d)"
  unfolding decodeSync_finish_def Let_def versioned_def by (auto split: if_splits)

lemma extra_locals:
  assumes "list_all (\<lambda>t. tlv_type t \<notin> {4, 18, 24}) ts" "list_all (\<lambda>t. 2 \<le> length (tlv_data t)) (version_tlvs ts)"
    and "length (version_tlvs ts) \<le> (if sm_versionPresent (sl_decoded l) then 0 else 1)"
  shows "\<exists>p v c. for_each decodeSync_body ts l = Inr (l\<lparr>sl_decoded := versioned p v c (sl_decoded l)\<rparr>)"
  using assms
proof (induction ts arbitrary: l)
  case Nil
  have "l = l\<lparr>sl_decoded := versioned (sm_versionPresent (sl_decoded l)) (sm_version (sl_decoded l))
      (sm_deviceClass (sl_decoded l)) (sl_decoded l)\<rparr>" by (simp add: versioned_same)
  then show ?case by (metis for_each.simps(1))
next
  case (Cons t ts)
  show ?case
  proof (cases "tlv_type t = 21")
    case True
    let ?l = "l\<lparr>sl_decoded := versioned True (tlv_data t ! 0) (tlv_data t ! 1) (sl_decoded l)\<rparr>"
    have n: "\<not> sm_versionPresent (sl_decoded l)" "2 \<le> length (tlv_data t)" "version_tlvs ts = []"
      using Cons.prems True by (auto simp: version_tlvs_def split: if_splits)
    then have "decodeSync_body t l = Inr ?l"
      using True by (simp add: decodeSync_body_def decodeSync_type21_def versioned_def)
    moreover obtain p v c where "for_each decodeSync_body ts ?l = Inr (?l\<lparr>sl_decoded := versioned p v c (sl_decoded ?l)\<rparr>)"
      using Cons.IH [of ?l] Cons.prems(1) n(3) by auto
    ultimately show ?thesis by auto
  next
    case False
    then have "decodeSync_body t l = Inr l" using Cons.prems(1) by (simp add: decodeSync_body_def)
    then show ?thesis using Cons.IH [of l] Cons.prems False by (simp add: version_tlvs_def)
  qed
qed

lemma decode_sync_body:
  assumes "transmittable s now" "subtype = 0 \<or> subtype = 3" "extra_ok extra"
  shows "\<exists>d. decodeSyncAction (Some (sync_envelope phyTime targetTime subtype @ encode_tlvs (sync_tlvs s now @ extra))) =
      (SyncValid, sent_message s now d)"
    and "fst (parseAction (Some (sync_envelope phyTime targetTime subtype @ encode_tlvs (sync_tlvs s now @ extra)))) = ParseValid"
proof -
  let ?ts = "sync_tlvs s now @ extra"
  let ?b = "sync_envelope phyTime targetTime subtype @ encode_tlvs ?ts"
  have s: "wf_state s" using assms(1) by (simp add: transmittable_def)
  have ok: "list_all tlv_ok ?ts" using s assms(3) by (simp add: extra_ok_def)
  have drop: "drop 16 ?b = encode_tlvs ?ts" by simp
  have "length (encode_tlvs (sync_tlvs s now)) = 101" using s by (simp add: sync_tlvs_def)
  then have "awdl_header ?b" using assms(3) by (simp add: awdl_header_def extra_ok_def) (simp add: sync_envelope_def)
  then have valid: "parseAction (Some ?b) = (ParseValid, action_info ?b ?ts)"
    using drop ok by (rule parseAction_encode)
  then show "fst (parseAction (Some ?b)) = ParseValid" by simp
  have info: "ai_version (action_info ?b ?ts) = 16" "ai_subtype (action_info ?b ?ts) = subtype"
    by (simp_all add: action_info_def sync_envelope_def)
  obtain l where l: "for_each decodeSync_body (sync_tlvs s now) (SyncLocals0 subtype ?b) = Inr l"
    "decodeSync_finish l = (SyncValid, sent_message s now (sl_decoded (SyncLocals0 subtype ?b)))"
    "\<not> sm_versionPresent (sl_decoded l)" using sent_locals [OF assms(1)] by blast
  obtain p v c where x: "for_each decodeSync_body extra l = Inr (l\<lparr>sl_decoded := versioned p v c (sl_decoded l)\<rparr>)"
    using extra_locals [of extra l] assms(3) l(3) by (auto simp: extra_ok_def)
  have cursor: "TlvCursor_make (Some (drop 16 ?b)) (length ?b - 16) = cursor_at (encode_tlvs ?ts)" by (simp add: cursor_at_def)
  have "cursor_while decodeSync_body (TlvCursor_make (Some (drop 16 ?b)) (length ?b - 16)) (SyncLocals0 subtype ?b) =
      Inr (l\<lparr>sl_decoded := versioned p v c (sl_decoded l)\<rparr>, cursor_at [])"
    unfolding cursor using cursor_while_encode [OF ok, of decodeSync_body "[]" "SyncLocals0 subtype ?b"] l(1) x
    by (simp add: for_each_append)
  then have "decodeSyncAction (Some ?b) = (SyncValid, versioned p v c (sent_message s now (sl_decoded (SyncLocals0 subtype ?b))))"
    using finish_versioned [OF l(2)] assms(2) valid info by (auto simp: decodeSyncAction_def Let_def)
  then show "\<exists>d. decodeSyncAction (Some ?b) = (SyncValid, sent_message s now d)" unfolding versioned_sent by blast
qed

definition advertised :: "ElectionState \<Rightarrow> u64 \<Rightarrow> Advertisement" where
  "advertised s now = \<lparr>ad_sequence = es_sequence s, ad_master = es_master s, ad_sync = es_sync s, ad_period = 16,
     ad_counter = State_counter s now, ad_down = of_nat (16 * unat (es_presence s) - aw_phase s now div 1024),
     ad_presence = es_presence s, ad_metric = es_masterMetric s, ad_distance = es_distance s,
     ad_masterCounter = es_masterCounter s, ad_selfCounter = es_selfCounter s\<rparr>"

lemma frame_counter_nibble: "ucast (push_bit 4 c AND 65520 :: u16) AND (15 :: u8) = 0"
proof (rule bit_eqI)
  fix n assume "possible_bit TYPE(8 word) n"
  have fifteen: "(15 :: u8) = mask 4" by (simp add: mask_eq_exp_minus_1)
  show "bit (ucast (push_bit 4 c AND 65520 :: u16) AND (15 :: u8)) n = bit (0 :: u8) n"
    unfolding fifteen by (simp only: bit_and_iff bit_unsigned_iff bit_push_bit_iff bit_mask_iff) auto
qed

lemma sent_phase:
  assumes "es_presence s \<in> {1, 2, 4, 8, 16}" "es_epoch s \<le> now"
    and D: "unat (D :: u16) = 16 * unat (es_presence s) - aw_phase s now div 1024"
  shows "(ucast (State_counter s now) :: u32) mod ucast (es_presence s) = (ucast (es_presence s) * 16 - ucast D) div 16"
proof -
  define P where "P = unat (es_presence s)"
  have "P \<le> 16" using presence_dvd [OF assms(1)] by (simp add: P_def)
  then have p16: "unat (ucast (es_presence s) * 16 :: u32) = 16 * P" by (simp add: unat_word_ariths unat_ucast_up P_def)
  have phase: "aw_phase s now div 1024 \<le> 16 * P" using untilNext_nat(2) [OF assms(1,2)] by (simp add: P_def)
  have "(ucast D :: u32) \<le> ucast (es_presence s) * 16" by (simp add: word_le_nat_alt p16 unat_ucast_up D P_def)
  then have "unat (ucast (es_presence s) * 16 - ucast D :: u32) = aw_phase s now div 1024"
    using phase by (simp add: unat_sub p16 unat_ucast_up D P_def)
  then have "unat ((ucast (es_presence s) * 16 - ucast D :: u32) div 16) = aw_phase s now div 16384"
    by (simp add: unat_div_distrib div_mult2_eq [symmetric])
  also have "\<dots> = unat ((ucast (State_counter s now) :: u32) mod ucast (es_presence s))"
    by (simp add: aw_phase_slot [OF assms(1,2)] unat_mod_distrib unat_ucast_up)
  finally show ?thesis by (simp only: unat_eq_iff)
qed

lemma parse_sync_extra:
  assumes "transmittable s now" "subtype = 0 \<or> subtype = 3" "extra_ok extra"
  shows "parseAdvertisement (Some (sync_frame s now phyTime targetTime subtype @ encode_tlvs extra)) = Some (advertised s now)"
proof -
  let ?f = "sync_frame s now phyTime targetTime subtype @ encode_tlvs extra"
  let ?b = "sync_envelope phyTime targetTime subtype @ encode_tlvs (sync_tlvs s now @ extra)"
  have s: "wf_state s" "es_epoch s \<le> now" using assms(1) by (simp_all add: transmittable_def)
  note P = transmittable_presence [OF assms(1)] and len = wf_state_lengths [OF s(1)]
  have b: "drop 24 ?f = ?b" using s by (simp add: sync_frame_def)
  have hdr: "?f ! 0 = 0xd0" "?f ! Suc 0 = 0" "?f ! 22 AND 15 = 0" "24 \<le> length ?f" "piece 16 6 ?f = awdl_bssid"
    "unicast (drop 10 ?f)"
  proof -
    have f: "?f = [0xd0, 0, 0, 0] @ replicate 6 255 @ es_mac s @ awdl_bssid @
        put16 (push_bit 4 (es_frameCounter s AND 4095)) @ ?b" by (simp add: sync_frame_def sync_header_def)
    show "?f ! 0 = 0xd0" "?f ! Suc 0 = 0" "24 \<le> length ?f" by (simp_all add: f len)
    show "piece 16 6 ?f = awdl_bssid" by (simp add: f fields len)
    show "?f ! 22 AND 15 = 0" by (simp add: f fields len) (simp add: put16_def frame_counter_nibble)
    have "drop 10 ?f = es_mac s @ awdl_bssid @ put16 (push_bit 4 (es_frameCounter s AND 4095)) @ ?b"
      by (simp add: f numeral_eq_Suc)
    then show "unicast (drop 10 ?f)"
      using s(1) len(1) by (simp add: wf_state_def wf_own_def addr_def unicast_def nth_append)
  qed
  obtain d where d: "decodeSyncAction (Some ?b) = (SyncValid, sent_message s now d)"
    and valid: "fst (parseAction (Some ?b)) = ParseValid" using decode_sync_body [OF assms] by blast
  define m where "m = sent_message s now d"
  define D where "D = (of_nat (16 * unat (es_presence s) - aw_phase s now div 1024) :: u16)"
  note sd = sync_data_fields [OF s(1) refl, of now]
  have "ucast ((State_untilNext s now + 1023) div 1024) = D"
    using down_nat [OF P s(2)] unfolding D_def by (metis word_of_unat)
  then have m: "sm_periodTu m = 16" "sm_countdownTu m = D" "sm_height m = es_distance s" "sm_counter m = State_counter s now"
    "sm_presence m = es_presence s" "sm_master m = es_master s" "sm_electionPresent m" "sm_syncAddress m = es_sync s"
    "sm_masterMetric m = es_masterMetric s" "sm_masterCounter m = es_masterCounter s" "sm_selfCounter m = es_selfCounter s"
    "cs_channel (sm_sequence m) = sq_channels (es_sequence s)" "cs_count (sm_sequence m) = sq_count (es_sequence s)"
    "cs_stride (sm_sequence m) - 1 = sq_step (es_sequence s)"
    by (simp_all add: m_def sent_message_def decodeSync_params_def sd [simplified] len)
  have D: "unat D = 16 * unat (es_presence s) - aw_phase s now div 1024"
    unfolding D_def using presence_dvd [OF P] by (intro unat_of_nat_u16) linarith
  have "aw_phase s now div 1024 < 16 * unat (es_presence s)" using untilNext_nat(2) [OF P s(2)] by linarith
  then have "D \<noteq> 0" using D by force
  have "es_distance s \<le> 10" using s(1) by (simp add: wf_state_def wf_schedule_def)
  moreover note \<open>D \<noteq> 0\<close> sent_phase [OF P s(2) D]
  moreover have "map ((!) (sq_channels (es_sequence s))) [0..<slots] = sq_channels (es_sequence s)"
    using len map_nth [of "sq_channels (es_sequence s)"] by (simp add: slots_def)
  moreover have "fst (parseFrame (Some ?f)) = ParseValid"
    using valid hdr(1-4) unfolding parseFrame_def option.case b by simp
  ultimately show ?thesis
    using hdr(5,6) d unfolding parseAdvertisement_def Let_def option.sel b by (simp add: m_def [symmetric] m advertised_def D_def [symmetric] not_less)
qed

lemma parse_sync_frame:
  "transmittable s now \<Longrightarrow> subtype = 0 \<or> subtype = 3 \<Longrightarrow>
   parseAdvertisement (Some (sync_frame s now phyTime targetTime subtype)) = Some (advertised s now)"
  using parse_sync_extra [of s now subtype "[]"] by (simp add: extra_ok_def version_tlvs_def)

text \<open>
  C2: an advertisement built from a well-formed state reads back: \<open>buildSynchronization\<close> succeeds
  whenever the schedule is ready, the clock has started and the buffer has 141 bytes, it writes exactly
  141 bytes, and \<open>parseAdvertisement\<close> accepts them and returns the schedule, master, synchronization
  address, metric, distance and counters of the sender together with its clock in units of 1024
  microseconds.
\<close>

theorem synchronization_round_trip:
  assumes "wf_state s" and "1 \<le> es_psfPeriod s" and "es_psfPeriod s \<le> 4096"
    and "State_radioScheduleReady s" and "es_epoch s \<le> now" and "subtype \<in> {0, 3}" and "141 \<le> length out"
  shows "\<exists>f s'. buildSynchronization (Some out) now phyTime targetTime subtype s = Some (141, f, s') \<and>
    length f = length out \<and> drop 141 f = drop 141 out \<and> s' = s\<lparr>es_frameCounter := es_frameCounter s + 1\<rparr> \<and>
    parseAdvertisement (Some (take 141 f)) = Some \<lparr>ad_sequence = es_sequence s, ad_master = es_master s,
      ad_sync = es_sync s, ad_period = 16, ad_counter = State_counter s now,
      ad_down = ucast ((State_untilNext s now + 1023) div 1024), ad_presence = es_presence s,
      ad_metric = es_masterMetric s, ad_distance = es_distance s, ad_masterCounter = es_masterCounter s,
      ad_selfCounter = es_selfCounter s\<rparr>"
proof -
  have t: "transmittable s now" using assms by (simp add: transmittable_def)
  have "length (sync_frame s now phyTime targetTime subtype) = 141"
    using assms(1) by (simp add: sync_frame_def sync_tlvs_def)
  moreover have "parseAdvertisement (Some (sync_frame s now phyTime targetTime subtype)) = Some (advertised s now)"
    using t assms(6) by (intro parse_sync_frame) auto
  moreover have "of_nat (16 * unat (es_presence s) - aw_phase s now div 1024) =
      (ucast ((State_untilNext s now + 1023) div 1024) :: u16)"
    using down_nat [OF transmittable_presence [OF t] assms(5)] by (metis word_of_unat)
  ultimately show ?thesis
    using assms by (auto simp: buildSynchronization_eq advertised_def)
qed

lemma sample_transmittable: "transmittable (sample_state\<lparr>es_psfPeriod := 110\<rparr>) 5000"
  "State_radioScheduleReady (sample_state\<lparr>es_psfPeriod := 110\<rparr>)"
  using wf_sample_state by (simp_all add: transmittable_def) (code_simp, code_simp)

theorem synchronization_round_trip_witness:
  "\<exists>f s'. buildSynchronization (Some (zeros 141)) 5000 7 9 0 (sample_state\<lparr>es_psfPeriod := 110\<rparr>) = Some (141, f, s') \<and>
    length f = 141"
  using synchronization_round_trip [of "sample_state\<lparr>es_psfPeriod := 110\<rparr>" 5000 0 "zeros 141" 7 9] sample_transmittable
  by (auto simp: transmittable_def)

section \<open>A receiver follows the sender's schedule\<close>

lemma elect_piece_peers [simp]:
  "es_peers (elect_reject p s) = es_peers s" "es_peers (elect_defer p s) = es_peers s"
  "es_peers (elect_commit same p s) = es_peers s" "es_peers (elect_acquire p s) = es_peers s"
  "es_peers (clock_correct now c s) = es_peers s" "es_peers (enterHoldover s) = es_peers s" "es_peers (holdClock u s) = es_peers s"
  by (simp_all add: elect_reject_def enterHoldover_def elect_defer_def elect_commit_def elect_acquire_def clock_correct_def
      holdClock_def Let_def)

lemma elect_parts_peers [simp]:
  "es_peers (elect_counter now s) = es_peers s" "es_peers (elect_none s) = es_peers s"
  "es_peers (elect_slew now p s) = es_peers s" "es_peers (elect_apply now p s) = es_peers s"
proof -
  show slew: "es_peers (elect_slew now p s) = es_peers s" for s by (simp add: elect_slew_def Let_def)
  show "es_peers (elect_counter now s) = es_peers s" by (simp add: elect_counter_def Let_def)
  show "es_peers (elect_none s) = es_peers s" by (simp add: elect_none_def Let_def)
  show "es_peers (elect_apply now p s) = es_peers s" by (simp add: elect_apply_def slew Let_def)
qed

lemma elect_keeps_fresh:
  assumes "wf_peers s" "i < maxPeers" "\<not> stale now (es_peers s ! i)"
  shows "es_peers (elect now s) ! i = es_peers s ! i"
proof (cases "es_controlsHeld s")
  case False
  have "map (expire now) (es_peers s) ! i = es_peers s ! i"
    using assms by (simp add: wf_peers_def expire_def)
  with assms(1) False show ?thesis by (cases rule: elect_cases [where now = now]) simp_all
qed (simp add: elect_def)

lemma ucast_u32_u64: "unat (w :: u32) = n \<Longrightarrow> (ucast w :: u64) = of_nat n"
proof -
  assume "unat w = n"
  then have "unat (ucast w :: u64) = n" by (simp add: unat_ucast_up)
  then show ?thesis by (metis word_of_unat)
qed

definition lag :: "ElectionState \<Rightarrow> u64 \<Rightarrow> u64" where
  "lag s now = of_nat (aw_phase s now div 1024 * 1024)"

definition heard :: "ElectionState \<Rightarrow> u64 \<Rightarrow> u64 \<Rightarrow> Peer" where
  "heard s now t = \<lparr>pe_mac = es_mac s, pe_advertisement = advertised s now, pe_seen = t, pe_epoch = t - lag s now,
      pe_baseCounter = State_counter s now - State_counter s now mod ucast (es_presence s), pe_used = True\<rparr>"

lemma lag_word:
  assumes "es_presence s \<in> {1, 2, 4, 8, 16}" "es_epoch s \<le> now"
  shows "(ucast (ucast (ad_presence (advertised s now)) * ucast (ad_period (advertised s now)) -
      ucast (ad_down (advertised s now)) :: u32) :: u64) * 1024 = lag s now"
proof -
  let ?P = "unat (es_presence s)"
  define D where "D = (of_nat (16 * ?P - aw_phase s now div 1024) :: u16)"
  have phase: "aw_phase s now div 1024 < 16 * ?P" using untilNext_nat(2) [OF assms] by linarith
  have D: "unat D = 16 * ?P - aw_phase s now div 1024"
    unfolding D_def using presence_dvd [OF assms(1)] by (intro unat_of_nat_u16) linarith
  have p16: "unat (ucast (es_presence s) * 16 :: u32) = 16 * ?P"
    using presence_dvd [OF assms(1)] by (simp add: unat_word_ariths unat_ucast_up)
  have "(ucast D :: u32) \<le> ucast (es_presence s) * 16" by (simp add: word_le_nat_alt p16 unat_ucast_up D)
  then have "unat (ucast (es_presence s) * 16 - ucast D :: u32) = aw_phase s now div 1024"
    using phase by (simp add: unat_sub p16 unat_ucast_up D)
  then have "(ucast (ucast (es_presence s) * 16 - ucast D :: u32) :: u64) * 1024 = lag s now"
    unfolding lag_def by (simp add: ucast_u32_u64)
  then show ?thesis by (simp add: advertised_def D_def)
qed

lemma receive_sync_eq:
  assumes "transmittable s now" "subtype = 0 \<or> subtype = 3"
  shows "receiveAction (Some (sync_frame s now phyTime targetTime subtype)) t r =
    (if es_mac s = es_mac r then (None, r) else if t < lag s now then (None, r)
     else case receive_slot r (es_mac s) t of None \<Rightarrow> (None, r)
       | Some idx \<Rightarrow> (Some idx, elect t (r\<lparr>es_peers := (es_peers r)[idx := heard s now t]\<rparr>)))"
proof -
  have s: "wf_state s" "es_epoch s \<le> now" using assms(1) by (simp_all add: transmittable_def)
  have source: "piece 10 6 (sync_frame s now phyTime targetTime subtype) = es_mac s"
    by (simp add: sync_frame_def sync_header_def fields wf_state_lengths [OF s(1)])
  have ad: "ad_counter (advertised s now) = State_counter s now" "ad_presence (advertised s now) = es_presence s"
    by (simp_all add: advertised_def)
  show ?thesis
    unfolding receiveAction_def parse_sync_frame [OF assms] option.case option.sel Let_def source
    unfolding lag_word [OF transmittable_presence [OF assms(1)] s(2)] unfolding ad heard_def by (rule refl)
qed

lemma receive_sync_frame:
  assumes "transmittable s now" "subtype = 0 \<or> subtype = 3" "wf_state r"
    and recv: "receiveAction (Some (sync_frame s now phyTime targetTime subtype)) t r = (Some idx, r')"
  shows "es_peers r' ! idx = heard s now t \<and> lag s now \<le> t"
proof -
  have r': "r' = elect t (r\<lparr>es_peers := (es_peers r)[idx := heard s now t]\<rparr>)" "lag s now \<le> t"
    "receive_slot r (es_mac s) t = Some idx"
    using recv unfolding receive_sync_eq [OF assms(1,2)] by (auto split: if_splits option.splits)
  have idx: "idx < maxPeers" using r'(3) by (rule receive_slot_less)
  have peers: "wf_peers r" "length (es_peers r) = maxPeers" using assms(3) by (simp_all add: wf_state_def wf_peers_def)
  moreover have "wf_peer (heard s now t)"
    using assms(1) wf_parseAdvertisement [OF parse_sync_frame [OF assms(1,2)]]
    by (simp add: wf_peer_def heard_def transmittable_def wf_state_def wf_own_def)
  ultimately have "wf_peers (r\<lparr>es_peers := (es_peers r)[idx := heard s now t]\<rparr>)"
    by (auto simp: wf_peers_def list_all_iff dest: set_update_subset_insert [THEN subsetD])
  then have "es_peers r' ! idx = heard s now t"
    using elect_keeps_fresh [OF _ idx, of "r\<lparr>es_peers := (es_peers r)[idx := heard s now t]\<rparr>" t] idx peers(2)
    by (simp add: r'(1) stale_def heard_def)
  with r'(2) show ?thesis by simp
qed

text \<open>The arithmetic of the two counters: \<open>e\<close> is the sender's elapsed time, \<open>c\<close> the counter it sent.\<close>

lemma aw_phase_mod: "es_presence s \<in> {1, 2, 4, 8, 16} \<Longrightarrow> aw_phase s now mod 16384 = (unat now - unat (es_epoch s)) mod 16384"
  unfolding aw_phase_def by (simp add: mod_mod_cancel mod_add_left_eq [symmetric, of "_ * 16384"])

lemma mod_1024_le: "(e :: nat) mod 1024 \<le> e mod 16384"
proof -
  have "e mod 1024 = e mod 16384 mod 1024" by (simp add: mod_mod_cancel)
  then show ?thesis by simp
qed

lemma div_16384_add: "((e :: nat) + z) div 16384 = e div 16384 + (e mod 16384 + z) div 16384"
proof -
  have "e + z = 16384 * (e div 16384) + (e mod 16384 + z)" by simp
  then show ?thesis by (metis div_mult_self4 zero_neq_numeral)
qed

lemma lag_split:
  assumes "es_presence s \<in> {1, 2, 4, 8, 16}" "es_epoch s \<le> now"
  defines "e \<equiv> unat now - unat (es_epoch s)"
  shows "aw_phase s now div 1024 * 1024 = unat (State_counter s now) mod unat (es_presence s) * 16384 + (e mod 16384 - e mod 1024)"
proof -
  define a where "a = aw_phase s now"
  have a: "a div 16384 = unat (State_counter s now) mod unat (es_presence s)" "a mod 16384 = e mod 16384"
    using aw_phase_slot [OF assms(1,2)] aw_phase_mod [OF assms(1), of now] by (simp_all add: a_def e_def)
  have "a mod 1024 = e mod 1024" using arg_cong [OF a(2), of "\<lambda>n. n mod 1024"] by (simp add: mod_mod_cancel)
  moreover note mod_1024_le [of e]
  moreover have "a div 1024 * 1024 + a mod 1024 = a" by (rule div_mult_mod_eq)
  moreover have "a div 16384 * 16384 + a mod 16384 = a" by (rule div_mult_mod_eq)
  ultimately show ?thesis unfolding a a_def [symmetric] by linarith
qed

lemma peer_counter:
  assumes "es_presence s \<in> {1, 2, 4, 8, 16}" "es_epoch s \<le> now"
  defines "e \<equiv> unat now - unat (es_epoch s)"
  assumes "e mod 1024 \<le> x" "unat now + x < 18446744073709551616"
  shows "(State_counter s now - State_counter s now mod ucast (es_presence s)) +
      of_nat ((x + aw_phase s now div 1024 * 1024) div 16384) = State_counter s (now + of_nat (x - e mod 1024))"
proof -
  define c k where "c = State_counter s now" and "k = unat c mod unat (es_presence s)"
  define y where "y = (e mod 16384 + (x - e mod 1024)) div 16384"
  have "x + aw_phase s now div 1024 * 1024 = k * 16384 + (e mod 16384 + (x - e mod 1024))"
    using assms(4) mod_1024_le [of e] unfolding lag_split [OF assms(1,2)] e_def [symmetric] k_def c_def by linarith
  then have "(x + aw_phase s now div 1024 * 1024) div 16384 = k + y" unfolding y_def by simp
  moreover have "c mod ucast (es_presence s) = of_nat k"
  proof -
    have "unat (c mod ucast (es_presence s)) = k" by (simp add: k_def unat_mod_distrib unat_ucast_up)
    then show ?thesis by (metis word_of_unat)
  qed
  moreover have "State_counter s (now + of_nat (x - e mod 1024)) = c + of_nat y"
  proof -
    define v :: u64 where "v = now + of_nat (x - e mod 1024)"
    have "unat v = unat now + (x - e mod 1024)"
      using assms(5) by (simp add: v_def unat_word_ariths(1) unat_of_nat)
    moreover have "es_epoch s \<le> v" using calculation assms(2) by (simp add: word_le_nat_alt)
    ultimately have "unat (State_counter s v) = (unat (es_baseCounter s) + (e + (x - e mod 1024)) div 16384) mod 65536"
      using assms(2) by (simp add: counter_nat e_def word_le_nat_alt)
    also have "(e + (x - e mod 1024)) div 16384 = e div 16384 + y"
      unfolding y_def by (rule div_16384_add)
    also have "(unat (es_baseCounter s) + (e div 16384 + y)) mod 65536 = (unat c + y) mod 65536"
      using counter_nat [OF assms(2)] by (simp add: c_def e_def add.assoc mod_add_left_eq)
    also have "\<dots> = unat (c + of_nat y)" by (simp add: unat_word_ariths(1) unat_of_nat mod_add_right_eq)
    finally show ?thesis by (simp only: unat_eq_iff v_def)
  qed
  ultimately show ?thesis by (simp add: c_def)
qed

lemma heard_channel:
  assumes "transmittable s now" "State_radioScheduleReady s" "lag s now \<le> t"
    and x: "(unat now - unat (es_epoch s)) mod 1024 \<le> x" "x \<le> 3000000"
    and "unat now + x < 18446744073709551616" "unat t + x < 18446744073709551616"
  shows "Peer_channel (heard s now t) (t + of_nat x) =
    State_channel s (now + of_nat (x - (unat now - unat (es_epoch s)) mod 1024))"
proof -
  have s: "wf_seq (es_sequence s)" "es_epoch s \<le> now"
    using assms(1) by (simp_all add: transmittable_def wf_state_def wf_schedule_def)
  note P = transmittable_presence [OF assms(1)]
  have valid: "validSequence (es_sequence s)" using s(1) by (simp add: wf_seq_def)
  have tx: "unat (t + of_nat x) = unat t + x" using assms(7) by (simp add: unat_word_ariths(1) unat_of_nat)
  have phase: "aw_phase s now div 1024 * 1024 < 18446744073709551616"
    using untilNext_nat(2) [OF P s(2)] presence_dvd [OF P] by linarith
  have lag: "unat (lag s now) = aw_phase s now div 1024 * 1024" unfolding lag_def using phase by (rule unat_of_nat_u64)
  have epoch: "unat (t - lag s now) = unat t - unat (lag s now)" using assms(3) by (rule unat_sub)
  have le: "unat (lag s now) \<le> unat t" using assms(3) by (simp add: word_le_nat_alt)
  have after: "t - lag s now \<le> t + of_nat x" by (simp only: word_le_nat_alt tx epoch)
  have "unat (t + of_nat x - (t - lag s now)) = x + aw_phase s now div 1024 * 1024"
    using le unfolding unat_sub [OF after] tx epoch lag by linarith
  then have "unat ((t + of_nat x - (t - lag s now)) div awUs) = (x + aw_phase s now div 1024 * 1024) div 16384"
    by (simp add: unat_div_distrib awUs_def)
  then have "(ucast ((t + of_nat x - (t - lag s now)) div awUs) :: u16) = of_nat ((x + aw_phase s now div 1024 * 1024) div 16384)"
    by (metis of_nat_unat)
  then have counter: "pe_baseCounter (heard s now t) + ucast ((t + of_nat x - (t - lag s now)) div awUs) =
      State_counter s (now + of_nat (x - (unat now - unat (es_epoch s)) mod 1024))"
    using peer_counter [OF P s(2) x(1) assms(6)] by (simp add: heard_def)
  have fresh: "\<not> stale (t + of_nat x) (heard s now t)"
  proof -
    have "t \<le> t + of_nat x" by (simp add: word_le_nat_alt tx)
    moreover have "unat (t + of_nat x - t) = x" by (simp only: unat_sub [OF calculation] tx)
    ultimately show ?thesis using x(2) by (simp add: stale_def heard_def peerLifetimeUs_def word_less_nat_alt word_le_nat_alt)
  qed
  have "\<not> t + of_nat x < t - lag s now" using after by simp
  then show ?thesis
    using fresh valid assms(2) counter
    by (simp add: Peer_channel_def State_channel_def sequence_channel_def heard_def advertised_def Let_def)
qed

text \<open>
  C1: a receiver follows the sender's channel schedule. After a node has received an advertisement
  another node built at its time \<open>now\<close>, for as long as the entry lives (three seconds) the channel it
  computes for that peer \<open>x\<close> microseconds after reception is the channel the sender is on at
  \<open>now + x\<close>, up to the fraction of a time unit (less than 1024 microseconds) that the advertisement
  cannot express.
\<close>

theorem peer_follows_schedule:
  assumes "wf_state s" and "1 \<le> es_psfPeriod s" and "es_psfPeriod s \<le> 4096"
    and "buildSynchronization (Some out) now phyTime targetTime subtype s = Some (n, f, s')"
    and "wf_state r" and "receiveAction (Some (take n f)) t r = (Some idx, r')"
    and "fraction = (unat now - unat (es_epoch s)) mod 1024" and "fraction \<le> x" and "x \<le> 3000000"
    and "unat now + x < 2 ^ 64" and "unat t + x < 2 ^ 64"
  shows "pe_mac (es_peers r' ! idx) = es_mac s \<and>
    Peer_channel (es_peers r' ! idx) (t + of_nat x) = State_channel s (now + of_nat (x - fraction))"
proof -
  have b: "n = 141" "subtype = 0 \<or> subtype = 3" "State_radioScheduleReady s" "es_epoch s \<le> now"
    "f = sync_frame s now phyTime targetTime subtype @ drop 141 out"
    using assms(4) unfolding buildSynchronization_eq [OF assms(1)] by (auto split: if_splits)
  have t: "transmittable s now" using assms b by (simp add: transmittable_def)
  have "length (sync_frame s now phyTime targetTime subtype) = 141"
    using assms(1) by (simp add: sync_frame_def sync_tlvs_def)
  then have "receiveAction (Some (sync_frame s now phyTime targetTime subtype)) t r = (Some idx, r')"
    using assms(6) b by simp
  then have "es_peers r' ! idx = heard s now t" "lag s now \<le> t" using receive_sync_frame [OF t b(2) assms(5)] by auto
  then show ?thesis
    using heard_channel [OF t b(3) _ _ assms(9)] assms by (simp add: heard_def)
qed

definition sample_sender :: ElectionState where
  "sample_sender = sample_state\<lparr>es_psfPeriod := 110\<rparr>"

definition sample_receiver :: ElectionState where
  "sample_receiver = snd (State_init (Some [2, 0, 0, 0, 0, 2]) sample_sequence 1000 500 True ElectionState0)"

lemma wf_sample_receiver: "wf_state sample_receiver"
proof -
  have valid: "validSequence sample_sequence" by code_simp
  have "unicast [2, 0, 0, 0, 0, 2]" by code_simp
  with valid have "State_init (Some [2, 0, 0, 0, 0, 2]) sample_sequence 1000 500 True ElectionState0 = (True, sample_receiver)"
    by (simp add: sample_receiver_def State_init_def)
  then show ?thesis by (rule wf_init) (simp_all add: sample_sequence_def)
qed

theorem peer_follows_schedule_witness:
  "\<exists>f s' r'. buildSynchronization (Some (zeros 141)) 5000 7 9 0 sample_sender = Some (141, f, s') \<and>
     receiveAction (Some (take 141 f)) 70000 sample_receiver = (Some 0, r') \<and>
     Peer_channel (es_peers r' ! 0) 71000 = State_channel sample_sender 5072"
proof -
  let ?f = "sync_frame sample_sender 5000 7 9 0 @ drop 141 (zeros 141)"
  have s: "wf_state sample_sender" "transmittable sample_sender 5000" "State_radioScheduleReady sample_sender"
    using sample_transmittable wf_sample_state by (simp_all add: sample_sender_def)
  have built: "buildSynchronization (Some (zeros 141)) 5000 7 9 0 sample_sender =
      Some (141, ?f, sample_sender\<lparr>es_frameCounter := es_frameCounter sample_sender + 1\<rparr>)"
    using s by (simp add: buildSynchronization_eq transmittable_def not_less)
  have len: "length (sync_frame sample_sender 5000 7 9 0) = 141" using s(1) by (simp add: sync_frame_def sync_tlvs_def)
  have epoch: "es_epoch sample_sender = 1000" "es_baseCounter sample_sender = 0" "es_presence sample_sender = 4"
    by code_simp+
  then have "\<not> 70000 < lag sample_sender 5000" by (simp add: lag_def aw_phase_def)
  moreover have "receive_slot sample_receiver (es_mac sample_sender) 70000 = Some 0"
    "es_mac sample_sender \<noteq> es_mac sample_receiver" by code_simp+
  ultimately obtain r' where recv: "receiveAction (Some (take 141 ?f)) 70000 sample_receiver = (Some 0, r')"
    using s(2) len by (auto simp: receive_sync_eq)
  have "Peer_channel (es_peers r' ! 0) (70000 + of_nat 1000) = State_channel sample_sender (5000 + of_nat (1000 - 928))"
    using peer_follows_schedule [OF s(1) _ _ built wf_sample_receiver recv, of 928 1000] s(2)
    by (simp add: transmittable_def epoch)
  with built recv show ?thesis by auto
qed

end
