(* ===== verification/Awdl_Native.thy ===== *)
theory Awdl_Native
  imports Awdl_Wire
begin

text \<open>
  Frames and records exchanged with the native side: the owned action template
  (\<open>include/AWDL/RTWAwdlTxTemplate.hpp\<close>), supplemental TLVs merged into a synchronization frame
  (\<open>RTWAwdlNativeAction.hpp\<close>), event payloads (\<open>RTWAwdlNativeEvents.hpp\<close>) and receive metadata
  (\<open>RTWAwdlNativeRxMetadata.hpp\<close>). Output buffers that a method fills completely are returned as
  byte lists.
\<close>

section \<open>The action template\<close>

definition template_capacity :: nat where "template_capacity = 4096"

record TxTemplate =
  tt_bytes :: bytes
  tt_used :: nat

definition TxTemplate0 :: TxTemplate where
  "TxTemplate0 = \<lparr>tt_bytes = zeros template_capacity, tt_used = 0\<rparr>"

text \<open>Storing a body and clearing what an earlier, longer one left behind.\<close>

definition TxTemplate_store :: "bytes \<Rightarrow> TxTemplate \<Rightarrow> TxTemplate" where
  "TxTemplate_store b t = t\<lparr>tt_bytes := b @ zeros (tt_used t - length b) @ drop (max (length b) (tt_used t)) (tt_bytes t),
     tt_used := length b\<rparr>"

definition TxTemplate_replace :: "bytes option \<Rightarrow> TxTemplate \<Rightarrow> bool \<times> TxTemplate" where
  "TxTemplate_replace body t =
     (case parseAction body of
        (ParseValid, info) \<Rightarrow>
          if ai_subtype info \<noteq> 0 \<and> ai_subtype info \<noteq> 3 then (False, t) else (True, TxTemplate_store (the body) t)
      | _ \<Rightarrow> (False, t))"

definition template_envelope :: "u8 \<Rightarrow> u8 \<Rightarrow> bytes" where
  "template_envelope version subtype = [127, 0, 0x17, 0xf2, 8, version, subtype] @ zeros 9"

definition TxTemplate_replaceTlvs :: "bytes option \<Rightarrow> nat \<Rightarrow> u8 \<Rightarrow> u8 \<Rightarrow> TxTemplate \<Rightarrow> bool \<times> TxTemplate" where
  "TxTemplate_replaceTlvs tlvs n version subtype t =
     (if (tlvs = None \<and> n \<noteq> 0) \<or> n > template_capacity - 16 \<or> version = 0 \<or> (subtype \<noteq> 0 \<and> subtype \<noteq> 3) then (False, t)
      else (case cursor_while (\<lambda>item u. Inr u :: unit + unit) (TlvCursor_make tlvs n) () of
          Inl _ \<Rightarrow> (False, t)
        | Inr (_, cursor) \<Rightarrow>
            if cur_malformed cursor then (False, t)
            else (True, TxTemplate_store (template_envelope version subtype @ take n (case tlvs of None \<Rightarrow> [] | Some b \<Rightarrow> b)) t)))"

definition TxTemplate_clear :: "TxTemplate \<Rightarrow> TxTemplate" where
  "TxTemplate_clear t = t\<lparr>tt_bytes := zeros (tt_used t) @ drop (tt_used t) (tt_bytes t), tt_used := 0\<rparr>"

definition TxTemplate_tlvs :: "TxTemplate \<Rightarrow> bytes option" where
  "TxTemplate_tlvs t = (if tt_used t \<ge> 16 then Some (piece 16 (tt_used t - 16) (tt_bytes t)) else None)"

definition TxTemplate_build ::
  "bytes option \<Rightarrow> bytes option \<Rightarrow> bytes option \<Rightarrow> bytes option \<Rightarrow> u16 \<Rightarrow> u32 \<Rightarrow> u32 \<Rightarrow> TxTemplate \<Rightarrow> (nat \<times> bytes) option" where
  "TxTemplate_build dst destination source bssid sequence phyTime targetTime t =
     (case (dst, destination, source, bssid) of
        (Some out, Some da, Some sa, Some bs) \<Rightarrow>
          if tt_used t = 0 \<or> length out < 24 + tt_used t \<or> sa ! 0 AND 1 \<noteq> 0 \<or> foldr (OR) (take 6 sa) 0 = 0 then None
          else let header = [0xd0, 0, 0, 0] @ take 6 da @ take 6 sa @ take 6 bs @ put16 (push_bit 4 (sequence AND 0x0fff));
                   f = header @ take (tt_used t) (tt_bytes t) @ drop (24 + tt_used t) out in
            Some (24 + tt_used t, patch 36 (put32 targetTime) (patch 32 (put32 phyTime) f))
      | _ \<Rightarrow> None)"

section \<open>Supplemental TLVs\<close>

text \<open>Whether the native side may supply a TLV; the state records a seen election TLV.\<close>

definition nativeTlv :: "Tlv \<Rightarrow> bool \<Rightarrow> bool + bool" where
  "nativeTlv tlv election =
     (if tlv_type tlv = 4 \<or> tlv_type tlv = 18 then Inl False
      else if tlv_type tlv = 24 \<and> (election \<or> length (tlv_data tlv) \<noteq> 40) then Inl False
      else let election = (election \<or> tlv_type tlv = 24) in
        if tlv_type tlv = 5 \<and> length (tlv_data tlv) \<noteq> 21 then Inl False
        else if tlv_type tlv = 20 \<and> length (tlv_data tlv) mod 6 \<noteq> 0 then Inl False
        else Inr election)"

definition NativeAction_valid :: "bytes option \<Rightarrow> bool" where
  "NativeAction_valid bytes = (case bytes of None \<Rightarrow> False | Some b \<Rightarrow>
     (if b = [] \<or> length b > 2048 then False
      else case cursor_while nativeTlv (TlvCursor_make (Some b) (length b)) False of
        Inl r \<Rightarrow> r
      | Inr (_, cursor) \<Rightarrow> \<not> cur_malformed cursor))"

definition measureTlv :: "Tlv \<Rightarrow> nat \<Rightarrow> unit + nat" where
  "measureTlv tlv required =
     Inr (if tlv_type tlv \<noteq> 20 \<and> tlv_type tlv \<noteq> 24 then required + (3 + length (tlv_data tlv)) else required)"

text \<open>The legacy election TLV (type 5) carries the values in force.\<close>

definition patchElection :: "ElectionState \<Rightarrow> bytes \<Rightarrow> bytes" where
  "patchElection s p = patch 15 (put32 (es_metric s)) (patch 11 (put32 (es_masterMetric s))
     (patch 5 (es_master s) (patch 3 [ucast (es_distance s)] p)))"

definition appendTlv :: "ElectionState \<Rightarrow> Tlv \<Rightarrow> bytes \<times> nat \<Rightarrow> unit + bytes \<times> nat" where
  "appendTlv s tlv = (\<lambda>(frame, len).
     if tlv_type tlv = 20 \<or> tlv_type tlv = 24 then Inr (frame, len)
     else let data = (if tlv_type tlv = 5 then patchElection s (tlv_data tlv) else tlv_data tlv) in
       Inr (patch len (tlv_type tlv # put16 (of_nat (length (tlv_data tlv))) @ data) frame, len + (3 + length (tlv_data tlv))))"

definition NativeAction_build ::
  "TxTemplate \<Rightarrow> bytes option \<Rightarrow> u64 \<Rightarrow> u32 \<Rightarrow> u8 \<Rightarrow> ElectionState \<Rightarrow> (nat \<times> bytes \<times> ElectionState) option" where
  "NativeAction_build native dst now wire subtype s =
     (if \<not> NativeAction_valid (TxTemplate_tlvs native) then None
      else let tlvs = TxTemplate_tlvs native; cursor = TlvCursor_make tlvs (tt_used native - 16);
               required = (case cursor_while measureTlv cursor (40 + 3 + 39 + unat (sq_count (es_sequence s)) + 43) of
                  Inl _ \<Rightarrow> 0 | Inr (required, _) \<Rightarrow> required) in
        (case dst of None \<Rightarrow> None | Some frame \<Rightarrow>
          if required > length frame then None
          else (case buildSynchronization (Some frame) now wire wire subtype s of
              None \<Rightarrow> None
            | Some (len, frame, s) \<Rightarrow>
                (case cursor_while (appendTlv s) cursor (frame, len) of
                    Inl _ \<Rightarrow> None
                  | Inr ((frame, len), _) \<Rightarrow> Some (len, frame, s)))))"

section \<open>Event payloads and receive metadata\<close>

definition NativeEvents_cache :: "bytes option \<Rightarrow> bool \<Rightarrow> bytes option \<Rightarrow> bytes option" where
  "NativeEvents_cache address present dst = (case (address, dst) of
     (Some a, Some out) \<Rightarrow>
       if length out \<noteq> 0x1d0 \<or> \<not> unicast a then None
       else Some (put32 1 @ put32 (if present then 1 else 3) @ take 6 a @ zeros (0x1d0 - 14))
   | _ \<Rightarrow> None)"

definition NativeEvents_start ::
  "u16 \<Rightarrow> u32 \<Rightarrow> bytes option \<Rightarrow> bytes option \<Rightarrow> bytes option \<Rightarrow> u32 \<Rightarrow> bytes option \<Rightarrow> bytes option" where
  "NativeEvents_start counter role parent root channel wireTime dst =
     (case (dst, parent, root, channel) of
        (Some out, Some p, Some r, Some c) \<Rightarrow>
          if length out \<noteq> 36 \<or> length c \<noteq> 12 \<or> role < 1 \<or> role > 3 \<or> \<not> unicast p \<or> \<not> unicast r then None
          else if le32 c 0 \<noteq> 1 \<or> le32 c 4 = 0 \<or> le32 c 4 > 196 then None
          else Some (put32 (ucast counter) @ put32 role @ take 6 p @ take 6 r @ put32be wireTime @ c)
      | _ \<Rightarrow> None)"

definition NativeEvents_end :: "u32 \<Rightarrow> bytes option \<Rightarrow> bytes option" where
  "NativeEvents_end wireTime dst = (case dst of None \<Rightarrow> None | Some out \<Rightarrow>
     (if length out \<noteq> 40 then None else Some (zeros 4 @ put32be wireTime @ zeros 32)))"

definition NativeRxMetadata_build ::
  "bytes option \<Rightarrow> bytes option \<Rightarrow> int \<Rightarrow> bytes option \<Rightarrow> u32 \<Rightarrow> bool \<Rightarrow> bytes option" where
  "NativeRxMetadata_build source channel rssi dst wireRxTime wireRxTimeValid =
     (case dst of None \<Rightarrow> None | Some out \<Rightarrow>
       (if length out \<noteq> 72 then None
        else case (source, channel) of
          (Some sa, Some c) \<Rightarrow>
            if length c \<noteq> 12 \<or> rssi < -127 \<or> rssi \<ge> 0 then None
            else if foldr (OR) (take 6 sa) 0 = 0 \<or> sa ! 0 AND 1 \<noteq> 0 then None
            else Some (take 6 sa @ zeros 6 @ c @ zeros 20 @ put32 (of_int rssi) @
              (if wireRxTimeValid then put32be wireRxTime else zeros 4) @ zeros 20)
        | _ \<Rightarrow> None))"

section \<open>The template always holds one valid body\<close>

definition wf_template :: "TxTemplate \<Rightarrow> bool" where
  "wf_template t \<longleftrightarrow> length (tt_bytes t) = template_capacity \<and> tt_used t \<le> template_capacity \<and>
     drop (tt_used t) (tt_bytes t) = zeros (template_capacity - tt_used t) \<and>
     (tt_used t = 0 \<or> (\<exists>info. parseAction (Some (take (tt_used t) (tt_bytes t))) = (ParseValid, info) \<and>
        (ai_subtype info = 0 \<or> ai_subtype info = 3)))"

lemma zeros_append [simp]: "zeros m @ zeros n = zeros (m + n)"
  by (simp add: zeros_def replicate_add)

lemma drop_zeros [simp]: "drop m (zeros n) = zeros (n - m)"
  by (simp add: zeros_def)

lemma take_zeros [simp]: "take m (zeros n) = zeros (min m n)"
  by (simp add: zeros_def)

lemma wf_template0: "wf_template TxTemplate0"
  by (simp add: wf_template_def TxTemplate0_def)

lemma parseAction_bounds: "parseAction (Some b) = (ParseValid, info) \<Longrightarrow> 16 \<le> length b \<and> length b \<le> 4096"
  by (auto dest!: parseAction_ValidD simp: awdl_header_def)

lemma wf_template_store:
  assumes "wf_template t" "parseAction (Some b) = (ParseValid, info)" "ai_subtype info = 0 \<or> ai_subtype info = 3"
  shows "wf_template (TxTemplate_store b t)"
proof -
  have b: "length b \<le> 4096" using parseAction_bounds [OF assms(2)] by simp
  have t: "length (tt_bytes t) = 4096" "tt_used t \<le> 4096" "drop (tt_used t) (tt_bytes t) = zeros (4096 - tt_used t)"
    using assms(1) by (simp_all add: wf_template_def template_capacity_def)
  have "drop (max (length b) (tt_used t)) (tt_bytes t) = drop (max (length b) (tt_used t) - tt_used t) (zeros (4096 - tt_used t))"
    unfolding t(3) [symmetric] by simp
  then have "drop (max (length b) (tt_used t)) (tt_bytes t) = zeros (4096 - max (length b) (tt_used t))" by simp
  then have "tt_bytes (TxTemplate_store b t) = b @ zeros (4096 - length b)"
    using b t(2) by (cases "length b \<le> tt_used t") (simp_all add: TxTemplate_store_def max_def)
  with assms(2,3) b show ?thesis by (auto simp: wf_template_def TxTemplate_store_def template_capacity_def)
qed

lemma template_envelope_header:
  assumes "version \<noteq> 0" "length b \<le> 4080"
  shows "awdl_header (template_envelope version subtype @ b)" "drop 16 (template_envelope version subtype @ b) = b"
  using assms by (simp_all add: awdl_header_def template_envelope_def zeros_def numeral_eq_Suc)

text \<open>\<open>replaceTlvs\<close> accepts exactly the encoded TLV lists that fit.\<close>

lemma replaceTlvs_iff:
  "TxTemplate_replaceTlvs (Some b) (length b) version subtype t = (True, t') \<longleftrightarrow>
     (\<exists>ts. b = encode_tlvs ts \<and> list_all tlv_ok ts) \<and> length b \<le> 4080 \<and> version \<noteq> 0 \<and> (subtype = 0 \<or> subtype = 3) \<and>
     t' = TxTemplate_store (template_envelope version subtype @ b) t"
proof -
  let ?body = "\<lambda>item u. Inr u :: unit + unit"
  have loop: "for_each ?body ts () = Inr ()" for ts :: "Tlv list" by (induction ts) simp_all
  obtain c where run: "cursor_while ?body (cursor_at b) () = Inr ((), c)"
  proof (cases "cursor_while ?body (cursor_at b) ()")
    case (Inl r)
    from cursor_while_InlD [OF this] show thesis by auto
  next
    case (Inr r)
    with that show thesis by (cases r) auto
  qed
  have "\<not> cur_malformed c \<longleftrightarrow> (\<exists>ts. b = encode_tlvs ts \<and> list_all tlv_ok ts)"
  proof
    assume "\<not> cur_malformed c"
    then show "\<exists>ts. b = encode_tlvs ts \<and> list_all tlv_ok ts" using cursor_while_InrD [OF run] by blast
  next
    assume "\<exists>ts. b = encode_tlvs ts \<and> list_all tlv_ok ts"
    then obtain ts where "b = encode_tlvs ts" "list_all tlv_ok ts" by blast
    then show "\<not> cur_malformed c" using cursor_while_encode [of ts ?body "[]" "()"] run by (auto simp: loop)
  qed
  then show ?thesis
    using run by (auto simp: TxTemplate_replaceTlvs_def cursor_at_def template_capacity_def)
qed

lemma replaceTlvs_None:
  "fst (TxTemplate_replaceTlvs None n version subtype t) \<longleftrightarrow> n = 0 \<and> version \<noteq> 0 \<and> (subtype = 0 \<or> subtype = 3)"
  "snd (TxTemplate_replaceTlvs None n version subtype t) =
     (if n = 0 \<and> version \<noteq> 0 \<and> (subtype = 0 \<or> subtype = 3) then TxTemplate_store (template_envelope version subtype) t else t)"
  by (auto simp: TxTemplate_replaceTlvs_def TlvCursor_make_def cursor_while.simps TlvCursor_next_def)

datatype template_op = TtReplace "bytes option" | TtReplaceTlvs "bytes option" u8 u8 | TtClear

fun template_exec :: "template_op \<Rightarrow> TxTemplate \<Rightarrow> TxTemplate" where
  "template_exec (TtReplace body) t = snd (TxTemplate_replace body t)"
| "template_exec (TtReplaceTlvs tlvs version subtype) t =
     snd (TxTemplate_replaceTlvs tlvs (case tlvs of None \<Rightarrow> 0 | Some b \<Rightarrow> length b) version subtype t)"
| "template_exec TtClear t = TxTemplate_clear t"

lemma wf_replace: "wf_template t \<Longrightarrow> wf_template (snd (TxTemplate_replace body t))"
  by (cases body) (auto simp: TxTemplate_replace_def parseAction_def [of None]
      intro: wf_template_store split: prod.splits ParseResult.splits)

lemma wf_replaceTlvs:
  assumes "wf_template t"
  shows "wf_template (snd (TxTemplate_replaceTlvs tlvs (case tlvs of None \<Rightarrow> 0 | Some b \<Rightarrow> length b) version subtype t))"
proof -
  have store: "wf_template (TxTemplate_store (template_envelope version subtype @ encode_tlvs ts) t)"
    if "version \<noteq> 0" "subtype = 0 \<or> subtype = 3" "length (encode_tlvs ts) \<le> 4080" "list_all tlv_ok ts" for ts
  proof (rule wf_template_store [OF assms parseAction_encode])
    let ?b = "template_envelope version subtype @ encode_tlvs ts"
    show "awdl_header ?b" "drop 16 ?b = encode_tlvs ts" "list_all tlv_ok ts"
      using that template_envelope_header by blast+
    show "ai_subtype (action_info ?b ts) = 0 \<or> ai_subtype (action_info ?b ts) = 3"
      using that(2) by (simp add: action_info_def template_envelope_def)
  qed
  show ?thesis
  proof (cases tlvs)
    case None
    with assms store [of "[]"] show ?thesis by (simp add: replaceTlvs_None)
  next
    case (Some b)
    obtain ok t' where r: "TxTemplate_replaceTlvs (Some b) (length b) version subtype t = (ok, t')" by fastforce
    show ?thesis
    proof (cases ok)
      case True
      then show ?thesis using r store Some replaceTlvs_iff [of b version subtype t t'] by auto
    next
      case False
      with r have "t' = t" by (auto simp: TxTemplate_replaceTlvs_def split: if_splits sum.splits)
      with r Some assms show ?thesis by simp
    qed
  qed
qed

lemma wf_template_clear: "wf_template t \<Longrightarrow> wf_template (TxTemplate_clear t)"
  by (simp add: TxTemplate_clear_def wf_template_def)

lemma wf_template_exec: "wf_template t \<Longrightarrow> wf_template (template_exec op t)"
  by (cases op) (simp_all add: wf_replace wf_replaceTlvs wf_template_clear)

lemma wf_template_run: "wf_template t \<Longrightarrow> wf_template (fold template_exec ops t)"
  by (induction ops arbitrary: t) (simp_all add: wf_template_exec)

text \<open>Overwriting the two clock fields of a body leaves its envelope and TLVs alone.\<close>

definition stamp :: "u32 \<Rightarrow> u32 \<Rightarrow> bytes \<Rightarrow> bytes" where
  "stamp phyTime targetTime b = patch 12 (put32 targetTime) (patch 8 (put32 phyTime) b)"

lemma stamp_shape: "16 \<le> length b \<Longrightarrow> stamp phyTime targetTime b = take 8 b @ put32 phyTime @ put32 targetTime @ drop 16 b"
  by (simp add: stamp_def patch_def)

lemma parseAction_stamp:
  assumes "parseAction (Some b) = (ParseValid, info)"
  shows "parseAction (Some (stamp phyTime targetTime b)) = (ParseValid, info)"
proof -
  let ?b = "stamp phyTime targetTime b"
  obtain ts where ts: "awdl_header b" "drop 16 b = encode_tlvs ts" "list_all tlv_ok ts" "info = action_info b ts"
    using parseAction_ValidD [OF assms] by blast
  have len: "16 \<le> length b" using ts(1) by (simp add: awdl_header_def)
  have shape: "?b = take 8 b @ put32 phyTime @ put32 targetTime @ drop 16 b" by (rule stamp_shape [OF len])
  have low: "?b ! i = b ! i" if "i < 8" for i using that len by (simp add: shape nth_append)
  have "awdl_header ?b" using ts(1) by (simp add: awdl_header_def low) (simp add: shape)
  moreover have "drop 16 ?b = encode_tlvs ts" using len ts(2) by (simp add: shape)
  moreover have "action_info ?b ts = info" by (simp add: ts(4) action_info_def low)
  ultimately show ?thesis using parseAction_encode [OF _ _ ts(3)] by auto
qed

lemma TxTemplate_build_SomeD:
  assumes "TxTemplate_build (Some out) (Some da) (Some sa) (Some bs) sequence phyTime targetTime t = Some (n, f)"
    and "wf_template t" and len: "length da = 6" "length sa = 6" "length bs = 6"
  defines "body \<equiv> take (tt_used t) (tt_bytes t)"
  shows "unicast sa" "n = 24 + tt_used t" "16 \<le> tt_used t" "length f = length out"
    "take n f = [0xd0, 0, 0, 0] @ da @ sa @ bs @ put16 (push_bit 4 (sequence AND 0x0fff)) @ stamp phyTime targetTime body"
    "drop n f = drop n out"
proof -
  let ?header = "[0xd0, 0, 0, 0] @ da @ sa @ bs @ put16 (push_bit 4 (sequence AND 0x0fff))"
  let ?rest = "drop (24 + tt_used t) out"
  have g: "tt_used t \<noteq> 0" "24 + tt_used t \<le> length out" "sa ! 0 AND 1 = 0" "foldr (OR) (take 6 sa) 0 \<noteq> 0" "n = 24 + tt_used t"
    and f: "f = patch 36 (put32 targetTime) (patch 32 (put32 phyTime) (?header @ body @ ?rest))"
    using assms(1) len by (auto simp: TxTemplate_build_def Let_def body_def split: if_splits)
  show "unicast sa" using g len by (simp add: unicast_def)
  show n: "n = 24 + tt_used t" by (rule g(5))
  obtain info where "parseAction (Some body) = (ParseValid, info)" "length body = tt_used t"
    using assms(2) g(1) by (auto simp: wf_template_def body_def)
  then have body: "length body = tt_used t" "16 \<le> length body" using parseAction_bounds [of body info] by auto
  then show "16 \<le> tt_used t" by simp
  define h where "h = ?header"
  have h: "length h = 24" using len by (simp add: h_def)
  have "f = h @ stamp phyTime targetTime body @ ?rest"
    using body h unfolding f h_def [symmetric] by (simp add: stamp_def patch_append_right patch_append_left)
  moreover have "length (stamp phyTime targetTime body) = tt_used t" using body by (simp add: stamp_def)
  ultimately have "length f = length out" "take n f = h @ stamp phyTime targetTime body" "drop n f = drop n out"
    using g(2) n h by simp_all
  then show "length f = length out" "drop n f = drop n out"
    "take n f = [0xd0, 0, 0, 0] @ da @ sa @ bs @ put16 (push_bit 4 (sequence AND 0x0fff)) @ stamp phyTime targetTime body"
    by (simp_all add: h_def)
qed

text \<open>
  Whatever bodies the template held before, after native TLVs have been accepted the frame built
  from it is a valid AWDL action frame with exactly those TLVs and no byte of an earlier body, the
  requested version, subtype, clock values and addresses, and a unicast source; only the bytes of the
  frame are written.
\<close>

theorem TxTemplate_frame:
  assumes "TxTemplate_replaceTlvs (Some tlvs) (length tlvs) version subtype (fold template_exec ops TxTemplate0) = (True, t)"
    and "TxTemplate_build (Some out) (Some da) (Some sa) (Some bs) sequence phyTime targetTime t = Some (n, f)"
    and "length da = 6" and "length sa = 6" and "length bs = 6"
  shows "fst (parseFrame (Some (take n f))) = ParseValid \<and> n = 40 + length tlvs \<and> drop 40 (take n f) = tlvs \<and>
    f ! 29 = version \<and> f ! 30 = subtype \<and> le32 f 32 = phyTime \<and> le32 f 36 = targetTime \<and>
    piece 4 6 f = da \<and> piece 10 6 f = sa \<and> piece 16 6 f = bs \<and> unicast sa \<and> length f = length out \<and> drop n f = drop n out"
proof -
  let ?b = "template_envelope version subtype @ tlvs"
  have t: "t = TxTemplate_store ?b (fold template_exec ops TxTemplate0)" using assms(1) by (simp add: replaceTlvs_iff)
  have wf: "wf_template t"
    using assms(1) wf_replaceTlvs [OF wf_template_run [OF wf_template0], where tlvs = "Some tlvs"] by (metis option.case(2) snd_conv)
  have used: "tt_used t = length ?b" "take (tt_used t) (tt_bytes t) = ?b" by (simp_all add: t TxTemplate_store_def)
  note b = TxTemplate_build_SomeD [OF assms(2) wf assms(3-5), unfolded used(2), unfolded used(1)]
  have lenb: "length ?b = 16 + length tlvs" by (simp add: template_envelope_def)
  obtain info where parse: "parseAction (Some ?b) = (ParseValid, info)"
    using wf b(3) used by (auto simp: wf_template_def)
  have f: "f = ([0xd0, 0, 0, 0] @ da @ sa @ bs @ put16 (push_bit 4 (sequence AND 0x0fff))) @ stamp phyTime targetTime ?b @ drop n out"
    using b(5,6) append_take_drop_id [of n f] by simp
  have st: "stamp phyTime targetTime ?b = [127, 0, 0x17, 0xf2, 8, version, subtype, 0] @ put32 phyTime @ put32 targetTime @ tlvs"
  proof -
    have "16 \<le> length ?b" by (simp add: template_envelope_def)
    from stamp_shape [OF this] show ?thesis by (simp add: template_envelope_def zeros_def numeral_eq_Suc)
  qed
  have body: "drop 24 (take n f) = stamp phyTime targetTime ?b" using assms(3-5) by (simp add: b(5))
  have "fst (parseFrame (Some (take n f))) = ParseValid"
    unfolding parseFrame_def option.case body parseAction_stamp [OF parse]
    using assms(3-5) by (simp add: b(5) fields) (simp add: put16_def frame_counter_nibble)
  moreover have "f ! 29 = version" "f ! 30 = subtype" "le32 f 32 = phyTime" "le32 f 36 = targetTime"
    "piece 4 6 f = da" "piece 10 6 f = sa" "piece 16 6 f = bs"
    unfolding f st using assms(3-5) by (simp_all add: fields)
  moreover have "drop 40 (take n f) = tlvs"
    using arg_cong [OF body, of "drop 16"] by (simp add: st)
  ultimately show ?thesis using b(1,2,4,6) lenb by simp
qed

theorem TxTemplate_frame_witness:
  "\<exists>t n f. TxTemplate_replaceTlvs (Some [6, 2, 0, 9, 9]) (length [6, 2, 0, 9, 9 :: u8]) 16 3
      (fold template_exec [TtReplaceTlvs (Some [2, 3, 0, 7, 7, 7]) 16 0] TxTemplate0) = (True, t) \<and>
    TxTemplate_build (Some (zeros 60)) (Some (replicate 6 255)) (Some [2, 0, 0, 0, 0, 1]) (Some awdl_bssid) 7 100 200 t =
      Some (n, f) \<and> drop 40 (take n f) = [6, 2, 0, 9, 9]"
proof -
  let ?b = "[6, 2, 0, 9, 9] :: bytes"
  let ?old = "fold template_exec [TtReplaceTlvs (Some [2, 3, 0, 7, 7, 7]) 16 0] TxTemplate0"
  let ?t = "TxTemplate_store (template_envelope 16 3 @ ?b) ?old"
  have tlvs: "?b = encode_tlvs [\<lparr>tlv_type = 6, tlv_data = [9, 9]\<rparr>]" "list_all tlv_ok [\<lparr>tlv_type = 6, tlv_data = [9, 9]\<rparr>]"
    by (simp_all add: encode_tlv_def put16_def tlv_ok_def)
  then have "\<exists>ts. ?b = encode_tlvs ts \<and> list_all tlv_ok ts" by blast
  then have r: "TxTemplate_replaceTlvs (Some ?b) (length ?b) 16 3 ?old = (True, ?t)" by (simp only: replaceTlvs_iff) simp
  have used: "tt_used ?t = 21" by (simp add: TxTemplate_store_def template_envelope_def)
  obtain n f where bld: "TxTemplate_build (Some (zeros 60)) (Some (replicate 6 255)) (Some [2, 0, 0, 0, 0, 1]) (Some awdl_bssid)
      7 100 200 ?t = Some (n, f)"
    unfolding TxTemplate_build_def used by (simp add: Let_def)
  have "drop 40 (take n f) = ?b"
    using TxTemplate_frame [OF r bld] by auto
  with r bld show ?thesis by blast
qed

section \<open>Merging supplemental TLVs\<close>

definition kept :: "Tlv list \<Rightarrow> Tlv list" where
  "kept ts = filter (\<lambda>t. tlv_type t \<noteq> 20 \<and> tlv_type t \<noteq> 24) ts"

definition fresh :: "ElectionState \<Rightarrow> Tlv \<Rightarrow> Tlv" where
  "fresh s t = (if tlv_type t = 5 then t\<lparr>tlv_data := patchElection s (tlv_data t)\<rparr> else t)"

lemma length_patchElection: "length p = 21 \<Longrightarrow> length (es_master s) = 6 \<Longrightarrow> length (patchElection s p) = 21"
  by (simp add: patchElection_def)

definition native_ok :: "Tlv list \<Rightarrow> bool" where
  "native_ok ts \<longleftrightarrow> list_all (\<lambda>t. tlv_type t \<noteq> 4 \<and> tlv_type t \<noteq> 18 \<and> (tlv_type t = 24 \<longrightarrow> length (tlv_data t) = 40) \<and>
     (tlv_type t = 5 \<longrightarrow> length (tlv_data t) = 21) \<and> (tlv_type t = 20 \<longrightarrow> length (tlv_data t) mod 6 = 0)) ts \<and>
     length (filter (\<lambda>t. tlv_type t = 24) ts) \<le> 1"

lemma nativeTlv_run:
  "(\<exists>e. for_each nativeTlv ts election = Inr e) \<longleftrightarrow>
     native_ok ts \<and> (election \<longrightarrow> filter (\<lambda>t. tlv_type t = 24) ts = [])"
proof (induction ts arbitrary: election)
  case (Cons t ts)
  then show ?case
    by (cases "tlv_type t = 24"; cases election) (auto simp: nativeTlv_def native_ok_def Let_def)
qed (simp add: native_ok_def)

lemma nativeTlv_Inl: "nativeTlv t e = Inl r \<Longrightarrow> \<not> r"
  by (auto simp: nativeTlv_def Let_def split: if_splits)

lemma NativeAction_valid_iff:
  "NativeAction_valid (Some b) \<longleftrightarrow> b \<noteq> [] \<and> length b \<le> 2048 \<and> (\<exists>ts. b = encode_tlvs ts \<and> list_all tlv_ok ts \<and> native_ok ts)"
proof
  assume valid: "NativeAction_valid (Some b)"
  then have b: "b \<noteq> []" "length b \<le> 2048" by (auto simp: NativeAction_valid_def split: if_splits)
  have "cursor_while nativeTlv (cursor_at b) False \<noteq> Inl True"
    using cursor_while_InlD [of nativeTlv "cursor_at b" False True] nativeTlv_Inl by blast
  then have "\<exists>e c. cursor_while nativeTlv (cursor_at b) False = Inr (e, c) \<and> \<not> cur_malformed c"
    using valid b by (auto simp: NativeAction_valid_def cursor_at_def split: sum.splits)
  then obtain ts e where "b = encode_tlvs ts" "list_all tlv_ok ts" "for_each nativeTlv ts False = Inr e"
    using cursor_while_InrD by metis
  then show "b \<noteq> [] \<and> length b \<le> 2048 \<and> (\<exists>ts. b = encode_tlvs ts \<and> list_all tlv_ok ts \<and> native_ok ts)"
    using b nativeTlv_run [of ts False] by auto
next
  assume "b \<noteq> [] \<and> length b \<le> 2048 \<and> (\<exists>ts. b = encode_tlvs ts \<and> list_all tlv_ok ts \<and> native_ok ts)"
  then obtain ts where ts: "b \<noteq> []" "length b \<le> 2048" "b = encode_tlvs ts" "list_all tlv_ok ts" "native_ok ts" by blast
  obtain e where "for_each nativeTlv ts False = Inr e" using nativeTlv_run [of ts False] ts(5) by auto
  then have "cursor_while nativeTlv (cursor_at b) False = Inr (e, cursor_at [])"
    using cursor_while_encode [OF ts(4), of nativeTlv "[]" False] ts(3) by simp
  then show "NativeAction_valid (Some b)"
    using ts(1,2) by (auto simp: NativeAction_valid_def cursor_at_def TlvCursor_make_def)
qed

lemma measure_run: "for_each measureTlv ts n = Inr (n + length (encode_tlvs (kept ts)))"
  by (induction ts arbitrary: n) (simp_all add: measureTlv_def kept_def)

lemma length_fresh:
  "native_ok ts \<Longrightarrow> length (es_master s) = 6 \<Longrightarrow> length (encode_tlvs (map (fresh s) (kept ts))) = length (encode_tlvs (kept ts))"
  by (induction ts) (auto simp: kept_def fresh_def native_ok_def length_patchElection)

lemma append_run:
  assumes "native_ok ts" "length (es_master s) = 6" "len + length (encode_tlvs (kept ts)) \<le> length frame"
  shows "for_each (appendTlv s) ts (frame, len) =
    Inr (patch len (encode_tlvs (map (fresh s) (kept ts))) frame, len + length (encode_tlvs (kept ts)))"
  using assms
proof (induction ts arbitrary: frame len)
  case (Cons t ts)
  have ok: "native_ok ts" using Cons.prems(1) by (auto simp: native_ok_def split: if_splits)
  show ?case
  proof (cases "tlv_type t = 20 \<or> tlv_type t = 24")
    case True
    then show ?thesis using Cons ok by (auto simp: appendTlv_def kept_def)
  next
    case False
    let ?e = "encode_tlv (fresh s t)"
    have e: "?e = tlv_type t # put16 (of_nat (length (tlv_data t))) @
        (if tlv_type t = 5 then patchElection s (tlv_data t) else tlv_data t)" "length ?e = 3 + length (tlv_data t)"
      using Cons.prems(1,2) by (auto simp: encode_tlv_def fresh_def native_ok_def length_patchElection)
    have step: "appendTlv s t (frame, len) = Inr (patch len ?e frame, len + length ?e)"
      using False e by (simp add: appendTlv_def Let_def)
    have room: "len + length ?e + length (encode_tlvs (kept ts)) \<le> length (patch len ?e frame)"
      using Cons.prems(3) False e(2) by (simp add: kept_def)
    show ?thesis
      using Cons.IH [OF ok Cons.prems(2) room] step False e(2) Cons.prems(3)
      by (simp add: kept_def patch_def length_fresh [OF ok Cons.prems(2), unfolded kept_def] ac_simps)
  qed
qed (simp add: kept_def patch_def)

lemma kept_ok: "list_all tlv_ok ts \<Longrightarrow> list_all tlv_ok (kept ts)"
  by (simp add: kept_def list_all_iff)

lemma fresh_ok:
  "native_ok ts \<Longrightarrow> list_all tlv_ok ts \<Longrightarrow> length (es_master s) = 6 \<Longrightarrow> list_all tlv_ok (map (fresh s) (kept ts))"
  by (auto simp: kept_def fresh_def native_ok_def list_all_iff tlv_ok_def length_patchElection)

lemma fresh_version: "version_tlvs (map (fresh s) (kept ts)) = version_tlvs ts"
proof (induction ts)
  case (Cons t ts)
  have "fresh s t = t" if "tlv_type t = 21" using that by (simp add: fresh_def)
  moreover have "tlv_type (fresh s t) = tlv_type t" by (simp add: fresh_def)
  ultimately show ?case using Cons by (auto simp: version_tlvs_def kept_def)
qed (simp add: version_tlvs_def kept_def)

lemma length_kept: "length (encode_tlvs (kept ts)) \<le> length (encode_tlvs ts)"
  by (induction ts) (simp_all add: kept_def)

lemma NativeAction_build_SomeD:
  assumes "wf_state s" "TxTemplate_tlvs native = Some b" "NativeAction_build native (Some out) now wire subtype s = Some (n, f, s')"
    and "wf_template native"
  obtains ts where "b = encode_tlvs ts" "list_all tlv_ok ts" "native_ok ts" "length b \<le> 2048"
    "State_radioScheduleReady s" "es_epoch s \<le> now" "subtype = 0 \<or> subtype = 3"
    "n = 141 + length (encode_tlvs (kept ts))" "n \<le> length out"
    "f = sync_frame s now wire wire subtype @ encode_tlvs (map (fresh s) (kept ts)) @ drop n out"
    "s' = s\<lparr>es_frameCounter := es_frameCounter s + 1\<rparr>"
proof -
  have "NativeAction_valid (Some b)" using assms(2,3) by (auto simp: NativeAction_build_def split: if_splits)
  then obtain ts where ts: "b = encode_tlvs ts" "list_all tlv_ok ts" "native_ok ts" "length b \<le> 2048"
    by (auto simp: NativeAction_valid_iff)
  have lenb: "length b = tt_used native - 16"
    using assms(2,4) by (auto simp: TxTemplate_tlvs_def wf_template_def split: if_splits)
  have cur: "TlvCursor_make (Some b) (tt_used native - 16) = cursor_at (encode_tlvs ts @ [])"
    by (simp add: cursor_at_def ts(1) lenb [symmetric])
  have measure: "cursor_while measureTlv (cursor_at (encode_tlvs ts @ [])) k = Inr (k + length (encode_tlvs (kept ts)), cursor_at [])" for k
    by (subst cursor_while_encode [OF ts(2)]) (simp add: measure_run)
  have len: "length (es_master s) = 6" "sq_count (es_sequence s) = 16" using wf_state_lengths [OF assms(1)] by simp_all
  let ?k = "length (encode_tlvs (kept ts))" and ?F = "sync_frame s now wire wire subtype"
  let ?s = "s\<lparr>es_frameCounter := es_frameCounter s + 1\<rparr>"
  have built: "141 + ?k \<le> length out" "subtype = 0 \<or> subtype = 3" "State_radioScheduleReady s" "es_epoch s \<le> now"
    and run: "(case cursor_while (appendTlv ?s) (cursor_at (encode_tlvs ts @ [])) (?F @ drop 141 out, 141) of
        Inl _ \<Rightarrow> None | Inr ((frame, len), _) \<Rightarrow> Some (len, frame, ?s)) = Some (n, f, s')"
    using assms(3) \<open>NativeAction_valid (Some b)\<close>
    unfolding NativeAction_build_def assms(2) Let_def cur measure buildSynchronization_eq [OF assms(1)] len(2) by (auto split: if_splits)
  have F: "length ?F = 141" using assms(1) by (simp add: sync_frame_def sync_tlvs_def)
  have fresh: "fresh ?s = fresh s" by (auto simp: fresh_def patchElection_def)
  have "cursor_while (appendTlv ?s) (cursor_at (encode_tlvs ts @ [])) (?F @ drop 141 out, 141) =
      Inr ((patch 141 (encode_tlvs (map (fresh s) (kept ts))) (?F @ drop 141 out), 141 + ?k), cursor_at [])"
    by (subst cursor_while_encode [OF ts(2)], subst append_run) (use ts(3) len(1) built(1) F fresh in simp_all)
  with run have "n = 141 + ?k" "f = patch 141 (encode_tlvs (map (fresh s) (kept ts))) (?F @ drop 141 out)" "s' = ?s" by auto
  moreover have "patch 141 (encode_tlvs (map (fresh s) (kept ts))) (?F @ drop 141 out) =
      ?F @ encode_tlvs (map (fresh s) (kept ts)) @ drop (141 + ?k) out"
    using F length_fresh [OF ts(3) len(1)] by (simp add: patch_def add.commute)
  ultimately show thesis using that [OF ts built(3,4,2)] built(1) by simp
qed

lemma parse_sync_extended:
  assumes "wf_state s" "subtype = 0 \<or> subtype = 3" "list_all tlv_ok extra" "length (encode_tlvs extra) \<le> 3979"
  shows "fst (parseFrame (Some (sync_frame s now phyTime targetTime subtype @ encode_tlvs extra))) = ParseValid"
proof -
  let ?ts = "sync_tlvs s now @ extra"
  let ?b = "sync_envelope phyTime targetTime subtype @ encode_tlvs ?ts"
  let ?f = "sync_frame s now phyTime targetTime subtype @ encode_tlvs extra"
  have "length (encode_tlvs (sync_tlvs s now)) = 101" using assms(1) by (simp add: sync_tlvs_def)
  then have "awdl_header ?b" using assms(4) by (simp add: awdl_header_def) (simp add: sync_envelope_def)
  then have "parseAction (Some ?b) = (ParseValid, action_info ?b ?ts)"
    using assms(1,3) by (intro parseAction_encode) simp_all
  moreover have b: "drop 24 ?f = ?b" using assms(1) by (simp add: sync_frame_def)
  moreover have f: "?f = [0xd0, 0, 0, 0] @ replicate 6 255 @ es_mac s @ awdl_bssid @
        put16 (push_bit 4 (es_frameCounter s AND 4095)) @ ?b" by (simp add: sync_frame_def sync_header_def)
  have "?f ! 0 = 0xd0" "?f ! 1 = 0" "24 \<le> length ?f" "?f ! 22 AND 15 = 0"
    unfolding f using wf_state_lengths [OF assms(1)] by (simp_all add: fields) (simp add: put16_def frame_counter_nibble)
  ultimately show ?thesis unfolding parseFrame_def option.case b by simp
qed



section \<open>Reading the payloads back\<close>

lemma be32_Cons [fields]: "0 < i \<Longrightarrow> be32 (x # xs) i = be32 xs (i - 1)"
  by (cases i) (simp_all add: be32_def add.commute)

lemma be32_append [fields]: "length xs \<le> i \<Longrightarrow> be32 (xs @ ys) i = be32 ys (i - length xs)"
  by (simp add: be32_def nth_append Suc_diff_le)

lemma be32_put32be_append [fields]: "be32 (put32be v @ ys) 0 = v"
  using be32_put32be [of v] by (simp add: be32_def put32be_def)

text \<open>
  The native side reads back what was packed. Receive metadata gives the source address, the
  channel descriptor, the signal strength as a signed number and the clock (zero when none was
  supplied); the start event gives the counter, the role, the parent, the root, the clock and a
  descriptor of a channel from 1 to 196.
\<close>

theorem native_payload_fields:
  assumes "NativeRxMetadata_build (Some sa) (Some c) rssi (Some out) wire valid = Some m" and "length sa = 6"
    and "NativeEvents_start counter role (Some p) (Some r) (Some c') wire' (Some out') = Some e"
    and "length p = 6" and "length r = 6"
  shows "length m = 72 \<and> unicast sa \<and> piece 0 6 m = sa \<and> piece 12 12 m = c \<and> sint (le32 m 44) = rssi \<and>
      be32 m 48 = (if valid then wire else 0) \<and>
    length e = 36 \<and> le32 e 0 = ucast counter \<and> le32 e 4 \<in> {1, 2, 3} \<and> le32 e 4 = role \<and> piece 8 6 e = p \<and> piece 14 6 e = r \<and>
      unicast p \<and> unicast r \<and> be32 e 20 = wire' \<and> piece 24 12 e = c' \<and> 1 \<le> le32 e 28 \<and> le32 e 28 \<le> 196"
proof -
  have g: "length c = 12" "- 127 \<le> rssi" "rssi < 0" "unicast sa"
    and m: "m = sa @ zeros 6 @ c @ zeros 20 @ put32 (of_int rssi) @ (if valid then put32be wire else zeros 4) @ zeros 20"
    using assms(1,2) by (auto simp: NativeRxMetadata_build_def unicast_def split: if_splits)
  have h: "length c' = 12" "role \<noteq> 0" "role \<le> 3" "unicast p" "unicast r" "le32 c' 4 \<noteq> 0" "le32 c' 4 \<le> 196"
    and e: "e = put32 (ucast counter) @ put32 role @ p @ r @ put32be wire' @ c'"
    using assms(3-5) by (auto simp: NativeEvents_start_def not_less split: if_splits)
  have rssi: "sint (of_int rssi :: u32) = rssi" using g by (simp add: sint_sbintrunc' signed_take_bit_int_eq_self)
  have zero: "be32 (zeros 4 @ zeros 20) 0 = 0" by (simp add: be32_def zeros_def numeral_eq_Suc)
  have "length m = 72 \<and> unicast sa \<and> piece 0 6 m = sa \<and> piece 12 12 m = c \<and> sint (le32 m 44) = rssi \<and>
      be32 m 48 = (if valid then wire else 0)"
    using g assms(2) zero by (simp add: m fields rssi)
  moreover have "role \<in> {1, 2, 3}"
  proof -
    have "unat role = 1 \<or> unat role = 2 \<or> unat role = 3"
      using h(2,3) unat_gt_0 [of role] by (simp add: word_le_nat_alt) linarith
    then have "role \<in> {of_nat 1, of_nat 2, of_nat 3}" by (metis insertCI word_of_unat)
    then show ?thesis by simp
  qed
  moreover have "le32 e 28 = le32 c' 4" using assms(4,5) by (simp add: e fields)
  moreover have "1 \<le> le32 c' 4" using h(6) by (simp add: word_le_nat_alt Suc_le_eq unat_gt_0)
  ultimately show ?thesis using h assms(4,5) by (simp add: e fields)
qed

theorem native_payload_fields_witness:
  "\<exists>m e. NativeRxMetadata_build (Some [2, 0, 0, 0, 0, 1]) (Some [1, 0, 0, 0, 44, 0, 0, 0, 0, 0, 0, 0]) (- 50) (Some (zeros 72)) 7 True = Some m \<and>
    NativeEvents_start 9 2 (Some [2, 0, 0, 0, 0, 1]) (Some [2, 0, 0, 0, 0, 2]) (Some [1, 0, 0, 0, 44, 0, 0, 0, 0, 0, 0, 0]) 7
      (Some (zeros 36)) = Some e \<and> sint (le32 m 44) = - 50 \<and> be32 e 20 = 7"
proof -
  let ?a = "[2, 0, 0, 0, 0, 1] :: bytes" and ?r = "[2, 0, 0, 0, 0, 2] :: bytes"
  let ?c = "[1, 0, 0, 0, 44, 0, 0, 0, 0, 0, 0, 0] :: bytes"
  have "NativeRxMetadata_build (Some ?a) (Some ?c) (- 50) (Some (zeros 72)) 7 True \<noteq> None" by code_simp
  then obtain m where m: "NativeRxMetadata_build (Some ?a) (Some ?c) (- 50) (Some (zeros 72)) 7 True = Some m" by blast
  have "NativeEvents_start 9 2 (Some ?a) (Some ?r) (Some ?c) 7 (Some (zeros 36)) \<noteq> None" by code_simp
  then obtain e where e: "NativeEvents_start 9 2 (Some ?a) (Some ?r) (Some ?c) 7 (Some (zeros 36)) = Some e" by blast
  show ?thesis using native_payload_fields [OF m _ e] m e by auto
qed

end
