(* ===== verification/Awdl_Registry.thy ===== *)
theory Awdl_Registry
  imports Prelude
begin

text \<open>
  The interface and station registry each hardware layer owns (\<open>include/AWDL/RTWMac80211Registry.h\<close>).
  A pointer is \<open>None\<close> (null) or \<open>Some\<close> of an identity; \<open>addr\<close> and \<open>vaddr\<close> give the address fields of
  the structures pointed to. Every entry point takes the recursive lock for its whole body, so each
  is one atomic operation on the record \<open>Registry\<close>.
\<close>

section \<open>Definitions\<close>

type_synonym ptr = "nat option"

definition RTW_REGISTRY_VIFS :: nat where "RTW_REGISTRY_VIFS = 4"
definition RTW_REGISTRY_PEERS :: nat where "RTW_REGISTRY_PEERS = 32"

record Registry =
  rg_vifs :: "ptr list"
  rg_peers :: "(ptr \<times> ptr) list"
  rg_vif :: ptr
  rg_sta :: ptr
  rg_lock :: bool

definition rtw_registry_reset :: "Registry \<Rightarrow> Registry" where
  "rtw_registry_reset r = r\<lparr>rg_vifs := replicate RTW_REGISTRY_VIFS None,
     rg_peers := replicate RTW_REGISTRY_PEERS (None, None), rg_vif := None, rg_sta := None\<rparr>"

definition rtw_registry_has_vif :: "ptr \<Rightarrow> Registry \<Rightarrow> bool" where
  "rtw_registry_has_vif vif r \<longleftrightarrow> list_ex (\<lambda>v. v = vif \<and> vif \<noteq> None) (rg_vifs r)"

text \<open>Index of the first slot a search loop stops at.\<close>

definition first_slot :: "('a \<Rightarrow> bool) \<Rightarrow> 'a list \<Rightarrow> nat option" where
  "first_slot P xs = List.find (\<lambda>i. P (xs ! i)) [0..<length xs]"

definition rtw88_add_vif :: "ptr \<Rightarrow> Registry \<Rightarrow> bool \<times> Registry" where
  "rtw88_add_vif vif r =
     (if \<not> rg_lock r \<or> vif = None then (False, r)
      else if rtw_registry_has_vif vif r then (True, r)
      else case first_slot (\<lambda>v. v = None) (rg_vifs r) of
        None \<Rightarrow> (False, r)
      | Some i \<Rightarrow> (True, r\<lparr>rg_vifs := (rg_vifs r)[i := vif]\<rparr>))"

definition rtw88_remove_sta :: "ptr \<Rightarrow> Registry \<Rightarrow> Registry" where
  "rtw88_remove_sta sta r =
     (if \<not> rg_lock r \<or> sta = None then r
      else r\<lparr>rg_peers := map (\<lambda>(v, s). if s = sta then (None, None) else (v, s)) (rg_peers r),
             rg_sta := if rg_sta r = sta then None else rg_sta r\<rparr>)"

definition rtw88_remove_vif :: "ptr \<Rightarrow> Registry \<Rightarrow> Registry" where
  "rtw88_remove_vif vif r =
     (if \<not> rg_lock r \<or> vif = None then r
      else let r = fold (\<lambda>i r. if fst (rg_peers r ! i) = vif then rtw88_remove_sta (snd (rg_peers r ! i)) r else r)
                     [0..<RTW_REGISTRY_PEERS] r in
        r\<lparr>rg_vifs := map (\<lambda>v. if v = vif then None else v) (rg_vifs r),
          rg_vif := if rg_vif r = vif then None else rg_vif r\<rparr>)"

text \<open>The scan that stops at the station itself or at a live peer with its address.\<close>

definition add_sta_scan :: "(nat \<Rightarrow> bytes) \<Rightarrow> ptr \<Rightarrow> ptr \<Rightarrow> ptr \<times> ptr \<Rightarrow> unit \<Rightarrow> bool + unit" where
  "add_sta_scan addr vif sta = (\<lambda>(v, s) u. if s = sta then Inl (v = vif)
     else if v = vif \<and> s \<noteq> None \<and> addr (the s) = addr (the sta) then Inl False else Inr u)"

definition rtw88_add_sta :: "(nat \<Rightarrow> bytes) \<Rightarrow> ptr \<Rightarrow> ptr \<Rightarrow> Registry \<Rightarrow> bool \<times> Registry" where
  "rtw88_add_sta addr vif sta r =
     (if \<not> rg_lock r \<or> vif = None \<or> sta = None then (False, r)
      else if \<not> rtw_registry_has_vif vif r then (False, r)
      else (case for_each (add_sta_scan addr vif sta) (rg_peers r) () of
              Inl added \<Rightarrow> (added, r)
            | Inr _ \<Rightarrow>
                (case first_slot (\<lambda>(v, s). s = None) (rg_peers r) of
                   None \<Rightarrow> (False, r)
                 | Some i \<Rightarrow> (True, r\<lparr>rg_peers := (rg_peers r)[i := (vif, sta)]\<rparr>))))"

definition rtw88_register_vif :: "ptr \<Rightarrow> Registry \<Rightarrow> Registry" where
  "rtw88_register_vif vif r =
     (if \<not> rg_lock r then r
      else let r = (if rg_vif r \<noteq> vif then rtw88_remove_vif (rg_vif r) r else r) in
        (case rtw88_add_vif vif r of (added, r) \<Rightarrow> if added then r\<lparr>rg_vif := vif\<rparr> else r))"

definition rtw88_unregister_vif :: "Registry \<Rightarrow> Registry" where
  "rtw88_unregister_vif r = rtw88_register_vif None r"

definition rtw88_register_sta :: "(nat \<Rightarrow> bytes) \<Rightarrow> ptr \<Rightarrow> Registry \<Rightarrow> Registry" where
  "rtw88_register_sta addr sta r =
     (if \<not> rg_lock r then r
      else let r = (if rg_sta r \<noteq> sta then rtw88_remove_sta (rg_sta r) r else r) in
        (case rtw88_add_sta addr (rg_vif r) sta r of (added, r) \<Rightarrow> if added then r\<lparr>rg_sta := sta\<rparr> else r))"

definition rtw88_unregister_sta :: "(nat \<Rightarrow> bytes) \<Rightarrow> Registry \<Rightarrow> Registry" where
  "rtw88_unregister_sta addr r = rtw88_register_sta addr None r"

text \<open>The iterators run a callback on each entry while the lock is held; \<open>hw_ok\<close> is \<open>hw == g_rtw88_hw\<close>.\<close>

definition ieee80211_iterate_active_interfaces_atomic ::
  "bool \<Rightarrow> (nat \<Rightarrow> bytes) \<Rightarrow> (bytes \<Rightarrow> nat \<Rightarrow> 'e \<Rightarrow> 'e) option \<Rightarrow> Registry \<Rightarrow> 'e \<Rightarrow> 'e" where
  "ieee80211_iterate_active_interfaces_atomic hw_ok vaddr iterator r e =
     (case iterator of None \<Rightarrow> e | Some f \<Rightarrow>
        if \<not> rg_lock r \<or> \<not> hw_ok then e
        else fold (\<lambda>v e. case v of None \<Rightarrow> e | Some p \<Rightarrow> f (vaddr p) p e) (rg_vifs r) e)"

definition ieee80211_iterate_stations_atomic :: "bool \<Rightarrow> (nat \<Rightarrow> 'e \<Rightarrow> 'e) option \<Rightarrow> Registry \<Rightarrow> 'e \<Rightarrow> 'e" where
  "ieee80211_iterate_stations_atomic hw_ok iterator r e =
     (case iterator of None \<Rightarrow> e | Some f \<Rightarrow>
        if \<not> rg_lock r \<or> \<not> hw_ok then e
        else fold (\<lambda>(v, s) e. case s of None \<Rightarrow> e | Some p \<Rightarrow> f p e) (rg_peers r) e)"

definition ieee80211_find_sta :: "(nat \<Rightarrow> bytes) \<Rightarrow> ptr \<Rightarrow> bytes option \<Rightarrow> Registry \<Rightarrow> ptr" where
  "ieee80211_find_sta addr vif a r =
     (if \<not> rg_lock r \<or> vif = None \<or> a = None then None
      else case List.find (\<lambda>(v, s). v = vif \<and> s \<noteq> None \<and> addr (the s) = the a) (rg_peers r) of
        None \<Rightarrow> None | Some (v, s) \<Rightarrow> s)"

definition ieee80211_find_sta_by_ifaddr ::
  "bool \<Rightarrow> (nat \<Rightarrow> bytes) \<Rightarrow> (nat \<Rightarrow> bytes) \<Rightarrow> bytes option \<Rightarrow> bytes option \<Rightarrow> Registry \<Rightarrow> ptr" where
  "ieee80211_find_sta_by_ifaddr hw_ok vaddr addr a localaddr r =
     (if \<not> rg_lock r \<or> \<not> hw_ok \<or> a = None then None
      else case List.find (\<lambda>(v, s). s \<noteq> None \<and> (case localaddr of None \<Rightarrow> True | Some l \<Rightarrow> vaddr (the v) = l) \<and>
                  addr (the s) = the a) (rg_peers r) of
        None \<Rightarrow> None | Some (v, s) \<Rightarrow> s)"

section \<open>The abstract registry\<close>

text \<open>
  What the driver relies on: a set of interfaces and a relation between interfaces and stations, in
  which a station belongs to one interface and an address identifies a station of an interface.
\<close>

record spec =
  sp_vifs :: "nat set"
  sp_stas :: "(nat \<times> nat) set"
  sp_vif :: ptr
  sp_sta :: ptr

definition spec_add_vif :: "nat \<Rightarrow> spec \<Rightarrow> bool \<times> spec" where
  "spec_add_vif v p = (if v \<in> sp_vifs p \<or> card (sp_vifs p) < 4 then (True, p\<lparr>sp_vifs := insert v (sp_vifs p)\<rparr>) else (False, p))"

definition spec_remove_sta :: "nat \<Rightarrow> spec \<Rightarrow> spec" where
  "spec_remove_sta s p = p\<lparr>sp_stas := {q \<in> sp_stas p. snd q \<noteq> s}, sp_sta := if sp_sta p = Some s then None else sp_sta p\<rparr>"

definition spec_remove_vif :: "nat \<Rightarrow> spec \<Rightarrow> spec" where
  "spec_remove_vif v p = p\<lparr>sp_vifs := sp_vifs p - {v}, sp_stas := {q \<in> sp_stas p. fst q \<noteq> v},
     sp_vif := (if sp_vif p = Some v then None else sp_vif p),
     sp_sta := (case sp_sta p of None \<Rightarrow> None | Some s \<Rightarrow> if (v, s) \<in> sp_stas p then None else Some s)\<rparr>"

definition spec_add_sta :: "(nat \<Rightarrow> bytes) \<Rightarrow> nat \<Rightarrow> nat \<Rightarrow> spec \<Rightarrow> bool \<times> spec" where
  "spec_add_sta addr v s p =
     (if v \<in> sp_vifs p \<and> ((v, s) \<in> sp_stas p \<or>
         (s \<notin> snd ` sp_stas p \<and> addr s \<notin> (addr \<circ> snd) ` {q \<in> sp_stas p. fst q = v} \<and> card (sp_stas p) < 32))
      then (True, p\<lparr>sp_stas := insert (v, s) (sp_stas p)\<rparr>) else (False, p))"

definition spec_ok :: "(nat \<Rightarrow> bytes) \<Rightarrow> spec \<Rightarrow> bool" where
  "spec_ok addr p \<longleftrightarrow> fst ` sp_stas p \<subseteq> sp_vifs p \<and> inj_on snd (sp_stas p) \<and> inj_on (\<lambda>(v, s). (v, addr s)) (sp_stas p) \<and>
     finite (sp_vifs p) \<and> finite (sp_stas p) \<and> card (sp_vifs p) \<le> 4 \<and> card (sp_stas p) \<le> 32 \<and>
     (\<forall>v. sp_vif p = Some v \<longrightarrow> v \<in> sp_vifs p) \<and> (\<forall>s. sp_sta p = Some s \<longrightarrow> (\<exists>v. sp_vif p = Some v \<and> (v, s) \<in> sp_stas p))"

text \<open>
  The contract between a registry and the driver, and what follows from it: after a successful add
  the lookup returns the station, until it or its interface is removed, and no operation on another
  station disturbs it.
\<close>

locale station_registry =
  fixes abs :: "'r \<Rightarrow> spec" and inv :: "'r \<Rightarrow> bool" and addr :: "nat \<Rightarrow> bytes"
    and add_vif :: "nat \<Rightarrow> 'r \<Rightarrow> bool \<times> 'r" and remove_vif :: "nat \<Rightarrow> 'r \<Rightarrow> 'r"
    and add_sta :: "nat \<Rightarrow> nat \<Rightarrow> 'r \<Rightarrow> bool \<times> 'r" and remove_sta :: "nat \<Rightarrow> 'r \<Rightarrow> 'r"
    and find_sta :: "nat \<Rightarrow> bytes \<Rightarrow> 'r \<Rightarrow> ptr"
  assumes inv_ok: "inv r \<Longrightarrow> spec_ok addr (abs r)"
    and add_vif_refines: "inv r \<Longrightarrow> add_vif v r = (b, r') \<Longrightarrow> inv r' \<and> (b, abs r') = spec_add_vif v (abs r)"
    and remove_vif_refines: "inv r \<Longrightarrow> inv (remove_vif v r) \<and> abs (remove_vif v r) = spec_remove_vif v (abs r)"
    and add_sta_refines: "inv r \<Longrightarrow> add_sta v s r = (b, r') \<Longrightarrow> inv r' \<and> (b, abs r') = spec_add_sta addr v s (abs r)"
    and remove_sta_refines: "inv r \<Longrightarrow> inv (remove_sta s r) \<and> abs (remove_sta s r) = spec_remove_sta s (abs r)"
    and find_sta_refines: "inv r \<Longrightarrow> find_sta v a r = Some s \<longleftrightarrow> (v, s) \<in> sp_stas (abs r) \<and> addr s = a"
begin

lemma find_added:
  assumes "inv r" "add_sta v s r = (True, r')"
  shows "find_sta v (addr s) r' = Some s"
proof -
  have "inv r'" "(True, abs r') = spec_add_sta addr v s (abs r)" using add_sta_refines [OF assms] by auto
  then show ?thesis by (auto simp: find_sta_refines spec_add_sta_def split: if_splits)
qed

lemma find_removed: "inv r \<Longrightarrow> find_sta v a (remove_sta s r) \<noteq> Some s"
  using remove_sta_refines [of r s] find_sta_refines [of "remove_sta s r" v a s] by (simp add: spec_remove_sta_def)

lemma find_removed_vif: "inv r \<Longrightarrow> find_sta v a (remove_vif v r) = None"
proof (cases "find_sta v a (remove_vif v r)")
  case (Some s)
  assume "inv r"
  then have "(v, s) \<in> sp_stas (spec_remove_vif v (abs r))" using remove_vif_refines [of r v] find_sta_refines Some by auto
  then show ?thesis by (simp add: spec_remove_vif_def)
qed

lemma find_other:
  assumes "inv r" "find_sta v a r = Some t" "t \<noteq> s"
  shows "find_sta v a (remove_sta s r) = Some t" "find_sta v a (snd (add_sta w s r)) = Some t"
proof -
  have t: "(v, t) \<in> sp_stas (abs r)" "addr t = a" using assms find_sta_refines by auto
  show "find_sta v a (remove_sta s r) = Some t"
    using t assms(3) remove_sta_refines [OF assms(1), of s] by (simp add: find_sta_refines spec_remove_sta_def)
  obtain b r' where r': "add_sta w s r = (b, r')" by fastforce
  then have "inv r'" "(b, abs r') = spec_add_sta addr w s (abs r)" using add_sta_refines [OF assms(1)] by auto
  then show "find_sta v a (snd (add_sta w s r)) = Some t"
    using t r' by (auto simp: find_sta_refines spec_add_sta_def split: if_splits)
qed

text \<open>A duplicate address on an interface is refused and the station already there is kept.\<close>

lemma add_duplicate:
  assumes "inv r" "find_sta v (addr s) r = Some t" "t \<noteq> s" "find_sta v (addr s) r \<noteq> Some s"
  shows "add_sta v s r = (False, r') \<Longrightarrow> find_sta v (addr s) r' = Some t" "fst (add_sta v s r) = False"
proof -
  have t: "(v, t) \<in> sp_stas (abs r)" "addr t = addr s" using assms find_sta_refines by auto
  have no: "(v, s) \<notin> sp_stas (abs r)" using assms find_sta_refines by auto
  obtain b r'' where r': "add_sta v s r = (b, r'')" by fastforce
  then have "(b, abs r'') = spec_add_sta addr v s (abs r)" using add_sta_refines [OF assms(1)] by auto
  moreover have "addr s \<in> (addr \<circ> snd) ` {q \<in> sp_stas (abs r). fst q = v}"
    using t by (intro image_eqI [of _ _ "(v, t)"]) simp_all
  ultimately have "\<not> b" using no by (auto simp: spec_add_sta_def split: if_splits)
  then show "fst (add_sta v s r) = False" using r' by simp
  show "add_sta v s r = (False, r') \<Longrightarrow> find_sta v (addr s) r' = Some t"
    using find_other(2) [OF assms(1,2,3), of v] by simp
qed

end

section \<open>The slot arrays implement it\<close>

definition reg_abs :: "Registry \<Rightarrow> spec" where
  "reg_abs r = \<lparr>sp_vifs = {v. Some v \<in> set (rg_vifs r)}, sp_stas = {(v, s). (Some v, Some s) \<in> set (rg_peers r)},
     sp_vif = rg_vif r, sp_sta = rg_sta r\<rparr>"

definition used :: "ptr \<Rightarrow> bool" where
  "used p \<longleftrightarrow> p \<noteq> None"

lemma used_simps [simp]: "used (Some x)" "\<not> used None"
  by (simp_all add: used_def)

definition live :: "(ptr \<times> ptr) list \<Rightarrow> (ptr \<times> ptr) list" where
  "live ps = filter (\<lambda>p. used (snd p)) ps"

definition reg_inv :: "(nat \<Rightarrow> bytes) \<Rightarrow> Registry \<Rightarrow> bool" where
  "reg_inv addr r \<longleftrightarrow> rg_lock r \<and> length (rg_vifs r) = RTW_REGISTRY_VIFS \<and> length (rg_peers r) = RTW_REGISTRY_PEERS \<and>
     distinct (filter used (rg_vifs r)) \<and> distinct (map snd (live (rg_peers r))) \<and>
     list_all (\<lambda>(v, s). v = None \<longleftrightarrow> s = None) (rg_peers r) \<and> spec_ok addr (reg_abs r)"

lemma first_slot_Some: "first_slot P xs = Some i \<Longrightarrow> i < length xs \<and> P (xs ! i)"
  by (auto simp: first_slot_def find_Some_iff)

lemma first_slot_None: "first_slot P xs = None \<longleftrightarrow> (\<forall>x \<in> set xs. \<not> P x)"
  by (auto simp: first_slot_def find_None_iff in_set_conv_nth) (metis nth_mem)

text \<open>Filling a free slot of an array adds one element.\<close>

lemma set_fill:
  assumes "i < length xs" "\<not> P (xs ! i)" "P x"
  shows "filter P (xs[i := x]) = filter P (take i xs) @ x # filter P (drop (Suc i) xs)"
    and "filter P xs = filter P (take i xs) @ filter P (drop (Suc i) xs)"
proof -
  have xs: "xs = take i xs @ xs ! i # drop (Suc i) xs" using assms(1) by (simp add: id_take_nth_drop)
  show "filter P (xs[i := x]) = filter P (take i xs) @ x # filter P (drop (Suc i) xs)"
    using assms by (simp add: upd_conv_take_nth_drop)
  show "filter P xs = filter P (take i xs) @ filter P (drop (Suc i) xs)"
    using assms(2) by (subst xs) simp
qed

lemma card_vifs:
  assumes "distinct (filter used vs)"
  shows "card {v. Some v \<in> set vs} = length (filter used vs)"
proof -
  have "Some ` {v. Some v \<in> set vs} = set (filter used vs)" by (auto simp: used_def)
  then have "card (Some ` {v. Some v \<in> set vs}) = length (filter used vs)"
    using distinct_card [OF assms] by simp
  then show ?thesis by (simp add: card_image)
qed

lemma live_image:
  assumes "list_all (\<lambda>(v, s). v = None \<longleftrightarrow> s = None) ps"
  shows "set (map snd (live ps)) = Some ` snd ` {(v, s). (Some v, Some s) \<in> set ps}"
proof (rule set_eqI)
  fix x
  have "x \<in> set (map snd (live ps)) \<longleftrightarrow> (\<exists>v s. x = Some s \<and> (v, Some s) \<in> set ps)"
    by (cases x) (force simp: live_def used_def)+
  also have "\<dots> \<longleftrightarrow> (\<exists>v s. x = Some s \<and> (Some v, Some s) \<in> set ps)"
    using assms by (fastforce simp: list_all_iff)
  finally show "x \<in> set (map snd (live ps)) \<longleftrightarrow> x \<in> Some ` snd ` {(v, s). (Some v, Some s) \<in> set ps}" by force
qed

lemma card_stas:
  assumes "distinct (map snd (live ps))" "list_all (\<lambda>(v, s). v = None \<longleftrightarrow> s = None) ps"
    and "inj_on snd {(v, s). (Some v, Some s) \<in> set ps}"
  shows "card {(v, s). (Some v, Some s) \<in> set ps} = length (live ps)"
proof -
  have "card (set (map snd (live ps))) = length (live ps)" using distinct_card [OF assms(1)] by simp
  then show ?thesis unfolding live_image [OF assms(2)] by (simp add: card_image assms(3))
qed

lemma reg_inv_card:
  assumes "reg_inv addr r"
  shows "card (sp_vifs (reg_abs r)) = length (filter used (rg_vifs r))"
    "card (sp_stas (reg_abs r)) = length (live (rg_peers r))"
proof -
  have "distinct (filter used (rg_vifs r))" "distinct (map snd (live (rg_peers r)))"
    "list_all (\<lambda>(v, s). v = None \<longleftrightarrow> s = None) (rg_peers r)" "inj_on snd {(v, s). (Some v, Some s) \<in> set (rg_peers r)}"
    using assms by (simp_all add: reg_inv_def spec_ok_def reg_abs_def)
  then show "card (sp_vifs (reg_abs r)) = length (filter used (rg_vifs r))" "card (sp_stas (reg_abs r)) = length (live (rg_peers r))"
    using card_vifs card_stas by (simp_all add: reg_abs_def)
qed

lemma has_vif: "rtw_registry_has_vif (Some v) r \<longleftrightarrow> v \<in> sp_vifs (reg_abs r)"
  by (auto simp: rtw_registry_has_vif_def reg_abs_def list_ex_iff)

lemma filter_length_less: "x \<in> set xs \<Longrightarrow> \<not> P x \<Longrightarrow> length (filter P xs) < length xs"
  by (induction xs) (auto simp: le_imp_less_Suc length_filter_le)

lemma set_update_free:
  assumes "i < length xs" "xs ! i \<noteq> z"
  shows "z \<in> set (xs[i := x]) \<longleftrightarrow> z = x \<or> z \<in> set xs"
proof
  assume "z \<in> set (xs[i := x])"
  then show "z = x \<or> z \<in> set xs" using set_update_subset_insert by fastforce
next
  assume "z = x \<or> z \<in> set xs"
  then show "z \<in> set (xs[i := x])"
  proof
    assume "z \<in> set xs"
    then obtain j where "j < length xs" "xs ! j = z" by (auto simp: in_set_conv_nth)
    moreover from this assms(2) have "j \<noteq> i" by auto
    ultimately have "xs[i := x] ! j = z" "j < length (xs[i := x])" by simp_all
    then show ?thesis by (metis nth_mem)
  qed (simp add: set_update_memI assms(1))
qed

lemma reg_add_vif:
  assumes inv: "reg_inv addr r" and run: "rtw88_add_vif (Some v) r = (b, r')"
  shows "reg_inv addr r' \<and> (b, reg_abs r') = spec_add_vif v (reg_abs r)"
proof (cases "v \<in> sp_vifs (reg_abs r)")
  case True
  with run inv have "r' = r" "b" by (auto simp: rtw88_add_vif_def has_vif reg_inv_def)
  with True inv show ?thesis by (simp add: spec_add_vif_def insert_absorb)
next
  case False
  have lock: "rg_lock r" and len: "length (rg_vifs r) = 4" using inv by (simp_all add: reg_inv_def RTW_REGISTRY_VIFS_def)
  note card = reg_inv_card(1) [OF inv]
  show ?thesis
  proof (cases "first_slot (\<lambda>v. v = None) (rg_vifs r)")
    case None
    then have "\<forall>x \<in> set (rg_vifs r). used x" by (simp add: first_slot_None used_def)
    then have "length (filter used (rg_vifs r)) = 4" using len by simp
    with None False run lock inv card show ?thesis by (auto simp: rtw88_add_vif_def has_vif spec_add_vif_def)
  next
    case (Some i)
    have i: "i < length (rg_vifs r)" "rg_vifs r ! i = None" using first_slot_Some [OF Some] by simp_all
    have r': "r' = r\<lparr>rg_vifs := (rg_vifs r)[i := Some v]\<rparr>" "b"
      using run Some False lock by (auto simp: rtw88_add_vif_def has_vif)
    have vifs: "sp_vifs (reg_abs r') = insert v (sp_vifs (reg_abs r))"
      using i by (auto simp: r' reg_abs_def set_update_free)
    have abs: "reg_abs r' = (reg_abs r)\<lparr>sp_vifs := insert v (sp_vifs (reg_abs r))\<rparr>"
      using vifs by (simp add: r' reg_abs_def)
    have less: "card (sp_vifs (reg_abs r)) < 4"
      using filter_length_less [of None "rg_vifs r" used] i len card by (metis nth_mem used_simps(2))
    have "Some v \<notin> set (filter used (rg_vifs r))" using False by (simp add: reg_abs_def)
    then have "distinct (filter used (rg_vifs r'))"
      using inv set_fill [OF i(1), of used "Some v"] i(2) by (simp add: r' reg_inv_def)
    moreover have "spec_ok addr (reg_abs r')"
      using inv less False by (auto simp: abs reg_inv_def spec_ok_def)
    ultimately have "reg_inv addr r'" using inv by (simp add: reg_inv_def r')
    with less r'(2) show ?thesis by (simp add: spec_add_vif_def abs)
  qed
qed

definition drop_entries :: "(ptr \<times> ptr \<Rightarrow> bool) \<Rightarrow> (ptr \<times> ptr) list \<Rightarrow> (ptr \<times> ptr) list" where
  "drop_entries D ps = map (\<lambda>p. if D p then (None, None) else p) ps"

lemma drop_entries_stas:
  "{(v, s). (Some v, Some s) \<in> set (drop_entries D ps)} = {(v, s). (Some v, Some s) \<in> set ps \<and> \<not> D (Some v, Some s)}"
  by (force simp: drop_entries_def)

lemma drop_entries_shape:
  "list_all (\<lambda>(v, s). v = None \<longleftrightarrow> s = None) ps \<Longrightarrow> list_all (\<lambda>(v, s). v = None \<longleftrightarrow> s = None) (drop_entries D ps)"
  by (auto simp: drop_entries_def list_all_iff)

lemma live_drop: "live (drop_entries D ps) = filter (\<lambda>p. \<not> D p) (live ps)"
  by (induction ps) (simp_all add: live_def drop_entries_def)

lemma distinct_drop: "distinct (map snd (live ps)) \<Longrightarrow> distinct (map snd (live (drop_entries D ps)))"
  unfolding live_drop by (rule distinct_map_filter)

lemma spec_ok_subset:
  assumes "spec_ok addr p" "P \<subseteq> sp_stas p" "V \<subseteq> sp_vifs p" "fst ` P \<subseteq> V"
    "\<forall>v. x = Some v \<longrightarrow> v \<in> V" "\<forall>s. y = Some s \<longrightarrow> (\<exists>v. x = Some v \<and> (v, s) \<in> P)"
  shows "spec_ok addr (p\<lparr>sp_vifs := V, sp_stas := P, sp_vif := x, sp_sta := y\<rparr>)"
  using assms by (auto simp: spec_ok_def intro: inj_on_subset finite_subset
      order_trans [OF card_mono [OF _ assms(2)]] order_trans [OF card_mono [OF _ assms(3)]])

lemma reg_remove_sta:
  assumes inv: "reg_inv addr r"
  shows "reg_inv addr (rtw88_remove_sta (Some s) r) \<and> reg_abs (rtw88_remove_sta (Some s) r) = spec_remove_sta s (reg_abs r)"
proof -
  let ?r = "rtw88_remove_sta (Some s) r"
  have lock: "rg_lock r" using inv by (simp add: reg_inv_def)
  have peers: "rg_peers ?r = drop_entries (\<lambda>p. snd p = Some s) (rg_peers r)"
    using lock by (auto simp: rtw88_remove_sta_def drop_entries_def)
  have rest: "rg_vifs ?r = rg_vifs r" "rg_vif ?r = rg_vif r" "rg_sta ?r = (if rg_sta r = Some s then None else rg_sta r)" "rg_lock ?r"
    using lock by (simp_all add: rtw88_remove_sta_def)
  have abs: "reg_abs ?r = spec_remove_sta s (reg_abs r)"
    by (auto simp: reg_abs_def spec_remove_sta_def peers drop_entries_stas rest)
  have "spec_ok addr (spec_remove_sta s (reg_abs r))"
  proof -
    have ok: "spec_ok addr (reg_abs r)" using inv by (simp add: reg_inv_def)
    then have "spec_ok addr ((reg_abs r)\<lparr>sp_vifs := sp_vifs (reg_abs r), sp_stas := {q \<in> sp_stas (reg_abs r). snd q \<noteq> s},
        sp_vif := sp_vif (reg_abs r), sp_sta := if sp_sta (reg_abs r) = Some s then None else sp_sta (reg_abs r)\<rparr>)"
      by (intro spec_ok_subset) (auto simp: spec_ok_def)
    then show ?thesis by (simp add: spec_remove_sta_def)
  qed
  moreover have "length (rg_peers ?r) = RTW_REGISTRY_PEERS" using inv by (simp add: peers drop_entries_def reg_inv_def)
  ultimately show ?thesis
    using inv abs drop_entries_shape distinct_drop by (simp add: reg_inv_def peers rest)
qed

text \<open>Removing an interface removes the stations of its entries one by one.\<close>

lemma drop_entries_simps:
  "drop_entries D [] = []" "drop_entries D (p # ps) = (if D p then (None, None) else p) # drop_entries D ps"
  "drop_entries D (ps @ qs) = drop_entries D ps @ drop_entries D qs"
  by (simp_all add: drop_entries_def)

lemma drop_entries_idle: "Some x \<notin> set (map snd (live qs)) \<Longrightarrow> drop_entries (\<lambda>p. snd p = Some x) qs = qs"
  by (induction qs) (auto simp: live_def drop_entries_def split: if_splits)

lemma remove_sta_eq:
  "rg_lock r \<Longrightarrow> rtw88_remove_sta (Some s) r = r\<lparr>rg_peers := drop_entries (\<lambda>p. snd p = Some s) (rg_peers r),
     rg_sta := if rg_sta r = Some s then None else rg_sta r\<rparr>"
  by (auto simp: rtw88_remove_sta_def drop_entries_def case_prod_beta)

lemma remove_vif_loop:
  assumes "list_all (\<lambda>(v, s). v = None \<longleftrightarrow> s = None) (rg_peers r)" "distinct (map snd (live (rg_peers r)))" "rg_lock r" "k \<le> length (rg_peers r)"
  shows "fold (\<lambda>i r. if fst (rg_peers r ! i) = Some v then rtw88_remove_sta (snd (rg_peers r ! i)) r else r) [0..<k] r =
    r\<lparr>rg_peers := drop_entries (\<lambda>p. fst p = Some v) (take k (rg_peers r)) @ drop k (rg_peers r),
      rg_sta := if rg_sta r \<noteq> None \<and> (Some v, rg_sta r) \<in> set (take k (rg_peers r)) then None else rg_sta r\<rparr>"
  using assms(4)
proof (induction k)
  case 0
  then show ?case by (simp add: drop_entries_def)
next
  case (Suc k)
  let ?ps = "rg_peers r" and ?D = "\<lambda>p :: ptr \<times> ptr. fst p = Some v"
  obtain w s where e: "?ps ! k = (w, s)" by fastforce
  have k: "k < length ?ps" using Suc.prems by simp
  have split: "take (Suc k) ?ps = take k ?ps @ [(w, s)]" "drop k ?ps = (w, s) # drop (Suc k) ?ps"
    using k e by (simp_all add: take_Suc_conv_app_nth Cons_nth_drop_Suc [symmetric])
  have whole: "?ps = take k ?ps @ (w, s) # drop (Suc k) ?ps" using split(2) by (metis append_take_drop_id)
  have ws: "w = None \<longleftrightarrow> s = None" using assms(1) k e by (auto simp: list_all_length)
  have nth: "(drop_entries ?D (take k ?ps) @ drop k ?ps) ! k = (w, s)"
    using k e by (simp add: nth_append drop_entries_def)
  show ?case
  proof (cases "w = Some v")
    case False
    then show ?thesis using Suc k nth by (simp add: split drop_entries_def)
  next
    case True
    with ws obtain x where x: "s = Some x" by auto
    have "distinct (map snd (live (take k ?ps)) @ Some x # map snd (live (drop (Suc k) ?ps)))"
      using assms(2) by (subst (asm) whole) (simp add: live_def x)
    then have fresh: "Some x \<notin> set (map snd (live (take k ?ps)))" "Some x \<notin> set (map snd (live (drop (Suc k) ?ps)))"
      by simp_all
    let ?A = "drop_entries ?D (take k ?ps)" and ?E = "\<lambda>p :: ptr \<times> ptr. snd p = Some x"
    have "Some x \<notin> set (map snd (live ?A))" using fresh(1) by (auto simp: live_drop)
    then have keep: "drop_entries ?E ?A = ?A" "drop_entries ?E (drop (Suc k) ?ps) = drop (Suc k) ?ps"
      using fresh(2) drop_entries_idle by blast+
    have peers: "drop_entries ?E (?A @ drop k ?ps) = drop_entries ?D (take (Suc k) ?ps) @ drop (Suc k) ?ps"
      by (simp add: split drop_entries_simps keep True x)
    show ?thesis
      using Suc k nth True x assms(3) peers by (auto simp: remove_sta_eq split)
  qed
qed

lemma filter_used_map:
  "filter used (map (\<lambda>w. if w = Some v then None else w) vs) = filter (\<lambda>w. w \<noteq> Some v) (filter used vs)"
  by (induction vs) simp_all

lemma reg_remove_vif:
  assumes inv: "reg_inv addr r"
  shows "reg_inv addr (rtw88_remove_vif (Some v) r) \<and> reg_abs (rtw88_remove_vif (Some v) r) = spec_remove_vif v (reg_abs r)"
proof -
  let ?r = "rtw88_remove_vif (Some v) r" and ?ps = "rg_peers r" and ?D = "\<lambda>p :: ptr \<times> ptr. fst p = Some v"
  have i: "rg_lock r" "length ?ps = 32" "list_all (\<lambda>(v, s). v = None \<longleftrightarrow> s = None) ?ps" "distinct (map snd (live ?ps))"
    and ok: "spec_ok addr (reg_abs r)"
    using inv by (simp_all add: reg_inv_def RTW_REGISTRY_PEERS_def)
  have r': "?r = r\<lparr>rg_peers := drop_entries ?D ?ps,
      rg_sta := if rg_sta r \<noteq> None \<and> (Some v, rg_sta r) \<in> set ?ps then None else rg_sta r,
      rg_vifs := map (\<lambda>w. if w = Some v then None else w) (rg_vifs r), rg_vif := if rg_vif r = Some v then None else rg_vif r\<rparr>"
    using i remove_vif_loop [OF i(3,4,1), of 32 v] by (simp add: rtw88_remove_vif_def RTW_REGISTRY_PEERS_def Let_def)
  have vifs: "{w. Some w \<in> set (rg_vifs ?r)} = {w. Some w \<in> set (rg_vifs r)} - {v}" by (force simp: r')
  have abs: "reg_abs ?r = spec_remove_vif v (reg_abs r)"
  proof -
    have stas: "{(w, s). (Some w, Some s) \<in> set (drop_entries ?D ?ps)} = {q \<in> {(w, s). (Some w, Some s) \<in> set ?ps}. fst q \<noteq> v}"
      by (auto simp: drop_entries_stas)
    show ?thesis using vifs by (cases "rg_sta r") (simp_all add: r' reg_abs_def spec_remove_vif_def stas)
  qed
  have "spec_ok addr (spec_remove_vif v (reg_abs r))"
    unfolding spec_remove_vif_def
    by (rule spec_ok_subset [OF ok]) (use ok in \<open>auto simp: spec_ok_def split: option.splits if_splits\<close>)
  moreover have "rg_vifs ?r = map (\<lambda>w. if w = Some v then None else w) (rg_vifs r)" by (simp add: r')
  then have "distinct (filter used (rg_vifs ?r))"
    using inv by (simp only: filter_used_map reg_inv_def distinct_filter)
  moreover have "rg_lock ?r" "length (rg_vifs ?r) = RTW_REGISTRY_VIFS" "length (rg_peers ?r) = RTW_REGISTRY_PEERS"
    using inv by (simp_all add: r' reg_inv_def drop_entries_def)
  moreover have "rg_peers ?r = drop_entries ?D ?ps" by (simp add: r')
  ultimately show ?thesis
    unfolding reg_inv_def abs using drop_entries_shape [OF i(3)] distinct_drop [OF i(4)] by simp
qed

lemma add_sta_scan_Inr:
  "for_each (add_sta_scan addr vif sta) ps () = Inr u \<Longrightarrow> (v, s) \<in> set ps \<Longrightarrow>
   s \<noteq> sta \<and> \<not> (v = vif \<and> s \<noteq> None \<and> addr (the s) = addr (the sta))"
  by (induction ps) (auto simp: add_sta_scan_def split: if_splits)

lemma add_sta_scan_Inl:
  "for_each (add_sta_scan addr vif sta) ps () = Inl b \<Longrightarrow> \<exists>v s. (v, s) \<in> set ps \<and>
     (s = sta \<and> b = (v = vif) \<or> s \<noteq> sta \<and> v = vif \<and> s \<noteq> None \<and> addr (the s) = addr (the sta) \<and> \<not> b)"
proof (induction ps)
  case (Cons p ps)
  obtain v s where p: "p = (v, s)" by fastforce
  show ?case
  proof (cases "add_sta_scan addr vif sta p ()")
    case (Inl c)
    with Cons.prems have "c = b" by simp
    with Inl show ?thesis unfolding p by (intro exI [of _ v] exI [of _ s]) (auto simp: add_sta_scan_def split: if_splits)
  next
    case (Inr u)
    then have "for_each (add_sta_scan addr vif sta) ps () = Inl b" using Cons.prems by simp
    from Cons.IH [OF this] obtain w t where "(w, t) \<in> set ps" "t = sta \<and> b = (w = vif) \<or>
        t \<noteq> sta \<and> w = vif \<and> t \<noteq> None \<and> addr (the t) = addr (the sta) \<and> \<not> b" by blast
    then show ?thesis by (intro exI [of _ w] exI [of _ t]) simp
  qed
qed simp

lemma spec_ok_unique:
  assumes "spec_ok addr p" "(w, t) \<in> sp_stas p" "(v, s) \<in> sp_stas p"
  shows "t = s \<Longrightarrow> w = v" "w = v \<Longrightarrow> addr t = addr s \<Longrightarrow> t = s"
  using assms inj_onD [of snd "sp_stas p" "(w, t)" "(v, s)"] inj_onD [of "\<lambda>(v, s). (v, addr s)" "sp_stas p" "(w, t)" "(v, s)"]
  by (auto simp: spec_ok_def)

lemma spec_ok_insert:
  assumes "spec_ok addr p" "v \<in> sp_vifs p" "s \<notin> snd ` sp_stas p" "addr s \<notin> (addr \<circ> snd) ` {q \<in> sp_stas p. fst q = v}"
    "card (sp_stas p) < 32"
  shows "spec_ok addr (p\<lparr>sp_stas := insert (v, s) (sp_stas p)\<rparr>)"
proof -
  have "inj_on snd (insert (v, s) (sp_stas p))" "inj_on (\<lambda>(v, s). (v, addr s)) (insert (v, s) (sp_stas p))"
    using assms(1,3,4) by (auto simp: spec_ok_def inj_on_insert image_iff)
  moreover have "card (insert (v, s) (sp_stas p)) \<le> 32" "finite (sp_stas p)"
    using assms(1,5) by (simp_all add: spec_ok_def card_insert_if)
  ultimately show ?thesis using assms(1,2) by (auto simp: spec_ok_def)
qed

lemma reg_add_sta:
  assumes inv: "reg_inv addr r" and run: "rtw88_add_sta addr (Some v) (Some s) r = (b, r')"
  shows "reg_inv addr r' \<and> (b, reg_abs r') = spec_add_sta addr v s (reg_abs r)"
proof (cases "v \<in> sp_vifs (reg_abs r)")
  case False
  moreover have "rg_lock r" using inv by (simp add: reg_inv_def)
  ultimately show ?thesis using run inv by (auto simp: rtw88_add_sta_def has_vif spec_add_sta_def)
next
  case vif: True
  let ?ps = "rg_peers r" and ?P = "sp_stas (reg_abs r)"
  have lock: "rg_lock r" and len: "length ?ps = 32" and shape: "list_all (\<lambda>(v, s). v = None \<longleftrightarrow> s = None) ?ps"
    and ok: "spec_ok addr (reg_abs r)" using inv by (simp_all add: reg_inv_def RTW_REGISTRY_PEERS_def)
  have P: "(w, t) \<in> ?P \<longleftrightarrow> (Some w, Some t) \<in> set ?ps" for w t by (simp add: reg_abs_def)
  show ?thesis
  proof (cases "for_each (add_sta_scan addr (Some v) (Some s)) ?ps ()")
    case (Inl added)
    have r': "r' = r" "b = added" using run Inl lock vif by (auto simp: rtw88_add_sta_def has_vif)
    obtain w t where e: "(w, t) \<in> set ?ps" "t = Some s \<and> added = (w = Some v) \<or>
        t \<noteq> Some s \<and> w = Some v \<and> t \<noteq> None \<and> addr (the t) = addr s \<and> \<not> added"
      using add_sta_scan_Inl [OF Inl] by auto
    moreover have "w = None \<longleftrightarrow> t = None" using shape e(1) by (auto simp: list_all_iff)
    ultimately obtain w' t' where wt: "w = Some w'" "t = Some t'" by (cases w; cases t) auto
    then have p: "(w', t') \<in> ?P" "t' = s \<and> added = (w' = v) \<or> t' \<noteq> s \<and> w' = v \<and> addr t' = addr s \<and> \<not> added"
      using e P by auto
    show ?thesis
    proof (cases added)
      case True
      with p r' vif inv show ?thesis by (auto simp: spec_add_sta_def insert_absorb)
    next
      case False
      have "(v, s) \<notin> ?P" using p False spec_ok_unique [OF ok, of w' t' v s] by blast
      moreover have "s \<in> snd ` ?P \<or> addr s \<in> (addr \<circ> snd) ` {q \<in> ?P. fst q = v}"
        using p False by (force intro: image_eqI [of _ _ "(w', t')"])
      ultimately show ?thesis using False r' inv by (auto simp: spec_add_sta_def)
    qed
  next
    case (Inr u)
    note scan = add_sta_scan_Inr [OF Inr]
    have clean: "(w, Some s) \<notin> set ?ps" "(Some v, Some t) \<in> set ?ps \<Longrightarrow> addr t \<noteq> addr s" for w t
      using scan [of w "Some s"] scan [of "Some v" "Some t"] by auto
    have no: "s \<notin> snd ` ?P" "(v, s) \<notin> ?P" "addr s \<notin> (addr \<circ> snd) ` {q \<in> ?P. fst q = v}"
      using clean(1) clean(2) by (fastforce simp: reg_abs_def)+
    show ?thesis
    proof (cases "first_slot (\<lambda>(w, t). t = None) ?ps")
      case None
      then have "\<forall>x \<in> set ?ps. used (snd x)" by (auto simp: first_slot_None used_def)
      then have "card ?P = 32" using reg_inv_card(2) [OF inv] len by (simp add: live_def)
      with None Inr run lock vif inv no show ?thesis by (auto simp: rtw88_add_sta_def has_vif spec_add_sta_def)
    next
      case (Some i)
      have i: "i < length ?ps" "snd (?ps ! i) = None" using first_slot_Some [OF Some] by (auto split: prod.splits)
      have ri: "?ps ! i = (None, None)" using shape i by (cases "?ps ! i") (auto simp: list_all_length)
      have r': "r' = r\<lparr>rg_peers := ?ps[i := (Some v, Some s)]\<rparr>" "b"
        using run Some Inr lock vif by (auto simp: rtw88_add_sta_def has_vif)
      have abs: "reg_abs r' = (reg_abs r)\<lparr>sp_stas := insert (v, s) ?P\<rparr>"
      proof -
        have "(Some w, Some t) \<in> set (?ps[i := (Some v, Some s)]) \<longleftrightarrow> (w, t) = (v, s) \<or> (Some w, Some t) \<in> set ?ps" for w t
          using set_update_free [OF i(1), of "(Some w, Some t)"] ri by simp
        then show ?thesis by (auto simp: r' reg_abs_def)
      qed
      have live: "live (rg_peers r') = live (take i ?ps) @ (Some v, Some s) # live (drop (Suc i) ?ps)"
        "live ?ps = live (take i ?ps) @ live (drop (Suc i) ?ps)"
        using set_fill [OF i(1), of "\<lambda>p. used (snd p)" "(Some v, Some s)"] i(2) by (simp_all add: r' live_def)
      have less: "card ?P < 32"
      proof -
        have "(None, None) \<in> set ?ps" using i(1) ri nth_mem by fastforce
        then show ?thesis
          using filter_length_less [of "(None, None)" ?ps "\<lambda>p. used (snd p)"] len reg_inv_card(2) [OF inv] by (simp add: live_def)
      qed
      have "Some s \<notin> set (map snd (live ?ps))" using clean(1) by (auto simp: live_def)
      then have "distinct (map snd (live (rg_peers r')))" using inv by (simp add: live reg_inv_def)
      moreover have "list_all (\<lambda>(v, s). v = None \<longleftrightarrow> s = None) (rg_peers r')"
        using shape by (auto simp: r' list_all_iff dest: set_update_subset_insert [THEN subsetD])
      moreover have "spec_ok addr (reg_abs r')"
        unfolding abs by (rule spec_ok_insert [OF ok vif no(1,3) less])
      ultimately have "reg_inv addr r'" using inv by (simp add: reg_inv_def r')
      with less r'(2) no vif show ?thesis by (simp add: spec_add_sta_def abs)
    qed
  qed
qed

lemma reg_find_sta:
  assumes inv: "reg_inv addr r"
  shows "ieee80211_find_sta addr (Some v) (Some a) r = Some s \<longleftrightarrow> (v, s) \<in> sp_stas (reg_abs r) \<and> addr s = a"
proof -
  let ?Q = "\<lambda>(w, t). w = Some v \<and> t \<noteq> None \<and> addr (the t) = a"
  have lock: "rg_lock r" and ok: "spec_ok addr (reg_abs r)" using inv by (simp_all add: reg_inv_def)
  show ?thesis
  proof (cases "List.find ?Q (rg_peers r)")
    case None
    then have "\<not> ((v, s) \<in> sp_stas (reg_abs r) \<and> addr s = a)" by (auto simp: find_None_iff reg_abs_def)
    with None lock show ?thesis by (simp add: ieee80211_find_sta_def)
  next
    case (Some e)
    then obtain i where "i < length (rg_peers r)" "e = rg_peers r ! i" "?Q e" by (auto simp: find_Some_iff)
    then have e: "e \<in> set (rg_peers r)" "?Q e" by simp_all
    then obtain t where t: "e = (Some v, Some t)" "addr t = a" by (cases e) auto
    then have "(v, t) \<in> sp_stas (reg_abs r)" using e by (simp add: reg_abs_def)
    moreover have "ieee80211_find_sta addr (Some v) (Some a) r = Some t"
      using Some t lock by (simp add: ieee80211_find_sta_def)
    ultimately show ?thesis using t(2) spec_ok_unique(2) [OF ok, of v t v s] by fastforce
  qed
qed

lemma reg_inv_spec: "reg_inv addr r \<Longrightarrow> spec_ok addr (reg_abs r)"
  by (simp add: reg_inv_def)

text \<open>The registry meets the contract.\<close>

interpretation reg: station_registry reg_abs "reg_inv addr" addr "\<lambda>v. rtw88_add_vif (Some v)" "\<lambda>v. rtw88_remove_vif (Some v)"
  "\<lambda>v s. rtw88_add_sta addr (Some v) (Some s)" "\<lambda>s. rtw88_remove_sta (Some s)" "\<lambda>v a. ieee80211_find_sta addr (Some v) (Some a)"
  for addr
  by (rule station_registry.intro)
    (fact reg_inv_spec reg_add_vif reg_remove_vif reg_add_sta reg_remove_sta reg_find_sta)+

section \<open>Histories\<close>

definition spec_register_vif :: "ptr \<Rightarrow> spec \<Rightarrow> spec" where
  "spec_register_vif vif p =
     (let p = (if sp_vif p = vif then p else case sp_vif p of None \<Rightarrow> p | Some old \<Rightarrow> spec_remove_vif old p) in
      case vif of None \<Rightarrow> p
      | Some v \<Rightarrow> (case spec_add_vif v p of (added, p) \<Rightarrow> if added then p\<lparr>sp_vif := Some v\<rparr> else p))"

definition spec_register_sta :: "(nat \<Rightarrow> bytes) \<Rightarrow> ptr \<Rightarrow> spec \<Rightarrow> spec" where
  "spec_register_sta addr sta p =
     (let p = (if sp_sta p = sta then p else case sp_sta p of None \<Rightarrow> p | Some old \<Rightarrow> spec_remove_sta old p) in
      case (sp_vif p, sta) of
        (Some v, Some s) \<Rightarrow> (case spec_add_sta addr v s p of (added, p) \<Rightarrow> if added then p\<lparr>sp_sta := Some s\<rparr> else p)
      | _ \<Rightarrow> p)"

datatype reg_op = AddVif nat | RemoveVif nat | AddSta nat nat | RemoveSta nat | RegisterVif ptr | RegisterSta ptr

fun reg_exec :: "(nat \<Rightarrow> bytes) \<Rightarrow> reg_op \<Rightarrow> Registry \<Rightarrow> bool \<times> Registry" where
  "reg_exec addr (AddVif v) r = rtw88_add_vif (Some v) r"
| "reg_exec addr (RemoveVif v) r = (True, rtw88_remove_vif (Some v) r)"
| "reg_exec addr (AddSta v s) r = rtw88_add_sta addr (Some v) (Some s) r"
| "reg_exec addr (RemoveSta s) r = (True, rtw88_remove_sta (Some s) r)"
| "reg_exec addr (RegisterVif v) r = (True, rtw88_register_vif v r)"
| "reg_exec addr (RegisterSta s) r = (True, rtw88_register_sta addr s r)"

fun spec_exec :: "(nat \<Rightarrow> bytes) \<Rightarrow> reg_op \<Rightarrow> spec \<Rightarrow> bool \<times> spec" where
  "spec_exec addr (AddVif v) p = spec_add_vif v p"
| "spec_exec addr (RemoveVif v) p = (True, spec_remove_vif v p)"
| "spec_exec addr (AddSta v s) p = spec_add_sta addr v s p"
| "spec_exec addr (RemoveSta s) p = (True, spec_remove_sta s p)"
| "spec_exec addr (RegisterVif v) p = (True, spec_register_vif v p)"
| "spec_exec addr (RegisterSta s) p = (True, spec_register_sta addr s p)"

fun history :: "('o \<Rightarrow> 's \<Rightarrow> bool \<times> 's) \<Rightarrow> 'o list \<Rightarrow> 's \<Rightarrow> bool list \<times> 's" where
  "history f [] s = ([], s)"
| "history f (x # xs) s = (case f x s of (b, t) \<Rightarrow> (case history f xs t of (bs, u) \<Rightarrow> (b # bs, u)))"

lemma reg_register_vif:
  assumes inv: "reg_inv addr r"
  shows "reg_inv addr (rtw88_register_vif vif r) \<and> reg_abs (rtw88_register_vif vif r) = spec_register_vif vif (reg_abs r)"
proof -
  define q where "q = (if rg_vif r \<noteq> vif then rtw88_remove_vif (rg_vif r) r else r)"
  define p where "p = (if sp_vif (reg_abs r) = vif then reg_abs r
      else case sp_vif (reg_abs r) of None \<Rightarrow> reg_abs r | Some old \<Rightarrow> spec_remove_vif old (reg_abs r))"
  have lock: "rg_lock r" using inv by (simp add: reg_inv_def)
  have sel: "sp_vif (reg_abs r) = rg_vif r" by (simp add: reg_abs_def)
  have null: "rtw88_remove_vif None r = r" by (simp add: rtw88_remove_vif_def)
  have q: "reg_inv addr q \<and> reg_abs q = p"
    using inv reg_remove_vif [OF inv] null by (cases "rg_vif r") (auto simp: q_def p_def sel)
  have l: "rtw88_register_vif vif r = (case rtw88_add_vif vif q of (added, r) \<Rightarrow> if added then r\<lparr>rg_vif := vif\<rparr> else r)"
    using lock unfolding rtw88_register_vif_def Let_def q_def [symmetric] by simp
  have sp: "spec_register_vif vif (reg_abs r) = (case vif of None \<Rightarrow> p
      | Some v \<Rightarrow> (case spec_add_vif v p of (added, p) \<Rightarrow> if added then p\<lparr>sp_vif := Some v\<rparr> else p))"
    unfolding spec_register_vif_def Let_def p_def [symmetric] by (rule refl)
  show ?thesis
  proof (cases vif)
    case None
    then show ?thesis using q unfolding l sp by (simp add: rtw88_add_vif_def)
  next
    case (Some v)
    obtain b r' where r': "rtw88_add_vif (Some v) q = (b, r')" by (rule prod.exhaust)
    then have i: "reg_inv addr r'" "spec_add_vif v p = (b, reg_abs r')" using reg_add_vif [of addr q v b r'] q by auto
    have okr: "spec_ok addr (reg_abs r)" using inv by (simp add: reg_inv_def)
    have sta: "sp_sta p = None \<or> sp_vif p = Some v"
    proof (cases "rg_vif r = Some v")
      case True
      then show ?thesis by (simp add: p_def sel Some)
    next
      case False
      then show ?thesis
        using okr Some by (cases "rg_vif r"; cases "sp_sta (reg_abs r)") (auto simp: p_def sel spec_remove_vif_def spec_ok_def)
    qed
    show ?thesis
    proof (cases b)
      case False
      then show ?thesis using Some r' i unfolding l sp by simp
    next
      case True
      have abs: "reg_abs r' = p\<lparr>sp_vifs := insert v (sp_vifs p)\<rparr>"
        using i(2) True by (auto simp: spec_add_vif_def split: if_splits)
      have abs': "reg_abs (r'\<lparr>rg_vif := Some v\<rparr>) = (reg_abs r')\<lparr>sp_vif := Some v\<rparr>" by (simp add: reg_abs_def)
      have "spec_ok addr (reg_abs r')" using i(1) by (simp add: reg_inv_def)
      then have "spec_ok addr ((reg_abs r')\<lparr>sp_vif := Some v\<rparr>)" using sta by (auto simp: abs spec_ok_def)
      then have "reg_inv addr (r'\<lparr>rg_vif := Some v\<rparr>)" using i(1) abs' by (simp add: reg_inv_def)
      then show ?thesis using True Some r' i(2) abs' unfolding l sp by simp
    qed
  qed
qed

lemma reg_register_sta:
  assumes inv: "reg_inv addr r"
  shows "reg_inv addr (rtw88_register_sta addr sta r) \<and> reg_abs (rtw88_register_sta addr sta r) = spec_register_sta addr sta (reg_abs r)"
proof -
  define q where "q = (if rg_sta r \<noteq> sta then rtw88_remove_sta (rg_sta r) r else r)"
  define p where "p = (if sp_sta (reg_abs r) = sta then reg_abs r
      else case sp_sta (reg_abs r) of None \<Rightarrow> reg_abs r | Some old \<Rightarrow> spec_remove_sta old (reg_abs r))"
  have lock: "rg_lock r" using inv by (simp add: reg_inv_def)
  have sel: "sp_sta (reg_abs r) = rg_sta r" by (simp add: reg_abs_def)
  have null: "rtw88_remove_sta None r = r" by (simp add: rtw88_remove_sta_def)
  have "reg_inv addr q \<and> reg_abs q = p"
    using inv reg_remove_sta [OF inv] null by (cases "rg_sta r") (auto simp: q_def p_def sel)
  then have q: "reg_inv addr q" "reg_abs q = p" by simp_all
  have vif: "sp_vif p = rg_vif q" using q(2) by (auto simp: reg_abs_def)
  have l: "rtw88_register_sta addr sta r = (case rtw88_add_sta addr (rg_vif q) sta q of (added, r) \<Rightarrow> if added then r\<lparr>rg_sta := sta\<rparr> else r)"
    using lock unfolding rtw88_register_sta_def Let_def q_def [symmetric] by simp
  have sp: "spec_register_sta addr sta (reg_abs r) = (case (sp_vif p, sta) of
        (Some v, Some s) \<Rightarrow> (case spec_add_sta addr v s p of (added, p) \<Rightarrow> if added then p\<lparr>sp_sta := Some s\<rparr> else p) | _ \<Rightarrow> p)"
    unfolding spec_register_sta_def Let_def p_def [symmetric] by (rule refl)
  show ?thesis
  proof (cases "rg_vif q = None \<or> sta = None")
    case True
    then show ?thesis using q vif unfolding l sp by (auto simp: rtw88_add_sta_def split: option.split)
  next
    case False
    then obtain v s where vs: "rg_vif q = Some v" "sta = Some s" by auto
    obtain b r' where r': "rtw88_add_sta addr (Some v) (Some s) q = (b, r')" by (rule prod.exhaust)
    then have i: "reg_inv addr r'" "(b, reg_abs r') = spec_add_sta addr v s p" using reg_add_sta [OF q(1) r'] q(2) by simp_all
    show ?thesis
    proof (cases b)
      case False
      then show ?thesis using vs r' i(1) vif unfolding l sp by (simp add: i(2) [symmetric])
    next
      case True
      have abs: "reg_abs r' = p\<lparr>sp_stas := insert (v, s) (sp_stas p)\<rparr>"
        using i(2) True by (auto simp: spec_add_sta_def split: if_splits)
      have abs': "reg_abs (r'\<lparr>rg_sta := Some s\<rparr>) = (reg_abs r')\<lparr>sp_sta := Some s\<rparr>" by (simp add: reg_abs_def)
      have "spec_ok addr (reg_abs r')" using i(1) by (simp add: reg_inv_def)
      then have "spec_ok addr ((reg_abs r')\<lparr>sp_sta := Some s\<rparr>)" using vif vs by (auto simp: abs spec_ok_def)
      then have "reg_inv addr (r'\<lparr>rg_sta := Some s\<rparr>)" using i(1) abs' by (simp add: reg_inv_def)
      then show ?thesis using True vs r' abs' vif unfolding l sp by (simp add: i(2) [symmetric])
    qed
  qed
qed

lemma reg_exec_refines:
  assumes inv: "reg_inv addr r" and run: "reg_exec addr op r = (b, r')"
  shows "reg_inv addr r' \<and> (b, reg_abs r') = spec_exec addr op (reg_abs r)"
proof (cases op)
  case (AddVif v)
  with run have "rtw88_add_vif (Some v) r = (b, r')" by simp
  then show ?thesis using reg_add_vif [OF inv] AddVif by simp
next
  case (AddSta v s)
  with run have "rtw88_add_sta addr (Some v) (Some s) r = (b, r')" by simp
  then show ?thesis using reg_add_sta [OF inv] AddSta by simp
next
  case (RemoveVif v)
  then show ?thesis using reg_remove_vif [OF inv, of v] run by auto
next
  case (RemoveSta s)
  then show ?thesis using reg_remove_sta [OF inv, of s] run by auto
next
  case (RegisterVif v)
  then show ?thesis using reg_register_vif [OF inv, of v] run by auto
next
  case (RegisterSta s)
  then show ?thesis using reg_register_sta [OF inv, of s] run by auto
qed

lemma reg_history_refines:
  "reg_inv addr r \<Longrightarrow> history (reg_exec addr) ops r = (bs, r') \<Longrightarrow>
   reg_inv addr r' \<and> history (spec_exec addr) ops (reg_abs r) = (bs, reg_abs r')"
proof (induction ops arbitrary: r bs)
  case (Cons op ops)
  obtain b q where q: "reg_exec addr op r = (b, q)" by (rule prod.exhaust)
  obtain cs u where u: "history (reg_exec addr) ops q = (cs, u)" by (rule prod.exhaust)
  have e: "u = r'" "bs = b # cs" using Cons.prems(2) q u by simp_all
  have r: "reg_inv addr q" "(b, reg_abs q) = spec_exec addr op (reg_abs r)"
    using reg_exec_refines [OF Cons.prems(1) q] by simp_all
  then show ?case using Cons.IH [OF r(1) u [unfolded e(1)]] e(2) by (simp add: r(2) [symmetric])
qed simp

lemma reg_inv_reset: "rg_lock r \<Longrightarrow> reg_inv addr (rtw_registry_reset r)"
  unfolding reg_inv_def rtw_registry_reset_def live_def spec_ok_def reg_abs_def
  by (simp add: list_all_iff)

text \<open>
  C19: from a reset registry, every history of additions, removals and primary registrations gives the
  same answers as the abstract registry of sets, in which an interface has at most one station per
  address, a station belongs to one registered interface, and the limits are four interfaces and
  thirty-two stations; and a lookup by interface and address returns exactly the station the abstract
  registry relates to them.
\<close>

theorem registry_refines_sets:
  assumes "rg_lock r" and "history (reg_exec addr) ops (rtw_registry_reset r) = (answers, r')"
  shows "history (spec_exec addr) ops \<lparr>sp_vifs = {}, sp_stas = {}, sp_vif = None, sp_sta = None\<rparr> = (answers, reg_abs r') \<and>
    spec_ok addr (reg_abs r') \<and>
    (\<forall>v a s. ieee80211_find_sta addr (Some v) (Some a) r' = Some s \<longleftrightarrow> (v, s) \<in> sp_stas (reg_abs r') \<and> addr s = a)"
proof -
  have "reg_inv addr r'" "history (spec_exec addr) ops (reg_abs (rtw_registry_reset r)) = (answers, reg_abs r')"
    using reg_history_refines [OF reg_inv_reset [OF assms(1)] assms(2)] by simp_all
  moreover have "reg_abs (rtw_registry_reset r) = \<lparr>sp_vifs = {}, sp_stas = {}, sp_vif = None, sp_sta = None\<rparr>"
    by (simp add: reg_abs_def rtw_registry_reset_def)
  ultimately show ?thesis using reg_inv_spec reg_find_sta by simp
qed

definition sample_registry :: Registry where
  "sample_registry = rtw_registry_reset \<lparr>rg_vifs = [], rg_peers = [], rg_vif = None, rg_sta = None, rg_lock = True\<rparr>"

definition sample_addr :: "nat \<Rightarrow> bytes" where
  "sample_addr s = [of_nat (s mod 5)]"

definition sample_ops :: "reg_op list" where
  "sample_ops = [AddVif 1, AddSta 1 10, AddSta 1 15, AddSta 2 20, RemoveSta 10, AddSta 1 15]"

lemma sample_registry_inv: "reg_inv addr sample_registry"
  unfolding sample_registry_def by (rule reg_inv_reset) simp

theorem registry_refines_sets_witness:
  "\<exists>r. history (reg_exec sample_addr) sample_ops sample_registry = ([True, True, False, False, True, True], r) \<and>
    spec_ok sample_addr (reg_abs r)"
proof -
  have answers: "fst (history (reg_exec sample_addr) sample_ops sample_registry) = [True, True, False, False, True, True]" by code_simp
  obtain bs r where h: "history (reg_exec sample_addr) sample_ops sample_registry = (bs, r)" by (rule prod.exhaust)
  show ?thesis
    using registry_refines_sets [OF _ h [unfolded sample_registry_def]] h answers by simp
qed

text \<open>
  What the driver may rely on when it uses the registry: a station that was added is found under
  its interface and address until it is removed, a removed one is not found, removing an interface
  hides all its stations, and a second station with the address of a live one is refused and does not
  replace it.
\<close>

theorem registry_lookup_laws:
  assumes "reg_inv addr r" and "rtw88_add_sta addr (Some v) (Some s) r = (True, r')"
    and "ieee80211_find_sta addr (Some w) (Some a) r = Some t" and "t \<noteq> s"
  shows "ieee80211_find_sta addr (Some v) (Some (addr s)) r' = Some s \<and>
    ieee80211_find_sta addr (Some w) (Some a) r' = Some t \<and>
    ieee80211_find_sta addr (Some w) (Some a) (rtw88_remove_sta (Some s) r) = Some t \<and>
    ieee80211_find_sta addr (Some v) (Some (addr s)) (rtw88_remove_sta (Some s) r') \<noteq> Some s \<and>
    ieee80211_find_sta addr (Some v) (Some (addr s)) (rtw88_remove_vif (Some v) r') = None \<and>
    (addr u = addr t \<and> u \<noteq> t \<longrightarrow> \<not> fst (rtw88_add_sta addr (Some w) (Some u) r) \<and>
       ieee80211_find_sta addr (Some w) (Some a) (snd (rtw88_add_sta addr (Some w) (Some u) r)) = Some t)"
proof -
  have r': "reg_inv addr r'" using reg_add_sta [OF assms(1,2)] by simp
  have a: "addr t = a" using reg.find_sta_refines [OF assms(1)] assms(3) by simp
  have dup: "\<not> fst (rtw88_add_sta addr (Some w) (Some u) r) \<and>
      ieee80211_find_sta addr (Some w) (Some a) (snd (rtw88_add_sta addr (Some w) (Some u) r)) = Some t"
    if u: "addr u = addr t" "u \<noteq> t"
  proof -
    have "ieee80211_find_sta addr (Some w) (Some (addr u)) r = Some t" using assms(3) a u(1) by simp
    then show ?thesis using reg.add_duplicate(2) [OF assms(1)] reg.find_other(2) [OF assms(1,3)] u(2) by auto
  qed
  have "ieee80211_find_sta addr (Some w) (Some a) (snd (rtw88_add_sta addr (Some v) (Some s) r)) = Some t"
    by (rule reg.find_other(2) [OF assms(1,3,4)])
  then show ?thesis
    using dup reg.find_added [OF assms(1,2)] reg.find_other(1) [OF assms(1,3,4)] assms(2)
      reg.find_removed [OF r'] reg.find_removed_vif [OF r'] by simp
qed

theorem registry_lookup_laws_witness:
  "\<exists>r r'. reg_inv sample_addr r \<and> rtw88_add_sta sample_addr (Some 1) (Some 11) r = (True, r') \<and>
    ieee80211_find_sta sample_addr (Some 1) (Some (sample_addr 11)) r' = Some 11"
proof -
  let ?ops = "[AddVif 1, AddSta 1 10]"
  obtain bs r where r: "history (reg_exec sample_addr) ?ops sample_registry = (bs, r)" by (rule prod.exhaust)
  have inv: "reg_inv sample_addr r" using reg_history_refines [OF sample_registry_inv r] by simp
  obtain b r' where r': "rtw88_add_sta sample_addr (Some 1) (Some 11) r = (b, r')" by (rule prod.exhaust)
  have "fst (rtw88_add_sta sample_addr (Some 1) (Some 11) (snd (history (reg_exec sample_addr) ?ops sample_registry)))"
    by code_simp
  then have b: "rtw88_add_sta sample_addr (Some 1) (Some 11) r = (True, r')" using r r' by simp
  have "ieee80211_find_sta sample_addr (Some 1) (Some (sample_addr 10)) (snd (history (reg_exec sample_addr) ?ops sample_registry)) = Some 10"
    by code_simp
  then have found: "ieee80211_find_sta sample_addr (Some 1) (Some (sample_addr 10)) r = Some 10" using r by simp
  have "ieee80211_find_sta sample_addr (Some 1) (Some (sample_addr 11)) r' = Some 11"
    using registry_lookup_laws [OF inv b found] by simp
  then show ?thesis using inv b by blast
qed

end
