(* ===== verification/Awdl_Peers.thy ===== *)
theory Awdl_Peers
  imports Awdl_Replay
begin

text \<open>
  The native owner of the HAL's AWDL peers (\<open>AirportRTW/WCL/AirportRTWAwdlPeers.hpp\<close>): a table of
  sixteen peers with independent cache and traffic references. The HAL and the native interface are
  outside: an oracle gives the answer of the \<open>n\<close>-th outside call, what the outside observes at that
  time, and the calls it makes back into the object before it returns. The field \<open>np_log\<close> records the
  outside calls; it is read by no operation except to index the oracle.
\<close>

section \<open>Definitions\<close>

datatype PeerResult = Success | Unsupported | Invalid | NotReady | NoMemory | NoResources | HardwareError | RecoveryRequired

datatype IOReturn = kIOReturnSuccess | kIOReturnBusy | kIOReturnBadArgument | kIOReturnNotReady | kIOReturnUnsupported
  | kIOReturnNoMemory | kIOReturnNoResources | kIOReturnError | kIOReturnNotFound

definition maximumPeers :: nat where "maximumPeers = 16"

record Entry =
  en_address :: bytes
  en_used :: bool
  en_cached :: bool
  en_traffic :: bool
  en_installed :: bool
  en_retiring :: bool
  en_windows :: "DataReplayWindow list"

definition Entry0 :: Entry where
  "Entry0 = \<lparr>en_address = zeros 6, en_used = False, en_cached = False, en_traffic = False, en_installed = False,
     en_retiring = False, en_windows = replicate 17 DataReplayWindow0\<rparr>"

datatype peer_event = SetPeer bytes bool PeerResult | Posted bytes bool bool | Abandoned

record NativePeers =
  np_interface :: "nat option"
  np_entries :: "Entry list"
  np_trafficPeer :: bytes
  np_lastError :: IOReturn
  np_bound :: bool
  np_active :: bool
  np_fault :: bool
  np_busy :: bool
  np_closing :: bool
  np_shutdownPending :: bool
  np_disablePending :: bool
  np_abandonPending :: bool
  np_log :: "peer_event list"

definition NativePeers0 :: NativePeers where
  "NativePeers0 = \<lparr>np_interface = None, np_entries = replicate maximumPeers Entry0, np_trafficPeer = zeros 6,
     np_lastError = kIOReturnSuccess, np_bound = False, np_active = False, np_fault = False, np_busy = False,
     np_closing = False, np_shutdownPending = False, np_disablePending = False, np_abandonPending = False, np_log = []\<rparr>"

text \<open>Calls the outside may make while one of its functions runs: the deferred ones and data reception.\<close>

datatype peer_call = Revoke | Disable | Shutdown | Abandon | AcceptData bytes nat u16 u64

record Answer =
  an_result :: PeerResult
  an_posted :: bool
  an_calls :: "peer_call list"
  an_capacity :: u32
  an_address :: "nat \<Rightarrow> bytes option"
  an_canPost :: bool

type_synonym outside = "nat \<Rightarrow> Answer"

abbreviation now_at :: "outside \<Rightarrow> NativePeers \<Rightarrow> Answer" where
  "now_at orc p \<equiv> orc (length (np_log p))"

definition Peers_valid :: "bytes option \<Rightarrow> bool" where
  "Peers_valid address = (case address of None \<Rightarrow> False | Some a \<Rightarrow> unicast a)"

definition NativePeers_ready :: "outside \<Rightarrow> NativePeers \<Rightarrow> bool" where
  "NativePeers_ready orc p \<longleftrightarrow> \<not> np_fault p \<and> an_capacity (now_at orc p) \<noteq> 0"

definition NativePeers_capacity :: "outside \<Rightarrow> NativePeers \<Rightarrow> nat" where
  "NativePeers_capacity orc p =
     (let count = (if np_bound p \<and> \<not> np_fault p then unat (an_capacity (now_at orc p)) else 0) in
      if count > maximumPeers then maximumPeers else count)"

definition NativePeers_isLocal :: "outside \<Rightarrow> bytes \<Rightarrow> NativePeers \<Rightarrow> bool" where
  "NativePeers_isLocal orc a p = (case np_interface p of None \<Rightarrow> True
     | Some i \<Rightarrow> (case an_address (now_at orc p) i of None \<Rightarrow> True
         | Some current \<Rightarrow> \<not> Peers_valid (Some current) \<or> current = a))"

definition NativePeers_find :: "bytes \<Rightarrow> NativePeers \<Rightarrow> nat option" where
  "NativePeers_find a p = List.find (\<lambda>i. en_used (np_entries p ! i) \<and> en_address (np_entries p ! i) = a) [0..<maximumPeers]"

fun status :: "PeerResult \<Rightarrow> IOReturn" where
  "status Success = kIOReturnSuccess"
| "status Unsupported = kIOReturnUnsupported"
| "status Invalid = kIOReturnBadArgument"
| "status NotReady = kIOReturnNotReady"
| "status NoMemory = kIOReturnNoMemory"
| "status NoResources = kIOReturnNoResources"
| "status HardwareError = kIOReturnError"
| "status RecoveryRequired = kIOReturnError"

definition NativePeers_revoke :: "NativePeers \<Rightarrow> NativePeers" where
  "NativePeers_revoke p = p\<lparr>np_active := False\<rparr>"

definition NativePeers_authorized :: "bytes option \<Rightarrow> NativePeers \<Rightarrow> bool" where
  "NativePeers_authorized address p \<longleftrightarrow>
     np_bound p \<and> np_active p \<and> \<not> np_fault p \<and> \<not> np_closing p \<and> Peers_valid address \<and>
     (case NativePeers_find (the address) p of None \<Rightarrow> False
      | Some i \<Rightarrow> let e = np_entries p ! i in en_installed e \<and> \<not> en_retiring e \<and> (en_cached e \<or> en_traffic e))"

definition upd_entry :: "nat \<Rightarrow> (Entry \<Rightarrow> Entry) \<Rightarrow> NativePeers \<Rightarrow> NativePeers" where
  "upd_entry i f p = p\<lparr>np_entries := (np_entries p)[i := f (np_entries p ! i)]\<rparr>"

definition NativePeers_acceptData :: "bytes \<Rightarrow> nat \<Rightarrow> u16 \<Rightarrow> u64 \<Rightarrow> NativePeers \<Rightarrow> bool \<times> NativePeers" where
  "NativePeers_acceptData a stream seq now p =
     (if stream \<ge> 17 \<or> \<not> NativePeers_authorized (Some a) p then (False, p)
      else case NativePeers_find a p of None \<Rightarrow> (False, p)
      | Some i \<Rightarrow> (case DataReplayWindow_accept seq now (en_windows (np_entries p ! i) ! stream) of
          (r, w) \<Rightarrow> (r, upd_entry i (\<lambda>e. e\<lparr>en_windows := (en_windows e)[stream := w]\<rparr>) p)))"

text \<open>
  The effect of a call made while the object is busy or closing. That each public operation reduces
  to it then is shown below, so nothing is lost by not recursing.
\<close>

fun peer_reenter :: "peer_call \<Rightarrow> NativePeers \<Rightarrow> NativePeers" where
  "peer_reenter Revoke p = NativePeers_revoke p"
| "peer_reenter Disable p = (if np_busy p then (NativePeers_revoke p)\<lparr>np_disablePending := True\<rparr> else NativePeers_revoke p)"
| "peer_reenter Shutdown p = (NativePeers_revoke p)\<lparr>np_shutdownPending := True\<rparr>"
| "peer_reenter Abandon p = (NativePeers_revoke p)\<lparr>np_abandonPending := True\<rparr>"
| "peer_reenter (AcceptData a stream seq now) p = snd (NativePeers_acceptData a stream seq now p)"

definition hal_setAwdlPeer :: "outside \<Rightarrow> bytes \<Rightarrow> bool \<Rightarrow> NativePeers \<Rightarrow> PeerResult \<times> NativePeers" where
  "hal_setAwdlPeer orc a add p =
     (let r = an_result (now_at orc p) in
      (r, fold peer_reenter (an_calls (now_at orc p)) (p\<lparr>np_log := np_log p @ [SetPeer a add r]\<rparr>)))"

definition postPeerCacheCompletion :: "outside \<Rightarrow> bytes \<Rightarrow> bool \<Rightarrow> NativePeers \<Rightarrow> bool \<times> NativePeers" where
  "postPeerCacheCompletion orc a add p =
     (let b = an_posted (now_at orc p) in
      (b, fold peer_reenter (an_calls (now_at orc p)) (p\<lparr>np_log := np_log p @ [Posted a add b]\<rparr>)))"

definition NativePeers_install :: "outside \<Rightarrow> bytes \<Rightarrow> NativePeers \<Rightarrow> IOReturn \<times> nat option \<times> NativePeers" where
  "NativePeers_install orc a p = (case NativePeers_find a p of
     Some i \<Rightarrow> (if en_installed (np_entries p ! i) \<and> \<not> en_retiring (np_entries p ! i) then kIOReturnSuccess else kIOReturnNotReady, Some i, p)
   | None \<Rightarrow>
     (let count = length (filter en_used (np_entries p));
          empty = List.find (\<lambda>i. \<not> en_used (np_entries p ! i)) [0..<maximumPeers] in
      case empty of None \<Rightarrow> (kIOReturnNoResources, None, p)
      | Some k \<Rightarrow>
        if count \<ge> NativePeers_capacity orc p then (kIOReturnNoResources, None, p)
        else case hal_setAwdlPeer orc a True (upd_entry k (\<lambda>e. e\<lparr>en_used := True, en_address := a\<rparr>) p) of
          (result, p) \<Rightarrow>
            let p = p\<lparr>np_lastError := status result\<rparr> in
            if result \<noteq> Success then
              (np_lastError p, None,
               if result = RecoveryRequired
               then (upd_entry k (\<lambda>e. e\<lparr>en_installed := True, en_retiring := True\<rparr>) p)\<lparr>np_fault := True\<rparr>
               else upd_entry k (\<lambda>_. Entry0) p)
            else (kIOReturnSuccess, Some k, upd_entry k (\<lambda>e. e\<lparr>en_installed := True\<rparr>) p)))"

definition NativePeers_remove :: "outside \<Rightarrow> nat \<Rightarrow> NativePeers \<Rightarrow> IOReturn \<times> NativePeers" where
  "NativePeers_remove orc i p =
     (case hal_setAwdlPeer orc (en_address (np_entries p ! i)) False (upd_entry i (\<lambda>e. e\<lparr>en_retiring := True\<rparr>) p) of
        (result, p) \<Rightarrow>
          let p = p\<lparr>np_lastError := status result\<rparr> in
          if np_lastError p \<noteq> kIOReturnSuccess then (np_lastError p, p\<lparr>np_fault := True\<rparr>)
          else (kIOReturnSuccess, upd_entry i (\<lambda>_. Entry0) p))"

definition clear_entry :: "outside \<Rightarrow> nat \<Rightarrow> IOReturn \<times> NativePeers \<Rightarrow> IOReturn \<times> NativePeers" where
  "clear_entry orc i = (\<lambda>(failure, p).
     let e = np_entries p ! i in
     if en_used e \<and> en_installed e
     then case hal_setAwdlPeer orc (en_address e) False p of (result, p) \<Rightarrow>
       (if status result \<noteq> kIOReturnSuccess then status result else failure, upd_entry i (\<lambda>_. Entry0) p)
     else (failure, upd_entry i (\<lambda>_. Entry0) p))"

definition NativePeers_clear :: "outside \<Rightarrow> bool \<Rightarrow> NativePeers \<Rightarrow> NativePeers" where
  "NativePeers_clear orc unbind p =
     (if np_closing p then p\<lparr>np_shutdownPending := np_shutdownPending p \<or> unbind\<rparr>
      else case fold (clear_entry orc) [0..<maximumPeers] (kIOReturnSuccess, p\<lparr>np_closing := True, np_active := False\<rparr>) of
        (failure, p) \<Rightarrow>
          let p = p\<lparr>np_trafficPeer := zeros 6, np_lastError := failure\<rparr>;
              p = (if failure \<noteq> kIOReturnSuccess then p\<lparr>np_fault := True\<rparr> else p);
              p = (if unbind \<or> np_shutdownPending p \<or> np_abandonPending p then p\<lparr>np_interface := None, np_bound := False\<rparr> else p) in
          p\<lparr>np_shutdownPending := False, np_disablePending := False, np_abandonPending := False, np_closing := False\<rparr>)"

definition NativePeers_abandon :: "NativePeers \<Rightarrow> NativePeers" where
  "NativePeers_abandon p =
     (let p = NativePeers_revoke p in
      if np_busy p \<or> np_closing p then p\<lparr>np_abandonPending := True\<rparr>
      else p\<lparr>np_entries := replicate maximumPeers Entry0, np_trafficPeer := zeros 6, np_interface := None, np_bound := False,
             np_abandonPending := False, np_shutdownPending := False, np_disablePending := False,
             np_log := np_log p @ [Abandoned]\<rparr>)"

definition transaction_end :: "outside \<Rightarrow> NativePeers \<Rightarrow> NativePeers" where
  "transaction_end orc p =
     (let p = p\<lparr>np_busy := False\<rparr> in
      if np_abandonPending p then NativePeers_abandon p
      else if np_shutdownPending p then NativePeers_clear orc True p
      else if np_disablePending p then NativePeers_clear orc False p
      else p)"

definition transaction :: "outside \<Rightarrow> (NativePeers \<Rightarrow> IOReturn \<times> NativePeers) \<Rightarrow> NativePeers \<Rightarrow> IOReturn \<times> NativePeers" where
  "transaction orc body p = (case body (p\<lparr>np_busy := True\<rparr>) of (r, p) \<Rightarrow> (r, transaction_end orc p))"

definition NativePeers_bind :: "outside \<Rightarrow> nat option \<Rightarrow> bytes option \<Rightarrow> NativePeers \<Rightarrow> IOReturn \<times> NativePeers" where
  "NativePeers_bind orc native address p =
     (if np_busy p \<or> np_closing p \<or> np_bound p then (kIOReturnBusy, p)
      else case native of None \<Rightarrow> (kIOReturnBadArgument, p)
      | Some i \<Rightarrow>
        if \<not> Peers_valid address \<or> an_address (now_at orc p) i \<noteq> address then (kIOReturnBadArgument, p)
        else if an_capacity (now_at orc p) = 0 then (kIOReturnNotReady, p)
        else (kIOReturnSuccess, p\<lparr>np_interface := native, np_bound := True, np_active := False, np_fault := False,
                                   np_lastError := kIOReturnSuccess\<rparr>))"

definition NativePeers_enable :: "outside \<Rightarrow> bool \<Rightarrow> NativePeers \<Rightarrow> IOReturn \<times> NativePeers" where
  "NativePeers_enable orc value p =
     (if \<not> value then
        let p = NativePeers_revoke p in
        if np_busy p then (kIOReturnSuccess, p\<lparr>np_disablePending := True\<rparr>)
        else let p = NativePeers_clear orc False p in (np_lastError p, p)
      else if np_busy p \<or> np_closing p then (kIOReturnBusy, p)
      else if \<not> np_bound p \<or> np_interface p = None \<or> \<not> NativePeers_ready orc p then (kIOReturnNotReady, p)
      else (kIOReturnSuccess, p\<lparr>np_active := True\<rparr>))"

definition NativePeers_shutdown :: "outside \<Rightarrow> NativePeers \<Rightarrow> NativePeers" where
  "NativePeers_shutdown orc p =
     (let p = NativePeers_revoke p in
      if np_busy p \<or> np_closing p then p\<lparr>np_shutdownPending := True\<rparr> else NativePeers_clear orc True p)"

definition cache_post :: "outside \<Rightarrow> bool \<Rightarrow> bytes \<Rightarrow> Entry \<Rightarrow> nat option \<Rightarrow> NativePeers \<Rightarrow> IOReturn \<times> NativePeers" where
  "cache_post orc add peer previous i p =
     (if \<not> np_active p \<or> np_shutdownPending p then (kIOReturnNotReady, p)
      else case postPeerCacheCompletion orc peer add p of (posted, p) \<Rightarrow>
        if posted then (kIOReturnSuccess, p)
        else if add \<and> i \<noteq> None then
          let k = the i; p = upd_entry k (\<lambda>e. e\<lparr>en_cached := en_cached previous\<rparr>) p in
          (kIOReturnNotReady,
           if \<not> en_installed previous \<and> \<not> en_traffic (np_entries p ! k) then snd (NativePeers_remove orc k p) else p)
        else (kIOReturnNotReady, p))"

definition cache_transaction :: "outside \<Rightarrow> bool \<Rightarrow> bytes \<Rightarrow> NativePeers \<Rightarrow> IOReturn \<times> NativePeers" where
  "cache_transaction orc add peer p =
     (let i = NativePeers_find peer p; previous = (case i of None \<Rightarrow> Entry0 | Some k \<Rightarrow> np_entries p ! k) in
      if add then
        (case NativePeers_install orc peer p of (result, i, p) \<Rightarrow>
          if result \<noteq> kIOReturnSuccess then (result, p)
          else if \<not> np_active p \<or> np_shutdownPending p then (kIOReturnNotReady, p)
          else cache_post orc add peer previous i (upd_entry (the i) (\<lambda>e. e\<lparr>en_cached := True\<rparr>) p))
      else (case i of
          None \<Rightarrow> cache_post orc add peer previous i p
        | Some k \<Rightarrow>
            let p = upd_entry k (\<lambda>e. e\<lparr>en_cached := False\<rparr>) p in
            if en_traffic (np_entries p ! k) then cache_post orc add peer previous i p
            else (case NativePeers_remove orc k p of (result, p) \<Rightarrow>
              if result \<noteq> kIOReturnSuccess then (result, p) else cache_post orc add peer previous i p)))"

definition NativePeers_cache :: "outside \<Rightarrow> u32 \<Rightarrow> bytes option \<Rightarrow> NativePeers \<Rightarrow> IOReturn \<times> NativePeers" where
  "NativePeers_cache orc operation address p =
     (if \<not> np_bound p \<or> \<not> np_active p \<or> np_interface p = None \<or> \<not> an_canPost (now_at orc p) then (kIOReturnNotReady, p)
      else if np_busy p \<or> np_closing p then (kIOReturnBusy, p)
      else if \<not> Peers_valid address \<or> NativePeers_isLocal orc (the address) p then (kIOReturnBadArgument, p)
      else if operation \<noteq> 0 \<and> operation \<noteq> 2 \<and> operation \<noteq> 6 then (kIOReturnUnsupported, p)
      else let add = (operation \<noteq> 2) in
        if add \<and> (\<not> NativePeers_ready orc p \<or> np_fault p) then (kIOReturnNotReady, p)
        else transaction orc (cache_transaction orc add (the address)) p)"

record traffic_registration =
  tr_version :: u32
  tr_addr :: bytes
  tr_name_len :: u32
  tr_active :: u32

definition traffic_transaction :: "outside \<Rightarrow> traffic_registration \<Rightarrow> NativePeers \<Rightarrow> IOReturn \<times> NativePeers" where
  "traffic_transaction orc d p =
     (case (if tr_active d \<noteq> 0 then NativePeers_install orc (tr_addr d) p else (kIOReturnSuccess, None, p)) of (result, nxt, p) \<Rightarrow>
        if result \<noteq> kIOReturnSuccess then (result, p)
        else if tr_active d \<noteq> 0 \<and> (\<not> np_active p \<or> np_shutdownPending p) then (kIOReturnNotReady, p)
        else
          let p = (if tr_active d \<noteq> 0 then upd_entry (the nxt) (\<lambda>e. e\<lparr>en_traffic := True\<rparr>) p else p);
              old = NativePeers_find (np_trafficPeer p) p;
              p = p\<lparr>np_trafficPeer := (if tr_active d \<noteq> 0 then tr_addr d else zeros 6)\<rparr>;
              finish = (\<lambda>p. (if np_active p \<and> \<not> np_shutdownPending p then kIOReturnSuccess else kIOReturnNotReady, p)) in
          (case old of None \<Rightarrow> finish p
           | Some k \<Rightarrow>
               if old = nxt then finish p
               else let p = upd_entry k (\<lambda>e. e\<lparr>en_traffic := False\<rparr>) p in
                 if en_cached (np_entries p ! k) then finish p
                 else (case NativePeers_remove orc k p of (result, p) \<Rightarrow>
                   if result \<noteq> kIOReturnSuccess then (result, p) else finish p)))"

definition NativePeers_traffic :: "outside \<Rightarrow> traffic_registration \<Rightarrow> NativePeers \<Rightarrow> IOReturn \<times> NativePeers" where
  "NativePeers_traffic orc d p =
     (if \<not> np_bound p \<or> \<not> np_active p then (kIOReturnNotReady, p)
      else if np_busy p \<or> np_closing p then (kIOReturnBusy, p)
      else if tr_version d > 1 \<or> tr_active d > 1 \<or> tr_name_len d = 0 \<or> tr_name_len d > 128 \<or>
              tr_active d \<noteq> 0 \<and> (\<not> Peers_valid (Some (tr_addr d)) \<or> NativePeers_isLocal orc (tr_addr d) p)
      then (kIOReturnBadArgument, p)
      else if tr_active d \<noteq> 0 \<and> \<not> NativePeers_ready orc p then (kIOReturnNotReady, p)
      else transaction orc (traffic_transaction orc d) p)"

section \<open>Calls made back into the object\<close>

text \<open>While the object is busy or closing, every public operation is deferred or refused without an outside call.\<close>

lemma busy_operations:
  assumes "np_busy p \<or> np_closing p"
  shows "NativePeers_bind orc native address p = (kIOReturnBusy, p)"
    and "NativePeers_enable orc True p = (kIOReturnBusy, p)"
    and "snd (NativePeers_enable orc False p) = peer_reenter Disable p"
    and "NativePeers_shutdown orc p = peer_reenter Shutdown p"
    and "NativePeers_abandon p = peer_reenter Abandon p"
    and "snd (NativePeers_cache orc operation address p) = p"
    and "snd (NativePeers_traffic orc d p) = p"
  using assms
  by (auto simp: NativePeers_bind_def NativePeers_enable_def NativePeers_shutdown_def NativePeers_abandon_def
      NativePeers_cache_def NativePeers_traffic_def NativePeers_revoke_def NativePeers_clear_def Let_def)

text \<open>What a call made back can change: authorization, the pending flags and the replay windows of used entries.\<close>

definition quiet :: "NativePeers \<Rightarrow> NativePeers \<Rightarrow> bool" where
  "quiet p q \<longleftrightarrow> np_interface q = np_interface p \<and> np_trafficPeer q = np_trafficPeer p \<and> np_lastError q = np_lastError p \<and>
     np_bound q = np_bound p \<and> np_fault q = np_fault p \<and> np_busy q = np_busy p \<and> np_closing q = np_closing p \<and>
     (np_active q \<longrightarrow> np_active p) \<and> length (np_entries q) = length (np_entries p) \<and>
     (\<forall>i < length (np_entries p). let e = np_entries p ! i; f = np_entries q ! i in
        en_address f = en_address e \<and> en_used f = en_used e \<and> en_cached f = en_cached e \<and> en_traffic f = en_traffic e \<and>
        en_installed f = en_installed e \<and> en_retiring f = en_retiring e \<and> length (en_windows f) = length (en_windows e) \<and>
        (\<not> en_used e \<longrightarrow> f = e))"

lemma quiet_refl: "quiet p p"
  by (simp add: quiet_def)

lemma quiet_trans: "quiet p q \<Longrightarrow> quiet q r \<Longrightarrow> quiet p r"
  by (simp add: quiet_def Let_def)

lemma find_Some:
  "NativePeers_find a p = Some i \<Longrightarrow> i < maximumPeers \<and> en_used (np_entries p ! i) \<and> en_address (np_entries p ! i) = a"
  by (auto simp: NativePeers_find_def find_Some_iff)

lemma find_None:
  "NativePeers_find a p = None \<longleftrightarrow> (\<forall>i < maximumPeers. en_used (np_entries p ! i) \<longrightarrow> en_address (np_entries p ! i) \<noteq> a)"
  by (auto simp: NativePeers_find_def find_None_iff)

lemma upd_entry_sel [simp]:
  "np_interface (upd_entry i f p) = np_interface p" "np_trafficPeer (upd_entry i f p) = np_trafficPeer p"
  "np_lastError (upd_entry i f p) = np_lastError p" "np_bound (upd_entry i f p) = np_bound p"
  "np_active (upd_entry i f p) = np_active p" "np_fault (upd_entry i f p) = np_fault p"
  "np_busy (upd_entry i f p) = np_busy p" "np_closing (upd_entry i f p) = np_closing p"
  "np_shutdownPending (upd_entry i f p) = np_shutdownPending p" "np_disablePending (upd_entry i f p) = np_disablePending p"
  "np_abandonPending (upd_entry i f p) = np_abandonPending p" "np_log (upd_entry i f p) = np_log p"
  "length (np_entries (upd_entry i f p)) = length (np_entries p)"
  by (simp_all add: upd_entry_def)

lemma upd_entry_nth [simp]:
  "j < length (np_entries p) \<Longrightarrow> np_entries (upd_entry i f p) ! j = (if i = j then f (np_entries p ! j) else np_entries p ! j)"
  by (simp add: upd_entry_def nth_list_update)

lemma quiet_acceptData: "quiet p (snd (NativePeers_acceptData a stream seq now p)) \<and>
  np_log (snd (NativePeers_acceptData a stream seq now p)) = np_log p"
proof (cases "stream \<ge> 17 \<or> \<not> NativePeers_authorized (Some a) p")
  case False
  then obtain i where i: "NativePeers_find a p = Some i" by (auto simp: NativePeers_authorized_def split: option.splits)
  obtain r w where w: "DataReplayWindow_accept seq now (en_windows (np_entries p ! i) ! stream) = (r, w)" by (rule prod.exhaust)
  have "snd (NativePeers_acceptData a stream seq now p) = upd_entry i (\<lambda>e. e\<lparr>en_windows := (en_windows e)[stream := w]\<rparr>) p"
    using False i w by (simp add: NativePeers_acceptData_def)
  then show ?thesis using find_Some [OF i] by (simp add: quiet_def Let_def)
qed (simp add: NativePeers_acceptData_def quiet_refl)

lemma quiet_reenter: "quiet p (peer_reenter c p) \<and> np_log (peer_reenter c p) = np_log p"
proof (cases c)
  case (AcceptData a stream seq now)
  then show ?thesis using quiet_acceptData by simp
qed (simp_all add: quiet_def NativePeers_revoke_def Let_def)

lemma quiet_calls: "quiet p (fold peer_reenter cs p) \<and> np_log (fold peer_reenter cs p) = np_log p"
proof (induction cs arbitrary: p)
  case (Cons c cs)
  then show ?case using quiet_reenter [of p c] Cons.IH [of "peer_reenter c p"] quiet_trans by auto
qed (simp add: quiet_refl)

lemma quiet_log: "quiet (p\<lparr>np_log := l\<rparr>) q \<longleftrightarrow> quiet p q"
  by (simp add: quiet_def)

lemma hal_step:
  assumes "hal_setAwdlPeer orc a add p = (r, q)"
  shows "quiet p q" "np_log q = np_log p @ [SetPeer a add r]"
  using assms quiet_calls [of "p\<lparr>np_log := np_log p @ [SetPeer a add r]\<rparr>" "an_calls (now_at orc p)"]
  by (auto simp: hal_setAwdlPeer_def Let_def quiet_log)

lemma post_step:
  assumes "postPeerCacheCompletion orc a add p = (b, q)"
  shows "quiet p q" "np_log q = np_log p @ [Posted a add b]"
  using assms quiet_calls [of "p\<lparr>np_log := np_log p @ [Posted a add b]\<rparr>" "an_calls (now_at orc p)"]
  by (auto simp: postPeerCacheCompletion_def Let_def quiet_log)

section \<open>The peer table and the hardware\<close>

text \<open>The peers the hardware holds for this owner, by the last call made for each address.\<close>

fun hal_live_step :: "peer_event \<Rightarrow> bytes set \<Rightarrow> bytes set" where
  "hal_live_step (SetPeer a add r) s = (if add \<and> r = Success then insert a s else s - {a})"
| "hal_live_step (Posted a add b) s = s"
| "hal_live_step Abandoned s = {}"

definition hal_live :: "peer_event list \<Rightarrow> bytes set" where
  "hal_live l = fold hal_live_step l {}"

lemma hal_live_simps [simp]:
  "hal_live [] = {}" "hal_live (l @ [e]) = hal_live_step e (hal_live l)"
  by (simp_all add: hal_live_def)

definition on_air :: "Entry \<Rightarrow> bool" where
  "on_air e \<longleftrightarrow> en_used e \<and> en_installed e \<and> \<not> en_retiring e"

definition table_live :: "NativePeers \<Rightarrow> bytes set" where
  "table_live p = {en_address (np_entries p ! i) | i. i < maximumPeers \<and> on_air (np_entries p ! i)}"

definition entry_ok :: "Entry \<Rightarrow> bool" where
  "entry_ok e \<longleftrightarrow> length (en_windows e) = 17 \<and> (if en_used e then unicast (en_address e) else e = Entry0)"

definition table_ok :: "NativePeers \<Rightarrow> bool" where
  "table_ok p \<longleftrightarrow> length (np_entries p) = maximumPeers \<and> (\<forall>i < maximumPeers. entry_ok (np_entries p ! i)) \<and>
     (\<forall>i < maximumPeers. \<forall>j < maximumPeers. en_used (np_entries p ! i) \<and> en_used (np_entries p ! j) \<and>
        en_address (np_entries p ! i) = en_address (np_entries p ! j) \<longrightarrow> i = j)"

definition settled :: "NativePeers \<Rightarrow> bool" where
  "settled p \<longleftrightarrow> (\<forall>i < maximumPeers. let e = np_entries p ! i in (en_used e \<longrightarrow> en_installed e) \<and>
     (en_retiring e \<longrightarrow> np_fault p) \<and> (en_traffic e \<longrightarrow> en_address e = np_trafficPeer p))"

definition synced :: "NativePeers \<Rightarrow> bool" where
  "synced p \<longleftrightarrow> table_ok p \<and> hal_live (np_log p) = table_live p"

lemma quiet_entry:
  assumes "quiet p q" "table_ok p" "i < maximumPeers"
  shows "en_address (np_entries q ! i) = en_address (np_entries p ! i)" "en_used (np_entries q ! i) = en_used (np_entries p ! i)"
    "en_cached (np_entries q ! i) = en_cached (np_entries p ! i)" "en_traffic (np_entries q ! i) = en_traffic (np_entries p ! i)"
    "en_installed (np_entries q ! i) = en_installed (np_entries p ! i)" "en_retiring (np_entries q ! i) = en_retiring (np_entries p ! i)"
    "entry_ok (np_entries q ! i)"
  using assms by (auto simp: quiet_def table_ok_def entry_ok_def Let_def)

lemma quiet_table:
  assumes "quiet p q" "table_ok p"
  shows "table_ok q"
  unfolding table_ok_def
proof (intro conjI allI impI)
  show "length (np_entries q) = maximumPeers" using assms by (simp add: quiet_def table_ok_def)
  show "entry_ok (np_entries q ! i)" if "i < maximumPeers" for i using quiet_entry(7) [OF assms that] .
  show "i = j" if "i < maximumPeers" "j < maximumPeers" "en_used (np_entries q ! i) \<and> en_used (np_entries q ! j) \<and>
    en_address (np_entries q ! i) = en_address (np_entries q ! j)" for i j
    using assms(2) that quiet_entry(1,2) [OF assms that(1)] quiet_entry(1,2) [OF assms that(2)] by (simp add: table_ok_def)
qed

lemma table_live_iff: "a \<in> table_live p \<longleftrightarrow> (\<exists>i < maximumPeers. on_air (np_entries p ! i) \<and> en_address (np_entries p ! i) = a)"
  by (auto simp: table_live_def)

lemma quiet_live:
  assumes "quiet p q" "table_ok p"
  shows "table_live q = table_live p"
proof -
  have "on_air (np_entries q ! i) = on_air (np_entries p ! i)" if "i < maximumPeers" for i
    using quiet_entry [OF assms that] by (simp add: on_air_def)
  then show ?thesis using quiet_entry(1) [OF assms] by (intro set_eqI) (simp add: table_live_iff cong: conj_cong)
qed

lemma quiet_settled:
  assumes "quiet p q" "table_ok p" "settled p"
  shows "settled q"
proof -
  have "np_fault q = np_fault p" "np_trafficPeer q = np_trafficPeer p" using assms(1) by (simp_all add: quiet_def)
  then show ?thesis using assms(3) quiet_entry(1,2,4-6) [OF assms(1,2)] by (simp add: settled_def Let_def)
qed

text \<open>Replacing one entry.\<close>

lemma table_live_upd:
  assumes "length (np_entries p) = maximumPeers" "k < maximumPeers"
  shows "a \<in> table_live (upd_entry k f p) \<longleftrightarrow> on_air (f (np_entries p ! k)) \<and> en_address (f (np_entries p ! k)) = a \<or>
    (\<exists>i < maximumPeers. i \<noteq> k \<and> on_air (np_entries p ! i) \<and> en_address (np_entries p ! i) = a)"
  using assms by (simp add: table_live_iff [of _ "upd_entry k f p"] cong: conj_cong) metis

lemma table_ok_upd:
  assumes "table_ok p" "k < maximumPeers" "entry_ok (f (np_entries p ! k))"
    and "\<And>i. i < maximumPeers \<Longrightarrow> i \<noteq> k \<Longrightarrow> en_used (np_entries p ! i) \<Longrightarrow> en_used (f (np_entries p ! k)) \<Longrightarrow>
      en_address (np_entries p ! i) \<noteq> en_address (f (np_entries p ! k))"
  shows "table_ok (upd_entry k f p)"
proof -
  have n: "length (np_entries p) = maximumPeers" using assms(1) by (simp add: table_ok_def)
  have "i = j" if "i < maximumPeers" "j < maximumPeers" "en_used (np_entries (upd_entry k f p) ! i)" "en_used (np_entries (upd_entry k f p) ! j)"
    "en_address (np_entries (upd_entry k f p) ! i) = en_address (np_entries (upd_entry k f p) ! j)" for i j
    using that assms(1,2) assms(4) [of i] assms(4) [of j] n by (cases "i = k"; cases "j = k") (auto simp: table_ok_def)
  then show ?thesis using assms(1-3) n by (auto simp: table_ok_def)
qed

lemma table_ok_unique:
  "table_ok p \<Longrightarrow> i < maximumPeers \<Longrightarrow> j < maximumPeers \<Longrightarrow> en_used (np_entries p ! i) \<Longrightarrow> en_used (np_entries p ! j) \<Longrightarrow>
   en_address (np_entries p ! i) = en_address (np_entries p ! j) \<Longrightarrow> i = j"
  by (simp add: table_ok_def)

lemma entry_ok_Entry0 [simp]: "entry_ok Entry0" "\<not> on_air Entry0" "\<not> en_used Entry0" "\<not> en_traffic Entry0"
  "\<not> en_retiring Entry0"
  by (simp_all add: entry_ok_def Entry0_def on_air_def)

lemma plain_update [simp]:
  "table_ok (p\<lparr>np_lastError := x\<rparr>) = table_ok p" "table_live (p\<lparr>np_lastError := x\<rparr>) = table_live p"
  "settled (p\<lparr>np_lastError := x\<rparr>) = settled p"
  "table_ok (p\<lparr>np_fault := b\<rparr>) = table_ok p" "table_live (p\<lparr>np_fault := b\<rparr>) = table_live p"
  "table_ok (p\<lparr>np_trafficPeer := a\<rparr>) = table_ok p" "table_live (p\<lparr>np_trafficPeer := a\<rparr>) = table_live p"
  "table_ok (p\<lparr>np_busy := b\<rparr>) = table_ok p" "table_live (p\<lparr>np_busy := b\<rparr>) = table_live p"
  "settled (p\<lparr>np_busy := b\<rparr>) = settled p"
  by (simp_all add: table_ok_def table_live_def settled_def)

text \<open>Handing one peer over to the hardware and taking it back.\<close>

definition keeps :: "NativePeers \<Rightarrow> NativePeers \<Rightarrow> bool" where
  "keeps p q \<longleftrightarrow> np_interface q = np_interface p \<and> np_bound q = np_bound p \<and> np_busy q = np_busy p \<and> np_closing q = np_closing p \<and>
     np_trafficPeer q = np_trafficPeer p \<and> (np_active q \<longrightarrow> np_active p) \<and> (np_fault p \<longrightarrow> np_fault q)"

lemma keeps_refl [simp]: "keeps p p"
  by (simp add: keeps_def)

lemma keeps_trans: "keeps p q \<Longrightarrow> keeps q r \<Longrightarrow> keeps p r"
  by (auto simp: keeps_def)

lemma quiet_keeps: "quiet p q \<Longrightarrow> keeps p q"
  by (simp add: keeps_def quiet_def)

lemma settled_upd:
  assumes "settled p" "length (np_entries p) = maximumPeers" "let e = f (np_entries p ! k) in (en_used e \<longrightarrow> en_installed e) \<and>
     (en_retiring e \<longrightarrow> np_fault p) \<and> (en_traffic e \<longrightarrow> en_address e = np_trafficPeer p)"
  shows "settled (upd_entry k f p)"
  using assms by (simp add: settled_def Let_def)

lemma install_new:
  assumes ok: "synced p" "settled p" and a: "unicast a" and new: "NativePeers_find a p = None" and k: "k < maximumPeers" "\<not> en_used (np_entries p ! k)"
    and hal: "hal_setAwdlPeer orc a True (upd_entry k (\<lambda>e. e\<lparr>en_used := True, en_address := a\<rparr>) p) = (r, q)"
  shows "let q' = (if r = Success then upd_entry k (\<lambda>e. e\<lparr>en_installed := True\<rparr>) q
      else if r = RecoveryRequired then (upd_entry k (\<lambda>e. e\<lparr>en_installed := True, en_retiring := True\<rparr>) q)\<lparr>np_fault := True\<rparr>
      else upd_entry k (\<lambda>_. Entry0) q) in synced q' \<and> settled q' \<and> keeps p q' \<and>
      (r = Success \<longrightarrow> on_air (np_entries q' ! k) \<and> en_address (np_entries q' ! k) = a \<and> \<not> en_traffic (np_entries q' ! k))"
proof -
  define p1 where "p1 = upd_entry k (\<lambda>e. e\<lparr>en_used := True, en_address := a\<rparr>) p"
  define e where "e = np_entries q ! k"
  have n: "length (np_entries p) = maximumPeers" and tp: "table_ok p" using ok(1) by (simp_all add: synced_def table_ok_def)
  have e0: "np_entries p ! k = Entry0" using tp k by (auto simp: table_ok_def entry_ok_def)
  have other: "en_address (np_entries p ! i) \<noteq> a" if "i < maximumPeers" "en_used (np_entries p ! i)" for i
    using new that by (simp add: find_None)
  have t1: "table_ok p1" unfolding p1_def
    by (rule table_ok_upd [OF tp k(1)]) (use a other in \<open>auto simp: e0 entry_ok_def Entry0_def\<close>)
  have q: "quiet p1 q" "np_log q = np_log p @ [SetPeer a True r]" using hal_step [OF hal] by (simp_all add: p1_def)
  have nq: "length (np_entries q) = maximumPeers" and tq: "table_ok q" using quiet_table [OF q(1) t1] by (simp_all add: table_ok_def)
  have ek: "en_address e = a" "en_used e" "\<not> en_cached e" "\<not> en_traffic e" "\<not> en_installed e" "\<not> en_retiring e" "entry_ok e"
    using quiet_entry [OF q(1) t1 k(1)] n k(1) by (simp_all add: e_def p1_def e0 Entry0_def)
  have ei: "en_address (np_entries q ! i) = en_address (np_entries p ! i)" "en_used (np_entries q ! i) = en_used (np_entries p ! i)"
    "on_air (np_entries q ! i) = on_air (np_entries p ! i)" "en_installed (np_entries q ! i) = en_installed (np_entries p ! i)"
    "en_traffic (np_entries q ! i) = en_traffic (np_entries p ! i)" "en_retiring (np_entries q ! i) = en_retiring (np_entries p ! i)"
    if "i < maximumPeers" "i \<noteq> k" for i
    using quiet_entry [OF q(1) t1 that(1)] n that by (simp_all add: p1_def on_air_def)
  have f: "np_fault q = np_fault p" "np_trafficPeer q = np_trafficPeer p" "keeps p q"
    using q(1) quiet_keeps [OF q(1)] by (simp_all add: quiet_def keeps_def p1_def)
  have live: "b \<in> table_live p \<longleftrightarrow> (\<exists>i < maximumPeers. i \<noteq> k \<and> on_air (np_entries p ! i) \<and> en_address (np_entries p ! i) = b)" for b
    using e0 by (auto simp: table_live_iff)
  have na: "a \<notin> table_live p" using other by (auto simp: table_live_iff on_air_def)
  have result: "synced (upd_entry k g q) \<and> (np_fault q' = (np_fault q \<or> en_retiring (g e)) \<longrightarrow> settled q')" 
    if g: "g e = Entry0 \<and> r \<noteq> Success \<or> g e = e\<lparr>en_installed := True\<rparr> \<and> r = Success \<or> g e = e\<lparr>en_installed := True, en_retiring := True\<rparr> \<and> r \<noteq> Success"
      and q': "np_entries q' = np_entries (upd_entry k g q)" "np_trafficPeer q' = np_trafficPeer q" for g q'
  proof -
    have tok: "table_ok (upd_entry k g q)"
      by (rule table_ok_upd [OF tq k(1)]) (use g ek other ei(1,2) in \<open>auto simp: e_def [symmetric] entry_ok_def Entry0_def\<close>)
    have ga: "on_air (g e) \<longleftrightarrow> r = Success" "r = Success \<Longrightarrow> en_address (g e) = a" using g ek by (auto simp: on_air_def)
    have "b \<in> table_live (upd_entry k g q) \<longleftrightarrow> (r = Success \<and> b = a) \<or> b \<in> table_live p" for b
      unfolding table_live_upd [OF nq k(1)] live e_def [symmetric] ga(1) using ga(2) by (auto simp: ei)
    then have "hal_live (np_log (upd_entry k g q)) = table_live (upd_entry k g q)"
      using ok(1) na q(2) by (auto simp: synced_def)
    moreover have "settled q'" if fault: "np_fault q' = (np_fault q \<or> en_retiring (g e))"
    proof -
      have gs: "(en_used (g e) \<longrightarrow> en_installed (g e)) \<and> \<not> en_traffic (g e)" using g ek by auto
      have "(en_used (np_entries q' ! i) \<longrightarrow> en_installed (np_entries q' ! i)) \<and> (en_retiring (np_entries q' ! i) \<longrightarrow> np_fault q') \<and>
          (en_traffic (np_entries q' ! i) \<longrightarrow> en_address (np_entries q' ! i) = np_trafficPeer q')" if i: "i < maximumPeers" for i
      proof (cases "i = k")
        case True
        then show ?thesis using gs fault q'(1) nq k(1) by (simp add: e_def [symmetric])
      next
        case False
        then show ?thesis using ok(2) fault i q' nq ei [OF i False] f by (simp add: settled_def Let_def)
      qed
      then show ?thesis by (simp add: settled_def Let_def)
    qed
    ultimately show ?thesis using tok by (simp add: synced_def)
  qed
  show ?thesis
  proof (cases "r = Success")
    case True
    then show ?thesis
      using result [of "\<lambda>e. e\<lparr>en_installed := True\<rparr>" "upd_entry k (\<lambda>e. e\<lparr>en_installed := True\<rparr>) q"] ek nq k(1) f(3)
      by (simp add: Let_def keeps_def e_def [symmetric] on_air_def)
  next
    case False
    then show ?thesis
      using result [of "\<lambda>_. Entry0" "upd_entry k (\<lambda>_. Entry0) q"]
        result [of "\<lambda>e. e\<lparr>en_installed := True, en_retiring := True\<rparr>" "(upd_entry k (\<lambda>e. e\<lparr>en_installed := True, en_retiring := True\<rparr>) q)\<lparr>np_fault := True\<rparr>"]
        f(3) by (auto simp: Let_def keeps_def synced_def)
  qed
qed

lemma status_Success [simp]: "status r = kIOReturnSuccess \<longleftrightarrow> r = Success"
  by (cases r) simp_all

lemma install_ok:
  assumes ok: "synced p" "settled p" and a: "unicast a" and run: "NativePeers_install orc a p = (r, i, q)"
  shows "synced q \<and> settled q \<and> keeps p q \<and>
    (r = kIOReturnSuccess \<longrightarrow> (\<exists>k < maximumPeers. i = Some k \<and> on_air (np_entries q ! k) \<and> en_address (np_entries q ! k) = a))"
proof (cases "NativePeers_find a p")
  case (Some k)
  then show ?thesis using ok run find_Some [OF Some] by (auto simp: NativePeers_install_def on_air_def split: if_splits)
next
  case None
  let ?slot = "List.find (\<lambda>i. \<not> en_used (np_entries p ! i)) [0..<maximumPeers]"
  show ?thesis
  proof (cases "?slot = None \<or> length (filter en_used (np_entries p)) \<ge> NativePeers_capacity orc p")
    case True
    then show ?thesis using ok run None by (auto simp: NativePeers_install_def Let_def split: option.splits)
  next
    case False
    then obtain k where k: "?slot = Some k" by auto
    then have k': "k < maximumPeers" "\<not> en_used (np_entries p ! k)" by (auto simp: find_Some_iff)
    obtain r' q' where hal: "hal_setAwdlPeer orc a True (upd_entry k (\<lambda>e. e\<lparr>en_used := True, en_address := a\<rparr>) p) = (r', q')"
      by (rule prod.exhaust)
    have com: "upd_entry k f (q'\<lparr>np_lastError := x\<rparr>) = (upd_entry k f q')\<lparr>np_lastError := x\<rparr>" for f x
      by (simp add: upd_entry_def)
    have swap: "x\<lparr>np_lastError := e, np_fault := b\<rparr> = x\<lparr>np_fault := b, np_lastError := e\<rparr>" for x :: NativePeers and e b by simp
    have sync: "synced (q\<lparr>np_lastError := x\<rparr>) = synced q" "keeps p (q\<lparr>np_lastError := x\<rparr>) = keeps p q" for q x
      by (simp_all add: synced_def keeps_def)
    let ?q = "if r' = Success then upd_entry k (\<lambda>e. e\<lparr>en_installed := True\<rparr>) q'
      else if r' = RecoveryRequired then (upd_entry k (\<lambda>e. e\<lparr>en_installed := True, en_retiring := True\<rparr>) q')\<lparr>np_fault := True\<rparr>
      else upd_entry k (\<lambda>_. Entry0) q'"
    have cap: "\<not> length (filter en_used (np_entries p)) \<ge> NativePeers_capacity orc p" using False by simp
    have "q = ?q\<lparr>np_lastError := status r'\<rparr>" "r = kIOReturnSuccess \<longrightarrow> r' = Success \<and> i = Some k"
      using run cap unfolding NativePeers_install_def None k hal Let_def
      by (auto simp: com swap hal split: if_splits)
    then show ?thesis using install_new [OF ok a None k' hal] k'(1) unfolding Let_def by (simp add: sync)
  qed
qed

lemma table_live_retire:
  assumes "table_ok p" "k < maximumPeers" "en_used (np_entries p ! k)" "\<not> on_air (f (np_entries p ! k))"
  shows "table_live (upd_entry k f p) = table_live p - {en_address (np_entries p ! k)}"
proof (rule set_eqI)
  fix b
  have n: "length (np_entries p) = maximumPeers" using assms(1) by (simp add: table_ok_def)
  show "b \<in> table_live (upd_entry k f p) \<longleftrightarrow> b \<in> table_live p - {en_address (np_entries p ! k)}"
    unfolding table_live_upd [OF n assms(2)] using assms(4) table_ok_unique [OF assms(1) _ assms(2) _ assms(3)]
    by (auto simp: table_live_iff on_air_def)
qed

lemma remove_ok:
  assumes ok: "synced p" "settled p" and k: "k < maximumPeers" "en_used (np_entries p ! k)" and run: "NativePeers_remove orc k p = (r, q)"
  shows "synced q \<and> settled q \<and> keeps p q"
proof -
  define a where "a = en_address (np_entries p ! k)"
  define p1 where "p1 = upd_entry k (\<lambda>e. e\<lparr>en_retiring := True\<rparr>) p"
  obtain r' q' where hal: "hal_setAwdlPeer orc a False p1 = (r', q')" by (rule prod.exhaust)
  have n: "length (np_entries p) = maximumPeers" and tp: "table_ok p" using ok(1) by (simp_all add: synced_def table_ok_def)
  have t1: "table_ok p1" unfolding p1_def
    by (rule table_ok_upd [OF tp k(1)]) (use tp k table_ok_unique [OF tp] in \<open>auto simp: table_ok_def entry_ok_def\<close>)
  have l1: "table_live p1 = table_live p - {a}"
    unfolding p1_def a_def by (rule table_live_retire [OF tp k]) (simp add: on_air_def)
  have q': "quiet p1 q'" "np_log q' = np_log p @ [SetPeer a False r']" using hal_step [OF hal] by (simp_all add: p1_def)
  have tq: "table_ok q'" and lq: "table_live q' = table_live p - {a}" using quiet_table [OF q'(1) t1] quiet_live [OF q'(1) t1] l1 by simp_all
  have sq: "synced q'" using ok(1) q'(2) tq lq by (auto simp: synced_def)
  have nq: "length (np_entries q') = maximumPeers" using tq by (simp add: table_ok_def)
  have ek: "en_address (np_entries q' ! k) = a" "en_used (np_entries q' ! k)" "\<not> on_air (np_entries q' ! k)"
    using quiet_entry [OF q'(1) t1 k(1)] k n by (simp_all add: a_def p1_def on_air_def)
  have fixed: "np_fault q' = np_fault p" "np_trafficPeer q' = np_trafficPeer p" "keeps p q'"
    using q'(1) quiet_keeps [OF q'(1)] by (simp_all add: quiet_def keeps_def p1_def)
  have si: "(en_used (np_entries q' ! i) \<longrightarrow> en_installed (np_entries q' ! i)) \<and> (en_retiring (np_entries q' ! i) \<longrightarrow> np_fault p \<or> i = k) \<and>
      (en_traffic (np_entries q' ! i) \<longrightarrow> en_address (np_entries q' ! i) = np_trafficPeer p)" if "i < maximumPeers" for i
    using quiet_entry [OF q'(1) t1 that] that ok(2) n k(1) by (auto simp: p1_def settled_def Let_def split: if_splits)
  have q: "q = (if r' = Success then upd_entry k (\<lambda>_. Entry0) (q'\<lparr>np_lastError := status r'\<rparr>) else q'\<lparr>np_lastError := status r', np_fault := True\<rparr>)"
    using run hal by (cases r') (auto simp: NativePeers_remove_def Let_def p1_def a_def)
  show ?thesis
  proof (cases "r' = Success")
    case False
    then show ?thesis using q sq si fixed(2,3) by (auto simp: synced_def settled_def Let_def keeps_def)
  next
    case True
    let ?q = "q'\<lparr>np_lastError := status r'\<rparr>"
    have u: "np_entries ?q ! k = np_entries q' ! k" by simp
    have "table_ok q" using q True tq k(1) by (auto intro!: table_ok_upd)
    moreover have "table_live q = table_live q'"
      using q True table_live_retire [of ?q k "\<lambda>_. Entry0"] tq k(1) ek lq by auto
    moreover have "settled q" using q True si fixed nq by (auto simp: settled_def Let_def)
    ultimately show ?thesis using q True sq fixed(3) by (simp add: synced_def keeps_def)
  qed
qed

text \<open>Clearing the table: one removal for every entry the hardware has, in table order, and nothing left.\<close>

definition installed_from :: "nat \<Rightarrow> NativePeers \<Rightarrow> bytes list" where
  "installed_from i p = map (\<lambda>j. en_address (np_entries p ! j)) (filter (\<lambda>j. en_used (np_entries p ! j) \<and> en_installed (np_entries p ! j)) [i..<maximumPeers])"

definition removals :: "bytes list \<Rightarrow> peer_event list \<Rightarrow> bool" where
  "removals as l \<longleftrightarrow> list_all2 (\<lambda>a e. \<exists>r. e = SetPeer a False r) as l"

lemma installed_from_Cons:
  "i < maximumPeers \<Longrightarrow> installed_from i p =
    (if en_used (np_entries p ! i) \<and> en_installed (np_entries p ! i) then [en_address (np_entries p ! i)] else []) @ installed_from (Suc i) p"
  by (simp add: installed_from_def upt_conv_Cons)

lemma installed_from_cong:
  "(\<And>j. i \<le> j \<Longrightarrow> j < maximumPeers \<Longrightarrow> en_used (np_entries q ! j) = en_used (np_entries p ! j) \<and>
     en_installed (np_entries q ! j) = en_installed (np_entries p ! j) \<and> en_address (np_entries q ! j) = en_address (np_entries p ! j)) \<Longrightarrow>
   installed_from i q = installed_from i p"
  unfolding installed_from_def by (auto intro!: map_cong filter_cong)

lemma clear_entry_ok:
  assumes ok: "synced p" and i: "i < maximumPeers" and run: "clear_entry orc i (f, p) = (f', q)"
  shows "synced q \<and> keeps p q" "np_entries q ! i = Entry0"
    "j < i \<Longrightarrow> np_entries p ! j = Entry0 \<Longrightarrow> np_entries q ! j = Entry0"
    "installed_from (Suc i) q = installed_from (Suc i) p"
    "\<exists>l. np_log q = np_log p @ l \<and> removals (if en_used (np_entries p ! i) \<and> en_installed (np_entries p ! i) then [en_address (np_entries p ! i)] else []) l"
proof -
  let ?e = "np_entries p ! i"
  have tp: "table_ok p" and n: "length (np_entries p) = maximumPeers" using ok by (simp_all add: synced_def table_ok_def)
  have "\<exists>p'. quiet p p' \<and> q = upd_entry i (\<lambda>_. Entry0) p' \<and>
      (if en_used ?e \<and> en_installed ?e then \<exists>r. np_log p' = np_log p @ [SetPeer (en_address ?e) False r] else p' = p)"
  proof (cases "en_used ?e \<and> en_installed ?e")
    case True
    obtain r p' where hal: "hal_setAwdlPeer orc (en_address ?e) False p = (r, p')" by (rule prod.exhaust)
    then have "q = upd_entry i (\<lambda>_. Entry0) p'" using run True by (simp add: clear_entry_def Let_def)
    then show ?thesis using True hal_step [OF hal] by auto
  next
    case False
    then show ?thesis using run quiet_refl by (auto simp: clear_entry_def Let_def)
  qed
  then obtain p' where p': "quiet p p'" "q = upd_entry i (\<lambda>_. Entry0) p'"
    "if en_used ?e \<and> en_installed ?e then \<exists>r. np_log p' = np_log p @ [SetPeer (en_address ?e) False r] else p' = p" by blast
  have t': "table_ok p'" "table_live p' = table_live p" using quiet_table [OF p'(1) tp] quiet_live [OF p'(1) tp] by simp_all
  have n': "length (np_entries p') = maximumPeers" using t' by (simp add: table_ok_def)
  have tq: "table_ok q" unfolding p'(2) by (rule table_ok_upd [OF t'(1) i]) simp_all
  have "hal_live (np_log q) = table_live q"
  proof (cases "en_used ?e")
    case used: True
    have e': "en_used (np_entries p' ! i)" "en_address (np_entries p' ! i) = en_address ?e"
      "en_installed (np_entries p' ! i) = en_installed ?e" using used quiet_entry [OF p'(1) tp i] by simp_all
    have l: "table_live q = table_live p - {en_address ?e}"
      unfolding p'(2) using table_live_retire [OF t'(1) i e'(1), of "\<lambda>_. Entry0"] t'(2) e'(2) by simp
    show ?thesis
    proof (cases "en_installed ?e")
      case True
      then show ?thesis using l p'(2,3) used ok by (auto simp: synced_def)
    next
      case False
      have "en_address ?e \<notin> table_live p"
        using False table_ok_unique [OF tp _ i _ used] by (auto simp: table_live_iff on_air_def)
      then show ?thesis using l p'(2,3) False ok by (simp add: synced_def)
    qed
  next
    case False
    then have "?e = Entry0" "p' = p" using tp i p'(3) by (auto simp: table_ok_def entry_ok_def)
    then have "q = p" using p'(2) n by (simp add: upd_entry_def list_update_same_conv i)
    then show ?thesis using ok by (simp add: synced_def)
  qed
  then show "synced q \<and> keeps p q" using tq quiet_keeps [OF p'(1)] p'(2) by (simp add: synced_def keeps_def)
  show "np_entries q ! i = Entry0" using p'(2) n' i by simp
  show "np_entries q ! j = Entry0" if "j < i" "np_entries p ! j = Entry0"
    using that p'(1,2) n n' i by (auto simp: quiet_def Let_def)
  show "installed_from (Suc i) q = installed_from (Suc i) p"
    using quiet_entry [OF p'(1) tp] n' p'(2) by (intro installed_from_cong) simp
  show "\<exists>l. np_log q = np_log p @ l \<and> removals (if en_used ?e \<and> en_installed ?e then [en_address ?e] else []) l"
    using p'(2,3) by (auto simp: removals_def split: if_splits)
qed

lemma clear_loop:
  assumes "synced p" "i \<le> maximumPeers" "\<forall>j < i. np_entries p ! j = Entry0" "fold (clear_entry orc) [i..<maximumPeers] (f, p) = (f', q)"
  shows "synced q \<and> keeps p q \<and> (\<forall>j < maximumPeers. np_entries q ! j = Entry0) \<and>
    (\<exists>l. np_log q = np_log p @ l \<and> removals (installed_from i p) l)"
  using assms
proof (induction "maximumPeers - i" arbitrary: i f p)
  case 0
  then show ?case by (simp add: installed_from_def removals_def)
next
  case (Suc k)
  then have i: "i < maximumPeers" by simp
  obtain g p' where p': "clear_entry orc i (f, p) = (g, p')" by (rule prod.exhaust)
  note c = clear_entry_ok [OF Suc.prems(1) i p']
  have "\<forall>j < Suc i. np_entries p' ! j = Entry0" using c(2,3) Suc.prems(3) by (auto simp: less_Suc_eq)
  moreover have "fold (clear_entry orc) [Suc i..<maximumPeers] (g, p') = (f', q)"
    using Suc.prems(4) i p' by (simp add: upt_conv_Cons)
  ultimately have r: "synced q \<and> keeps p' q \<and> (\<forall>j < maximumPeers. np_entries q ! j = Entry0) \<and>
      (\<exists>l. np_log q = np_log p' @ l \<and> removals (installed_from (Suc i) p) l)"
    using Suc.hyps(1) [of "Suc i" p' g] Suc.hyps(2) c(1,4) i by simp
  obtain l1 where l1: "np_log p' = np_log p @ l1"
    "removals (if en_used (np_entries p ! i) \<and> en_installed (np_entries p ! i) then [en_address (np_entries p ! i)] else []) l1"
    using c(5) by blast
  obtain l2 where l2: "np_log q = np_log p' @ l2" "removals (installed_from (Suc i) p) l2" using r by blast
  have "removals (installed_from i p) (l1 @ l2)"
    unfolding installed_from_Cons [OF i] removals_def
    by (rule list_all2_appendI [OF l1(2) [unfolded removals_def] l2(2) [unfolded removals_def]])
  then show ?case using r keeps_trans c(1) l1(1) l2(1) by auto
qed

lemma clear_ok:
  assumes ok: "synced p" "\<not> np_closing p" and q_def: "q = NativePeers_clear orc unbind p"
  shows "synced q" "settled q" "np_entries q = replicate maximumPeers Entry0" "hal_live (np_log q) = {}"
    and "\<not> np_active q \<and> np_busy q = np_busy p \<and> \<not> np_closing q \<and> \<not> np_shutdownPending q \<and> \<not> np_disablePending q \<and> \<not> np_abandonPending q"
    and "np_trafficPeer q = zeros 6" "np_fault p \<longrightarrow> np_fault q"
    and "np_bound q = np_bound p \<and> np_interface q = np_interface p \<or> \<not> np_bound q \<and> np_interface q = None"
    and "unbind \<longrightarrow> \<not> np_bound q" "\<exists>l. np_log q = np_log p @ l \<and> removals (installed_from 0 p) l"
proof -
  let ?p = "p\<lparr>np_closing := True, np_active := False\<rparr>"
  obtain f r where r: "fold (clear_entry orc) [0..<maximumPeers] (kIOReturnSuccess, ?p) = (f, r)" by (rule prod.exhaust)
  have "synced ?p" using ok(1) by (simp add: synced_def table_ok_def table_live_def)
  then have l: "synced r" "keeps ?p r" "\<forall>j < maximumPeers. np_entries r ! j = Entry0"
    "\<exists>l. np_log r = np_log p @ l \<and> removals (installed_from 0 p) l"
    using clear_loop [of ?p 0, OF _ _ _ r] by (auto simp: installed_from_def)
  have e: "np_entries r = replicate maximumPeers Entry0"
    using l(1,3) by (intro nth_equalityI) (auto simp: synced_def table_ok_def)
  have q: "np_entries q = np_entries r" "np_log q = np_log r" "np_trafficPeer q = zeros 6"
    using r ok(2) by (simp_all add: q_def NativePeers_clear_def Let_def)
  show "np_entries q = replicate maximumPeers Entry0" using q e by simp
  moreover have lt: "table_live r = {}" using l(3) by (simp add: table_live_def)
  ultimately show "hal_live (np_log q) = {}" using l(1) q by (simp add: synced_def)
  show "synced q" using l(1) q lt by (simp add: synced_def table_ok_def table_live_def)
  show "settled q" using l(3) q by (simp add: settled_def)
  show "\<not> np_active q \<and> np_busy q = np_busy p \<and> \<not> np_closing q \<and> \<not> np_shutdownPending q \<and> \<not> np_disablePending q \<and> \<not> np_abandonPending q"
    "np_fault p \<longrightarrow> np_fault q" "np_trafficPeer q = zeros 6" "unbind \<longrightarrow> \<not> np_bound q"
    "np_bound q = np_bound p \<and> np_interface q = np_interface p \<or> \<not> np_bound q \<and> np_interface q = None"
    using r ok(2) l(2) by (simp_all add: q_def NativePeers_clear_def Let_def keeps_def)
  show "\<exists>l. np_log q = np_log p @ l \<and> removals (installed_from 0 p) l" using l(4) q by simp
qed

section \<open>The invariant of the public operations\<close>

definition peers_inv :: "NativePeers \<Rightarrow> bool" where
  "peers_inv p \<longleftrightarrow> synced p \<and> settled p \<and> \<not> np_busy p \<and> \<not> np_closing p \<and> \<not> np_shutdownPending p \<and> \<not> np_disablePending p \<and>
     \<not> np_abandonPending p \<and> (np_bound p \<longleftrightarrow> np_interface p \<noteq> None) \<and>
     (\<not> np_bound p \<longrightarrow> \<not> np_active p \<and> np_entries p = replicate maximumPeers Entry0)"

text \<open>Inside a transaction.\<close>

definition trans_inv :: "NativePeers \<Rightarrow> bool" where
  "trans_inv p \<longleftrightarrow> synced p \<and> settled p \<and> np_busy p \<and> \<not> np_closing p \<and> np_bound p \<and> np_interface p \<noteq> None"

lemma peers_inv_empty:
  assumes "np_entries p = replicate maximumPeers Entry0" "hal_live (np_log p) = {}"
  shows "synced p" "settled p"
  using assms by (auto simp: synced_def table_ok_def table_live_def settled_def)

lemma peers_inv_clear:
  assumes "synced p" "\<not> np_closing p" "\<not> np_busy p" "np_bound p \<longleftrightarrow> np_interface p \<noteq> None"
  shows "peers_inv (NativePeers_clear orc unbind p)"
  using clear_ok [OF assms(1,2) refl, where orc = orc and unbind = unbind] assms(3,4) by (auto simp: peers_inv_def)

lemma peers_inv_abandon:
  assumes "\<not> np_busy p" "\<not> np_closing p"
  shows "peers_inv (NativePeers_abandon p)"
proof -
  let ?q = "NativePeers_abandon p"
  have e: "np_entries ?q = replicate maximumPeers Entry0" "hal_live (np_log ?q) = {}"
    using assms by (simp_all add: NativePeers_abandon_def NativePeers_revoke_def Let_def)
  show ?thesis using peers_inv_empty [OF e] e assms by (simp add: peers_inv_def NativePeers_abandon_def NativePeers_revoke_def Let_def)
qed

lemma transaction_end_ok:
  assumes "trans_inv p"
  shows "peers_inv (transaction_end orc p)"
proof -
  let ?p = "p\<lparr>np_busy := False\<rparr>"
  have p: "synced ?p" "settled ?p" "\<not> np_closing ?p" "\<not> np_busy ?p" "np_bound ?p" "np_interface ?p \<noteq> None"
    using assms by (auto simp: trans_inv_def synced_def)
  show ?thesis
    using peers_inv_abandon [OF p(4,3)] peers_inv_clear [OF p(1,3,4)] p
    unfolding transaction_end_def Let_def by (auto simp: peers_inv_def)
qed

lemma trans_install:
  "trans_inv p \<Longrightarrow> unicast a \<Longrightarrow> NativePeers_install orc a p = (r, i, q) \<Longrightarrow> trans_inv q \<and> np_trafficPeer q = np_trafficPeer p \<and>
    (r = kIOReturnSuccess \<longrightarrow> (\<exists>k < maximumPeers. i = Some k \<and> on_air (np_entries q ! k) \<and> en_address (np_entries q ! k) = a))"
  using install_ok [of p a orc r i q] by (simp add: trans_inv_def keeps_def)

lemma trans_remove:
  "trans_inv p \<Longrightarrow> k < maximumPeers \<Longrightarrow> en_used (np_entries p ! k) \<Longrightarrow> NativePeers_remove orc k p = (r, q) \<Longrightarrow> trans_inv q"
  using remove_ok [of p k orc r q] by (simp add: trans_inv_def keeps_def)

lemma synced_flag:
  assumes ok: "synced p" and k: "k < maximumPeers" "en_used (np_entries p ! k)"
    and f: "\<And>e. on_air (f e) = on_air e" "\<And>e. en_address (f e) = en_address e" "\<And>e. en_used (f e) = en_used e"
      "\<And>e. en_windows (f e) = en_windows e"
  shows "synced (upd_entry k f p)"
proof -
  have tp: "table_ok p" and n: "length (np_entries p) = maximumPeers"
    using ok by (simp_all add: synced_def table_ok_def)
  have "entry_ok (f (np_entries p ! k))" using tp k f by (auto simp: table_ok_def entry_ok_def)
  then have "table_ok (upd_entry k f p)"
    using f(2) table_ok_unique [OF tp _ k(1) _ k(2)] by (intro table_ok_upd [OF tp k(1)]) auto
  moreover have "table_live (upd_entry k f p) = table_live p"
    using n by (intro set_eqI) (simp add: table_live_iff f(1,2) if_distrib cong: conj_cong if_cong)
  ultimately show ?thesis using ok by (simp add: synced_def)
qed

lemma trans_flag:
  assumes ok: "trans_inv p" and k: "k < maximumPeers" "en_used (np_entries p ! k)"
    and f: "\<And>e. on_air (f e) = on_air e" "\<And>e. en_address (f e) = en_address e" "\<And>e. en_used (f e) = en_used e"
      "\<And>e. en_windows (f e) = en_windows e" "\<And>e. en_installed (f e) = en_installed e" "\<And>e. en_retiring (f e) = en_retiring e"
      "\<And>e. en_traffic (f e) \<Longrightarrow> en_traffic e"
  shows "trans_inv (upd_entry k f p)"
proof -
  have n: "length (np_entries p) = maximumPeers" and s: "settled p" "synced p"
    using ok by (simp_all add: trans_inv_def synced_def table_ok_def)
  have "settled (upd_entry k f p)"
    using s(1) k(1) f(7) by (intro settled_upd [OF s(1) n]) (auto simp: settled_def Let_def f(2,3,5,6))
  then show ?thesis using ok synced_flag [OF s(2) k f(1-4)] by (simp add: trans_inv_def)
qed

lemma trans_quiet: "trans_inv p \<Longrightarrow> quiet p q \<Longrightarrow> hal_live (np_log q) = hal_live (np_log p) \<Longrightarrow> trans_inv q"
  using quiet_table [of p q] quiet_live [of p q] quiet_settled [of p q] by (simp add: trans_inv_def synced_def quiet_def)

lemma trans_cache_post:
  assumes "trans_inv p" "add \<longrightarrow> (\<exists>k < maximumPeers. i = Some k \<and> en_used (np_entries p ! k))"
    and run: "cache_post orc add peer previous i p = (r, q)"
  shows "trans_inv q"
proof (cases "\<not> np_active p \<or> np_shutdownPending p")
  case True
  then show ?thesis using run assms(1) by (auto simp: cache_post_def)
next
  case False
  obtain b p1 where p1: "postPeerCacheCompletion orc peer add p = (b, p1)" by (rule prod.exhaust)
  note st = post_step [OF p1]
  have t1: "trans_inv p1" using trans_quiet [OF assms(1) st(1)] st(2) by simp
  have tp: "table_ok p" using assms(1) by (simp add: trans_inv_def synced_def)
  show ?thesis
  proof (cases "\<not> b \<and> add")
    case True
    then obtain k where k: "k < maximumPeers" "i = Some k" "en_used (np_entries p ! k)" using assms(2) by auto
    have u: "en_used (np_entries p1 ! k)" using quiet_entry(2) [OF st(1) tp k(1)] k(3) by simp
    define p2 where "p2 = upd_entry k (\<lambda>e. e\<lparr>en_cached := en_cached previous\<rparr>) p1"
    have t2: "trans_inv p2" unfolding p2_def by (rule trans_flag [OF t1 k(1) u]) (auto simp: on_air_def)
    have "length (np_entries p1) = maximumPeers" using t1 by (simp add: trans_inv_def synced_def table_ok_def)
    then have u2: "en_used (np_entries p2 ! k)" using u k(1) by (simp add: p2_def)
    have "q = p2 \<or> q = snd (NativePeers_remove orc k p2)"
      using run False True p1 k(2) by (auto simp: cache_post_def Let_def p2_def split: if_splits)
    then show ?thesis using t2 trans_remove [OF t2 k(1) u2] by (metis prod.collapse)
  next
    case no: False
    then show ?thesis using run False p1 t1 by (auto simp: cache_post_def split: if_splits)
  qed
qed

lemma trans_cache:
  assumes ok: "trans_inv p" and a: "unicast a" and run: "cache_transaction orc add a p = (r, q)"
  shows "trans_inv q"
proof (cases add)
  case True
  obtain r1 i p1 where p1: "NativePeers_install orc a p = (r1, i, p1)" by (rule prod_cases3)
  note t1 = trans_install [OF ok a p1]
  show ?thesis
  proof (cases "r1 = kIOReturnSuccess \<and> np_active p1 \<and> \<not> np_shutdownPending p1")
    case False
    then show ?thesis using run True p1 t1 by (auto simp: cache_transaction_def split: if_splits)
  next
    case succ: True
    then obtain k where k: "k < maximumPeers" "i = Some k" "en_used (np_entries p1 ! k)" using t1 by (auto simp: on_air_def)
    define p2 where "p2 = upd_entry k (\<lambda>e. e\<lparr>en_cached := True\<rparr>) p1"
    have t2: "trans_inv p2" unfolding p2_def by (rule trans_flag [OF _ k(1,3)]) (use t1 in \<open>auto simp: on_air_def\<close>)
    have "length (np_entries p1) = maximumPeers" using t1 by (simp add: trans_inv_def synced_def table_ok_def)
    then have "en_used (np_entries p2 ! k)" using k by (simp add: p2_def)
    moreover obtain previous where "cache_post orc True a previous i p2 = (r, q)"
      using run True succ p1 k(2) by (auto simp: cache_transaction_def Let_def p2_def)
    ultimately show ?thesis using trans_cache_post [OF t2] k by blast
  qed
next
  case no: False
  show ?thesis
  proof (cases "NativePeers_find a p")
    case None
    then show ?thesis using run no trans_cache_post [OF ok, of False None] by (simp add: cache_transaction_def Let_def)
  next
    case (Some k)
    note k = find_Some [OF Some]
    define p1 where "p1 = upd_entry k (\<lambda>e. e\<lparr>en_cached := False\<rparr>) p"
    have t1: "trans_inv p1" unfolding p1_def by (rule trans_flag [OF ok]) (use k in \<open>auto simp: on_air_def\<close>)
    have "length (np_entries p) = maximumPeers" using ok by (simp add: trans_inv_def synced_def table_ok_def)
    then have u: "en_used (np_entries p1 ! k)" using k by (simp add: p1_def)
    obtain r2 p2 where p2: "NativePeers_remove orc k p1 = (r2, p2)" by (rule prod.exhaust)
    have "trans_inv p2" using trans_remove [OF t1 _ u p2] k by simp
    moreover have "q = p2 \<or> (\<exists>pr p'. p' \<in> {p1, p2} \<and> cache_post orc False a pr (Some k) p' = (r, q))"
      using run no Some p2 by (auto simp: cache_transaction_def Let_def p1_def split: if_splits)
    ultimately show ?thesis using t1 trans_cache_post [of _ False] by auto
  qed
qed

lemma trans_traffic:
  assumes ok: "trans_inv p" and a: "tr_active d \<noteq> 0 \<longrightarrow> unicast (tr_addr d)" and run: "traffic_transaction orc d p = (r, q)"
  shows "trans_inv q"
proof -
  let ?on = "tr_active d \<noteq> 0" and ?to = "if tr_active d \<noteq> 0 then tr_addr d else zeros 6"
  obtain r1 nxt p1 where p1: "(if ?on then NativePeers_install orc (tr_addr d) p else (kIOReturnSuccess, None, p)) = (r1, nxt, p1)"
    by (rule prod_cases3)
  have t1: "trans_inv p1" "np_trafficPeer p1 = np_trafficPeer p"
    using p1 ok a trans_install [OF ok, of "tr_addr d" orc r1 nxt p1] by (auto split: if_splits)
  show ?thesis
  proof (cases "r1 = kIOReturnSuccess \<and> (?on \<longrightarrow> np_active p1 \<and> \<not> np_shutdownPending p1)")
    case False
    then show ?thesis using run p1 t1 by (auto simp: traffic_transaction_def split: if_splits)
  next
    case True
    then have go: "\<not> r1 \<noteq> kIOReturnSuccess" "\<not> (?on \<and> (\<not> np_active p1 \<or> np_shutdownPending p1))" by auto
    define p2 where "p2 = (if ?on then upd_entry (the nxt) (\<lambda>e. e\<lparr>en_traffic := True\<rparr>) p1 else p1)"
    define old where "old = NativePeers_find (np_trafficPeer p2) p2"
    have tp2: "np_trafficPeer p2 = np_trafficPeer p1" by (simp add: p2_def)
    define p3 where "p3 = p2\<lparr>np_trafficPeer := ?to\<rparr>"
    define p4 where "p4 = (if old = None \<or> old = nxt then p3 else upd_entry (the old) (\<lambda>e. e\<lparr>en_traffic := False\<rparr>) p3)"
    have s1: "synced p1" "settled p1" and tp: "table_ok p1" and n1: "length (np_entries p1) = maximumPeers"
      using t1(1) by (simp_all add: trans_inv_def synced_def table_ok_def)
    have nxt: "if ?on then \<exists>k < maximumPeers. nxt = Some k \<and> en_used (np_entries p1 ! k) \<and> en_address (np_entries p1 ! k) = tr_addr d else nxt = None"
      using p1 a True trans_install [OF ok, of "tr_addr d" orc r1 nxt p1] by (auto simp: on_air_def split: if_splits)
    have s2: "synced p2" unfolding p2_def using nxt s1(1)
      by (auto intro!: synced_flag simp: on_air_def split: if_splits)
    have n2: "length (np_entries p2) = maximumPeers" using s2 by (simp add: synced_def table_ok_def)
    have e2: "en_used (np_entries p2 ! i) = en_used (np_entries p1 ! i)" "en_address (np_entries p2 ! i) = en_address (np_entries p1 ! i)"
      "en_installed (np_entries p2 ! i) = en_installed (np_entries p1 ! i)" "en_retiring (np_entries p2 ! i) = en_retiring (np_entries p1 ! i)"
      "en_traffic (np_entries p2 ! i) \<longleftrightarrow> en_traffic (np_entries p1 ! i) \<or> nxt = Some i" if "i < maximumPeers" for i
      using that n1 nxt by (auto simp: p2_def split: if_splits)
    have old: "k < maximumPeers" "en_used (np_entries p3 ! k)" if "old = Some k" for k
      using that find_Some [of "np_trafficPeer p2" p2 k] by (simp_all add: old_def p3_def)
    have s3: "synced p3" using s2 by (simp add: p3_def synced_def)
    have s4: "synced p4" unfolding p4_def using s3 old
      by (auto intro!: synced_flag simp: on_air_def)
    have tr1: "en_used (np_entries p1 ! i)" if "i < maximumPeers" "en_traffic (np_entries p1 ! i)" for i
    proof (rule ccontr)
      assume "\<not> en_used (np_entries p1 ! i)"
      then have "np_entries p1 ! i = Entry0" using that tp by (auto simp: table_ok_def entry_ok_def)
      then show False using that by simp
    qed
    have tr: "en_address (np_entries p4 ! i) = ?to" if i: "i < maximumPeers" and t: "en_traffic (np_entries p4 ! i)" for i
    proof (cases "nxt = Some i")
      case True
      then show ?thesis using nxt e2(2) [OF i] n2 i by (auto simp: p4_def p3_def split: if_splits)
    next
      case False
      then have "en_traffic (np_entries p1 ! i)" using t n2 i e2(5) [OF i] by (auto simp: p4_def p3_def split: if_splits)
      then have "en_address (np_entries p1 ! i) = np_trafficPeer p1" "en_used (np_entries p1 ! i)"
        using s1(2) i tr1 by (auto simp: settled_def Let_def)
      then obtain k where k: "old = Some k" "k = i"
        using e2(1,2) i find_Some [of "np_trafficPeer p2" p2] table_ok_unique [OF tp] tp2
        by (cases old) (auto simp: old_def find_None)
      then show ?thesis using t False n2 i by (auto simp: p4_def p3_def split: if_splits)
    qed
    have e4: "en_used (np_entries p4 ! i) = en_used (np_entries p1 ! i)" "en_installed (np_entries p4 ! i) = en_installed (np_entries p1 ! i)"
      "en_retiring (np_entries p4 ! i) = en_retiring (np_entries p1 ! i)" if "i < maximumPeers" for i
      using e2 [OF that] that n2 by (auto simp: p4_def p3_def)
    have "np_fault p4 = np_fault p1" "np_trafficPeer p4 = ?to" by (simp_all add: p4_def p3_def p2_def)
    then have "settled p4" using tr e4 s1(2) by (auto simp: settled_def Let_def)
    then have t4: "trans_inv p4" using s4 t1(1) by (simp add: trans_inv_def p4_def p3_def p2_def)
    have "q = p4 \<or> (\<exists>k. old = Some k \<and> old \<noteq> nxt \<and> q = snd (NativePeers_remove orc k p4))"
    proof -
      have "traffic_transaction orc d p = (let finish = (\<lambda>p. (if np_active p \<and> \<not> np_shutdownPending p then kIOReturnSuccess else kIOReturnNotReady, p)) in
          (case old of None \<Rightarrow> finish p3 | Some k \<Rightarrow> if old = nxt then finish p3
             else let p = upd_entry k (\<lambda>e. e\<lparr>en_traffic := False\<rparr>) p3 in
               if en_cached (np_entries p ! k) then finish p
               else (case NativePeers_remove orc k p of (result, p) \<Rightarrow> if result \<noteq> kIOReturnSuccess then (result, p) else finish p)))"
        unfolding traffic_transaction_def p1 prod.case Let_def p2_def [symmetric] old_def [symmetric] p3_def [symmetric]
          if_not_P [OF go(1)] if_not_P [OF go(2)] by (rule refl)
      then show ?thesis using run by (auto simp: Let_def p4_def split: option.splits if_splits prod.splits)
    qed
    moreover have "en_used (np_entries p4 ! k)" if "old = Some k" for k using that old [OF that] n2 by (simp add: p4_def p3_def)
    ultimately show ?thesis using t4 trans_remove [OF t4] old by (metis prod.collapse)
  qed
qed

text \<open>Histories of public calls.\<close>

datatype peer_op = OpBind "nat option" "bytes option" | OpEnable bool | OpRevoke | OpShutdown | OpAbandon
  | OpCache u32 "bytes option" | OpTraffic traffic_registration | OpAccept bytes nat u16 u64

fun peer_exec :: "outside \<Rightarrow> peer_op \<Rightarrow> NativePeers \<Rightarrow> NativePeers" where
  "peer_exec orc (OpBind native address) p = snd (NativePeers_bind orc native address p)"
| "peer_exec orc (OpEnable value) p = snd (NativePeers_enable orc value p)"
| "peer_exec orc OpRevoke p = NativePeers_revoke p"
| "peer_exec orc OpShutdown p = NativePeers_shutdown orc p"
| "peer_exec orc OpAbandon p = NativePeers_abandon p"
| "peer_exec orc (OpCache operation address) p = snd (NativePeers_cache orc operation address p)"
| "peer_exec orc (OpTraffic d) p = snd (NativePeers_traffic orc d p)"
| "peer_exec orc (OpAccept a stream seq now) p = snd (NativePeers_acceptData a stream seq now p)"

lemma peers_inv_transaction:
  assumes "peers_inv p" "np_bound p" and body: "\<And>r q. trans_inv (p\<lparr>np_busy := True\<rparr>) \<Longrightarrow> body (p\<lparr>np_busy := True\<rparr>) = (r, q) \<Longrightarrow> trans_inv q"
  shows "peers_inv (snd (transaction orc body p))"
proof -
  obtain r q where q: "body (p\<lparr>np_busy := True\<rparr>) = (r, q)" by (rule prod.exhaust)
  have "trans_inv (p\<lparr>np_busy := True\<rparr>)" using assms(1,2) by (auto simp: peers_inv_def trans_inv_def synced_def)
  then show ?thesis using transaction_end_ok [OF body [OF _ q]] q by (simp add: transaction_def)
qed

lemma peers_inv_active: "peers_inv p \<Longrightarrow> b \<longrightarrow> np_bound p \<Longrightarrow> peers_inv (p\<lparr>np_active := b\<rparr>)"
proof -
  assume "peers_inv p" "b \<longrightarrow> np_bound p"
  moreover have "synced (p\<lparr>np_active := b\<rparr>) = synced p" "settled (p\<lparr>np_active := b\<rparr>) = settled p"
    by (simp_all add: synced_def settled_def table_ok_def table_live_def)
  ultimately show ?thesis by (auto simp: peers_inv_def)
qed

lemma peers_inv_exec:
  assumes inv: "peers_inv p"
  shows "peers_inv (peer_exec orc op p)"
proof (cases op)
  case (OpBind native address)
  show ?thesis
  proof (cases "peer_exec orc op p = p")
    case False
    then have b: "\<not> np_bound p" and q: "\<exists>i. peer_exec orc op p = p\<lparr>np_interface := Some i, np_bound := True, np_active := False, np_fault := False, np_lastError := kIOReturnSuccess\<rparr>"
      using OpBind by (auto simp: NativePeers_bind_def split: if_splits option.splits)
    have "np_entries p = replicate maximumPeers Entry0" "hal_live (np_log p) = {}"
      using inv b by (auto simp: peers_inv_def synced_def table_live_def)
    then show ?thesis using q inv peers_inv_empty [of "peer_exec orc op p"] by (auto simp: peers_inv_def)
  qed (use inv in simp)
next
  case (OpEnable v)
  have r: "peers_inv (NativePeers_revoke p)" using peers_inv_active [OF inv, of False] by (simp add: NativePeers_revoke_def)
  then show ?thesis
    using OpEnable inv peers_inv_clear [of "NativePeers_revoke p" orc False] peers_inv_active [OF inv, of True]
    by (auto simp: NativePeers_enable_def Let_def peers_inv_def)
next
  case OpRevoke
  then show ?thesis using peers_inv_active [OF inv, of False] by (simp add: NativePeers_revoke_def)
next
  case OpShutdown
  have r: "peers_inv (NativePeers_revoke p)" using peers_inv_active [OF inv, of False] by (simp add: NativePeers_revoke_def)
  then show ?thesis using OpShutdown peers_inv_clear [of "NativePeers_revoke p" orc True] by (auto simp: NativePeers_shutdown_def Let_def peers_inv_def)
next
  case OpAbandon
  then show ?thesis using peers_inv_abandon [of p] inv by (simp add: peers_inv_def)
next
  case (OpCache operation address)
  show ?thesis
  proof (cases "peer_exec orc op p = p")
    case False
    then have "np_bound p" "unicast (the address)" "\<exists>add. peer_exec orc op p = snd (transaction orc (cache_transaction orc add (the address)) p)"
      using OpCache by (auto simp: NativePeers_cache_def Let_def Peers_valid_def split: if_splits option.splits)
    then show ?thesis using peers_inv_transaction [OF inv] trans_cache by metis
  qed (use inv in simp)
next
  case (OpTraffic d)
  show ?thesis
  proof (cases "peer_exec orc op p = p")
    case False
    then have "np_bound p" "tr_active d \<noteq> 0 \<longrightarrow> unicast (tr_addr d)" "peer_exec orc op p = snd (transaction orc (traffic_transaction orc d) p)"
      using OpTraffic by (auto simp: NativePeers_traffic_def Peers_valid_def split: if_splits)
    then show ?thesis using peers_inv_transaction [OF inv] trans_traffic by metis
  qed (use inv in simp)
next
  case (OpAccept a stream seq now)
  define q where "q = snd (NativePeers_acceptData a stream seq now p)"
  have q: "quiet p q" "np_log q = np_log p" using quiet_acceptData by (simp_all add: q_def)
  have tp: "table_ok p" "settled p" using inv by (simp_all add: peers_inv_def synced_def)
  have "np_shutdownPending q = np_shutdownPending p" "np_disablePending q = np_disablePending p" "np_abandonPending q = np_abandonPending p"
    "\<not> np_bound p \<Longrightarrow> q = p"
    by (auto simp: q_def NativePeers_acceptData_def NativePeers_authorized_def split: option.splits prod.splits)
  then show ?thesis
    using OpAccept q(2) inv quiet_table [OF q(1) tp(1)] quiet_live [OF q(1) tp(1)] quiet_settled [OF q(1) tp] q(1)
    by (cases "np_bound p") (simp_all add: peers_inv_def synced_def quiet_def flip: q_def)
qed

lemma peers_inv_initial: "peers_inv NativePeers0"
  using peers_inv_empty [of NativePeers0] by (simp add: peers_inv_def NativePeers0_def)

lemma peers_inv_history: "peers_inv p \<Longrightarrow> peers_inv (fold (peer_exec orc) ops p)"
  using peers_inv_exec by (induction ops arbitrary: p) auto

lemma authorized_on_air: "NativePeers_authorized (Some a) p \<Longrightarrow> table_ok p \<Longrightarrow> a \<in> table_live p"
  using find_Some [of a p] by (auto simp: NativePeers_authorized_def table_live_iff on_air_def Let_def split: option.splits)

lemma table_live_card: "finite (table_live p) \<and> card (table_live p) \<le> maximumPeers"
proof -
  have sub: "table_live p \<subseteq> (\<lambda>i. en_address (np_entries p ! i)) ` {..<maximumPeers}" by (auto simp: table_live_def)
  have "card ((\<lambda>i. en_address (np_entries p ! i)) ` {..<maximumPeers}) \<le> maximumPeers"
    using card_image_le [of "{..<maximumPeers}"] by simp
  then show ?thesis using card_mono [OF _ sub] finite_subset [OF sub] by (meson finite_imageI finite_lessThan le_trans)
qed

lemma busy_exec:
  assumes "np_busy p \<or> np_closing p"
  shows "np_log (peer_exec orc op p) = np_log p \<and> quiet p (peer_exec orc op p)"
proof (cases op)
  case (OpEnable v)
  then show ?thesis using busy_operations(2,3) [OF assms, of orc] quiet_reenter [of p Disable] by (cases v) (simp_all add: quiet_refl)
next
  case OpShutdown
  then show ?thesis using busy_operations(4) [OF assms, of orc] quiet_reenter [of p Shutdown] by simp
next
  case OpAbandon
  then show ?thesis using busy_operations(5) [OF assms] quiet_reenter [of p Abandon] by simp
next
  case OpRevoke
  then show ?thesis using quiet_reenter [of p Revoke] by simp
next
  case (OpAccept a stream seq now)
  then show ?thesis using quiet_acceptData by simp
qed (simp_all add: busy_operations [OF assms] quiet_refl)


definition sample_outside :: outside where
  "sample_outside n = \<lparr>an_result = (if n = 1 then HardwareError else Success), an_posted = True, an_calls = (if n = 4 then [Shutdown] else []),
     an_capacity = 8, an_address = (\<lambda>_. Some [2, 0, 0, 0, 0, 1]), an_canPost = True\<rparr>"

definition sample_bind :: "peer_op list" where
  "sample_bind = [OpBind (Some 7) (Some [2, 0, 0, 0, 0, 1]), OpEnable True, OpTraffic \<lparr>tr_version = 1, tr_addr = [2, 0, 0, 0, 0, 9], tr_name_len = 4, tr_active = 1\<rparr>]"


text \<open>
  Shutting down an idle owner asks the hardware to remove each peer it has exactly once, in table
  order, whatever it answers, and leaves the owner unbound with an empty table and no authorized sender.
  A shutdown requested while a transaction runs is carried out when the transaction ends.
\<close>

theorem shutdown_returns_peers:
  assumes "peers_inv p \<and> q = NativePeers_shutdown orc p \<or> trans_inv p \<and> np_shutdownPending p \<and> \<not> np_abandonPending p \<and> q = transaction_end orc p"
  shows "\<not> np_bound q \<and> np_entries q = replicate maximumPeers Entry0 \<and> hal_live (np_log q) = {} \<and> \<not> NativePeers_authorized a q \<and>
    (\<exists>l. np_log q = np_log p @ l \<and>
      list_all2 (\<lambda>e ev. \<exists>r. ev = SetPeer (en_address e) False r) (filter (\<lambda>e. en_used e \<and> en_installed e) (np_entries p)) l)"
proof -
  obtain p' where p': "synced p'" "\<not> np_closing p'" "q = NativePeers_clear orc True p'" "np_log p' = np_log p" "np_entries p' = np_entries p"
  proof (cases "peers_inv p \<and> q = NativePeers_shutdown orc p")
    case True
    then show ?thesis
      using peers_inv_active [of p False] by (intro that [of "p\<lparr>np_active := False\<rparr>"])
        (auto simp: NativePeers_shutdown_def NativePeers_revoke_def Let_def peers_inv_def)
  next
    case False
    then show ?thesis using assms by (intro that [of "p\<lparr>np_busy := False\<rparr>"]) (auto simp: transaction_end_def Let_def trans_inv_def synced_def)
  qed
  have n: "length (np_entries p) = maximumPeers" using p'(1,5) by (simp add: synced_def table_ok_def)
  have "np_entries p = map (\<lambda>j. np_entries p ! j) [0..<maximumPeers]" using n by (metis map_nth)
  then have "filter (\<lambda>e. en_used e \<and> en_installed e) (np_entries p) =
      map (\<lambda>j. np_entries p ! j) (filter (\<lambda>j. en_used (np_entries p ! j) \<and> en_installed (np_entries p ! j)) [0..<maximumPeers])"
    by (metis (no_types, lifting) filter_map comp_def filter_cong)
  then have "installed_from 0 p' = map en_address (filter (\<lambda>e. en_used e \<and> en_installed e) (np_entries p))"
    using p'(5) by (simp add: installed_from_def)
  then show ?thesis
    using clear_ok [OF p'(1,2,3)] p'(4) by (auto simp: removals_def list_all2_map1 NativePeers_authorized_def)
qed

theorem shutdown_returns_peers_witness:
  "\<exists>p. peers_inv p \<and> NativePeers_authorized (Some [2, 0, 0, 0, 0, 9]) p \<and> hal_live (np_log (NativePeers_shutdown sample_outside p)) = {}"
proof -
  let ?p = "fold (peer_exec sample_outside) sample_bind NativePeers0"
  have inv: "peers_inv ?p" by (rule peers_inv_history [OF peers_inv_initial])
  have "NativePeers_authorized (Some [2, 0, 0, 0, 0, 9]) ?p" by code_simp
  then show ?thesis using shutdown_returns_peers [of ?p _ sample_outside] inv by blast
qed

end
