(* ===== verification/Awdl_DataReceive.thy ===== *)
theory Awdl_DataReceive
  imports Awdl_Data Awdl_Peers
begin

text \<open>
  The data receive engine (\<open>include/AWDL/RTWAwdlDataReceive.hpp\<close>). Its template parameters are
  parameters here: the peer table (authorization and the duplicate filter) and the sink, which may
  revoke peers or reset the engine before it returns. The contract of the peer table is the locale
  \<open>peer_gate\<close>, met by the native peers; the engine is then composed with the codec and the table.
\<close>

section \<open>Definitions\<close>

record DataReceive =
  dr_busy :: bool
  dr_resetPending :: bool
  dr_views :: "View list"
  dr_ethernet :: bytes

definition View0 :: View where
  "View0 = \<lparr>view_destination = [], view_source = [], view_payload = [], view_sequence = 0\<rparr>"

definition DataReceive0 :: DataReceive where
  "DataReceive0 = \<lparr>dr_busy = False, dr_resetPending = False, dr_views = replicate maximumSubframes View0,
     dr_ethernet = zeros (14 + data_mtu)\<rparr>"

definition DataReceive_reset :: "DataReceive \<Rightarrow> DataReceive" where
  "DataReceive_reset r = (if dr_busy r then r\<lparr>dr_resetPending := True\<rparr>
     else r\<lparr>dr_resetPending := False, dr_views := replicate (length (dr_views r)) View0, dr_ethernet := zeros (length (dr_ethernet r))\<rparr>)"

text \<open>The checks before the frame is parsed; \<open>frame\<close> and \<open>local\<close> may be null.\<close>

definition deliver_admits :: "(bytes \<Rightarrow> 'p \<Rightarrow> bool) \<Rightarrow> bytes option \<Rightarrow> bytes option \<Rightarrow> 'p \<Rightarrow> bool" where
  "deliver_admits authorized frame local p = (case (frame, local) of
     (Some f, Some l) \<Rightarrow>
       \<not> (length f < 24 \<or> length f > maximumAggregateFrame \<or> l ! 0 AND 1 \<noteq> 0 \<or> \<not> authorized (piece 10 6 f) p) \<and>
       \<not> (foldr (OR) (take 6 l) 0 = 0 \<or> (f ! 4 AND 1 = 0 \<and> piece 4 6 f \<noteq> take 6 l))
   | _ \<Rightarrow> False)"

definition deliver_views :: "bytes option \<Rightarrow> View list option" where
  "deliver_views frame = (case DataCodec_inspect frame of
     Some v \<Rightarrow> Some [v] | None \<Rightarrow> DataCodec_inspectAggregate frame maximumSubframes)"

definition deliver_destination :: "bytes \<Rightarrow> View \<Rightarrow> bool" where
  "deliver_destination local v =
     (let d = view_destination v in
      if d ! 0 AND 1 \<noteq> 0
      then \<not> (d ! 0 \<noteq> 0x33 \<or> d ! 1 \<noteq> 0x33 \<or> view_payload v ! 24 \<noteq> 0xff) \<and> list_all (\<lambda>j. d ! (2 + j) = view_payload v ! (36 + j)) [0..<4]
      else d = take 6 local)"

fun deliver_loop ::
  "(bytes \<Rightarrow> nat \<Rightarrow> u16 \<Rightarrow> u64 \<Rightarrow> 'p \<Rightarrow> bool \<times> 'p) \<Rightarrow> (bytes \<Rightarrow> 'p \<Rightarrow> bool \<times> bool \<times> 'p) \<Rightarrow> nat \<Rightarrow> u64 \<Rightarrow>
   View list \<Rightarrow> nat \<Rightarrow> DataReceive \<Rightarrow> 'p \<Rightarrow> nat \<times> DataReceive \<times> 'p" where
  "deliver_loop acceptData sink stream now [] delivered r p = (delivered, r, p)"
| "deliver_loop acceptData sink stream now (v # vs) delivered r p =
     (if dr_resetPending r then (delivered, r, p)
      else case acceptData (view_source v) stream (view_sequence v) now p of (ok, p) \<Rightarrow>
        if \<not> ok then deliver_loop acceptData sink stream now vs delivered r p
        else
          let r = r\<lparr>dr_ethernet := patch 0 (view_destination v @ view_source v @ [0x86, 0xdd] @ view_payload v) (dr_ethernet r)\<rparr> in
          (case sink (take (14 + length (view_payload v)) (dr_ethernet r)) p of (taken, again, p) \<Rightarrow>
            deliver_loop acceptData sink stream now vs (if taken then delivered + 1 else delivered)
              (if again then DataReceive_reset r else r) p))"

definition DataReceive_deliver ::
  "(bytes \<Rightarrow> 'p \<Rightarrow> bool) \<Rightarrow> (bytes \<Rightarrow> nat \<Rightarrow> u16 \<Rightarrow> u64 \<Rightarrow> 'p \<Rightarrow> bool \<times> 'p) \<Rightarrow> (bytes \<Rightarrow> 'p \<Rightarrow> bool \<times> bool \<times> 'p) \<Rightarrow>
   bytes option \<Rightarrow> bytes option \<Rightarrow> u64 \<Rightarrow> DataReceive \<Rightarrow> 'p \<Rightarrow> nat \<times> DataReceive \<times> 'p" where
  "DataReceive_deliver authorized acceptData sink frame local now r p =
     (if dr_busy r then (0, r, p)
      else
        let r = r\<lparr>dr_busy := True, dr_resetPending := False\<rparr>;
            clear = (\<lambda>(n, r, p). (n, DataReceive_reset (r\<lparr>dr_busy := False\<rparr>), p)) in
        if \<not> deliver_admits authorized frame local p then clear (0, r, p)
        else (case deliver_views frame of
          None \<Rightarrow> clear (0, r, p)
        | Some views \<Rightarrow>
            let r = r\<lparr>dr_views := views @ drop (length views) (dr_views r)\<rparr>;
                f = the frame; stream = (if f ! 0 = 0x88 then unat (f ! 24 AND 15) else 16) in
            if \<not> list_all (deliver_destination (the local)) views then clear (0, r, p)
            else clear (deliver_loop acceptData sink stream now views 0 r p)))"

section \<open>The contract of the peer table\<close>

locale peer_gate =
  fixes authorized :: "bytes \<Rightarrow> 'p \<Rightarrow> bool" and acceptData :: "bytes \<Rightarrow> nat \<Rightarrow> u16 \<Rightarrow> u64 \<Rightarrow> 'p \<Rightarrow> bool \<times> 'p"
  assumes accept_authorized: "acceptData a stream seq now p = (True, p') \<Longrightarrow> authorized a p"
    and accept_keeps: "authorized b (snd (acceptData a stream seq now p)) = authorized b p"
begin

text \<open>What may be handed to the sink: an IPv6 packet from the authorized transmitter of the frame.\<close>

definition handed :: "bytes \<Rightarrow> View list \<Rightarrow> bytes \<Rightarrow> 'p \<Rightarrow> bool" where
  "handed sender views eth p \<longleftrightarrow> authorized sender p \<and> (\<exists>v \<in> set views. eth = view_destination v @ view_source v @ [0x86, 0xdd] @ view_payload v)"

lemma loop_rule:
  assumes views: "list_all (\<lambda>v. length (view_destination v) = 6 \<and> view_source v = sender \<and> length (view_payload v) \<le> data_mtu) vs"
    and sender: "length sender = 6" and buf: "length (dr_ethernet r) = 14 + data_mtu" "dr_busy r" and sub: "set vs \<subseteq> set all"
    and I: "I delivered p" and accept: "\<And>n a stream seq now p. I n p \<Longrightarrow> I n (snd (acceptData a stream seq now p))"
    and sink: "\<And>n eth p taken again p'. I n p \<Longrightarrow> handed sender all eth p \<Longrightarrow> sink eth p = (taken, again, p') \<Longrightarrow> I (if taken then n + 1 else n) p'"
    and run: "deliver_loop acceptData sink stream now vs delivered r p = (n, r', p')"
  shows "I n p' \<and> dr_busy r' \<and> length (dr_ethernet r') = 14 + data_mtu \<and> dr_views r' = dr_views r"
  using views buf sub I run
proof (induction vs arbitrary: delivered r p)
  case (Cons v vs)
  obtain ok p1 where p1: "acceptData (view_source v) stream (view_sequence v) now p = (ok, p1)" by (rule prod.exhaust)
  have I1: "I delivered p1" using accept [OF Cons.prems(5), of "view_source v"] p1 by (metis snd_conv)
  have v: "length (view_destination v) = 6" "view_source v = sender" "length (view_payload v) \<le> data_mtu" using Cons.prems(1) by simp_all
  show ?case
  proof (cases "dr_resetPending r \<or> \<not> ok")
    case True
    then show ?thesis using Cons.prems p1 I1 Cons.IH [of r delivered p1] by (auto split: if_splits)
  next
    case False
    let ?eth = "view_destination v @ view_source v @ [0x86, 0xdd] @ view_payload v"
    define r1 where "r1 = r\<lparr>dr_ethernet := patch 0 ?eth (dr_ethernet r)\<rparr>"
    have eth: "take (14 + length (view_payload v)) (dr_ethernet r1) = ?eth" using v sender by (simp add: r1_def patch_def)
    have len: "length (dr_ethernet r1) = 14 + data_mtu" using v sender Cons.prems(2) by (simp add: r1_def patch_def)
    obtain taken again p2 where p2: "sink ?eth p1 = (taken, again, p2)" by (rule prod_cases3)
    have "authorized sender p1" using accept_authorized accept_keeps p1 False v(2) by (metis snd_conv)
    then have "handed sender all ?eth p1" unfolding handed_def using Cons.prems(4) by (metis list.set_intros(1) subsetD)
    then have I2: "I (if taken then delivered + 1 else delivered) p2" using sink [OF I1 _ p2] by simp
    define r2 where "r2 = (if again then DataReceive_reset r1 else r1)"
    have r2: "length (dr_ethernet r2) = 14 + data_mtu" "dr_busy r2" "dr_views r2 = dr_views r"
      using len Cons.prems(3) by (simp_all add: r2_def DataReceive_reset_def r1_def)
    have "deliver_loop acceptData sink stream now vs (if taken then delivered + 1 else delivered) r2 p2 = (n, r', p')"
      using Cons.prems(6) False p1 p2 eth unfolding r2_def r1_def by (simp add: Let_def split del: if_split cong: if_cong)
    then show ?thesis using Cons.IH [OF _ r2(1,2) _ I2] Cons.prems(1,4) r2(3) by simp
  qed
qed simp

end

section \<open>The native peer table as the gate\<close>

text \<open>The table is paired with a record of what the sink was given and when.\<close>

definition gate_authorized :: "bytes \<Rightarrow> NativePeers \<times> 'l \<Rightarrow> bool" where
  "gate_authorized a w = NativePeers_authorized (Some a) (fst w)"

definition gate_accept :: "bytes \<Rightarrow> nat \<Rightarrow> u16 \<Rightarrow> u64 \<Rightarrow> NativePeers \<times> 'l \<Rightarrow> bool \<times> NativePeers \<times> 'l" where
  "gate_accept a stream seq now w = (case NativePeers_acceptData a stream seq now (fst w) of (ok, p) \<Rightarrow> (ok, p, snd w))"

definition record_sink :: "(bytes \<Rightarrow> NativePeers \<Rightarrow> bool \<times> bool \<times> NativePeers) \<Rightarrow> bytes \<Rightarrow> NativePeers \<times> (bytes \<times> NativePeers) list \<Rightarrow>
    bool \<times> bool \<times> NativePeers \<times> (bytes \<times> NativePeers) list" where
  "record_sink f eth = (\<lambda>(p, log). case f eth p of (taken, again, q) \<Rightarrow> (taken, again, q, log @ [(eth, p)]))"

lemma upd_entry_field:
  "(\<And>e. g (f e) = g e) \<Longrightarrow> g (np_entries (upd_entry i f p) ! j) = g (np_entries p ! j)"
  unfolding upd_entry_def by (cases "i = j"; cases "i < length (np_entries p)") (simp_all add: list_update_beyond)

lemma authorized_windows:
  "NativePeers_authorized b (upd_entry i (\<lambda>e. e\<lparr>en_windows := w e\<rparr>) p) = NativePeers_authorized b p"
proof -
  let ?f = "\<lambda>e. e\<lparr>en_windows := w e\<rparr>"
  have find: "NativePeers_find a (upd_entry i ?f p) = NativePeers_find a p" for a
    using upd_entry_field [of en_used ?f i p] upd_entry_field [of en_address ?f i p] by (simp add: NativePeers_find_def)
  show ?thesis
    using upd_entry_field [of en_installed ?f i p] upd_entry_field [of en_retiring ?f i p] upd_entry_field [of en_cached ?f i p]
      upd_entry_field [of en_traffic ?f i p]
    by (simp add: NativePeers_authorized_def find Let_def split: option.split)
qed

lemma acceptData_authorized:
  "NativePeers_acceptData a stream seq now p = (True, q) \<Longrightarrow> NativePeers_authorized (Some a) p"
  by (simp add: NativePeers_acceptData_def split: if_splits)

lemma acceptData_keeps: "NativePeers_authorized b (snd (NativePeers_acceptData a stream seq now p)) = NativePeers_authorized b p"
  using authorized_windows by (auto simp: NativePeers_acceptData_def split: option.splits prod.splits)

interpretation np: peer_gate gate_authorized gate_accept
proof
  show "gate_authorized a p" if "gate_accept a stream seq now p = (True, p')" for a stream seq now p and p' :: "NativePeers \<times> 'l"
    using that acceptData_authorized [of a stream seq now "fst p"] by (auto simp: gate_accept_def gate_authorized_def split: prod.splits)
  show "gate_authorized b (snd (gate_accept a stream seq now p)) = gate_authorized b p" for a b stream seq now and p :: "NativePeers \<times> 'l"
    using acceptData_keeps [of "Some b" a stream seq now "fst p"] by (auto simp: gate_accept_def gate_authorized_def split: prod.splits)
qed

definition ready_engine :: "DataReceive \<Rightarrow> bool" where
  "ready_engine r \<longleftrightarrow> \<not> dr_busy r \<and> length (dr_ethernet r) = 14 + data_mtu \<and> length (dr_views r) = maximumSubframes"

text \<open>A frame for this station: to its own address or to the solicited-node group of the IPv6 destination.\<close>

definition addressed_to :: "bytes \<Rightarrow> bytes \<Rightarrow> bool" where
  "addressed_to local eth \<longleftrightarrow> piece 0 6 eth = take 6 local \<or>
     piece 0 2 eth = [0x33, 0x33] \<and> piece 2 4 eth = piece (14 + 36) 4 eth \<and> eth ! (14 + 24) = 0xff"

lemma deliver_views_SomeD:
  assumes "deliver_views (Some f) = Some views" "24 \<le> length f"
  shows "length views \<le> maximumSubframes" "validSource (piece 10 6 f)"
    "list_all (\<lambda>v. length (view_destination v) = 6 \<and> view_source v = piece 10 6 f \<and> ipv6 (view_payload v) \<and> length (view_payload v) \<le> data_mtu) views"
proof -
  have "length views \<le> maximumSubframes \<and> validSource (piece 10 6 f) \<and> list_all (member_ok f) views"
  proof (cases "DataCodec_inspect (Some f)")
    case (Some v)
    then have v: "views = [v]" using assms(1) by (simp add: deliver_views_def)
    have "view_source v = piece 10 6 f"
      using Some by (auto simp: DataCodec_inspect_def Let_def simp del: upt_rec_numeral split: if_splits option.splits)
    then show ?thesis using v inspect_SomeD [OF Some] by (simp add: member_ok_def maximumSubframes_def)
  next
    case None
    then have agg: "DataCodec_inspectAggregate (Some f) maximumSubframes = Some views" using assms(1) by (simp add: deliver_views_def)
    then have "aggregate_pass f maximumSubframes 26 [] = Some views" "validSource (drop 10 f)"
      by (auto simp: DataCodec_inspectAggregate_def split: if_splits option.splits)
    then show ?thesis using aggregate_pass_sound [of f maximumSubframes 26 "[]" views] assms(2) by (simp add: validSource_piece)
  qed
  then show "length views \<le> maximumSubframes" "validSource (piece 10 6 f)"
    "list_all (\<lambda>v. length (view_destination v) = 6 \<and> view_source v = piece 10 6 f \<and> ipv6 (view_payload v) \<and> length (view_payload v) \<le> data_mtu) views"
    by (simp_all add: list_all_iff member_ok_def)
qed

lemma six_bytes: "length (s :: bytes) = 6 \<Longrightarrow> \<exists>a b c d e f. s = [a, b, c, d, e, f]"
  by (auto simp: eval_nat_numeral length_Suc_conv)

lemma handed_frame:
  assumes v: "length (view_destination v) = 6" "view_source v = sender" "ipv6 (view_payload v)" "length (view_payload v) \<le> data_mtu"
    and s: "validSource sender" "length sender = 6" and d: "deliver_destination local v"
    and e: "eth = view_destination v @ view_source v @ [0x86, 0xdd] @ view_payload v"
  shows "validEthernet (Some eth)" "piece 6 6 eth = sender" "addressed_to local eth"
proof -
  obtain d0 d1 d2 d3 d4 d5 where dst: "view_destination v = [d0, d1, d2, d3, d4, d5]"
    using six_bytes [OF v(1)] by blast
  have n: "40 \<le> length (view_payload v)" using v(3) by (simp add: ipv6_def)
  show "validEthernet (Some eth)" unfolding e using v s by (intro validEthernet_build) simp_all
  show "piece 6 6 eth = sender" unfolding e using v(1,2) s(2) by (simp add: piece_def)
  show "addressed_to local eth"
  proof (cases "d0 AND 1 = 0")
    case True
    then show ?thesis using d v(1) unfolding e by (simp add: addressed_to_def deliver_destination_def dst piece_def)
  next
    case False
    then have g: "d0 = 0x33" "d1 = 0x33" "view_payload v ! 24 = 0xff" "list_all (\<lambda>j. view_destination v ! (2 + j) = view_payload v ! (36 + j)) [0..<4]"
      using d by (simp_all add: deliver_destination_def dst Let_def)
    have "piece 36 4 (view_payload v) = [d2, d3, d4, d5]"
      using g(4) n by (intro nth_equalityI) (auto simp: piece_def dst less_Suc_eq numeral_eq_Suc)
    then show ?thesis unfolding e using g v(2) s(2) by (simp add: addressed_to_def dst piece_def nth_append)
  qed
qed

definition delivered_ok :: "bytes \<Rightarrow> bytes \<Rightarrow> bytes \<times> NativePeers \<Rightarrow> bool" where
  "delivered_ok frame local = (\<lambda>(eth, q). validEthernet (Some eth) \<and> piece 6 6 eth = piece 10 6 frame \<and> addressed_to local eth \<and>
     NativePeers_authorized (Some (piece 6 6 eth)) q)"

lemma DataReceive_reset_idle:
  "\<not> dr_busy r \<Longrightarrow> length (dr_views r) = maximumSubframes \<Longrightarrow> length (dr_ethernet r) = 14 + data_mtu \<Longrightarrow> DataReceive_reset r = DataReceive0"
  by (simp add: DataReceive_reset_def DataReceive0_def)

lemma deliver_refused:
  assumes "ready_engine r" "\<not> (deliver_admits authorized frame local p \<and>
      (\<exists>views. deliver_views frame = Some views \<and> list_all (deliver_destination (the local)) views))"
    and "\<And>views. deliver_views frame = Some views \<Longrightarrow> deliver_admits authorized frame local p \<Longrightarrow> length views \<le> maximumSubframes"
  shows "DataReceive_deliver authorized acceptData sink frame local now r p = (0, DataReceive0, p)"
  using assms unfolding DataReceive_deliver_def ready_engine_def
  by (auto simp: Let_def DataReceive_reset_idle split: option.split)

lemma deliver_accepted:
  assumes "ready_engine r" "deliver_admits authorized frame local p" "deliver_views frame = Some views" "list_all (deliver_destination (the local)) views"
    and "length views \<le> maximumSubframes"
    and "deliver_loop acceptData sink (if the frame ! 0 = 0x88 then unat (the frame ! 24 AND 15) else 16) now views 0
        (r\<lparr>dr_busy := True, dr_resetPending := False, dr_views := views @ drop (length views) (dr_views r)\<rparr>) p = (n, r', p')"
    and "length (dr_ethernet r') = 14 + data_mtu" "length (dr_views r') = maximumSubframes"
  shows "DataReceive_deliver authorized acceptData sink frame local now r p = (n, DataReceive0, p')"
  using assms unfolding DataReceive_deliver_def ready_engine_def
  by (simp add: Let_def DataReceive_reset_idle cong: if_cong)

lemma deliver_admits_SomeD:
  "deliver_admits authorized frame local p \<Longrightarrow> \<exists>f l. frame = Some f \<and> local = Some l \<and> 24 \<le> length f"
  by (auto simp: deliver_admits_def split: option.splits)

text \<open>
  C21: from an idle engine, whatever the sink does (revoke or replace peers, reset the engine, refuse
  packets), everything the sink is given is a complete IPv6 Ethernet frame of at most the MTU, sent by
  the transmitter of the radio frame while that transmitter is authorized, and addressed to this station or to the
  multicast group of its IPv6 destination; the reported count never exceeds what was given; and the
  engine is idle with cleared buffers afterwards.
\<close>

theorem deliver_safe:
  assumes r: "ready_engine r"
    and run: "DataReceive_deliver gate_authorized gate_accept (record_sink f) (Some frame) (Some local) now r (p, []) = (n, r', p', log)"
  shows "r' = DataReceive0 \<and> n \<le> length log \<and> list_all (delivered_ok frame local) log"
proof (cases "deliver_admits gate_authorized (Some frame) (Some local) (p, [] :: (bytes \<times> NativePeers) list) \<and>
      (\<exists>views. deliver_views (Some frame) = Some views \<and> list_all (deliver_destination local) views)")
  case False
  have "DataReceive_deliver gate_authorized gate_accept (record_sink f) (Some frame) (Some local) now r (p, []) = (0, DataReceive0, p, [])"
    by (rule deliver_refused [OF r]) (use False in \<open>auto dest!: deliver_admits_SomeD intro: deliver_views_SomeD(1)\<close>)
  then show ?thesis using run by simp
next
  case True
  then obtain views where views: "deliver_views (Some frame) = Some views" "list_all (deliver_destination local) views"
    and adm: "deliver_admits gate_authorized (Some frame) (Some local) (p, [] :: (bytes \<times> NativePeers) list)" by blast
  have "24 \<le> length frame" using deliver_admits_SomeD [OF adm] by simp
  note v = deliver_views_SomeD [OF views(1) this]
  define sender where "sender = piece 10 6 frame"
  have sender: "length sender = 6" "validSource sender" using v(2) \<open>24 \<le> length frame\<close> by (simp_all add: sender_def)
  let ?r = "r\<lparr>dr_busy := True, dr_resetPending := False, dr_views := views @ drop (length views) (dr_views r)\<rparr>"
  let ?stream = "if the (Some frame) ! 0 = 0x88 then unat (the (Some frame) ! 24 AND 15) else 16"
  obtain n1 r1 w1 where loop: "deliver_loop gate_accept (record_sink f) ?stream now views 0 ?r (p, []) = (n1, r1, w1)" by (rule prod_cases3)
  define I where "I = (\<lambda>n (w :: NativePeers \<times> (bytes \<times> NativePeers) list). n \<le> length (snd w) \<and> list_all (delivered_ok frame local) (snd w))"
  have "I n1 w1 \<and> dr_busy r1 \<and> length (dr_ethernet r1) = 14 + data_mtu \<and> dr_views r1 = dr_views ?r"
  proof (rule np.loop_rule [where all = views and sender = sender, OF _ sender(1) _ _ order_refl _ _ _ loop])
    show "list_all (\<lambda>v. length (view_destination v) = 6 \<and> view_source v = sender \<and> length (view_payload v) \<le> data_mtu) views"
      using v(3) by (auto simp: list_all_iff sender_def)
    show "I n (snd (gate_accept a stream seq now w))" if "I n w" for n a stream seq now w
      using that by (simp add: I_def gate_accept_def split: prod.splits)
    show "I (if taken then n + 1 else n) w'" if h: "I n w" "np.handed sender views eth w" "record_sink f eth w = (taken, again, w')" for n eth w taken again w'
    proof -
      obtain q where q: "w' = (q, snd w @ [(eth, fst w)])" using h(3) by (cases w) (auto simp: record_sink_def split: prod.splits)
      obtain x where x: "x \<in> set views" "eth = view_destination x @ view_source x @ [0x86, 0xdd] @ view_payload x" and au: "gate_authorized sender w"
        using h(2) by (auto simp: np.handed_def)
      have xs: "length (view_destination x) = 6" "view_source x = sender" "ipv6 (view_payload x)" "length (view_payload x) \<le> data_mtu" "deliver_destination local x"
        using x(1) v(3) views(2) by (auto simp: list_all_iff sender_def)
      have "delivered_ok frame local (eth, fst w)"
        using handed_frame [OF xs(1-4) sender(2,1) xs(5) x(2)] au by (simp add: delivered_ok_def sender_def gate_authorized_def)
      then show ?thesis using h(1) q by (simp add: I_def)
    qed
  qed (use r in \<open>simp_all add: I_def ready_engine_def\<close>)
  moreover from this have "DataReceive_deliver gate_authorized gate_accept (record_sink f) (Some frame) (Some local) now r (p, []) = (n1, DataReceive0, w1)"
    using v(1) r by (intro deliver_accepted [OF r adm views(1) _ v(1) loop]) (auto simp: views(2) ready_engine_def)
  ultimately show ?thesis using run by (auto simp: I_def)
qed

section \<open>From the sender's encoder to the receiver's sink\<close>

text \<open>A sequence number that was accepted is refused when it comes again within three seconds.\<close>

lemma odd_bitmap: "(x OR 1) AND (1 :: u64) \<noteq> 0"
  by (metis bit.conj_disj_distrib2 or_eq_0_iff and.idem zero_neq_one)

lemma accept_repeat:
  assumes first: "DataReplayWindow_accept seq now w = (True, w')" and time: "now \<le> later" "later - now \<le> 3000000"
  shows "fst (DataReplayWindow_accept seq later w') = False"
proof -
  define bits where "bits = (if seq > 0xfff then 16 else if rw_sequenceBits w = 0 \<and> rw_sequence w \<ge> 0xfc0 \<and> seq < 0x800 then 12 else rw_sequenceBits w)"
  define mask where "mask = (if bits = 12 then 0xfff else 0xffff :: u32)"
  define forward where "forward = (ucast seq - ucast (rw_sequence w)) AND mask"
  define behind where "behind = (ucast (rw_sequence w) - ucast seq) AND mask"
  define delta where "delta = (if forward \<le> mask div 2 then uint forward else uint forward - uint (mask + 1))"
  let ?stale = "\<not> rw_active w \<or> now < rw_lastRx w \<or> now - rw_lastRx w > 3000000"
  have w': "rw_active w'" "rw_lastRx w' = now"
    using first by (auto simp: DataReplayWindow_accept_def Let_def split: if_splits)
  have go: "\<not> (\<not> rw_active w' \<or> later < rw_lastRx w' \<or> later - rw_lastRx w' > 3000000)" using w' time by auto
  have eq: "DataReplayWindow_accept seq now w = (let w1 = w\<lparr>rw_lastRx := now, rw_sequenceBits := bits\<rparr> in
     if delta > 0 then (True, w1\<lparr>rw_bitmap := (if delta \<ge> 64 then 1 else push_bit (nat delta) (rw_bitmap w) OR 1), rw_sequence := seq\<rparr>)
     else if behind \<ge> 64 \<or> rw_bitmap w AND push_bit (unat behind) 1 \<noteq> 0 then (False, w1)
     else (True, w1\<lparr>rw_bitmap := rw_bitmap w OR push_bit (unat behind) 1\<rparr>))" if "\<not> ?stale"
    unfolding DataReplayWindow_accept_def if_not_P [OF that] Let_def bits_def mask_def forward_def behind_def delta_def by (rule refl)
  show ?thesis
  proof (cases "?stale \<or> delta > 0")
    case True
    have "rw_sequence w' = seq \<and> rw_bitmap w' AND 1 \<noteq> 0"
    proof (cases ?stale)
      case True
      then show ?thesis using first by (auto simp: DataReplayWindow_accept_def)
    next
      case False
      then show ?thesis using first True eq [OF False] odd_bitmap by (auto simp: Let_def split: if_splits)
    qed
    then show ?thesis unfolding DataReplayWindow_accept_def if_not_P [OF go] by (simp add: Let_def)
  next
    case False
    then have ns: "\<not> ?stale" by blast
    have b: "\<not> behind \<ge> 64" and x: "w' = w\<lparr>rw_lastRx := now, rw_sequenceBits := bits, rw_bitmap := rw_bitmap w OR push_bit (unat behind) 1\<rparr>"
      using first eq [OF ns] False by (auto simp: Let_def split: if_splits)
    have bits': "(if seq > 0xfff then 16 else if rw_sequenceBits w' = 0 \<and> rw_sequence w' \<ge> 0xfc0 \<and> seq < 0x800 then 12 else rw_sequenceBits w') = bits"
      by (simp add: x bits_def)
    have "unat behind < 64" using b by (simp add: word_le_nat_alt)
    then have "(rw_bitmap w OR push_bit (unat behind) 1) AND push_bit (unat behind) 1 \<noteq> (0 :: u64)"
      by (simp add: bit.conj_disj_distrib2 or_eq_0_iff)
    then have hit: "behind \<ge> 64 \<or> rw_bitmap w' AND push_bit (unat behind) 1 \<noteq> 0" by (simp add: x)
    have "DataReplayWindow_accept seq later w' = (let w1 = w'\<lparr>rw_lastRx := later, rw_sequenceBits := bits\<rparr> in
     if delta > 0 then (True, w1\<lparr>rw_bitmap := (if delta \<ge> 64 then 1 else push_bit (nat delta) (rw_bitmap w') OR 1), rw_sequence := seq\<rparr>)
     else if behind \<ge> 64 \<or> rw_bitmap w' AND push_bit (unat behind) 1 \<noteq> 0 then (False, w1)
     else (True, w1\<lparr>rw_bitmap := rw_bitmap w' OR push_bit (unat behind) 1\<rparr>))"
      unfolding DataReplayWindow_accept_def if_not_P [OF go] Let_def bits' mask_def forward_def behind_def delta_def by (simp add: x)
    then show ?thesis using False hit by (simp add: Let_def del: push_bit_of_1)
  qed
qed

lemma acceptData_repeat:
  assumes p: "table_ok p" and first: "NativePeers_acceptData a stream seq now p = (True, p')" and time: "now \<le> later" "later - now \<le> 3000000"
  shows "fst (NativePeers_acceptData a stream seq later p') = False"
proof -
  have st: "stream < 17" and au: "NativePeers_authorized (Some a) p"
    using first by (auto simp: NativePeers_acceptData_def split: if_splits)
  then obtain i where i: "NativePeers_find a p = Some i" by (auto simp: NativePeers_authorized_def split: option.splits)
  let ?e = "np_entries p ! i"
  have len: "i < length (np_entries p)" "length (en_windows ?e) = 17"
    using find_Some [OF i] p by (auto simp: table_ok_def entry_ok_def)
  obtain b w where w: "DataReplayWindow_accept seq now (en_windows ?e ! stream) = (b, w)" by (rule prod.exhaust)
  have p': "p' = upd_entry i (\<lambda>e. e\<lparr>en_windows := (en_windows e)[stream := w]\<rparr>) p" "b"
    using first i w st au by (simp_all add: NativePeers_acceptData_def split: if_splits)
  have "NativePeers_find a p' = Some i"
    using i upd_entry_field [of en_used "\<lambda>e. e\<lparr>en_windows := (en_windows e)[stream := w]\<rparr>" i p]
      upd_entry_field [of en_address "\<lambda>e. e\<lparr>en_windows := (en_windows e)[stream := w]\<rparr>" i p]
    by (simp add: NativePeers_find_def p'(1))
  moreover have "en_windows (np_entries p' ! i) ! stream = w" using len st by (simp add: p'(1))
  moreover have "fst (DataReplayWindow_accept seq later w) = False" using accept_repeat [OF _ time] w p'(2) by metis
  ultimately show ?thesis by (auto simp: NativePeers_acceptData_def split: prod.splits)
qed

definition take_all :: "bytes \<Rightarrow> NativePeers \<Rightarrow> bool \<times> bool \<times> NativePeers" where
  "take_all eth p = (True, False, p)"

lemma deliver_encoded:
  assumes enc: "DataCodec_encode (Some e) (Some out) sequence ds = Some (n, out')"
    and l: "length local = 6" "unicast local" "piece 0 6 e = local" and r: "ready_engine r"
    and au: "NativePeers_authorized (Some (piece 6 6 e)) p" and acc: "NativePeers_acceptData (piece 6 6 e) 0 ds now p = (ok, q)"
  shows "DataReceive_deliver gate_authorized gate_accept (record_sink take_all) (Some (take n out')) (Some local) now r (p, []) =
    (if ok then 1 else 0, DataReceive0, q, if ok then [(e, q)] else [])"
proof -
  define F where "F = take n out'"
  obtain c c' where c: "c AND 15 = 0" and f: "F = [0x88, 0, 0, 0] @ piece 0 6 e @ piece 6 6 e @ map bssidByte [0..<6] @ [c, c'] @ [0, 0] @ encode_prefix ds @ drop 14 e"
    using encode_frame(1) [OF enc] unfolding F_def by blast
  note ve = encode_frame(2) [OF enc]
  define v where "v = \<lparr>view_destination = piece 0 6 e, view_source = piece 6 6 e, view_payload = drop 14 e, view_sequence = ds\<rparr>"
  have e: "14 \<le> length e" "length e \<le> 14 + data_mtu" "validSource (piece 6 6 e)" "ipv6 (drop 14 e)" "length (piece 0 6 e) = 6" "length (piece 6 6 e) = 6"
    using ve by (auto simp: validEthernet_def validSource_piece)
  have es: "piece 0 6 e @ piece 6 6 e @ [0x86, 0xdd] @ drop 14 e = e" using ethernet_split [OF ve] by simp
  have views: "deliver_views (Some (F)) = Some [v]"
    using inspect_encode [OF e(5,6,3,4) _ c, of c' ds] e(2) unfolding deliver_views_def f v_def by simp
  obtain l0 l1 l2 l3 l4 l5 where l6: "local = [l0, l1, l2, l3, l4, l5]" using six_bytes [OF l(1)] by blast
  obtain s0 s1 s2 s3 s4 s5 where s6: "piece 6 6 e = [s0, s1, s2, s3, s4, s5]" using six_bytes [OF e(6)] by blast
  have frame: "F ! 0 = 0x88" "F ! 24 = 0" "piece 10 6 (F) = piece 6 6 e" "piece 4 6 (F) = local"
    "24 \<le> length (F)" "length (F) \<le> maximumAggregateFrame"
    unfolding f l(3) s6 l6 using e(1,2) by (simp_all add: piece_def maximumAggregateFrame_def data_mtu_def nth_append)
  have adm: "deliver_admits gate_authorized (Some (F)) (Some local) (p, [] :: (bytes \<times> NativePeers) list)"
    using frame l(1,2) au by (simp add: deliver_admits_def gate_authorized_def unicast_def)
  have dst: "list_all (deliver_destination local) [v]" using l by (simp add: deliver_destination_def v_def unicast_def)
  define r1 where "r1 = r\<lparr>dr_busy := True, dr_resetPending := False, dr_views := [v] @ drop (length [v]) (dr_views r)\<rparr>"
  have eth: "take (14 + length (drop 14 e)) (patch 0 (piece 0 6 e @ piece 6 6 e @ [0x86, 0xdd] @ drop 14 e) (dr_ethernet r1)) = e"
    unfolding es using e(1) by (simp add: patch_def)
  have len: "length (patch 0 e (dr_ethernet r1)) = 14 + data_mtu" using r e(2) by (simp add: r1_def ready_engine_def patch_def)
  have loop: "deliver_loop gate_accept (record_sink take_all) (if the (Some (F)) ! 0 = 0x88 then unat (the (Some (F)) ! 24 AND 15) else 16) now [v] 0 r1 (p, []) =
      (if ok then 1 else 0, if ok then r1\<lparr>dr_ethernet := patch 0 e (dr_ethernet r1)\<rparr> else r1, q, if ok then [(e, q)] else [])"
    using acc eth by (simp add: frame gate_accept_def v_def record_sink_def take_all_def Let_def r1_def es [simplified])
  show ?thesis unfolding F_def [symmetric]
    by (rule deliver_accepted [OF r adm views _ _ loop [unfolded r1_def]])
      (use dst len r in \<open>simp_all add: r1_def ready_engine_def maximumSubframes_def\<close>)
qed

text \<open>
  C22: composition of the encoder, the peer table and the receive engine. An Ethernet frame that the
  sender's codec encodes for an address of this station, from an authorized peer and with a sequence
  number its duplicate filter still accepts, is handed to the sink exactly once and unchanged; the same
  radio frame heard again within three seconds gives the sink nothing.
\<close>

theorem data_delivered_once:
  assumes "DataCodec_encode (Some e) (Some out) sequence ds = Some (n, out')"
    and "length local = 6" "unicast local" "piece 0 6 e = local" and "ready_engine r" "peers_inv p"
    and "fst (NativePeers_acceptData (piece 6 6 e) 0 ds now p)" and "now \<le> later" "later - now \<le> 3000000"
  shows "\<exists>p1 p2. DataReceive_deliver gate_authorized gate_accept (record_sink take_all) (Some (take n out')) (Some local) now r (p, []) =
      (1, DataReceive0, p1, [(e, p1)]) \<and>
    DataReceive_deliver gate_authorized gate_accept (record_sink take_all) (Some (take n out')) (Some local) later DataReceive0 (p1, []) =
      (0, DataReceive0, p2, [])"
proof -
  obtain p1 where p1: "NativePeers_acceptData (piece 6 6 e) 0 ds now p = (True, p1)"
    using assms(7) by (cases "NativePeers_acceptData (piece 6 6 e) 0 ds now p") simp
  have au: "NativePeers_authorized (Some (piece 6 6 e)) p" "NativePeers_authorized (Some (piece 6 6 e)) p1"
    using acceptData_authorized [OF p1] acceptData_keeps [of _ "piece 6 6 e" 0 ds now p] p1 by simp_all
  obtain ok p2 where p2: "NativePeers_acceptData (piece 6 6 e) 0 ds later p1 = (ok, p2)" by (rule prod.exhaust)
  have "\<not> ok" using acceptData_repeat [OF _ p1 assms(8,9)] assms(6) p2 by (simp add: peers_inv_def synced_def)
  moreover have "ready_engine DataReceive0" by (simp add: ready_engine_def DataReceive0_def)
  ultimately show ?thesis
    using deliver_encoded [OF assms(1-4,5) au(1) p1] deliver_encoded [OF assms(1-4) _ au(2) p2, of DataReceive0] by simp
qed

theorem data_delivered_once_witness:
  "\<exists>p out' p1. DataCodec_encode (Some sample_ethernet) (Some (zeros 100)) 7 0x1234 = Some (84, out') \<and>
     DataReceive_deliver gate_authorized gate_accept (record_sink take_all) (Some (take 84 out')) (Some [2, 0, 0, 0, 0, 7]) 1000 DataReceive0 (p, []) =
       (1, DataReceive0, p1, [(sample_ethernet, p1)])"
proof -
  let ?p = "fold (peer_exec sample_outside) sample_bind NativePeers0"
  have "map_option fst (DataCodec_encode (Some sample_ethernet) (Some (zeros 100)) 7 0x1234) = Some 84" by code_simp
  then obtain out' where enc: "DataCodec_encode (Some sample_ethernet) (Some (zeros 100)) 7 0x1234 = Some (84, out')" by auto
  have inv: "peers_inv ?p" by (rule peers_inv_history [OF peers_inv_initial])
  have src: "piece 6 6 sample_ethernet = [2, 0, 0, 0, 0, 9]" by code_simp
  have acc: "fst (NativePeers_acceptData (piece 6 6 sample_ethernet) 0 0x1234 1000 ?p)" unfolding src by code_simp
  have dst: "length [2, 0, 0, 0, 0, 7 :: u8] = 6" "unicast [2, 0, 0, 0, 0, 7]" "piece 0 6 sample_ethernet = [2, 0, 0, 0, 0, 7]"
    by code_simp+
  have r: "ready_engine DataReceive0" by (simp add: ready_engine_def DataReceive0_def)
  show ?thesis using data_delivered_once [OF enc dst r inv acc, of 2000] enc by fastforce
qed

theorem deliver_safe_witness:
  "\<exists>n p' log. DataReceive_deliver gate_authorized gate_accept (record_sink take_all) (Some sample_frame) (Some [2, 0, 0, 0, 0, 7]) 0 DataReceive0
      (NativePeers0, []) = (n, DataReceive0, p', log) \<and> n \<le> length log"
proof -
  have r: "ready_engine DataReceive0" by (simp add: ready_engine_def DataReceive0_def)
  obtain n r' p' log where run: "DataReceive_deliver gate_authorized gate_accept (record_sink take_all) (Some sample_frame) (Some [2, 0, 0, 0, 0, 7]) 0 DataReceive0
      (NativePeers0, []) = (n, r', p', log)" by (metis prod_cases4)
  show ?thesis using deliver_safe [OF r run] run by auto
qed

end
