(* ===== verification/Awdl_Scheduler.thy ===== *)
theory Awdl_Scheduler
  imports Awdl_Wire
begin

text \<open>
  The window scheduler (\<open>include/AWDL/RTWAwdlWindowScheduler.hpp\<close>), in the state monad. Its driver is
  outside: an oracle gives what the \<open>n\<close>-th driver call returns, so the clock and the radio may change
  between any two calls. While the driver reserves the radio or delivers a window event it may call
  \<open>stop\<close> back and may change the election state. The field \<open>ws_log\<close> records the calls that act on the radio, the
  timer and the native side; \<open>ws_step\<close> counts all calls.
\<close>

section \<open>Definitions\<close>

record ScheduledWindow =
  sw_startUs :: u64
  sw_endUs :: u64
  sw_actualStartUs :: u64
  sw_counter :: u16
  sw_channel :: u8
  sw_presence :: u8
  sw_role :: u8
  sw_parent :: bytes
  sw_root :: bytes

definition ScheduledWindow0 :: ScheduledWindow where
  "ScheduledWindow0 = \<lparr>sw_startUs = 0, sw_endUs = 0, sw_actualStartUs = 0, sw_counter = 0, sw_channel = 0, sw_presence = 0,
     sw_role = 0, sw_parent = zeros 6, sw_root = zeros 6\<rparr>"

datatype Reservation = Granted | Rejected | RecoveryRequired

datatype Phase = Stopped | Idle | Preparing | Reserved | Opening | Open | Closing | Returning | Failed

datatype SchedEvent = Reserve u8 u32 Reservation | Restore bool | ArmTimer u64 u64 bool | CancelTimer
  | WindowStart ScheduledWindow u32 bool | WindowEnd ScheduledWindow u32 bool

record DriverAnswer =
  da_now :: u64
  da_ready :: bool
  da_allowed :: "u8 \<Rightarrow> bool"
  da_channel :: u8
  da_reservation :: Reservation
  da_ok :: bool
  da_wire :: "u64 \<Rightarrow> u32 option"
  da_stop :: bool
  da_state :: "ElectionState \<Rightarrow> ElectionState"

type_synonym window_driver = "nat \<Rightarrow> DriverAnswer"

record WindowScheduler =
  ws_state :: ElectionState
  ws_phase :: Phase
  ws_window :: ScheduledWindow
  ws_skip :: ScheduledWindow
  ws_maximumVisit :: u32
  ws_lead :: u32
  ws_samples :: "u32 list"
  ws_sampleCount :: u32
  ws_sampleNext :: u32
  ws_leaseOwned :: bool
  ws_stopRequested :: bool
  ws_haveSkip :: bool
  ws_nativeResetRequired :: bool
  ws_log :: "SchedEvent list"
  ws_step :: nat

definition WindowScheduler0 :: "ElectionState \<Rightarrow> WindowScheduler" where
  "WindowScheduler0 state = \<lparr>ws_state = state, ws_phase = Stopped, ws_window = ScheduledWindow0, ws_skip = ScheduledWindow0,
     ws_maximumVisit = 0, ws_lead = 0, ws_samples = replicate 8 0, ws_sampleCount = 0, ws_sampleNext = 0, ws_leaseOwned = False,
     ws_stopRequested = False, ws_haveSkip = False, ws_nativeResetRequired = False, ws_log = [], ws_step = 0\<rparr>"

definition lateToleranceUs :: u64 where "lateToleranceUs = 5 * 1024"
definition guardUs :: u64 where "guardUs = 2 * 1024"

subsection \<open>Driver calls\<close>

type_synonym 'a sched = "(WindowScheduler, 'a) state"

definition query :: "window_driver \<Rightarrow> (DriverAnswer \<Rightarrow> 'a) \<Rightarrow> 'a sched" where
  "query drv f = State (\<lambda>s. (f (drv (ws_step s)), s\<lparr>ws_step := Suc (ws_step s)\<rparr>))"

definition command :: "window_driver \<Rightarrow> (DriverAnswer \<Rightarrow> 'a) \<Rightarrow> ('a \<Rightarrow> SchedEvent) \<Rightarrow> 'a sched" where
  "command drv f ev = State (\<lambda>s. let r = f (drv (ws_step s)) in (r, s\<lparr>ws_step := Suc (ws_step s), ws_log := ws_log s @ [ev r]\<rparr>))"

definition cancelTimer :: "window_driver \<Rightarrow> unit sched" where
  "cancelTimer drv = command drv (\<lambda>_. ()) (\<lambda>_. CancelTimer)"

text \<open>\<open>stop\<close> called back while a dispatch is in progress: the flag, and the driver's timer is cancelled.\<close>

definition stop_callback :: "window_driver \<Rightarrow> unit sched" where
  "stop_callback drv = do { modify (\<lambda>s. s\<lparr>ws_stopRequested := True\<rparr>); cancelTimer drv }"

definition dispatch :: "window_driver \<Rightarrow> (DriverAnswer \<Rightarrow> 'a) \<Rightarrow> ('a \<Rightarrow> SchedEvent) \<Rightarrow> 'a sched" where
  "dispatch drv f ev = do {
     a \<leftarrow> gets (\<lambda>s. drv (ws_step s));
     r \<leftarrow> command drv f ev;
     modify (\<lambda>s. s\<lparr>ws_state := da_state a (ws_state s)\<rparr>);
     unless (\<not> da_stop a) (stop_callback drv);
     State_Monad.return r }"

abbreviation nowUs :: "window_driver \<Rightarrow> u64 sched" where "nowUs drv \<equiv> query drv da_now"
abbreviation driver_ready :: "window_driver \<Rightarrow> bool sched" where "driver_ready drv \<equiv> query drv da_ready"
abbreviation channelAllowed :: "window_driver \<Rightarrow> u8 \<Rightarrow> bool sched" where "channelAllowed drv c \<equiv> query drv (\<lambda>a. da_allowed a c)"
abbreviation currentChannel :: "window_driver \<Rightarrow> u8 sched" where "currentChannel drv \<equiv> query drv da_channel"
abbreviation wireTime :: "window_driver \<Rightarrow> u64 \<Rightarrow> u32 option sched" where "wireTime drv t \<equiv> query drv (\<lambda>a. da_wire a t)"

definition reserve :: "window_driver \<Rightarrow> u8 \<Rightarrow> u32 \<Rightarrow> Reservation sched" where
  "reserve drv channel ms = dispatch drv da_reservation (Reserve channel ms)"

definition restore :: "window_driver \<Rightarrow> bool sched" where
  "restore drv = command drv da_ok Restore"

definition windowStart :: "window_driver \<Rightarrow> ScheduledWindow \<Rightarrow> u32 \<Rightarrow> bool sched" where
  "windowStart drv w wire = dispatch drv da_ok (WindowStart w wire)"

definition windowEnd :: "window_driver \<Rightarrow> ScheduledWindow \<Rightarrow> u32 \<Rightarrow> bool sched" where
  "windowEnd drv w wire = dispatch drv da_ok (WindowEnd w wire)"

definition arm :: "window_driver \<Rightarrow> u64 \<Rightarrow> bool sched" where
  "arm drv deadline = do { now \<leftarrow> nowUs drv; command drv da_ok (ArmTimer deadline now) }"

definition armAfter :: "window_driver \<Rightarrow> u64 \<Rightarrow> u64 \<Rightarrow> bool sched" where
  "armAfter drv now delay = (if now \<le> - 1 - delay then arm drv (now + delay) else State_Monad.return False)"

text \<open>A conjunction whose second operand is evaluated only when the first holds.\<close>

definition andM :: "bool \<Rightarrow> bool sched \<Rightarrow> bool sched" where
  "andM b m = (if b then m else State_Monad.return False)"

subsection \<open>Planning\<close>

definition currentWindow :: "ElectionState \<Rightarrow> u64 \<Rightarrow> ScheduledWindow option" where
  "currentWindow state now =
     (if \<not> State_radioScheduleReady state \<or> \<not> validSequence (es_sequence state) \<or> \<not> validPresence (ucast (es_presence state)) \<or>
         now < es_epoch state then None
      else let period = ucast (es_presence state) * ucast awUs :: u32; remaining = State_untilNext state now in
        if remaining = 0 \<or> remaining > period \<or> now < ucast (period - remaining) \<or> now > - 1 - ucast remaining then None
        else let counter = State_counter state now in
          Some (ScheduledWindow0\<lparr>sw_startUs := now - ucast (period - remaining), sw_endUs := now + ucast remaining,
            sw_counter := counter - counter mod ucast (es_presence state), sw_channel := State_channel state now,
            sw_presence := es_presence state\<rparr>))"

definition same_window :: "ScheduledWindow \<Rightarrow> ScheduledWindow \<Rightarrow> bool" where
  "same_window a b \<longleftrightarrow> sw_startUs a = sw_startUs b \<and> sw_endUs a = sw_endUs b \<and> sw_counter a = sw_counter b \<and> sw_channel a = sw_channel b"

fun plan_loop :: "window_driver \<Rightarrow> nat \<Rightarrow> u64 \<Rightarrow> ScheduledWindow option sched" where
  "plan_loop drv 0 probe = State_Monad.return None"
| "plan_loop drv (Suc k) probe = do {
     s \<leftarrow> State_Monad.get;
     case currentWindow (ws_state s) probe of
       None \<Rightarrow> State_Monad.return None
     | Some w \<Rightarrow> do {
         allowed \<leftarrow> andM (sw_channel w \<noteq> 0) (channelAllowed drv (sw_channel w));
         if allowed \<and> probe - sw_startUs w \<le> lateToleranceUs \<and> (\<not> ws_haveSkip s \<or> \<not> same_window w (ws_skip s))
         then State_Monad.return (Some w)
         else if sw_endUs w \<le> probe then State_Monad.return None
         else plan_loop drv k (sw_endUs w) } }"

definition plan :: "window_driver \<Rightarrow> u64 \<Rightarrow> ScheduledWindow option sched" where
  "plan drv now = do {
     lead \<leftarrow> gets ws_lead;
     if now > - 1 - ucast lead then State_Monad.return None else plan_loop drv (slots + 1) (now + ucast lead) }"

definition observeCost :: "u64 \<Rightarrow> WindowScheduler \<Rightarrow> WindowScheduler" where
  "observeCost cost s =
     (let samples = (ws_samples s)[unat (ws_sampleNext s) mod 8 := (if cost > ucast (ws_maximumVisit s) then ws_maximumVisit s else ucast cost)];
          count = (if ws_sampleCount s < 8 then ws_sampleCount s + 1 else ws_sampleCount s);
          highest = fold (\<lambda>i highest. if samples ! i > highest then samples ! i else highest) [0..<unat count] 0;
          period = ucast (es_presence (ws_state s)) * ucast awUs;
          budget = (if period < ws_maximumVisit s then ws_maximumVisit s - period else 0) in
      s\<lparr>ws_samples := samples, ws_sampleNext := ws_sampleNext s + 1, ws_sampleCount := count,
        ws_lead := (if highest \<ge> budget \<or> budget - highest < 1000 then budget else highest + 1000)\<rparr>)"

subsection \<open>Windows\<close>

definition returnHome :: "window_driver \<Rightarrow> bool sched" where
  "returnHome drv = do {
     cancelTimer drv;
     modify (\<lambda>s. s\<lparr>ws_phase := Returning\<rparr>);
     owned \<leftarrow> gets ws_leaseOwned;
     restored \<leftarrow> (if owned then restore drv else State_Monad.return True);
     if \<not> restored then do { modify (\<lambda>s. s\<lparr>ws_phase := Failed\<rparr>); State_Monad.return False }
     else do {
       modify (\<lambda>s. s\<lparr>ws_leaseOwned := False\<rparr>);
       s \<leftarrow> State_Monad.get;
       if ws_nativeResetRequired s then do { modify (\<lambda>s. s\<lparr>ws_phase := Failed\<rparr>); State_Monad.return False }
       else if ws_stopRequested s then do { modify (\<lambda>s. s\<lparr>ws_phase := Stopped\<rparr>); State_Monad.return True }
       else do {
         modify (\<lambda>s. s\<lparr>ws_phase := Idle\<rparr>);
         now \<leftarrow> nowUs drv;
         armed \<leftarrow> armAfter drv now 1000;
         if armed then State_Monad.return True
         else do { modify (\<lambda>s. s\<lparr>ws_stopRequested := True, ws_phase := Stopped\<rparr>); State_Monad.return False } } } }"

definition closeWindow :: "window_driver \<Rightarrow> u64 \<Rightarrow> unit sched" where
  "closeWindow drv now = do {
     s \<leftarrow> State_Monad.get;
     unless (ws_phase s \<noteq> Open) (do {
       modify (\<lambda>s. s\<lparr>ws_phase := Closing\<rparr>);
       let w = ws_window s;
       let finish = (if now < sw_endUs w then now else sw_endUs w);
       ended \<leftarrow> (if now < sw_actualStartUs w then State_Monad.return False
         else do {
           wire \<leftarrow> wireTime drv finish;
           (case wire of None \<Rightarrow> State_Monad.return False | Some t \<Rightarrow> windowEnd drv w t) });
       modify (\<lambda>s. (if ended then s else s\<lparr>ws_nativeResetRequired := True\<rparr>)\<lparr>ws_state := holdClock 0 (ws_state s)\<rparr>);
       t \<leftarrow> State_Monad.get;
       (if ws_stopRequested t \<or> ws_nativeResetRequired t
        then modify (\<lambda>s. s\<lparr>ws_state := discardControls (ws_state s)\<rparr>)
        else do { n \<leftarrow> nowUs drv; modify (\<lambda>s. s\<lparr>ws_state := snd (releaseControls n (ws_state s))\<rparr>) });
       modify (\<lambda>s. s\<lparr>ws_phase := Reserved\<rparr>) }) }"

definition WindowScheduler_stop :: "window_driver \<Rightarrow> bool sched" where
  "WindowScheduler_stop drv = do {
     modify (\<lambda>s. s\<lparr>ws_stopRequested := True\<rparr>);
     cancelTimer drv;
     s \<leftarrow> State_Monad.get;
     if ws_phase s = Preparing \<or> ws_phase s = Opening \<or> ws_phase s = Closing then State_Monad.return False
     else if ws_phase s = Stopped then State_Monad.return True
     else do {
       unless (ws_phase s \<noteq> Open) (do { now \<leftarrow> nowUs drv; closeWindow drv now });
       returnHome drv } }"

definition halt :: "window_driver \<Rightarrow> unit sched" where
  "halt drv = do { _ \<leftarrow> WindowScheduler_stop drv; State_Monad.return () }"

definition arm_or_stop :: "window_driver \<Rightarrow> bool sched \<Rightarrow> unit sched" where
  "arm_or_stop drv m = do { ok \<leftarrow> m; unless ok (halt drv) }"

definition go_home :: "window_driver \<Rightarrow> unit sched" where
  "go_home drv = do { _ \<leftarrow> returnHome drv; State_Monad.return () }"

definition open_window_body :: "window_driver \<Rightarrow> u64 \<Rightarrow> u32 \<Rightarrow> unit sched" where
  "open_window_body drv now wire = do {
     modify (\<lambda>s. let e = ws_state s in s\<lparr>ws_window := (ws_window s)\<lparr>sw_actualStartUs := now,
         sw_role := (if es_syncRole e = 3 then 3 else if es_synchronized e \<or> es_nativeClockHoldover e then 2 else 1),
         sw_parent := es_sync e, sw_root := es_master e\<rparr>,
       ws_state := holdClock (sw_endUs (ws_window s)) (holdControls e), ws_phase := Opening\<rparr>);
     w \<leftarrow> gets ws_window;
     handedOff \<leftarrow> windowStart drv w wire;
     modify (\<lambda>s. if handedOff then s\<lparr>ws_state := (ws_state s)\<lparr>es_nativeTimelineStarted := True\<rparr>, ws_phase := Open\<rparr> else s\<lparr>ws_phase := Reserved\<rparr>);
     unless handedOff (do { n \<leftarrow> nowUs drv; modify (\<lambda>s. s\<lparr>ws_state := snd (releaseControls n (holdClock 0 (ws_state s)))\<rparr>) });
     stopping \<leftarrow> gets ws_stopRequested;
     if \<not> handedOff \<or> stopping
     then do { unless (\<not> handedOff) (do { n \<leftarrow> nowUs drv; closeWindow drv n }); go_home drv }
     else arm_or_stop drv (arm drv (sw_endUs w)) }"

definition openWindow :: "window_driver \<Rightarrow> u64 \<Rightarrow> unit sched" where
  "openWindow drv now = do {
     w \<leftarrow> gets ws_window;
     isReady \<leftarrow> andM (now < sw_endUs w) (driver_ready drv);
     ok \<leftarrow> andM isReady (channelAllowed drv (sw_channel w));
     if \<not> ok then go_home drv
     else do {
       now \<leftarrow> nowUs drv;
       if now < sw_startUs w \<or> now > sw_startUs w + lateToleranceUs \<or> now \<ge> sw_endUs w then go_home drv
       else do {
         wire \<leftarrow> wireTime drv now;
         (case wire of None \<Rightarrow> go_home drv | Some t \<Rightarrow> open_window_body drv now t) } } }"

subsection \<open>Public operations\<close>

definition WindowScheduler_start :: "window_driver \<Rightarrow> u32 \<Rightarrow> u32 \<Rightarrow> bool sched" where
  "WindowScheduler_start drv maximumVisitUs preparationLeadUs = do {
     s \<leftarrow> State_Monad.get;
     let e = ws_state s;
     isReady \<leftarrow> andM (ws_phase s = Stopped \<and> \<not> es_controlsHeld e) (driver_ready drv);
     if \<not> isReady \<or> maximumVisitUs = 0 \<or> maximumVisitUs > 100000 \<or> preparationLeadUs \<ge> maximumVisitUs \<or>
        \<not> validSequence (es_sequence e) \<or> \<not> validPresence (ucast (es_presence e)) \<or>
        unat (sq_step (es_sequence e)) + 1 \<noteq> unat (es_presence e) \<or> \<not> unicast (es_mac e) \<or> \<not> unicast (es_master e) \<or>
        ucast (es_presence e) * ucast awUs > maximumVisitUs - preparationLeadUs
     then State_Monad.return False
     else do {
       n \<leftarrow> nowUs drv;
       wire \<leftarrow> wireTime drv n;
       if wire = None then State_Monad.return False
       else do {
         modify (\<lambda>s. s\<lparr>ws_maximumVisit := maximumVisitUs, ws_lead := preparationLeadUs,
           ws_samples := (if preparationLeadUs \<noteq> 0 then (ws_samples s)[0 := preparationLeadUs] else ws_samples s),
           ws_sampleCount := (if preparationLeadUs \<noteq> 0 then 1 else 0), ws_sampleNext := (if preparationLeadUs \<noteq> 0 then 1 else 0),
           ws_stopRequested := False, ws_phase := Idle\<rparr>);
         n \<leftarrow> nowUs drv;
         armed \<leftarrow> armAfter drv n 1;
         if armed then State_Monad.return True
         else do { modify (\<lambda>s. s\<lparr>ws_phase := Stopped\<rparr>); State_Monad.return False } } } }"

text \<open>\<open>service\<close>, by phase. An open window that ended goes home and continues with a new clock reading.\<close>

definition service_open :: "window_driver \<Rightarrow> u64 \<Rightarrow> u64 option sched" where
  "service_open drv now = do {
     w \<leftarrow> gets ws_window;
     wire \<leftarrow> (if now < sw_endUs w \<and> now \<ge> sw_actualStartUs w then wireTime drv now else State_Monad.return None);
     here \<leftarrow> (if wire \<noteq> None then currentChannel drv else State_Monad.return 0);
     allowed \<leftarrow> andM (wire \<noteq> None \<and> here = sw_channel w) (channelAllowed drv (sw_channel w));
     later \<leftarrow> (if allowed then nowUs drv else State_Monad.return (sw_endUs w));
     if allowed \<and> later < sw_endUs w then do { arm_or_stop drv (arm drv (sw_endUs w)); State_Monad.return None }
     else do {
       closeWindow drv now;
       home \<leftarrow> returnHome drv;
       ph \<leftarrow> gets ws_phase;
       if \<not> home \<or> ph = Stopped then State_Monad.return None
       else do { n \<leftarrow> nowUs drv; State_Monad.return (Some n) } } }"

definition service_reserved :: "window_driver \<Rightarrow> u64 \<Rightarrow> unit sched" where
  "service_reserved drv now = do {
     s \<leftarrow> State_Monad.get;
     let w = ws_window s;
     let current = currentWindow (ws_state s) (if now < sw_startUs w then sw_startUs w else now);
     allowed \<leftarrow> andM (current \<noteq> None \<and> same_window (the current) w) (channelAllowed drv (sw_channel w));
     here \<leftarrow> (if allowed then currentChannel drv else State_Monad.return 0);
     if \<not> allowed \<or> here \<noteq> sw_channel w \<or> now > sw_startUs w + lateToleranceUs then go_home drv
     else if now < sw_startUs w then arm_or_stop drv (arm drv (sw_startUs w))
     else openWindow drv now }"

definition service_rejected :: "window_driver \<Rightarrow> u64 \<Rightarrow> unit sched" where
  "service_rejected drv completed = do {
     cancelTimer drv;
     stopping \<leftarrow> gets ws_stopRequested;
     modify (\<lambda>s. s\<lparr>ws_phase := (if stopping then Stopped else Idle)\<rparr>);
     unless stopping (arm_or_stop drv (armAfter drv completed 1000)) }"

definition service_owned :: "window_driver \<Rightarrow> u64 \<Rightarrow> Reservation \<Rightarrow> u64 \<Rightarrow> unit sched" where
  "service_owned drv now result completed = do {
     modify (\<lambda>s. s\<lparr>ws_leaseOwned := True, ws_phase := Reserved\<rparr>);
     s \<leftarrow> State_Monad.get;
     let w = ws_window s;
     let inTime = (result = Granted \<and> \<not> ws_stopRequested s \<and> \<not> completed < now \<and> \<not> completed \<ge> sw_endUs w \<and>
       \<not> completed > sw_startUs w + lateToleranceUs);
     here \<leftarrow> (if inTime then currentChannel drv else State_Monad.return 0);
     if \<not> inTime \<or> here \<noteq> sw_channel w then go_home drv
     else if completed < sw_startUs w then arm_or_stop drv (arm drv (sw_startUs w))
     else openWindow drv completed }"

definition service_reserve :: "window_driver \<Rightarrow> u64 \<Rightarrow> unit sched" where
  "service_reserve drv now = do {
     modify (\<lambda>s. s\<lparr>ws_phase := Preparing\<rparr>);
     w \<leftarrow> gets ws_window;
     result \<leftarrow> reserve drv (sw_channel w) (ucast ((sw_endUs w - now + 999) div 1000));
     completed \<leftarrow> nowUs drv;
     modify (\<lambda>s. observeCost (if completed \<ge> now then completed - now else ucast (ws_maximumVisit s)) s);
     if result = Rejected then service_rejected drv completed else service_owned drv now result completed }"

definition service_planned :: "window_driver \<Rightarrow> u64 \<Rightarrow> ScheduledWindow \<Rightarrow> unit sched" where
  "service_planned drv now w = do {
     s \<leftarrow> State_Monad.get;
     let requestAt = (if sw_startUs w > ucast (ws_lead s) then sw_startUs w - ucast (ws_lead s) else 0);
     if now < requestAt then arm_or_stop drv (arm drv requestAt)
     else if sw_endUs w \<le> now \<or> sw_endUs w - now > ucast (ws_maximumVisit s)
     then do { modify (\<lambda>s. s\<lparr>ws_skip := w, ws_haveSkip := True\<rparr>); arm_or_stop drv (armAfter drv now 1000) }
     else do {
       modify (\<lambda>s. s\<lparr>ws_window := w, ws_skip := w, ws_haveSkip := True\<rparr>);
       armed \<leftarrow> arm drv (sw_endUs w);
       if \<not> armed then halt drv else service_reserve drv now } }"

definition service_idle :: "window_driver \<Rightarrow> u64 \<Rightarrow> unit sched" where
  "service_idle drv now = do {
     wire \<leftarrow> wireTime drv now;
     if wire = None then arm_or_stop drv (armAfter drv now 5000)
     else do {
       modify (\<lambda>s. s\<lparr>ws_state := elect now (ws_state s)\<rparr>);
       planned \<leftarrow> plan drv now;
       case planned of None \<Rightarrow> arm_or_stop drv (armAfter drv now 5000) | Some w \<Rightarrow> service_planned drv now w } }"

definition WindowScheduler_service :: "window_driver \<Rightarrow> unit sched" where
  "WindowScheduler_service drv = do {
     s \<leftarrow> State_Monad.get;
     if ws_phase s \<in> {Stopped, Failed, Preparing, Opening, Closing, Returning} then State_Monad.return ()
     else do {
       now \<leftarrow> nowUs drv;
       isReady \<leftarrow> andM (\<not> ws_stopRequested s) (driver_ready drv);
       if \<not> isReady then halt drv
       else do {
         next \<leftarrow> (if ws_phase s = Open then service_open drv now else State_Monad.return (Some now));
         case next of None \<Rightarrow> State_Monad.return ()
         | Some now \<Rightarrow> do {
             ph \<leftarrow> gets ws_phase;
             if ph = Reserved then service_reserved drv now
             else if ph = Idle then service_idle drv now
             else State_Monad.return () } } } }"

definition WindowScheduler_recover :: "window_driver \<Rightarrow> bool sched" where
  "WindowScheduler_recover drv = do {
     s \<leftarrow> State_Monad.get;
     if ws_phase s = Failed \<and> \<not> ws_nativeResetRequired s then returnHome drv else State_Monad.return False }"

definition in_guard :: "ScheduledWindow \<Rightarrow> u64 \<Rightarrow> bool" where
  "in_guard w now \<longleftrightarrow> \<not> (now < sw_actualStartUs w \<or> now - sw_actualStartUs w < guardUs \<or> now \<ge> sw_endUs w \<or> sw_endUs w - now \<le> guardUs)"

definition canTransmit :: "window_driver \<Rightarrow> u64 \<Rightarrow> bool \<Rightarrow> bool sched" where
  "canTransmit drv now multicast = do {
     s \<leftarrow> State_Monad.get;
     let w = ws_window s;
     let may = (ws_phase s = Open \<and> \<not> ws_stopRequested s \<and> in_guard w now);
     here \<leftarrow> (if may then currentChannel drv else State_Monad.return 0);
     isReady \<leftarrow> andM (may \<and> here = sw_channel w) (driver_ready drv);
     allowed \<leftarrow> andM isReady (channelAllowed drv (sw_channel w));
     if \<not> allowed then State_Monad.return False
     else do {
       observed \<leftarrow> nowUs drv;
       if observed < now \<or> \<not> in_guard w observed then State_Monad.return False
       else do {
         wire \<leftarrow> wireTime drv observed;
         if wire = None then State_Monad.return False
         else let slot = (unat (sw_counter w) div unat (sw_presence w)) mod slots in
           State_Monad.return (\<not> multicast \<or> slot = 0 \<or> slot = 10) } } }"

section \<open>The ledger of the radio lease and the window events\<close>

text \<open>
  The order the calls must keep: a reservation of 1 to 100 ms on a real channel while neither lease nor
  window is held; a restore and a window start only with the lease; a window end only for a started
  window. The state says whether the lease is held and whether a window was started and not ended.
\<close>

fun ledger_step :: "SchedEvent \<Rightarrow> (bool \<times> bool) option \<Rightarrow> (bool \<times> bool) option" where
  "ledger_step e None = None"
| "ledger_step (Reserve c ms r) (Some (lease, started)) =
     (if lease \<or> started \<or> c = 0 \<or> ms = 0 \<or> ms > 100 then None else Some (r \<noteq> Rejected, False))"
| "ledger_step (Restore b) (Some (lease, started)) = (if \<not> lease then None else Some (\<not> b, started))"
| "ledger_step (WindowStart w t b) (Some (lease, started)) = (if \<not> lease \<or> started then None else Some (lease, b))"
| "ledger_step (WindowEnd w t b) (Some (lease, started)) = (if \<not> lease \<or> \<not> started then None else Some (lease, False))"
| "ledger_step (ArmTimer d n b) s = s"
| "ledger_step CancelTimer s = s"

definition ledger :: "SchedEvent list \<Rightarrow> (bool \<times> bool) option" where
  "ledger l = fold ledger_step l (Some (False, False))"

lemma ledger_simps [simp]: "ledger [] = Some (False, False)" "ledger (l @ es) = fold ledger_step es (ledger l)"
  by (simp_all add: ledger_def)

lemma timer_step [simp]: "ledger_step (ArmTimer d n b) s = s" "ledger_step CancelTimer s = s"
  by (cases s; simp)+

definition home :: "WindowScheduler \<Rightarrow> bool" where
  "home s \<longleftrightarrow> ledger (ws_log s) = Some (False, False) \<and> \<not> ws_leaseOwned s \<and> \<not> ws_nativeResetRequired s \<and> ws_maximumVisit s \<le> 100000"

definition held :: "WindowScheduler \<Rightarrow> bool" where
  "held s \<longleftrightarrow> ledger (ws_log s) = Some (True, False) \<and> ws_leaseOwned s \<and> \<not> ws_nativeResetRequired s \<and> ws_maximumVisit s \<le> 100000"

definition opened :: "WindowScheduler \<Rightarrow> bool" where
  "opened s \<longleftrightarrow> ledger (ws_log s) = Some (True, True) \<and> ws_leaseOwned s \<and> \<not> ws_nativeResetRequired s \<and> ws_maximumVisit s \<le> 100000 \<and>
     sw_startUs (ws_window s) \<le> sw_actualStartUs (ws_window s) \<and> sw_actualStartUs (ws_window s) \<le> sw_startUs (ws_window s) + lateToleranceUs \<and>
     sw_actualStartUs (ws_window s) < sw_endUs (ws_window s)"

definition leaving :: "WindowScheduler \<Rightarrow> bool" where
  "leaving s \<longleftrightarrow> (\<exists>started. ledger (ws_log s) = Some (ws_leaseOwned s, started) \<and> (started \<longrightarrow> ws_nativeResetRequired s)) \<and>
     ws_maximumVisit s \<le> 100000"

fun phase_inv :: "Phase \<Rightarrow> WindowScheduler \<Rightarrow> bool" where
  "phase_inv Stopped s = home s"
| "phase_inv Idle s = home s"
| "phase_inv Reserved s = held s"
| "phase_inv Open s = opened s"
| "phase_inv Failed s = leaving s"
| "phase_inv _ s = False"

definition sched_inv :: "WindowScheduler \<Rightarrow> bool" where
  "sched_inv s \<longleftrightarrow> phase_inv (ws_phase s) s"

lemma home_leaving: "home s \<Longrightarrow> leaving s" and held_leaving: "held s \<Longrightarrow> leaving s"
  by (auto simp: home_def held_def leaving_def)

text \<open>Fields none of these depend on.\<close>

lemma frame_simps [simp]:
  "home (s\<lparr>ws_step := k\<rparr>) = home s" "held (s\<lparr>ws_step := k\<rparr>) = held s" "opened (s\<lparr>ws_step := k\<rparr>) = opened s" "leaving (s\<lparr>ws_step := k\<rparr>) = leaving s"
  "home (s\<lparr>ws_phase := p\<rparr>) = home s" "held (s\<lparr>ws_phase := p\<rparr>) = held s" "opened (s\<lparr>ws_phase := p\<rparr>) = opened s" "leaving (s\<lparr>ws_phase := p\<rparr>) = leaving s"
  "home (s\<lparr>ws_state := e\<rparr>) = home s" "held (s\<lparr>ws_state := e\<rparr>) = held s" "opened (s\<lparr>ws_state := e\<rparr>) = opened s" "leaving (s\<lparr>ws_state := e\<rparr>) = leaving s"
  "home (s\<lparr>ws_stopRequested := b\<rparr>) = home s" "held (s\<lparr>ws_stopRequested := b\<rparr>) = held s" "opened (s\<lparr>ws_stopRequested := b\<rparr>) = opened s" "leaving (s\<lparr>ws_stopRequested := b\<rparr>) = leaving s"
  "home (s\<lparr>ws_window := w\<rparr>) = home s" "held (s\<lparr>ws_window := w\<rparr>) = held s" "leaving (s\<lparr>ws_window := w\<rparr>) = leaving s"
  "home (s\<lparr>ws_skip := w\<rparr>) = home s" "home (s\<lparr>ws_haveSkip := b\<rparr>) = home s"
  by (simp_all add: home_def held_def opened_def leaving_def)

lemma phase_inv_step [simp]: "phase_inv p (s\<lparr>ws_step := k\<rparr>) = phase_inv p s"
  by (cases p) simp_all

lemma log_timer [simp]:
  "home (s\<lparr>ws_log := ws_log s @ [e]\<rparr>) = home s" "held (s\<lparr>ws_log := ws_log s @ [e]\<rparr>) = held s"
  "opened (s\<lparr>ws_log := ws_log s @ [e]\<rparr>) = opened s" "leaving (s\<lparr>ws_log := ws_log s @ [e]\<rparr>) = leaving s"
  if "e = CancelTimer \<or> (\<exists>d n b. e = ArmTimer d n b)"
  using that by (auto simp: home_def held_def opened_def leaving_def)

section \<open>Rules for the driver calls\<close>

lemma wp_query [wp_simps]: "wp (query drv f) Q s = Q (f (drv (ws_step s))) (s\<lparr>ws_step := Suc (ws_step s)\<rparr>)"
  by (simp add: query_def wp_State)

lemma wp_command [wp_simps]:
  "wp (command drv f ev) Q s = Q (f (drv (ws_step s))) (s\<lparr>ws_step := Suc (ws_step s), ws_log := ws_log s @ [ev (f (drv (ws_step s)))]\<rparr>)"
  by (simp add: command_def wp_State Let_def)

lemma wp_get [wp_simps]: "wp State_Monad.get Q s = Q s s"
  by (simp add: wp_def State_Monad.get_def)

lemma wp_andM [wp_simps]: "wp (andM b m) Q s = (if b then wp m Q s else Q False s)"
  by (simp add: andM_def wp_return)

lemma wp_case_option [wp_simps]: "wp (case x of None \<Rightarrow> m | Some a \<Rightarrow> f a) Q s = (case x of None \<Rightarrow> wp m Q s | Some a \<Rightarrow> wp (f a) Q s)"
  by (cases x) simp_all

text \<open>What every timer call and query keeps.\<close>

definition calm :: "WindowScheduler \<Rightarrow> WindowScheduler \<Rightarrow> bool" where
  "calm s t \<longleftrightarrow> (\<exists>k l. t = s\<lparr>ws_step := k, ws_log := l\<rparr> \<and> ledger l = ledger (ws_log s))"

lemma calm_refl: "calm s s"
  unfolding calm_def by (rule exI [of _ "ws_step s"], rule exI [of _ "ws_log s"]) simp

lemma calm_fields:
  assumes "calm s t"
  shows "ws_phase t = ws_phase s" "ws_window t = ws_window s" "ws_stopRequested t = ws_stopRequested s" "ws_leaseOwned t = ws_leaseOwned s"
    "ws_nativeResetRequired t = ws_nativeResetRequired s" "ws_state t = ws_state s" "ws_maximumVisit t = ws_maximumVisit s" "ws_lead t = ws_lead s"
    "home t = home s" "held t = held s" "opened t = opened s" "leaving t = leaving s"
  using assms by (auto simp: calm_def home_def held_def opened_def leaving_def)

lemma calm_inv: "calm s t \<Longrightarrow> sched_inv t = sched_inv s"
  using calm_fields [of s t] by (simp add: sched_inv_def) (cases "ws_phase s"; simp)

lemma wp_cancelTimer [wp_simps]:
  "wp (cancelTimer drv) Q s = Q () (s\<lparr>ws_step := Suc (ws_step s), ws_log := ws_log s @ [CancelTimer]\<rparr>)"
  by (simp add: cancelTimer_def wp_simps)

lemma calm_log: "ledger l = ledger (ws_log s) \<Longrightarrow> calm s (s\<lparr>ws_step := k, ws_log := l\<rparr>)"
  unfolding calm_def by blast

lemma arm_calm: "wp (arm drv d) (\<lambda>_. calm s) s"
  by (simp add: arm_def wp_simps calm_log)

lemma armAfter_calm: "wp (armAfter drv n d) (\<lambda>_. calm s) s"
  using arm_calm calm_refl by (simp add: armAfter_def wp_simps)

lemma calmD:
  assumes "calm s t"
  shows "ws_phase t = ws_phase s \<and> ws_window t = ws_window s \<and> ws_stopRequested t = ws_stopRequested s \<and> ws_leaseOwned t = ws_leaseOwned s \<and>
    ws_nativeResetRequired t = ws_nativeResetRequired s \<and> ws_state t = ws_state s \<and> ws_maximumVisit t = ws_maximumVisit s \<and> ws_lead t = ws_lead s \<and>
    ledger (ws_log t) = ledger (ws_log s)"
  using assms by (auto simp: calm_def)

lemma arm_wp: "(\<And>ok t. calm s t \<Longrightarrow> Q ok t) \<Longrightarrow> wp (arm drv d) Q s"
  by (rule wp_mono [OF arm_calm])

lemma armAfter_wp: "(\<And>ok t. calm s t \<Longrightarrow> Q ok t) \<Longrightarrow> wp (armAfter drv n d) Q s"
  by (rule wp_mono [OF armAfter_calm])

section \<open>The invariant\<close>

lemma wp_bindI: "wp m R s \<Longrightarrow> (\<And>a t. R a t \<Longrightarrow> wp (f a) Q t) \<Longrightarrow> wp (State_Monad.bind m f) Q s"
  unfolding wp_bind by (rule wp_mono)

text \<open>Going home from any state in which no undelivered window is open.\<close>

definition homed :: "WindowScheduler \<Rightarrow> bool \<Rightarrow> WindowScheduler \<Rightarrow> bool" where
  "homed s r t \<longleftrightarrow> sched_inv t \<and> ws_phase t \<in> {Stopped, Idle, Failed} \<and> (r \<longrightarrow> ws_phase t \<noteq> Failed) \<and>
     (ws_stopRequested s \<longrightarrow> ws_stopRequested t \<and> ws_phase t \<noteq> Idle \<and> (ws_phase t = Stopped \<longrightarrow> r)) \<and>
     (ws_phase t = Idle \<longrightarrow> \<not> ws_stopRequested t) \<and> (ws_phase t \<noteq> Failed \<longrightarrow> home t)"

lemma returnHome_ok:
  assumes "leaving s"
  shows "wp (returnHome drv) (homed s) s"
proof -
  obtain st where st: "ledger (ws_log s) = Some (ws_leaseOwned s, st)" "st \<longrightarrow> ws_nativeResetRequired s" "ws_maximumVisit s \<le> 100000"
    using assms by (auto simp: leaving_def)
  then show ?thesis
    unfolding returnHome_def restore_def wp_simps
    by (auto simp: wp_simps homed_def sched_inv_def leaving_def home_def intro!: armAfter_wp dest!: calmD)
qed

text \<open>The effect of a dispatched call: the event, perhaps a requested stop, an arbitrary change of the election state.\<close>

definition dispatched :: "SchedEvent \<Rightarrow> WindowScheduler \<Rightarrow> WindowScheduler \<Rightarrow> bool" where
  "dispatched e s t \<longleftrightarrow> ledger (ws_log t) = ledger_step e (ledger (ws_log s)) \<and> ws_leaseOwned t = ws_leaseOwned s \<and>
     ws_nativeResetRequired t = ws_nativeResetRequired s \<and> ws_window t = ws_window s \<and> ws_maximumVisit t = ws_maximumVisit s \<and>
     ws_phase t = ws_phase s \<and> (ws_stopRequested s \<longrightarrow> ws_stopRequested t)"

lemma dispatch_ok: "wp (dispatch drv f ev) (\<lambda>r. dispatched (ev r) s) s"
  by (simp add: dispatch_def stop_callback_def wp_simps dispatched_def)

definition closed :: "bool \<Rightarrow> bool \<Rightarrow> WindowScheduler \<Rightarrow> bool" where
  "closed stopping ended t \<longleftrightarrow> (\<exists>st. ledger (ws_log t) = Some (True, st) \<and> (st \<longrightarrow> \<not> ended)) \<and> ws_leaseOwned t \<and> ws_maximumVisit t \<le> 100000 \<and>
     (stopping \<longrightarrow> ws_stopRequested t)"

lemma windowEnd_ok:
  assumes "opened s"
  shows "wp (windowEnd drv w t) (closed (ws_stopRequested s)) s"
  unfolding windowEnd_def
  by (rule wp_mono [OF dispatch_ok]) (use assms in \<open>auto simp: dispatched_def opened_def closed_def\<close>)

lemma closeWindow_ok:
  assumes "opened s" "ws_phase s = Open"
  shows "wp (closeWindow drv now) (\<lambda>_ t. leaving t \<and> ws_leaseOwned t \<and> ws_phase t = Reserved \<and> (ws_stopRequested s \<longrightarrow> ws_stopRequested t)) s"
proof -
  let ?s = "s\<lparr>ws_phase := Closing\<rparr>"
  have early: "closed (ws_stopRequested s) False u" if "opened u" "ws_stopRequested u = ws_stopRequested s" for u
    using that by (auto simp: closed_def opened_def)
  have ended: "wp (if now < sw_actualStartUs (ws_window s) then State_Monad.return False
         else do {
           wire \<leftarrow> wireTime drv (if now < sw_endUs (ws_window s) then now else sw_endUs (ws_window s));
           (case wire of None \<Rightarrow> State_Monad.return False | Some t \<Rightarrow> windowEnd drv (ws_window s) t) }) (closed (ws_stopRequested s)) ?s"
    using assms(1) early windowEnd_ok [of "?s\<lparr>ws_step := Suc (ws_step s)\<rparr>"] by (auto simp: wp_simps split: option.split)
  show ?thesis
    unfolding closeWindow_def Let_def
    by (simp only: wp_bind wp_get wp_unless wp_modify assms(2) simp_thms if_False)
      (rule wp_mono [OF ended], auto simp: wp_simps closed_def leaving_def)
qed

definition halted :: "bool \<Rightarrow> WindowScheduler \<Rightarrow> bool" where
  "halted r t \<longleftrightarrow> sched_inv t \<and> ws_stopRequested t \<and> (if r then ws_phase t = Stopped else ws_phase t = Failed)"

lemma go_home_stopping: "leaving s \<Longrightarrow> ws_stopRequested s \<Longrightarrow> wp (returnHome drv) halted s"
  by (rule wp_mono [OF returnHome_ok]) (auto simp: homed_def halted_def)

lemma stop_ok:
  assumes "sched_inv s"
  shows "wp (WindowScheduler_stop drv) halted s"
proof -
  let ?t = "s\<lparr>ws_stopRequested := True, ws_step := Suc (ws_step s), ws_log := ws_log s @ [CancelTimer]\<rparr>"
  have inv: "phase_inv (ws_phase s) ?t" using assms by (cases "ws_phase s") (simp_all add: sched_inv_def home_def held_def opened_def leaving_def)
  have close: "wp (do { unless (ws_phase s \<noteq> Open) (do { now \<leftarrow> nowUs drv; closeWindow drv now }); returnHome drv }) halted ?t"
  proof (cases "ws_phase s = Open")
    case True
    then have o: "opened (?t\<lparr>ws_step := Suc (ws_step ?t)\<rparr>)" "ws_phase (?t\<lparr>ws_step := Suc (ws_step ?t)\<rparr>) = Open" using inv by (simp_all add: opened_def)
    show ?thesis using True go_home_stopping
      by (simp only: wp_bind wp_unless wp_query simp_thms if_False)
        (rule wp_mono [OF closeWindow_ok [OF o]], simp)
  next
    case False
    then show ?thesis
      using inv go_home_stopping [of ?t drv] home_leaving [of ?t] held_leaving [of ?t] by (cases "ws_phase s") (auto simp: wp_simps)
  qed
  show ?thesis
    using close inv assms unfolding WindowScheduler_stop_def wp_bind wp_modify wp_cancelTimer wp_get wp_if wp_return
    by (cases "ws_phase s") (simp_all add: halted_def sched_inv_def wp_bind)
qed

lemma stop_inv: "sched_inv s \<Longrightarrow> wp (WindowScheduler_stop drv) (\<lambda>_. sched_inv) s"
  by (rule wp_mono [OF stop_ok]) (simp_all add: halted_def)

lemma halt_inv: "sched_inv s \<Longrightarrow> wp (halt drv) (\<lambda>_. sched_inv) s"
  unfolding halt_def wp_simps by (rule stop_inv)

lemma arm_or_stop_inv: "wp m (\<lambda>_. calm s) s \<Longrightarrow> sched_inv s \<Longrightarrow> wp (arm_or_stop drv m) (\<lambda>_. sched_inv) s"
  unfolding arm_or_stop_def wp_simps by (erule wp_mono) (auto simp: calm_inv intro!: halt_inv)

lemma go_home_inv: "leaving s \<Longrightarrow> wp (go_home drv) (\<lambda>_. sched_inv) s"
  unfolding go_home_def wp_simps by (rule wp_mono [OF returnHome_ok]) (auto simp: homed_def)

lemma open_window_body_inv:
  assumes "held s" "sw_startUs (ws_window s) \<le> now" "now \<le> sw_startUs (ws_window s) + lateToleranceUs" "now < sw_endUs (ws_window s)"
  shows "wp (open_window_body drv now wire) (\<lambda>_. sched_inv) s"
proof -
  define s1 where "s1 = (let e = ws_state s in s\<lparr>ws_window := (ws_window s)\<lparr>sw_actualStartUs := now,
         sw_role := (if es_syncRole e = 3 then 3 else if es_synchronized e \<or> es_nativeClockHoldover e then 2 else 1),
         sw_parent := es_sync e, sw_root := es_master e\<rparr>,
       ws_state := holdClock (sw_endUs (ws_window s)) (holdControls e), ws_phase := Opening\<rparr>)"
  have s1: "ledger (ws_log s1) = Some (True, False)" "ws_leaseOwned s1" "\<not> ws_nativeResetRequired s1" "ws_maximumVisit s1 \<le> 100000"
    "sw_startUs (ws_window s1) \<le> sw_actualStartUs (ws_window s1)" "sw_actualStartUs (ws_window s1) \<le> sw_startUs (ws_window s1) + lateToleranceUs"
    "sw_actualStartUs (ws_window s1) < sw_endUs (ws_window s1)"
    using assms by (simp_all add: held_def s1_def Let_def)
  have start: "wp (windowStart drv (ws_window s1) wire) (\<lambda>r t. if r then opened t else held t) s1"
    unfolding windowStart_def by (rule wp_mono [OF dispatch_ok]) (use s1 in \<open>auto simp: dispatched_def opened_def held_def\<close>)
  have closed_home: "wp (closeWindow drv n) (\<lambda>_. wp (go_home drv) (\<lambda>_. sched_inv)) t" if "opened t" "ws_phase t = Open" for n t
    by (rule wp_mono [OF closeWindow_ok [OF that]]) (use go_home_inv in auto)
  show ?thesis
    unfolding open_window_body_def wp_bind wp_modify s1_def [symmetric] wp_gets
    apply (rule wp_mono [OF start])
    using closed_home go_home_inv held_leaving arm_or_stop_inv [OF arm_calm]
    by (auto simp: wp_simps sched_inv_def)
qed

lemma openWindow_inv:
  assumes "held s"
  shows "wp (openWindow drv now) (\<lambda>_. sched_inv) s"
proof -
  have h: "wp (go_home drv) (\<lambda>_. sched_inv) (s\<lparr>ws_step := k\<rparr>)" for k using go_home_inv [of "s\<lparr>ws_step := k\<rparr>"] held_leaving assms by simp
  have "wp (go_home drv) (\<lambda>_. sched_inv) s" using go_home_inv held_leaving assms by simp
  then show ?thesis using h assms unfolding openWindow_def
    by (auto simp: wp_simps not_less split: option.split intro!: open_window_body_inv)
qed

definition planned :: "WindowScheduler \<Rightarrow> ScheduledWindow option \<Rightarrow> WindowScheduler \<Rightarrow> bool" where
  "planned s r t \<longleftrightarrow> calm s t \<and> (\<forall>w. r = Some w \<longrightarrow> sw_channel w \<noteq> 0)"

lemma calm_step: "calm (s\<lparr>ws_step := j\<rparr>) t = calm s t"
  by (simp add: calm_def)

lemma calm_stepI: "calm s (s\<lparr>ws_step := j\<rparr>)"
  using calm_log [of "ws_log s" s j] by simp

lemma planned_step: "planned (s\<lparr>ws_step := j\<rparr>) = planned s"
  by (intro ext) (simp add: planned_def calm_step)

lemma plan_loop_ok: "wp (plan_loop drv n probe) (planned s) s"
proof (induction n arbitrary: probe s)
  case 0
  then show ?case by (simp add: wp_simps planned_def calm_refl)
next
  case (Suc n)
  have ih: "wp (plan_loop drv n p) (planned s) (s\<lparr>ws_step := j\<rparr>)" for p j
    using Suc.IH [of p "s\<lparr>ws_step := j\<rparr>"] unfolding planned_step .
  show ?case
    using calm_refl [of s] calm_stepI [of s]
    by (auto simp: wp_simps planned_def [of s "Some _"] planned_def [of s None] split: option.split intro!: ih Suc.IH)
qed

lemma plan_ok: "wp (plan drv now) (planned s) s"
  using plan_loop_ok calm_refl [of s] unfolding plan_def by (simp add: wp_simps planned_def [of s None] del: plan_loop.simps)

lemma reservation_ms:
  fixes d :: u64 and m :: u32
  assumes "0 < d" "d \<le> ucast m" "m \<le> 100000"
  shows "(ucast ((d + 999) div 1000) :: u32) \<noteq> 0 \<and> (ucast ((d + 999) div 1000) :: u32) \<le> 100"
proof -
  have d: "0 < unat d" "unat d \<le> 100000"
    using assms by (auto simp: word_le_nat_alt word_less_nat_alt unat_ucast_up)
  then have q: "unat ((d + 999) div 1000) = (unat d + 999) div 1000"
    by (simp add: unat_div unat_word_ariths(1))
  then have "unat (ucast ((d + 999) div 1000) :: u32) = (unat d + 999) div 1000"
    using d by (simp add: unsigned_ucast_eq q take_bit_nat_eq_self)
  then have "unat (ucast ((d + 999) div 1000) :: u32) \<noteq> 0" "unat (ucast ((d + 999) div 1000) :: u32) \<le> 100" using d by auto
  then show ?thesis by (auto simp: word_le_nat_alt)
qed

lemma observeCost_frame [simp]:
  "home (observeCost c s) = home s" "held (observeCost c s) = held s" "leaving (observeCost c s) = leaving s"
  "ws_phase (observeCost c s) = ws_phase s" "ws_window (observeCost c s) = ws_window s" "ws_stopRequested (observeCost c s) = ws_stopRequested s"
  "ws_log (observeCost c s) = ws_log s" "ws_leaseOwned (observeCost c s) = ws_leaseOwned s" "ws_nativeResetRequired (observeCost c s) = ws_nativeResetRequired s"
  "ws_maximumVisit (observeCost c s) = ws_maximumVisit s"
  by (simp_all add: observeCost_def Let_def home_def held_def leaving_def)

lemma service_rejected_inv:
  assumes "home s"
  shows "wp (service_rejected drv completed) (\<lambda>_. sched_inv) s"
proof -
  have "wp (arm_or_stop drv (armAfter drv completed 1000)) (\<lambda>_. sched_inv) t" if "home t" "ws_phase t = Idle" for t
    using that by (intro arm_or_stop_inv armAfter_calm) (simp add: sched_inv_def)
  then show ?thesis
    using assms unfolding service_rejected_def wp_bind wp_cancelTimer wp_gets wp_modify wp_unless
    by (cases "ws_stopRequested s") (simp_all add: sched_inv_def home_def)
qed

lemma service_owned_inv:
  assumes "ledger (ws_log s) = Some (True, False)" "\<not> ws_nativeResetRequired s" "ws_maximumVisit s \<le> 100000"
  shows "wp (service_owned drv now result completed) (\<lambda>_. sched_inv) s"
proof -
  let ?s = "s\<lparr>ws_leaseOwned := True, ws_phase := Reserved\<rparr>"
  have held: "held (?s\<lparr>ws_step := k\<rparr>)" for k using assms by (simp add: held_def)
  have go: "wp (go_home drv) (\<lambda>_. sched_inv) (?s\<lparr>ws_step := k\<rparr>)" "wp (openWindow drv completed) (\<lambda>_. sched_inv) (?s\<lparr>ws_step := k\<rparr>)"
    "wp (arm_or_stop drv (arm drv d)) (\<lambda>_. sched_inv) (?s\<lparr>ws_step := k\<rparr>)" for k d
    using held [of k] by (auto intro!: go_home_inv openWindow_inv arm_or_stop_inv arm_calm held_leaving simp: sched_inv_def)
  have "wp (go_home drv) (\<lambda>_. sched_inv) ?s" using go(1) [of "ws_step s"] by simp
  then show ?thesis using go
    unfolding service_owned_def wp_bind wp_modify wp_get Let_def wp_if wp_return wp_query by simp
qed

lemma service_reserve_inv:
  assumes "home s" "sw_channel (ws_window s) \<noteq> 0" "now < sw_endUs (ws_window s)" "sw_endUs (ws_window s) - now \<le> ucast (ws_maximumVisit s)"
  shows "wp (service_reserve drv now) (\<lambda>_. sched_inv) s"
proof -
  let ?s = "s\<lparr>ws_phase := Preparing\<rparr>" and ?w = "ws_window s"
  define ms where "ms = (ucast ((sw_endUs ?w - now + 999) div 1000) :: u32)"
  have window: "ws_window ?s = ws_window s" by simp
  have "sw_endUs ?w - now \<noteq> 0" using assms(3) by auto
  then have ms: "ms \<noteq> 0" "ms \<le> 100"
    unfolding ms_def using reservation_ms [of "sw_endUs ?w - now" "ws_maximumVisit s"] assms(1,4)
    by (simp_all add: home_def word_gt_0)
  have res: "wp (reserve drv (sw_channel ?w) ms) (\<lambda>r t. if r = Rejected then home t else ledger (ws_log t) = Some (True, False) \<and>
      \<not> ws_nativeResetRequired t \<and> ws_maximumVisit t \<le> 100000) ?s"
    unfolding reserve_def by (rule wp_mono [OF dispatch_ok]) (use assms(1,2) ms in \<open>auto simp: dispatched_def home_def\<close>)
  show ?thesis
    unfolding service_reserve_def wp_bind wp_modify wp_gets window ms_def [symmetric] wp_query wp_if
    by (rule wp_mono [OF res]) (auto intro!: service_rejected_inv service_owned_inv)
qed

lemma service_planned_inv:
  assumes "home s" "ws_phase s = Idle" "sw_channel w \<noteq> 0"
  shows "wp (service_planned drv now w) (\<lambda>_. sched_inv) s"
proof -
  let ?s = "s\<lparr>ws_window := w, ws_skip := w, ws_haveSkip := True\<rparr>"
  have arms: "wp (arm_or_stop drv (armAfter drv n d)) (\<lambda>_. sched_inv) t" "wp (arm_or_stop drv (arm drv n)) (\<lambda>_. sched_inv) t"
    if "home t" "ws_phase t = Idle" for n d t
    using that by (auto intro!: arm_or_stop_inv armAfter_calm arm_calm simp: sched_inv_def)
  have "wp (arm drv (sw_endUs w)) (\<lambda>ok u. wp (if \<not> ok then halt drv else service_reserve drv now) (\<lambda>_. sched_inv) u) ?s"
    if "\<not> (sw_endUs w \<le> now \<or> sw_endUs w - now > ucast (ws_maximumVisit s))"
  proof (rule arm_wp)
    fix ok u
    assume "calm ?s u"
    note u = calm_fields [OF this] calm_inv [OF this]
    show "wp (if \<not> ok then halt drv else service_reserve drv now) (\<lambda>_. sched_inv) u"
      using halt_inv [of u drv] service_reserve_inv [of u now drv] u assms that
      by (cases ok) (simp_all add: sched_inv_def not_le not_less)
  qed
  then show ?thesis using assms arms unfolding service_planned_def wp_bind wp_get Let_def wp_if wp_modify by simp
qed

lemma service_idle_inv:
  assumes "home s" "ws_phase s = Idle"
  shows "wp (service_idle drv now) (\<lambda>_. sched_inv) s"
proof -
  have arms: "wp (arm_or_stop drv (armAfter drv n d)) (\<lambda>_. sched_inv) t" if "home t" "ws_phase t = Idle" for n d t
    using that by (auto intro!: arm_or_stop_inv armAfter_calm simp: sched_inv_def)
  have "wp (plan drv now) (\<lambda>r t. case r of None \<Rightarrow> wp (arm_or_stop drv (armAfter drv now 5000)) (\<lambda>_. sched_inv) t
      | Some w \<Rightarrow> wp (service_planned drv now w) (\<lambda>_. sched_inv) t) t" if t: "home t" "ws_phase t = Idle" for t
  proof (rule wp_mono [OF plan_ok])
    fix r u
    assume r: "planned t r u"
    then have "calm t u" by (simp add: planned_def)
    from calm_fields [OF this] t have "home u" "ws_phase u = Idle" by simp_all
    then show "case r of None \<Rightarrow> wp (arm_or_stop drv (armAfter drv now 5000)) (\<lambda>_. sched_inv) u
        | Some w \<Rightarrow> wp (service_planned drv now w) (\<lambda>_. sched_inv) u"
      using r arms service_planned_inv by (cases r) (simp_all add: planned_def)
  qed
  then show ?thesis
    using assms arms unfolding service_idle_def wp_bind wp_query wp_if wp_modify wp_case_option by simp
qed

lemma service_reserved_inv:
  assumes "held s" "ws_phase s = Reserved"
  shows "wp (service_reserved drv now) (\<lambda>_. sched_inv) s"
proof -
  have go: "wp (go_home drv) (\<lambda>_. sched_inv) t" "wp (arm_or_stop drv (arm drv n)) (\<lambda>_. sched_inv) t" "wp (openWindow drv now) (\<lambda>_. sched_inv) t"
    if "held t" "ws_phase t = Reserved" for n t
    using that by (auto intro!: go_home_inv openWindow_inv arm_or_stop_inv arm_calm held_leaving simp: sched_inv_def)
  show ?thesis
    using assms go unfolding service_reserved_def wp_bind wp_get Let_def wp_andM wp_query wp_if wp_return by auto
qed

lemma service_open_ok:
  assumes "opened s" "ws_phase s = Open"
  shows "wp (service_open drv now) (\<lambda>_. sched_inv) s"
proof -
  have arms: "wp (arm_or_stop drv (arm drv n)) (\<lambda>_. sched_inv) t" if "opened t" "ws_phase t = Open" for n t
    using that by (auto intro!: arm_or_stop_inv arm_calm simp: sched_inv_def)
  have homeward: "wp (closeWindow drv now) (\<lambda>_. wp (returnHome drv) (\<lambda>home t. if \<not> home \<or> ws_phase t = Stopped then sched_inv t else sched_inv (t\<lparr>ws_step := Suc (ws_step t)\<rparr>))) t"
    if "opened t" "ws_phase t = Open" for t
    by (rule wp_mono [OF closeWindow_ok [OF that]]) (auto intro!: wp_mono [OF returnHome_ok] simp: homed_def sched_inv_def)
  show ?thesis
    using assms arms homeward unfolding service_open_def wp_bind wp_gets wp_query wp_if wp_return wp_andM by auto
qed

lemma service_inv:
  assumes "sched_inv s"
  shows "wp (WindowScheduler_service drv) (\<lambda>_. sched_inv) s"
proof (cases "ws_phase s \<in> {Stopped, Failed, Preparing, Opening, Closing, Returning}")
  case True
  then show ?thesis unfolding WindowScheduler_service_def wp_bind wp_get wp_if wp_return using assms by simp
next
  case False
  have step: "sched_inv (s\<lparr>ws_step := k\<rparr>)" for k using assms by (simp add: sched_inv_def)
  have rest: "wp (do { ph \<leftarrow> gets ws_phase; if ph = Reserved then service_reserved drv n
      else if ph = Idle then service_idle drv n else State_Monad.return () }) (\<lambda>_. sched_inv) t" if "sched_inv t" for n t
    using that service_reserved_inv [of t drv n] service_idle_inv [of t drv n] unfolding wp_bind wp_gets wp_if wp_return
    by (auto simp: sched_inv_def)
  have opn: "wp (service_open drv n) (\<lambda>r. wp (case r of None \<Rightarrow> State_Monad.return () | Some now \<Rightarrow> do { ph \<leftarrow> gets ws_phase;
      if ph = Reserved then service_reserved drv now else if ph = Idle then service_idle drv now else State_Monad.return () }) (\<lambda>_. sched_inv)) (s\<lparr>ws_step := k\<rparr>)"
    if "ws_phase s = Open" for n k
  proof (rule wp_mono [OF service_open_ok])
    show "opened (s\<lparr>ws_step := k\<rparr>)" "ws_phase (s\<lparr>ws_step := k\<rparr>) = Open" using assms that by (simp_all add: sched_inv_def)
  qed (use rest in \<open>simp add: wp_return split: option.split\<close>)
  show ?thesis
    using False halt_inv [OF step] rest [OF step] opn
    unfolding WindowScheduler_service_def wp_bind [of State_Monad.get] wp_get wp_if wp_bind [of "query _ _"] wp_query wp_bind [of "andM _ _"] wp_andM
      wp_bind [of "if _ then _ else _"] wp_return
    by simp
qed

lemma start_inv:
  assumes "sched_inv s"
  shows "wp (WindowScheduler_start drv v l) (\<lambda>_. sched_inv) s"
proof -
  have step: "sched_inv (s\<lparr>ws_step := k\<rparr>)" for k using assms by (simp add: sched_inv_def)
  show ?thesis
    using assms step unfolding WindowScheduler_start_def wp_bind wp_get Let_def wp_andM wp_query wp_if wp_return wp_modify
    by (auto simp: home_def sched_inv_def not_less intro!: armAfter_wp dest!: calmD)
qed

lemma recover_inv:
  assumes "sched_inv s"
  shows "wp (WindowScheduler_recover drv) (\<lambda>_. sched_inv) s"
  using assms wp_mono [OF returnHome_ok, of s "\<lambda>_. sched_inv" drv] unfolding WindowScheduler_recover_def wp_bind wp_get wp_if wp_return
  by (auto simp: homed_def sched_inv_def)

text \<open>Histories: public calls, with any change of the election state between them.\<close>

datatype sched_op = SStart u32 u32 | SStop | SService | SRecover | SElection "ElectionState \<Rightarrow> ElectionState"

fun sched_exec :: "window_driver \<Rightarrow> sched_op \<Rightarrow> WindowScheduler \<Rightarrow> WindowScheduler" where
  "sched_exec drv (SStart v l) s = snd (run_state (WindowScheduler_start drv v l) s)"
| "sched_exec drv SStop s = snd (run_state (WindowScheduler_stop drv) s)"
| "sched_exec drv SService s = snd (run_state (WindowScheduler_service drv) s)"
| "sched_exec drv SRecover s = snd (run_state (WindowScheduler_recover drv) s)"
| "sched_exec drv (SElection f) s = s\<lparr>ws_state := f (ws_state s)\<rparr>"

lemma sched_inv_exec: "sched_inv s \<Longrightarrow> sched_inv (sched_exec drv op s)"
proof (cases op)
  case (SElection f)
  assume "sched_inv s"
  then show ?thesis using SElection by (cases "ws_phase s") (simp_all add: sched_inv_def)
qed (use wp_run [OF start_inv] wp_run [OF stop_inv] wp_run [OF service_inv] wp_run [OF recover_inv] in simp_all)

lemma sched_inv_initial: "sched_inv (WindowScheduler0 e)"
  by (simp add: sched_inv_def WindowScheduler0_def home_def)

lemma sched_inv_history: "sched_inv s \<Longrightarrow> sched_inv (fold (sched_exec drv) ops s)"
  using sched_inv_exec by (induction ops arbitrary: s) auto

section \<open>The planned windows\<close>

lemma currentWindow_SomeD:
  assumes "currentWindow st now = Some w"
  shows "State_radioScheduleReady st" "validSequence (es_sequence st)" "es_presence st \<in> {1, 2, 4, 8, 16}" "es_epoch st \<le> now"
    and "aw_phase st now \<le> unat now" "unat (sw_startUs w) = unat now - aw_phase st now"
    and "unat (sw_endUs w) = unat now - aw_phase st now + unat (es_presence st) * 16384"
proof -
  show r: "State_radioScheduleReady st" "validSequence (es_sequence st)" "es_presence st \<in> {1, 2, 4, 8, 16}" "es_epoch st \<le> now"
    unfolding validPresence_iff [symmetric] using assms by (auto simp: currentWindow_def Let_def not_less split: if_splits)
  define period where "period = (ucast (es_presence st) * ucast awUs :: u32)"
  define P where "P = unat (es_presence st)"
  have P: "0 < P" "P \<le> 16" using presence_dvd [OF r(3)] by (simp_all add: P_def)
  have period: "unat period = P * 16384" using P by (simp add: period_def awUs_def unat_word_ariths unat_ucast_up P_def [symmetric])
  note u = untilNext_nat [OF r(3,4), folded P_def]
  have "State_untilNext st now \<le> period" by (simp add: word_le_nat_alt u period)
  then have ph: "unat (period - State_untilNext st now) = aw_phase st now" using u by (simp add: unat_sub period)
  have w: "\<not> now < ucast (period - State_untilNext st now)" "\<not> now > - 1 - ucast (State_untilNext st now)"
    "sw_startUs w = now - ucast (period - State_untilNext st now)" "sw_endUs w = now + ucast (State_untilNext st now)"
    using assms by (auto simp: currentWindow_def Let_def period_def split: if_splits)
  show le: "aw_phase st now \<le> unat now" using w(1) ph by (simp add: word_less_nat_alt unat_ucast_up)
  show "unat (sw_startUs w) = unat now - aw_phase st now" using w(1,3) ph by (simp add: unat_sub word_less_nat_alt word_le_nat_alt unat_ucast_up)
  have "unat now + unat (State_untilNext st now) < 2 ^ 64"
  proof -
    have "now \<le> - 1 - ucast (State_untilNext st now)" using w(2) by simp
    then have "unat now \<le> unat (- 1 - ucast (State_untilNext st now) :: u64)" by (simp add: word_le_nat_alt)
    also have "\<dots> = unat (- 1 :: u64) - unat (ucast (State_untilNext st now) :: u64)" by (rule unat_sub) simp
    also have "\<dots> = 2 ^ 64 - 1 - unat (State_untilNext st now)"
      by (simp add: unat_ucast_up unsigned_minus_1_eq_mask mask_eq_exp_minus_1)
    finally have "unat now \<le> 2 ^ 64 - 1 - unat (State_untilNext st now)" .
    then show ?thesis using u P by simp
  qed
  then have "unat (sw_endUs w) = unat now + unat (State_untilNext st now)" using w(4) by (simp add: unat_word_ariths(1) unat_ucast_up)
  then show "unat (sw_endUs w) = unat now - aw_phase st now + unat (es_presence st) * 16384" using u le by (simp add: P_def)
qed

text \<open>The index of the window: how many periods of the presence have gone by.\<close>

lemma counter_div:
  assumes "es_presence st \<in> {1, 2, 4, 8, 16}" "es_epoch st \<le> t"
  shows "unat (State_counter st t) div unat (es_presence st) =
    (unat (es_baseCounter st) div unat (es_presence st) +
      (unat (es_baseCounter st) mod unat (es_presence st) * 16384 + (unat t - unat (es_epoch st))) div (unat (es_presence st) * 16384))
      mod (65536 div unat (es_presence st))"
proof -
  define P where "P = unat (es_presence st)"
  define B where "B = unat (es_baseCounter st)"
  define e where "e = unat t - unat (es_epoch st)"
  have P: "0 < P" "P dvd 16" using presence_dvd [OF assms(1)] by (simp_all add: P_def)
  then obtain k where k: "65536 = P * k" using dvd_trans [of P 16 65536] by (auto elim!: dvdE)
  then have k': "65536 div P = k" using P by (metis nonzero_mult_div_cancel_left not_gr0)
  have "(B mod P * 16384 + e) div (P * 16384) = (B mod P * 16384 + e) div 16384 div P" by (metis div_mult2_eq mult.commute)
  also have "\<dots> = (B mod P + e div 16384) div P" by simp
  finally have "(B + e div 16384) div P = B div P + (B mod P * 16384 + e) div (P * 16384)"
    using P div_mult_self1 [of P "B mod P + e div 16384" "B div P"] by (simp add: add.assoc [symmetric] mult_div_mod_eq add.commute)
  moreover have "(x mod 65536) div P = (x div P) mod k" for x unfolding k using P by (simp add: mod_mult2_eq)
  ultimately show ?thesis using counter_nat [OF assms(2)] k' by (simp add: P_def B_def e_def)
qed

lemma unat_minus_mod: "unat (c - c mod (p :: u16)) = unat p * (unat c div unat p)"
proof -
  have "c mod p \<le> c" by (simp add: word_le_nat_alt unat_mod_distrib)
  then have "unat (c - c mod p) = unat c - unat c mod unat p" by (simp add: unat_sub unat_mod_distrib)
  then show ?thesis by (simp add: minus_mod_eq_mult_div)
qed

lemma aw_phase_window:
  assumes p: "es_presence st \<in> {1, 2, 4, 8, 16}" and t: "es_epoch st \<le> now" "es_epoch st \<le> t" "aw_phase st now \<le> unat now"
    and range: "unat now - aw_phase st now \<le> unat t" "unat t < unat now - aw_phase st now + unat (es_presence st) * 16384"
  shows "unat t - aw_phase st t = unat now - aw_phase st now" "aw_phase st t \<le> unat t"
    "unat (State_counter st t) div unat (es_presence st) = unat (State_counter st now) div unat (es_presence st)"
proof -
  define M where "M = unat (es_presence st) * 16384"
  define X where "X = (\<lambda>t :: u64. unat (es_baseCounter st) mod unat (es_presence st) * 16384 + (unat t - unat (es_epoch st)))"
  have ph: "aw_phase st u = X u mod M" for u by (simp add: aw_phase_def X_def M_def)
  have M: "0 < M" using presence_dvd [OF p] by (simp add: M_def)
  define \<delta> where "\<delta> = unat t - (unat now - aw_phase st now)"
  have e: "unat (es_epoch st) \<le> unat now" "unat (es_epoch st) \<le> unat t" using t by (simp_all add: word_le_nat_alt)
  have \<delta>: "\<delta> < M" "unat t = unat now - aw_phase st now + \<delta>" using range by (simp_all add: \<delta>_def M_def)
  have "X now = M * (X now div M) + aw_phase st now" by (simp add: ph)
  moreover have "X t + unat now = X now + unat t" using e by (simp add: X_def)
  ultimately have Xt: "X t = M * (X now div M) + \<delta>" using \<delta>(2) t(3) by linarith
  then have x: "X t div M = X now div M" "aw_phase st t = \<delta>" using \<delta>(1) M by (simp_all add: ph)
  show "unat t - aw_phase st t = unat now - aw_phase st now" "aw_phase st t \<le> unat t" using \<delta>(2) x(2) by linarith+
  show "unat (State_counter st t) div unat (es_presence st) = unat (State_counter st now) div unat (es_presence st)"
    unfolding counter_div [OF p t(1)] counter_div [OF p t(2)] using x(1) unfolding X_def M_def by simp
qed

lemma currentWindow_exists:
  assumes "State_radioScheduleReady st" "validSequence (es_sequence st)" "es_presence st \<in> {1, 2, 4, 8, 16}" "es_epoch st \<le> t"
    and "aw_phase st t \<le> unat t" "unat t - aw_phase st t + unat (es_presence st) * 16384 < 2 ^ 64"
  shows "\<exists>w. currentWindow st t = Some w"
proof -
  define period where "period = (ucast (es_presence st) * ucast awUs :: u32)"
  define P where "P = unat (es_presence st)"
  have P: "0 < P" "P \<le> 16" using presence_dvd [OF assms(3)] by (simp_all add: P_def)
  have period: "unat period = P * 16384" using P by (simp add: period_def awUs_def unat_word_ariths unat_ucast_up P_def [symmetric])
  note u = untilNext_nat [OF assms(3,4), folded P_def]
  have le: "State_untilNext st t \<le> period" by (simp add: word_le_nat_alt u period)
  have ph: "unat (period - State_untilNext st t) = aw_phase st t" using u le by (simp add: unat_sub period)
  have "\<not> t < ucast (period - State_untilNext st t)" using assms(5) ph by (simp add: word_less_nat_alt unat_ucast_up)
  moreover have "\<not> t > - 1 - ucast (State_untilNext st t)"
  proof -
    have "unat (- 1 - ucast (State_untilNext st t) :: u64) = 2 ^ 64 - 1 - unat (State_untilNext st t)"
      using unat_sub [of "ucast (State_untilNext st t)" "- 1 :: u64"] by (simp add: unat_ucast_up)
    moreover have "unat t + unat (State_untilNext st t) < 2 ^ 64" using u assms(5,6) by (simp add: P_def)
    ultimately show ?thesis by (simp add: word_less_nat_alt)
  qed
  moreover have "State_untilNext st t \<noteq> 0" using u by (metis unat_0 diff_is_0_eq not_le)
  moreover have "\<not> t < es_epoch st" "validPresence (ucast (es_presence st))" using assms(3,4) unfolding validPresence_iff by simp_all
  ultimately show ?thesis using assms(1,2) le unfolding currentWindow_def Let_def period_def [symmetric] by simp
qed

subsection \<open>Instances\<close>

text \<open>A driver whose clock stands at a given time, with every call granted and the radio on channel 44.\<close>

definition steady_driver :: "u64 \<Rightarrow> window_driver" where
  "steady_driver now _ = \<lparr>da_now = now, da_ready = True, da_allowed = (\<lambda>c. c = 44), da_channel = 44, da_reservation = Granted,
     da_ok = True, da_wire = (\<lambda>t. Some (ucast t)), da_stop = False, da_state = id\<rparr>"

definition sample_window :: ScheduledWindow where
  "sample_window = ScheduledWindow0\<lparr>sw_startUs := 66536, sw_endUs := 132072, sw_actualStartUs := 66540, sw_counter := 4, sw_channel := 44,
     sw_presence := 4, sw_role := 1, sw_parent := [2, 0, 0, 0, 0, 1], sw_root := [2, 0, 0, 0, 0, 1]\<rparr>"

definition sample_open :: WindowScheduler where
  "sample_open = (WindowScheduler0 sample_state)\<lparr>ws_phase := Open, ws_window := sample_window, ws_maximumVisit := 100000,
     ws_leaseOwned := True, ws_log := [Reserve 44 66 Granted, WindowStart sample_window 66540 True], ws_step := 12\<rparr>"

lemma sched_inv_sample: "sched_inv sample_open"
  by (simp add: sched_inv_def opened_def sample_open_def sample_window_def ledger_def lateToleranceUs_def WindowScheduler0_def)

lemma sample_open_eval:
  "sw_actualStartUs (ws_window sample_open) = 66540" "\<not> ws_nativeResetRequired sample_open"
  "ws_maximumVisit sample_open = 100000" "ws_state sample_open = sample_state"
  by (simp_all add: sample_open_def sample_window_def WindowScheduler0_def)

text \<open>
  C26: while the election state does not change, the scheduler's windows partition time. The window
  planned for a moment contains it and lasts exactly the presence period, and every other moment of it
  (from the epoch on) plans the same window: same bounds, same counter and, since the sequence steps with the presence, the
  same channel.
\<close>

theorem windows_partition_time:
  assumes "currentWindow st now = Some w" and "unat (sq_step (es_sequence st)) + 1 = unat (es_presence st)"
    and "es_epoch st \<le> t" "sw_startUs w \<le> t" "t < sw_endUs w"
  shows "currentWindow st t = Some w \<and> sw_startUs w \<le> now \<and> now < sw_endUs w \<and>
    unat (sw_endUs w) = unat (sw_startUs w) + unat (es_presence st) * 16384"
proof -
  note c = currentWindow_SomeD [OF assms(1)]
  have lt: "aw_phase st now < unat (es_presence st) * 16384" by (rule untilNext_nat(2) [OF c(3,4)])
  have r: "unat now - aw_phase st now \<le> unat t" "unat t < unat now - aw_phase st now + unat (es_presence st) * 16384"
    using assms(4,5) c(6,7) by (simp_all add: word_le_nat_alt word_less_nat_alt)
  note p = aw_phase_window [OF c(3,4) assms(3) c(5) r]
  have "unat now - aw_phase st now + unat (es_presence st) * 16384 < 2 ^ 64" using c(7) unat_u64_less [of "sw_endUs w"] by simp
  then obtain v where v: "currentWindow st t = Some v" using currentWindow_exists [OF c(1-3) assms(3) p(2)] p(1) by auto
  note d = currentWindow_SomeD [OF v]
  have "sw_startUs v = sw_startUs w" "sw_endUs v = sw_endUs w" using c(6,7) d(6,7) p(1) by (simp_all add: word_unat_eq_iff)
  moreover have "State_counter st t - State_counter st t mod ucast (es_presence st) = State_counter st now - State_counter st now mod ucast (es_presence st)"
    using p(3) by (simp add: word_unat_eq_iff unat_minus_mod unat_ucast_up)
  moreover have "State_channel st t = State_channel st now" using p(3) assms(2) by (simp add: State_channel_def sequence_channel_def)
  moreover have f: "sw_counter x = State_counter st y - State_counter st y mod ucast (es_presence st)" "sw_channel x = State_channel st y"
    "x = ScheduledWindow0\<lparr>sw_startUs := sw_startUs x, sw_endUs := sw_endUs x, sw_counter := sw_counter x, sw_channel := sw_channel x, sw_presence := es_presence st\<rparr>"
    if "currentWindow st y = Some x" for x y
    using that by (auto simp: currentWindow_def Let_def split: if_splits)
  ultimately have "v = w" using f [OF v] f [OF assms(1)] by metis
  then show ?thesis using v c(5-7) lt by (simp add: word_le_nat_alt word_less_nat_alt)
qed

theorem windows_partition_time_witness:
  "\<exists>w. currentWindow sample_state 66540 = Some w \<and> currentWindow sample_state 132071 = Some w \<and>
     unat (sw_endUs w) = unat (sw_startUs w) + 65536"
proof -
  obtain w where w: "currentWindow sample_state 66540 = Some w" "sw_startUs w \<le> 132071" "132071 < sw_endUs w"
  proof -
    have "map_option (\<lambda>w. sw_startUs w \<le> 132071 \<and> 132071 < sw_endUs w) (currentWindow sample_state 66540) = Some True" by code_simp
    with that show thesis by auto
  qed
  have "unat (sq_step (es_sequence sample_state)) + 1 = unat (es_presence sample_state)" "es_epoch sample_state \<le> 132071"
    "es_presence sample_state = 4" by code_simp+
  with windows_partition_time [OF w(1) _ _ w(2,3)] w(1) show ?thesis by auto
qed

section \<open>The scheduler's guarantees\<close>

text \<open>
  C27: for every driver, every history of public calls and every change of the election state between
  them, the calls that reach the radio and the native side are in order (reservations of 1 to 100 ms on a real
  channel only while nothing is held, starts and restores only with the lease, ends only for started
  windows), the scheduler rests in a resting phase, a stopped or idle scheduler holds neither lease nor
  window, and an open one holds both, opened at most five time units late and before its end.
\<close>

theorem scheduler_keeps_order:
  fixes drv :: window_driver and ops :: "sched_op list" and e :: ElectionState
  defines "s \<equiv> fold (sched_exec drv) ops (WindowScheduler0 e)"
  shows "(\<exists>started. ledger (ws_log s) = Some (ws_leaseOwned s, started)) \<and> ws_phase s \<in> {Stopped, Idle, Reserved, Open, Failed} \<and>
    (ws_phase s \<in> {Stopped, Idle} \<longrightarrow> ledger (ws_log s) = Some (False, False)) \<and>
    (ws_phase s = Reserved \<longrightarrow> ledger (ws_log s) = Some (True, False)) \<and>
    (ws_phase s = Open \<longrightarrow> ledger (ws_log s) = Some (True, True) \<and> sw_startUs (ws_window s) \<le> sw_actualStartUs (ws_window s) \<and>
       sw_actualStartUs (ws_window s) \<le> sw_startUs (ws_window s) + lateToleranceUs \<and> sw_actualStartUs (ws_window s) < sw_endUs (ws_window s))"
proof -
  have "sched_inv s" unfolding s_def by (rule sched_inv_history [OF sched_inv_initial])
  then show ?thesis by (cases "ws_phase s") (auto simp: sched_inv_def home_def held_def opened_def leaving_def)
qed

theorem scheduler_keeps_order_witness:
  "ws_phase (sched_exec (steady_driver 66540) (SStart 100000 0) (WindowScheduler0 sample_state)) = Idle \<and>
   ledger (ws_log (sched_exec (steady_driver 66540) (SStart 100000 0) (WindowScheduler0 sample_state))) = Some (False, False)"
proof -
  have "ws_phase (sched_exec (steady_driver 66540) (SStart 100000 0) (WindowScheduler0 sample_state)) = Idle" by code_simp
  then show ?thesis using scheduler_keeps_order [of "steady_driver 66540" "[SStart 100000 0]" sample_state] by simp
qed

text \<open>
  When the scheduler permits a transmission, a window is open and the lease is held, and after the
  request was made the driver reported the window's channel, readiness, permission for that channel and
  a time at least two time units after the window was opened and more than two before it ends; group
  traffic is confined to slots 0 and 10. The query itself touches neither radio nor timer.
\<close>

theorem canTransmit_safe:
  assumes "sched_inv s" and "run_state (canTransmit drv now multicast) s = (True, t)"
  shows "ws_phase s = Open \<and> \<not> ws_stopRequested s \<and> ledger (ws_log s) = Some (True, True) \<and> ws_log t = ws_log s \<and>
    (let w = ws_window s; k = ws_step s; observed = da_now (drv (k + 3)) in
      da_channel (drv k) = sw_channel w \<and> da_ready (drv (k + 1)) \<and> da_allowed (drv (k + 2)) (sw_channel w) \<and> now \<le> observed \<and>
      unat (sw_actualStartUs w) + 2048 \<le> unat observed \<and> unat observed + 2048 < unat (sw_endUs w) \<and>
      (multicast \<longrightarrow> (unat (sw_counter w) div unat (sw_presence w)) mod 16 \<in> {0, 10}))"
proof -
  have guard: "unat (sw_actualStartUs w) + 2048 \<le> unat n \<and> unat n + 2048 < unat (sw_endUs w)" if "in_guard w n" for w n
    using that by (auto simp: in_guard_def guardUs_def word_less_nat_alt word_le_nat_alt unat_sub not_less not_le)
  have "wp (canTransmit drv now multicast) (\<lambda>r t. r \<longrightarrow> ws_phase s = Open \<and> \<not> ws_stopRequested s \<and> ws_log t = ws_log s \<and>
    (let w = ws_window s; k = ws_step s; observed = da_now (drv (k + 3)) in
      da_channel (drv k) = sw_channel w \<and> da_ready (drv (k + 1)) \<and> da_allowed (drv (k + 2)) (sw_channel w) \<and> now \<le> observed \<and> in_guard w observed \<and>
      (multicast \<longrightarrow> (unat (sw_counter w) div unat (sw_presence w)) mod 16 \<in> {0, 10}))) s"
    unfolding canTransmit_def by (simp add: wp_simps Let_def slots_def numeral_3_eq_3 numeral_2_eq_2 not_less)
  then have r: "ws_phase s = Open \<and> \<not> ws_stopRequested s \<and> ws_log t = ws_log s \<and>
    (let w = ws_window s; k = ws_step s; observed = da_now (drv (k + 3)) in
      da_channel (drv k) = sw_channel w \<and> da_ready (drv (k + 1)) \<and> da_allowed (drv (k + 2)) (sw_channel w) \<and> now \<le> observed \<and> in_guard w observed \<and>
      (multicast \<longrightarrow> (unat (sw_counter w) div unat (sw_presence w)) mod 16 \<in> {0, 10}))"
    using assms(2) by (simp add: wp_def)
  moreover have "ledger (ws_log s) = Some (True, True)" using assms(1) r by (simp add: sched_inv_def opened_def)
  ultimately show ?thesis using guard unfolding Let_def by blast
qed

theorem canTransmit_safe_witness:
  "fst (run_state (canTransmit (steady_driver 70000) 69999 False) sample_open) \<and> 66540 + 2048 \<le> unat (70000 :: u64)"
proof -
  have r: "fst (run_state (canTransmit (steady_driver 70000) 69999 False) sample_open)" by code_simp
  then have "run_state (canTransmit (steady_driver 70000) 69999 False) sample_open =
      (True, snd (run_state (canTransmit (steady_driver 70000) 69999 False) sample_open))" by (simp add: prod_eq_iff)
  from canTransmit_safe [OF sched_inv_sample this] r show ?thesis by (simp add: Let_def steady_driver_def sample_open_eval)
qed

lemma returnHome_good:
  assumes "leaving s" "\<not> ws_nativeResetRequired s" "ws_stopRequested s" "\<And>k. da_ok (drv k)"
  shows "wp (returnHome drv) (\<lambda>r t. r \<and> ws_phase t = Stopped \<and> home t) s"
  using assms unfolding returnHome_def restore_def by (auto simp: wp_simps leaving_def home_def)

lemma windowEnd_good: "(\<And>k. da_ok (drv k)) \<Longrightarrow> wp (windowEnd drv w t) (\<lambda>r u. r \<and> ws_nativeResetRequired u = ws_nativeResetRequired s) s"
  unfolding windowEnd_def by (simp add: dispatch_def stop_callback_def wp_simps)

lemma closeWindow_good:
  assumes "\<not> ws_nativeResetRequired s" "\<And>k. da_ok (drv k)" "\<And>k u. da_wire (drv k) u \<noteq> None" "sw_actualStartUs (ws_window s) \<le> now"
  shows "wp (closeWindow drv now) (\<lambda>_ t. \<not> ws_nativeResetRequired t) s"
proof (cases "ws_phase s = Open")
  case True
  let ?s = "s\<lparr>ws_phase := Closing\<rparr>"
  have "\<not> now < sw_actualStartUs (ws_window s)" using assms(4) by simp
  then have ended: "wp (if now < sw_actualStartUs (ws_window s) then State_Monad.return False
         else do {
           wire \<leftarrow> wireTime drv (if now < sw_endUs (ws_window s) then now else sw_endUs (ws_window s));
           (case wire of None \<Rightarrow> State_Monad.return False | Some t \<Rightarrow> windowEnd drv (ws_window s) t) })
       (\<lambda>r u. r \<and> ws_nativeResetRequired u = ws_nativeResetRequired s) ?s"
    using windowEnd_good [OF assms(2), where s = "?s\<lparr>ws_step := Suc (ws_step s)\<rparr>"]
    by (simp add: wp_bind wp_query split: option.split) (simp add: assms(3))
  show ?thesis
    unfolding closeWindow_def Let_def
    by (simp only: wp_bind wp_get wp_unless wp_modify True simp_thms if_False)
      (rule wp_mono [OF ended], use assms(1) in \<open>auto simp: wp_simps\<close>)
qed (use assms(1) in \<open>simp add: closeWindow_def wp_simps\<close>)

text \<open>
  C28: stopping always succeeds with a working driver. From every state the scheduler can rest in, if
  no native reset is outstanding, the driver's calls succeed and its clock has not run backwards past
  the start of the window, \<open>stop\<close> returns true: the window is closed, the radio restored and the
  scheduler stopped.
\<close>

theorem stop_succeeds:
  assumes "sched_inv s" "\<not> ws_nativeResetRequired s" and "\<forall>k. da_ok (drv k) \<and> (\<forall>u. da_wire (drv k) u \<noteq> None) \<and> sw_actualStartUs (ws_window s) \<le> da_now (drv k)"
  shows "\<exists>t. run_state (WindowScheduler_stop drv) s = (True, t) \<and> ws_phase t = Stopped \<and> ws_stopRequested t \<and> \<not> ws_leaseOwned t \<and>
    ledger (ws_log t) = Some (False, False)"
proof -
  let ?t = "s\<lparr>ws_stopRequested := True, ws_step := Suc (ws_step s), ws_log := ws_log s @ [CancelTimer]\<rparr>"
  have ok: "\<And>k. da_ok (drv k)" "\<And>k u. da_wire (drv k) u \<noteq> None" "\<And>k. sw_actualStartUs (ws_window s) \<le> da_now (drv k)" using assms(3) by auto
  have inv: "phase_inv (ws_phase s) ?t" using assms(1) by (cases "ws_phase s") (simp_all add: sched_inv_def home_def held_def opened_def leaving_def)
  let ?Q = "\<lambda>r t. r \<and> ws_phase t = Stopped \<and> home t"
  have "wp (WindowScheduler_stop drv) ?Q s"
  proof (cases "ws_phase s = Open")
    case True
    let ?u = "?t\<lparr>ws_step := Suc (ws_step ?t)\<rparr>"
    have o: "opened ?u" "ws_phase ?u = Open" "ws_stopRequested ?u" using inv True by (simp_all add: opened_def)
    have "wp (closeWindow drv n) (\<lambda>_. wp (returnHome drv) ?Q) ?u" if "sw_actualStartUs (ws_window s) \<le> n" for n
      by (rule wp_mono [OF wp_conj [OF closeWindow_ok [OF o(1,2)] closeWindow_good]]) (use that assms(2) ok o(3) returnHome_good in auto)
    then show ?thesis using True ok(3) unfolding WindowScheduler_stop_def
      by (simp add: wp_bind wp_modify wp_cancelTimer wp_get wp_unless wp_query)
  next
    case False
    then show ?thesis
      using inv assms(2) returnHome_good [of ?t drv] ok(1) home_leaving [of ?t] held_leaving [of ?t] unfolding WindowScheduler_stop_def
      by (cases "ws_phase s") (auto simp: wp_bind wp_modify wp_cancelTimer wp_get wp_unless wp_return)
  qed
  moreover have "wp (WindowScheduler_stop drv) halted s" by (rule stop_ok [OF assms(1)])
  ultimately show ?thesis by (auto simp: wp_def halted_def home_def split: prod.splits)
qed

theorem stop_succeeds_witness:
  "\<exists>t. run_state (WindowScheduler_stop (steady_driver 70000)) sample_open = (True, t) \<and> ws_phase t = Stopped \<and>
     ledger (ws_log t) = Some (False, False)"
  using stop_succeeds [OF sched_inv_sample, of "steady_driver 70000"] by (auto simp: steady_driver_def sample_open_eval)

text \<open>
  C29: the preparation lead never eats into the window. After any observed cost the lead plus the
  presence period fits the maximum visit whenever the period alone does, and it is zero otherwise.
\<close>

theorem observeCost_budget:
  fixes cost :: u64 and s :: WindowScheduler
  defines "t \<equiv> observeCost cost s" and "period \<equiv> unat (es_presence (ws_state s)) * 16384"
  shows "unat (ws_lead t) = 0 \<and> period \<ge> unat (ws_maximumVisit s) \<or>
    unat (ws_lead t) + period \<le> unat (ws_maximumVisit s) \<and> ws_maximumVisit t = ws_maximumVisit s"
proof -
  define p32 where "p32 = (ucast (es_presence (ws_state s)) * ucast awUs :: u32)"
  have "unat (es_presence (ws_state s)) * 16384 < 4294967296" using unat_u8_less [of "es_presence (ws_state s)"] by linarith
  then have p: "unat p32 = period"
    by (simp add: p32_def period_def awUs_def unat_word_ariths(2) unat_ucast_up)
  define budget where "budget = (if p32 < ws_maximumVisit s then ws_maximumVisit s - p32 else 0)"
  have cap: "unat (if h \<ge> budget \<or> budget - h < 1000 then budget else h + 1000) \<le> unat budget" for h
  proof (cases "h \<ge> budget \<or> budget - h < 1000")
    case False
    then have "unat h + 1000 \<le> unat budget" by (auto simp: word_le_nat_alt word_less_nat_alt unat_sub not_le not_less)
    then show ?thesis using False unat_u32_less [of budget] by (simp add: unat_word_ariths(1))
  qed simp
  have "unat (ws_lead t) \<le> unat budget"
    unfolding t_def observeCost_def Let_def p32_def [symmetric] budget_def [symmetric] using cap by simp
  moreover have "ws_maximumVisit t = ws_maximumVisit s" by (simp add: t_def)
  ultimately show ?thesis using p by (auto simp: budget_def word_less_nat_alt unat_sub word_le_nat_alt not_less split: if_splits)
qed

theorem observeCost_budget_witness: "unat (ws_lead (observeCost 12345 sample_open)) + 65536 \<le> 100000"
proof -
  have "es_presence sample_state = 4" by code_simp
  then show ?thesis using observeCost_budget [of 12345 sample_open] by (simp add: sample_open_eval)
qed

end
