(* ===== verification/Awdl_Receive.thy ===== *)
theory Awdl_Receive
  imports Awdl_Data Awdl_Sync
begin

text \<open>
  The receive registration between the hardware layer and the AWDL interface
  (\<open>include/AWDL/RTWAwdlReceiveRegistration.hpp\<close>), the passive observer (\<open>RTWAwdlObserver.hpp\<close>) and the receive filter
  (\<open>RTWAwdlRxPolicy.hpp\<close>). The lock makes each critical section one step; a receive worker that has passed the unlocked
  test of \<open>dispatchReceiver\<close> and has not taken the lock yet is kept in the list of pending dispatches, so that every
  interleaving of workers with the control calls is a sequence of steps.
\<close>

section \<open>Definitions\<close>

datatype FrameKind = KindAction | KindIPv6

record ReceiveMetadata =
  rm_kind :: FrameKind
  rm_rssi :: int
  rm_frequency :: u16
  rm_radioTimestamp :: u32
  rm_radioTimestampValid :: bool

text \<open>Objects and handlers are identified by numbers; \<open>None\<close> is the null pointer.\<close>

record ReceiveRegistration =
  rr_lock :: bool
  rr_owner :: "nat option"
  rr_handler :: "nat option"
  rr_localAddress :: bytes
  rr_enabled :: bool

definition ReceiveRegistration0 :: ReceiveRegistration where
  "ReceiveRegistration0 = \<lparr>rr_lock = False, rr_owner = None, rr_handler = None, rr_localAddress = zeros 6, rr_enabled = False\<rparr>"

text \<open>\<open>allocated\<close> is the outcome of \<open>IOLockAlloc\<close>.\<close>

definition initializeReceiver :: "bool \<Rightarrow> ReceiveRegistration \<Rightarrow> bool \<times> ReceiveRegistration" where
  "initializeReceiver allocated r =
     (if rr_lock r then (False, r) else (allocated, ReceiveRegistration0\<lparr>rr_lock := allocated\<rparr>))"

definition openReceiver :: "bytes option \<Rightarrow> ReceiveRegistration \<Rightarrow> bool \<times> ReceiveRegistration" where
  "openReceiver mac r = (case mac of None \<Rightarrow> (False, r) | Some mac \<Rightarrow>
     if \<not> rr_lock r \<or> mac ! 0 AND 1 \<noteq> 0 then (False, r)
     else if foldr (OR) (take 6 mac) 0 = 0 then (False, r)
     else
       let opened = (\<not> rr_enabled r \<and> rr_owner r = None) in
       (opened, if opened then r\<lparr>rr_localAddress := take 6 mac, rr_enabled := True\<rparr> else r))"

text \<open>The reference counts of the objects.\<close>

type_synonym refs = "nat \<Rightarrow> int"

definition retain :: "nat option \<Rightarrow> refs \<Rightarrow> refs" where
  "retain x refs = (case x of None \<Rightarrow> refs | Some n \<Rightarrow> refs(n := refs n + 1))"

definition release :: "nat option \<Rightarrow> refs \<Rightarrow> refs" where
  "release x refs = (case x of None \<Rightarrow> refs | Some n \<Rightarrow> refs(n := refs n - 1))"

definition bindReceiver :: "nat option \<Rightarrow> nat option \<Rightarrow> ReceiveRegistration \<Rightarrow> refs \<Rightarrow> bool \<times> ReceiveRegistration \<times> refs" where
  "bindReceiver owner handler r refs =
     (if \<not> rr_lock r \<or> (owner \<noteq> None) \<noteq> (handler \<noteq> None) then (False, r, refs)
      else
        let refs = retain owner refs;
            accepted = (owner = None \<or> rr_enabled r);
            old = (if accepted then rr_owner r else None);
            r = (if accepted then r\<lparr>rr_owner := owner, rr_handler := handler\<rparr> else r);
            refs = release old refs;
            refs = (if \<not> accepted then release owner refs else refs)
        in (accepted, r, refs))"

definition closeReceiver :: "ReceiveRegistration \<Rightarrow> refs \<Rightarrow> ReceiveRegistration \<times> refs" where
  "closeReceiver r refs =
     (if \<not> rr_lock r then (r, refs)
      else (r\<lparr>rr_enabled := False, rr_owner := None, rr_handler := None, rr_localAddress := zeros 6\<rparr>, release (rr_owner r) refs))"

definition destroyReceiver :: "ReceiveRegistration \<Rightarrow> refs \<Rightarrow> ReceiveRegistration \<times> refs" where
  "destroyReceiver r refs = (ReceiveRegistration0, snd (closeReceiver r refs))"

text \<open>\<open>dispatchReceiver\<close>: the test before the lock, the classification of a frame, and the critical section.\<close>

definition dispatch_enters :: "ReceiveRegistration \<Rightarrow> bytes option \<Rightarrow> bool" where
  "dispatch_enters r frame = (case frame of None \<Rightarrow> False | Some f \<Rightarrow>
     \<not> (\<not> rr_lock r \<or> \<not> rr_enabled r \<or> length f < 24 \<or> length f > maximumAggregateFrame))"

definition dispatch_kind :: "bytes \<Rightarrow> bytes \<Rightarrow> FrameKind option" where
  "dispatch_kind local f =
     (let addressed = (f ! 4 AND 1 \<noteq> 0 \<or> piece 4 6 f = local); sourceBits = foldr (OR) (piece 10 6 f) 0 in
      if addressed \<and> sourceBits \<noteq> 0 \<and> f ! 10 AND 1 = 0 \<and> piece 10 6 f \<noteq> local then
        (case parseFrame (Some f) of (parsed, action) \<Rightarrow>
          if parsed = ParseValid \<and> (ai_subtype action = 0 \<or> ai_subtype action = 3) \<and> piece 16 6 f = awdl_bssid then Some KindAction
          else if DataCodec_inspect (Some f) \<noteq> None \<or> DataCodec_validAggregate (Some f) then Some KindIPv6
          else None)
      else None)"

text \<open>A call of the handler: the handler, its owner, the frame and the metadata.\<close>

type_synonym call = "nat \<times> nat \<times> bytes \<times> ReceiveMetadata"

definition dispatch_locked :: "ReceiveRegistration \<Rightarrow> bytes \<Rightarrow> ReceiveMetadata \<Rightarrow> call option" where
  "dispatch_locked r f metadata =
     (if rr_enabled r \<and> rr_owner r \<noteq> None \<and> rr_handler r \<noteq> None then
        (case dispatch_kind (rr_localAddress r) f of
           None \<Rightarrow> None
         | Some kind \<Rightarrow> Some (the (rr_handler r), the (rr_owner r), f, metadata\<lparr>rm_kind := kind\<rparr>))
      else None)"

definition dispatchReceiver :: "ReceiveRegistration \<Rightarrow> bytes option \<Rightarrow> ReceiveMetadata \<Rightarrow> bool \<times> call option" where
  "dispatchReceiver r frame metadata =
     (if \<not> dispatch_enters r frame then (False, None)
      else let c = dispatch_locked r (the frame) metadata in (c \<noteq> None, c))"

section \<open>The passive observer\<close>

record Observer =
  ob_actionFrames :: u64
  ob_vendorActions :: u64
  ob_appleVendorActions :: u64
  ob_valid :: u64
  ob_malformed :: u64
  ob_syncEnvelopes :: u64
  ob_channelEnvelopes :: u64
  ob_timedActions :: u64
  ob_syncDecoded :: u64
  ob_syncDecodeFailures :: u64
  ob_lastRadioTimestamp :: u32
  ob_lastFrequency :: u32
  ob_lastVersion :: u32
  ob_lastSubtype :: u32

definition Observer0 :: Observer where
  "Observer0 = \<lparr>ob_actionFrames = 0, ob_vendorActions = 0, ob_appleVendorActions = 0, ob_valid = 0, ob_malformed = 0,
     ob_syncEnvelopes = 0, ob_channelEnvelopes = 0, ob_timedActions = 0, ob_syncDecoded = 0, ob_syncDecodeFailures = 0,
     ob_lastRadioTimestamp = 0, ob_lastFrequency = 0, ob_lastVersion = 0, ob_lastSubtype = 0\<rparr>"

definition observe_header :: "bytes \<Rightarrow> Observer \<Rightarrow> Observer" where
  "observe_header f ob =
     (if length f \<ge> 24 \<and> f ! 0 = 0xd0 then
        let ob = ob\<lparr>ob_actionFrames := ob_actionFrames ob + 1\<rparr> in
        if f ! 1 AND 0x40 = 0 \<and> length f \<ge> 25 \<and> f ! 24 = 127 then
          let ob = ob\<lparr>ob_vendorActions := ob_vendorActions ob + 1\<rparr> in
          if length f \<ge> 28 \<and> f ! 25 = 0 \<and> f ! 26 = 0x17 \<and> f ! 27 = 0xf2
          then ob\<lparr>ob_appleVendorActions := ob_appleVendorActions ob + 1\<rparr> else ob
        else ob
      else ob)"

definition observe_valid :: "bytes \<Rightarrow> u16 \<Rightarrow> u32 \<Rightarrow> bool \<Rightarrow> ActionInfo \<Rightarrow> Observer \<Rightarrow> Observer" where
  "observe_valid f frequency radioTimestamp radioTimestampValid info ob =
     (let ob = ob\<lparr>ob_valid := ob_valid ob + 1\<rparr>;
          ob = (if radioTimestampValid then ob\<lparr>ob_timedActions := ob_timedActions ob + 1, ob_lastRadioTimestamp := radioTimestamp\<rparr> else ob);
          ob = (if ai_tlvTypes info AND push_bit 4 1 \<noteq> 0 then
                  let ob = ob\<lparr>ob_syncEnvelopes := ob_syncEnvelopes ob + 1\<rparr> in
                  if fst (decodeSyncAction (Some (drop 24 f))) = SyncValid then ob\<lparr>ob_syncDecoded := ob_syncDecoded ob + 1\<rparr>
                  else ob\<lparr>ob_syncDecodeFailures := ob_syncDecodeFailures ob + 1\<rparr>
                else ob);
          ob = (if ai_tlvTypes info AND (push_bit 18 1 OR push_bit 32 1) \<noteq> 0 then ob\<lparr>ob_channelEnvelopes := ob_channelEnvelopes ob + 1\<rparr> else ob)
      in ob\<lparr>ob_lastFrequency := ucast frequency, ob_lastVersion := ucast (ai_version info), ob_lastSubtype := ucast (ai_subtype info)\<rparr>)"

definition observe :: "bytes option \<Rightarrow> u16 \<Rightarrow> u32 \<Rightarrow> bool \<Rightarrow> Observer \<Rightarrow> Observer" where
  "observe frame frequency radioTimestamp radioTimestampValid ob =
     (let ob = (case frame of None \<Rightarrow> ob | Some f \<Rightarrow> observe_header f ob) in
      case parseFrame frame of
        (ParseMalformed, _) \<Rightarrow> ob\<lparr>ob_malformed := ob_malformed ob + 1\<rparr>
      | (ParseValid, info) \<Rightarrow> observe_valid (the frame) frequency radioTimestamp radioTimestampValid info ob
      | (NotAwdl, _) \<Rightarrow> ob)"

section \<open>The receive filter\<close>

definition receiveFlags :: "bool \<Rightarrow> bool \<Rightarrow> bool \<Rightarrow> u32 \<Rightarrow> u32 \<Rightarrow> u32 \<Rightarrow> u32" where
  "receiveFlags scanning discovery allMulticast otherBss beaconPromiscuous multicast =
     (if scanning \<or> discovery then otherBss OR beaconPromiscuous else 0) OR (if allMulticast \<or> discovery then multicast else 0)"


section \<open>Interleavings\<close>

record rx_state =
  rx_reg :: ReceiveRegistration
  rx_refs :: refs
  rx_pending :: "(bytes \<times> ReceiveMetadata) list"
  rx_calls :: "call list"

text \<open>
  The control calls, a worker that passes the first test of a dispatch, and a waiting worker that takes the lock. The
  registration is destroyed only when no worker is left, as its caller must see to.
\<close>

datatype rx_op = Initialize bool | Open "bytes option" | Bind "nat option" "nat option" | Close | Destroy
  | Enter bytes ReceiveMetadata | Locked nat

fun rx_legal :: "rx_op \<Rightarrow> rx_state \<Rightarrow> bool" where
  "rx_legal Destroy s \<longleftrightarrow> rx_pending s = []"
| "rx_legal (Open (Some mac)) s \<longleftrightarrow> length mac = 6"
| "rx_legal (Locked i) s \<longleftrightarrow> i < length (rx_pending s)"
| "rx_legal _ s \<longleftrightarrow> True"

fun rx_exec :: "rx_op \<Rightarrow> rx_state \<Rightarrow> rx_state" where
  "rx_exec (Initialize a) s = s\<lparr>rx_reg := snd (initializeReceiver a (rx_reg s))\<rparr>"
| "rx_exec (Open mac) s = s\<lparr>rx_reg := snd (openReceiver mac (rx_reg s))\<rparr>"
| "rx_exec (Bind owner handler) s =
     (case bindReceiver owner handler (rx_reg s) (rx_refs s) of (ok, r, refs) \<Rightarrow> s\<lparr>rx_reg := r, rx_refs := refs\<rparr>)"
| "rx_exec Close s = (case closeReceiver (rx_reg s) (rx_refs s) of (r, refs) \<Rightarrow> s\<lparr>rx_reg := r, rx_refs := refs\<rparr>)"
| "rx_exec Destroy s = (case destroyReceiver (rx_reg s) (rx_refs s) of (r, refs) \<Rightarrow> s\<lparr>rx_reg := r, rx_refs := refs\<rparr>)"
| "rx_exec (Enter f metadata) s = (if dispatch_enters (rx_reg s) (Some f) then s\<lparr>rx_pending := rx_pending s @ [(f, metadata)]\<rparr> else s)"
| "rx_exec (Locked i) s =
     (case rx_pending s ! i of (f, metadata) \<Rightarrow>
        let s = s\<lparr>rx_pending := take i (rx_pending s) @ drop (Suc i) (rx_pending s)\<rparr> in
        (case dispatch_locked (rx_reg s) f metadata of None \<Rightarrow> s | Some c \<Rightarrow> s\<lparr>rx_calls := rx_calls s @ [c]\<rparr>))"

fun rx_run :: "rx_op list \<Rightarrow> rx_state \<Rightarrow> rx_state option" where
  "rx_run [] s = Some s"
| "rx_run (op # ops) s = (if rx_legal op s then rx_run ops (rx_exec op s) else None)"

definition rx_start :: "refs \<Rightarrow> rx_state" where
  "rx_start refs = \<lparr>rx_reg = ReceiveRegistration0, rx_refs = refs, rx_pending = [], rx_calls = []\<rparr>"

fun binds :: "rx_op \<Rightarrow> bool" where
  "binds (Bind (Some owner) handler) \<longleftrightarrow> True"
| "binds _ \<longleftrightarrow> False"

section \<open>References and the closing barrier\<close>

definition reg_ok :: "ReceiveRegistration \<Rightarrow> bool" where
  "reg_ok r \<longleftrightarrow> (rr_owner r = None \<longleftrightarrow> rr_handler r = None) \<and> (rr_owner r \<noteq> None \<longrightarrow> rr_enabled r) \<and>
     (rr_enabled r \<longrightarrow> rr_lock r \<and> length (rr_localAddress r) = 6 \<and> unicast (rr_localAddress r))"

definition refs_ok :: "refs \<Rightarrow> ReceiveRegistration \<Rightarrow> refs \<Rightarrow> bool" where
  "refs_ok base r refs \<longleftrightarrow> (\<forall>n. refs n = base n + (if rr_owner r = Some n then 1 else 0))"

lemma reg_ok_calls:
  "reg_ok ReceiveRegistration0"
  "reg_ok r \<Longrightarrow> reg_ok (snd (initializeReceiver a r))"
  "reg_ok r \<Longrightarrow> (case mac of None \<Rightarrow> True | Some m \<Rightarrow> length m = 6) \<Longrightarrow> reg_ok (snd (openReceiver mac r))"
  "reg_ok r \<Longrightarrow> reg_ok (fst (snd (bindReceiver owner handler r refs)))"
  "reg_ok r \<Longrightarrow> reg_ok (fst (closeReceiver r refs))"
  by (auto simp: reg_ok_def ReceiveRegistration0_def initializeReceiver_def openReceiver_def bindReceiver_def closeReceiver_def
      unicast_def Let_def split: option.splits)

lemma refs_ok_calls:
  "reg_ok r \<Longrightarrow> refs_ok base r refs \<Longrightarrow> refs_ok base (snd (initializeReceiver a r)) refs"
  "refs_ok base r refs \<Longrightarrow> refs_ok base (snd (openReceiver mac r)) refs"
  "refs_ok base r refs \<Longrightarrow> refs_ok base (fst (snd (bindReceiver owner handler r refs))) (snd (snd (bindReceiver owner handler r refs)))"
  "refs_ok base r refs \<Longrightarrow> refs_ok base (fst (closeReceiver r refs)) (snd (closeReceiver r refs))"
  by (auto simp: refs_ok_def reg_ok_def ReceiveRegistration0_def initializeReceiver_def openReceiver_def bindReceiver_def closeReceiver_def
      retain_def release_def Let_def split: option.splits)

lemma refs_ok_destroy: "reg_ok r \<Longrightarrow> refs_ok base r refs \<Longrightarrow> refs_ok base (fst (destroyReceiver r refs)) (snd (destroyReceiver r refs))"
  by (auto simp: refs_ok_def reg_ok_def destroyReceiver_def closeReceiver_def ReceiveRegistration0_def release_def split: option.splits)

definition rx_inv :: "refs \<Rightarrow> rx_state \<Rightarrow> bool" where
  "rx_inv base s \<longleftrightarrow> reg_ok (rx_reg s) \<and> refs_ok base (rx_reg s) (rx_refs s)"

lemma rx_inv_exec: "rx_inv base s \<Longrightarrow> rx_legal op s \<Longrightarrow> rx_inv base (rx_exec op s)"
proof (cases op)
  case (Open mac)
  assume "rx_inv base s" "rx_legal op s"
  then show ?thesis using Open by (cases mac) (simp_all add: rx_inv_def reg_ok_calls refs_ok_calls)
next
  case (Destroy)
  assume "rx_inv base s"
  then show ?thesis using Destroy refs_ok_destroy [of "rx_reg s" base "rx_refs s"]
    by (simp add: rx_inv_def destroyReceiver_def reg_ok_calls)
qed (simp_all add: rx_inv_def reg_ok_calls refs_ok_calls Let_def split_beta split: option.split)

lemma rx_inv_run: "rx_inv base s \<Longrightarrow> rx_run ops s = Some s' \<Longrightarrow> rx_inv base s'"
  by (induction ops arbitrary: s) (auto split: if_splits intro: rx_inv_exec)

lemma rx_inv_start: "rx_inv base (rx_start base)"
  by (simp add: rx_inv_def rx_start_def reg_ok_calls) (simp add: refs_ok_def ReceiveRegistration0_def)

text \<open>Without an owner a call of the handler cannot happen, and only a binding brings an owner.\<close>

lemma unbound_exec:
  assumes "rr_owner (rx_reg s) = None" "\<not> binds op"
  shows "rr_owner (rx_reg (rx_exec op s)) = None \<and> rx_calls (rx_exec op s) = rx_calls s"
proof (cases op)
  case (Bind owner handler)
  then show ?thesis using assms by (cases owner) (simp_all add: bindReceiver_def Let_def split_beta)
qed (use assms in \<open>simp_all add: initializeReceiver_def openReceiver_def closeReceiver_def destroyReceiver_def dispatch_locked_def
    ReceiveRegistration0_def Let_def split_beta split: option.split\<close>)

lemma unbound_run:
  "rr_owner (rx_reg s) = None \<Longrightarrow> list_all (\<lambda>op. \<not> binds op) ops \<Longrightarrow> rx_run ops s = Some s' \<Longrightarrow>
     rr_owner (rx_reg s') = None \<and> rx_calls s' = rx_calls s"
proof (induction ops arbitrary: s)
  case (Cons op ops)
  then show ?case using unbound_exec [of s op] Cons.IH [of "rx_exec op s"] by (simp split: if_splits)
qed simp

lemma close_unbound: "rx_inv base s \<Longrightarrow> rr_owner (rx_reg (rx_exec Close s)) = None \<and> rx_calls (rx_exec Close s) = rx_calls s"
  by (auto simp: rx_inv_def reg_ok_def closeReceiver_def)


definition sample_local :: bytes where
  "sample_local = [2, 0, 0, 0, 0, 7]"

definition sample_metadata :: ReceiveMetadata where
  "sample_metadata = \<lparr>rm_kind = KindAction, rm_rssi = - 40, rm_frequency = 5745, rm_radioTimestamp = 7, rm_radioTimestampValid = True\<rparr>"

definition sample_rx :: "rx_op list" where
  "sample_rx = [Initialize True, Open (Some sample_local), Bind (Some 7) (Some 1), Enter sample_frame sample_metadata]"

lemma sample_rx_run:
  obtains s where "rx_run sample_rx (rx_start (\<lambda>_. 0)) = Some s" "rr_owner (rx_reg s) = Some 7" "length (rx_pending s) = 1"
proof -
  have l: "24 \<le> length sample_frame \<and> length sample_frame \<le> maximumAggregateFrame"
    by (simp add: sample_frame_def encode_prefix_def maximumAggregateFrame_def)
  show thesis
    by (rule that [of "\<lparr>rx_reg = \<lparr>rr_lock = True, rr_owner = Some 7, rr_handler = Some 1, rr_localAddress = sample_local, rr_enabled = True\<rparr>,
          rx_refs = (\<lambda>_. 0)(7 := 1), rx_pending = [(sample_frame, sample_metadata)], rx_calls = []\<rparr>"])
      (use l in \<open>simp_all add: sample_rx_def rx_start_def initializeReceiver_def openReceiver_def bindReceiver_def dispatch_enters_def
        ReceiveRegistration0_def sample_local_def retain_def release_def\<close>)
qed


section \<open>What is handed to the owner\<close>

lemma bssid_bytes: "24 \<le> length f \<Longrightarrow> list_all (\<lambda>i. f ! (16 + i) = bssidByte i) [0..<6] \<longleftrightarrow> piece 16 6 f = awdl_bssid"
  by (simp add: list_eq_iff_nth_eq bssidByte_def list_all_iff nth_piece Ball_def atLeast0LessThan)

lemma data_bssid:
  assumes "DataCodec_inspect (Some f) \<noteq> None \<or> DataCodec_validAggregate (Some f)"
  shows "24 \<le> length f \<and> piece 16 6 f = awdl_bssid"
proof -
  have l: "24 \<le> length f"
    using assms by (auto simp: DataCodec_inspect_def DataCodec_validAggregate_def DataCodec_inspectAggregate_def split: if_splits)
  moreover have "list_all (\<lambda>i. f ! (16 + i) = bssidByte i) [0..<6]"
    using assms by (auto simp: DataCodec_inspect_def DataCodec_validAggregate_def DataCodec_inspectAggregate_def simp del: upt_rec_numeral split: if_splits)
  ultimately show ?thesis using bssid_bytes [OF l] by blast
qed

lemma dispatch_kind_SomeD:
  assumes "dispatch_kind local f = Some kind" "24 \<le> length f"
  shows "unicast (piece 10 6 f) \<and> piece 10 6 f \<noteq> local \<and> (f ! 4 AND 1 \<noteq> 0 \<or> piece 4 6 f = local) \<and> piece 16 6 f = awdl_bssid"
proof -
  have c: "f ! 4 AND 1 \<noteq> 0 \<or> piece 4 6 f = local" "foldr (OR) (piece 10 6 f) 0 \<noteq> 0" "f ! 10 AND 1 = 0" "piece 10 6 f \<noteq> local"
    using assms(1) by (auto simp: dispatch_kind_def Let_def split: if_splits)
  have "piece 16 6 f = awdl_bssid"
    using assms(1) c data_bssid [of f] by (auto simp: dispatch_kind_def Let_def split: if_splits prod.splits)
  moreover have "unicast (piece 10 6 f)" using c(2,3) assms(2) by (simp add: unicast_def nth_piece)
  ultimately show ?thesis using c by blast
qed

lemma dispatch_kind_encoded:
  assumes "DataCodec_encode (Some e) (Some out) sequence ds = Some (n, out')" "piece 6 6 e \<noteq> local" "e ! 0 AND 1 \<noteq> 0 \<or> piece 0 6 e = local"
  shows "dispatch_kind local (take n out') = Some KindIPv6 \<and> 24 \<le> n \<and> n \<le> maximumAggregateFrame \<and> length (take n out') = n"
proof -
  obtain c c' where c: "c AND 15 = 0"
    and f: "take n out' = [0x88, 0, 0, 0] @ piece 0 6 e @ piece 6 6 e @ map bssidByte [0..<6] @ [c, c'] @ [0, 0] @ encode_prefix ds @ drop 14 e"
    using encode_frame(1) [OF assms(1)] by blast
  have v: "14 \<le> length e" "length e \<le> 14 + data_mtu" "validSource (piece 6 6 e)" "ipv6 (drop 14 e)"
    using encode_frame(2) [OF assms(1)] validSource_piece [of 6 e] by (auto simp: validEthernet_def)
  have n: "n = length e + 28" "length (take n out') = length e + 28"
    using encode_frame(3,4) [OF assms(1)] by simp_all
  have d: "take n out' ! 4 = e ! 0" "piece 4 6 (take n out') = piece 0 6 e" "piece 10 6 (take n out') = piece 6 6 e" "take n out' ! 10 = piece 6 6 e ! 0" "take n out' ! 0 = 0x88"
    using v(1) unfolding f by (simp_all add: fields nth_append nth_piece)
  have "DataCodec_inspect (Some (take n out')) \<noteq> None" unfolding f using v c by (subst inspect_encode) simp_all
  then have "dispatch_kind local (take n out') = Some KindIPv6"
    using assms(2,3) d v(3) by (simp add: dispatch_kind_def parseFrame_def validSource_def)
  then show ?thesis using n v(2) by (simp add: data_mtu_def maximumAggregateFrame_def)
qed

text \<open>
  C38: What a bound owner is handed: only frames from another station with a unicast address, sent to this station or to a
  group, with the AWDL BSSID, that are either a valid AWDL action or valid AWDL data, under the kind that fits, and the
  result says whether the handler was called. And every data frame that the codec of a peer produces for this station or
  for a group is handed over.
\<close>

theorem dispatch_hands_over:
  assumes "rr_lock r" "rr_enabled r" "rr_owner r = Some n" "rr_handler r = Some h"
  shows "(dispatchReceiver r (Some f) m = (handled, c) \<longrightarrow> (handled \<longleftrightarrow> c \<noteq> None)) \<and>
    (snd (dispatchReceiver r (Some f) m) = Some (h', n', f', m') \<longrightarrow> h' = h \<and> n' = n \<and> f' = f \<and>
       unicast (piece 10 6 f) \<and> piece 10 6 f \<noteq> rr_localAddress r \<and> (f ! 4 AND 1 \<noteq> 0 \<or> piece 4 6 f = rr_localAddress r) \<and> piece 16 6 f = awdl_bssid \<and>
       (case rm_kind m' of KindAction \<Rightarrow> fst (parseFrame (Some f)) = ParseValid
        | KindIPv6 \<Rightarrow> DataCodec_inspect (Some f) \<noteq> None \<or> DataCodec_validAggregate (Some f))) \<and>
    (DataCodec_encode (Some e) (Some out) sequence ds = Some (k, out') \<and> piece 6 6 e \<noteq> rr_localAddress r \<and> (e ! 0 AND 1 \<noteq> 0 \<or> piece 0 6 e = rr_localAddress r) \<longrightarrow>
       dispatchReceiver r (Some (take k out')) m = (True, Some (h, n, take k out', m\<lparr>rm_kind := KindIPv6\<rparr>)))"
proof (intro conjI impI)
  assume "snd (dispatchReceiver r (Some f) m) = Some (h', n', f', m')"
  then obtain kind where k: "dispatch_kind (rr_localAddress r) f = Some kind" "24 \<le> length f" "h' = h" "n' = n" "f' = f" "rm_kind m' = kind"
    using assms by (auto simp: dispatchReceiver_def dispatch_locked_def dispatch_enters_def Let_def split: if_splits option.splits)
  then have "case kind of KindAction \<Rightarrow> fst (parseFrame (Some f)) = ParseValid | KindIPv6 \<Rightarrow> DataCodec_inspect (Some f) \<noteq> None \<or> DataCodec_validAggregate (Some f)"
    by (auto simp: dispatch_kind_def Let_def split: if_splits prod.splits)
  with k dispatch_kind_SomeD [OF k(1,2)]
  show "h' = h" "n' = n" "f' = f" "unicast (piece 10 6 f)" "piece 10 6 f \<noteq> rr_localAddress r" "f ! 4 AND 1 \<noteq> 0 \<or> piece 4 6 f = rr_localAddress r"
    "piece 16 6 f = awdl_bssid" "case rm_kind m' of KindAction \<Rightarrow> fst (parseFrame (Some f)) = ParseValid
        | KindIPv6 \<Rightarrow> DataCodec_inspect (Some f) \<noteq> None \<or> DataCodec_validAggregate (Some f)" by simp_all
next
  assume "DataCodec_encode (Some e) (Some out) sequence ds = Some (k, out') \<and> piece 6 6 e \<noteq> rr_localAddress r \<and> (e ! 0 AND 1 \<noteq> 0 \<or> piece 0 6 e = rr_localAddress r)"
  then show "dispatchReceiver r (Some (take k out')) m = (True, Some (h, n, take k out', m\<lparr>rm_kind := KindIPv6\<rparr>))"
    using dispatch_kind_encoded [of e out sequence ds k out' "rr_localAddress r"] assms by (simp add: dispatchReceiver_def dispatch_enters_def dispatch_locked_def)
qed (auto simp: dispatchReceiver_def Let_def split: if_splits)

definition sample_registration :: ReceiveRegistration where
  "sample_registration = \<lparr>rr_lock = True, rr_owner = Some 7, rr_handler = Some 1, rr_localAddress = sample_local, rr_enabled = True\<rparr>"

theorem dispatch_hands_over_witness:
  "\<exists>k out'. DataCodec_encode (Some sample_ethernet) (Some (zeros 100)) 7 0x1234 = Some (k, out') \<and>
     dispatchReceiver sample_registration (Some (take k out')) sample_metadata = (True, Some (1, 7, take k out', sample_metadata\<lparr>rm_kind := KindIPv6\<rparr>))"
proof -
  have "map_option fst (DataCodec_encode (Some sample_ethernet) (Some (zeros 100)) 7 0x1234) = Some 84" by code_simp
  then obtain out' where e: "DataCodec_encode (Some sample_ethernet) (Some (zeros 100)) 7 0x1234 = Some (84, out')" by auto
  have "piece 6 6 sample_ethernet \<noteq> sample_local" "piece 0 6 sample_ethernet = sample_local" by (simp_all add: sample_ethernet_def sample_local_def piece_def)
  moreover have "rr_lock sample_registration" "rr_enabled sample_registration" "rr_owner sample_registration = Some 7" "rr_handler sample_registration = Some 1"
    "rr_localAddress sample_registration = sample_local" by (simp_all add: sample_registration_def)
  ultimately show ?thesis using dispatch_hands_over [of sample_registration 7 1] e by metis
qed

section \<open>The observer\<close>

text \<open>Every synchronization envelope the observer counts is counted as decoded or as a failure, exactly once.\<close>

definition sync_unaccounted :: "Observer \<Rightarrow> u64" where
  "sync_unaccounted ob = ob_syncEnvelopes ob - (ob_syncDecoded ob + ob_syncDecodeFailures ob)"

lemma observe_header_sync: "sync_unaccounted (observe_header f ob) = sync_unaccounted ob"
  by (simp add: observe_header_def sync_unaccounted_def Let_def)

lemma observe_valid_sync: "sync_unaccounted (observe_valid f frequency t v info ob) = sync_unaccounted ob"
proof -
  have "sync_unaccounted (ob\<lparr>ob_syncEnvelopes := ob_syncEnvelopes ob + 1, ob_syncDecoded := ob_syncDecoded ob + 1\<rparr>) = sync_unaccounted ob"
    "sync_unaccounted (ob\<lparr>ob_syncEnvelopes := ob_syncEnvelopes ob + 1, ob_syncDecodeFailures := ob_syncDecodeFailures ob + 1\<rparr>) = sync_unaccounted ob"
    by (simp_all add: sync_unaccounted_def)
  then show ?thesis by (simp add: observe_valid_def sync_unaccounted_def Let_def)
qed

lemma observe_sync: "sync_unaccounted (observe frame frequency t v ob) = sync_unaccounted ob"
proof -
  have "sync_unaccounted (ob\<lparr>ob_malformed := x\<rparr>) = sync_unaccounted ob" for x ob by (simp add: sync_unaccounted_def)
  then show ?thesis
    by (cases frame; cases "parseFrame frame"; cases "fst (parseFrame frame)")
      (simp_all add: observe_def Let_def observe_header_sync observe_valid_sync)
qed

end
