(* ===== verification/Awdl_Probe.thy ===== *)
theory Awdl_Probe
  imports Awdl_Data
begin

text \<open>
  The bounded startup probe (\<open>include/AWDL/RTWAwdlStartupProbe.hpp\<close>) and the ownership of transmitted packets
  (\<open>include/AWDL/RTWAwdlPacketFlow.hpp\<close>). The probe driver and the packet adapter are code behind an interface: each is a
  function from the calls made so far to the answer of the next one.
\<close>

section \<open>Startup probe: definitions\<close>

datatype ProbeCall = PrimaryReady | Capacity | ProbeOpen | ProbeBind | RadioReady | ProbeUnbind | ProbeClose

type_synonym probe_driver = "ProbeCall list \<Rightarrow> u32"

datatype ProbeStage = ProbeIdle | Waiting | Opening | Binding | Listening | Complete
  | Unavailable | OpenFailed | BindFailed | RadioFailed | CleanupFailed | Cancelled | TimedOut

text \<open>\<open>sp_calls\<close> records the calls of the driver, the latest first.\<close>

record StartupProbe =
  sp_stage :: ProbeStage
  sp_result :: ProbeStage
  sp_waits :: u32
  sp_listens :: u32
  sp_capacity :: u32
  sp_attempted :: bool
  sp_cleaned :: bool
  sp_tested :: bool
  sp_calls :: "ProbeCall list"

definition StartupProbe0 :: StartupProbe where
  "StartupProbe0 = \<lparr>sp_stage = ProbeIdle, sp_result = ProbeIdle, sp_waits = 0, sp_listens = 0, sp_capacity = 0,
     sp_attempted = False, sp_cleaned = False, sp_tested = False, sp_calls = []\<rparr>"

definition probe_call :: "probe_driver \<Rightarrow> ProbeCall \<Rightarrow> StartupProbe \<Rightarrow> u32 \<times> StartupProbe" where
  "probe_call D call p = (D (call # sp_calls p), p\<lparr>sp_calls := call # sp_calls p\<rparr>)"

definition probe_arm :: "StartupProbe \<Rightarrow> bool \<times> StartupProbe" where
  "probe_arm p =
     (if sp_stage p \<noteq> ProbeIdle \<and> \<not> (sp_stage p = Cancelled \<and> \<not> sp_tested p) then (False, p)
      else (True, p\<lparr>sp_stage := Waiting\<rparr>))"

definition probe_finish :: "probe_driver \<Rightarrow> ProbeStage \<Rightarrow> StartupProbe \<Rightarrow> StartupProbe" where
  "probe_finish D result p =
     (let p = p\<lparr>sp_result := result\<rparr>;
          (_, p) = probe_call D ProbeUnbind p;
          (okay, p) = probe_call D ProbeClose p
      in p\<lparr>sp_attempted := False, sp_cleaned := okay \<noteq> 0, sp_stage := (if okay \<noteq> 0 then result else CleanupFailed)\<rparr>)"

definition probe_test :: "probe_driver \<Rightarrow> StartupProbe \<Rightarrow> bool \<times> StartupProbe" where
  "probe_test D p =
     (let p = p\<lparr>sp_stage := Opening, sp_attempted := True, sp_tested := True\<rparr>;
          (opened, p) = probe_call D ProbeOpen p in
      if opened = 0 then (False, probe_finish D OpenFailed p)
      else
        let p = p\<lparr>sp_stage := Binding\<rparr>; (bound, p) = probe_call D ProbeBind p in
        if bound = 0 then (False, probe_finish D BindFailed p)
        else
          let (ready, p) = probe_call D RadioReady p in
          if ready = 0 then (False, probe_finish D RadioFailed p)
          else (True, p\<lparr>sp_stage := Listening\<rparr>))"

definition probe_wait :: "probe_driver \<Rightarrow> StartupProbe \<Rightarrow> bool \<times> StartupProbe" where
  "probe_wait D p =
     (let p = (if sp_waits p \<noteq> - 1 then p\<lparr>sp_waits := sp_waits p + 1\<rparr> else p);
          (ready, p) = probe_call D PrimaryReady p in
      if ready = 0 then (True, p)
      else
        let (capacity, p) = probe_call D Capacity p; p = p\<lparr>sp_capacity := capacity\<rparr> in
        if capacity = 0 then (False, p\<lparr>sp_stage := Unavailable\<rparr>) else probe_test D p)"

text \<open>The two readiness tests stop at the first that fails.\<close>

definition probe_listen :: "probe_driver \<Rightarrow> StartupProbe \<Rightarrow> bool \<times> StartupProbe" where
  "probe_listen D p =
     (let (primary, p) = probe_call D PrimaryReady p;
          (ready, p) = (if primary = 0 then (0, p) else probe_call D RadioReady p) in
      if ready = 0 then (False, probe_finish D RadioFailed p)
      else
        let p = p\<lparr>sp_listens := sp_listens p + 1\<rparr> in
        if sp_listens p < 10 then (True, p) else (False, probe_finish D Complete p))"

definition probe_tick :: "probe_driver \<Rightarrow> StartupProbe \<Rightarrow> bool \<times> StartupProbe" where
  "probe_tick D p =
     (if sp_stage p = Waiting then probe_wait D p
      else if sp_stage p = Listening then probe_listen D p
      else (False, p))"

definition probe_stop :: "probe_driver \<Rightarrow> StartupProbe \<Rightarrow> StartupProbe" where
  "probe_stop D p =
     (if sp_attempted p then probe_finish D Cancelled p
      else if sp_stage p = Waiting then p\<lparr>sp_stage := Cancelled\<rparr> else p)"


section \<open>Packet flow: definitions\<close>

definition validView :: "u32 \<Rightarrow> u64 \<Rightarrow> u32 \<Rightarrow> u16 \<Rightarrow> u64 \<Rightarrow> bool" where
  "validView buffers base capacity offset len \<longleftrightarrow>
     buffers = 1 \<and> base \<noteq> 0 \<and> ucast offset \<le> capacity \<and> len \<le> ucast (capacity - ucast offset) \<and> 14 \<le> len \<and>
     len \<le> 14 + of_nat data_mtu \<and> base \<le> (- 1) - ucast offset \<and> len \<le> (- 1) - (base + ucast offset)"

text \<open>What the adapter was asked to do; a packet is a number, and \<open>view\<close> tells the bytes of a packet.\<close>

datatype FlowEvent = FlowInvalid | FlowSend bytes | FlowComplete "nat list" | FlowRelease nat

record FlowAdapter =
  fa_enabled :: bool
  fa_view :: "nat \<Rightarrow> bytes option"
  fa_send :: "FlowEvent list \<Rightarrow> bool"
  fa_complete :: "FlowEvent list \<Rightarrow> bool"

definition flow_finish :: "FlowAdapter \<Rightarrow> nat list \<Rightarrow> FlowEvent list \<Rightarrow> FlowEvent list" where
  "flow_finish A packets log =
     (let log = log @ [FlowComplete packets] in
      if \<not> fa_complete A log then log @ map FlowRelease packets else log)"

text \<open>The loop over the packets; \<open>batch\<close> holds the packets collected and not yet finished.\<close>

fun flow_loop :: "FlowAdapter \<Rightarrow> nat option list \<Rightarrow> nat list \<Rightarrow> nat \<Rightarrow> FlowEvent list \<Rightarrow> nat list \<times> nat \<times> FlowEvent list" where
  "flow_loop A [] batch consumed log = (batch, consumed, log)"
| "flow_loop A (None # ps) batch consumed log = flow_loop A ps batch (consumed + 1) (log @ [FlowInvalid])"
| "flow_loop A (Some p # ps) batch consumed log =
     (let go = (\<lambda>log.
        let batch = batch @ [p] in
        if length batch = 64 then flow_loop A ps [] (consumed + 1) (flow_finish A batch log)
        else flow_loop A ps batch (consumed + 1) log) in
      case fa_view A p of
        Some bytes \<Rightarrow> let log = log @ [FlowSend bytes] in if \<not> fa_send A log then (batch, consumed, log) else go log
      | None \<Rightarrow> go (log @ [FlowInvalid]))"

definition flow_transmit :: "FlowAdapter \<Rightarrow> nat option list option \<Rightarrow> FlowEvent list \<Rightarrow> nat \<times> FlowEvent list" where
  "flow_transmit A packets log = (case packets of None \<Rightarrow> (0, log) | Some ps \<Rightarrow>
     if ps = [] \<or> \<not> fa_enabled A then (0, log)
     else case flow_loop A ps [] 0 log of
       (batch, consumed, log) \<Rightarrow> (consumed, if batch \<noteq> [] then flow_finish A batch log else log))"


section \<open>The life of the probe\<close>

datatype probe_op = Arm | Tick | Stop

fun probe_exec :: "probe_driver \<Rightarrow> probe_op \<Rightarrow> StartupProbe \<Rightarrow> StartupProbe" where
  "probe_exec D Arm p = snd (probe_arm p)"
| "probe_exec D Tick p = snd (probe_tick D p)"
| "probe_exec D Stop p = probe_stop D p"

text \<open>Every close comes right after an unbind, the barrier for the receive workers (latest call first).\<close>

fun barred :: "ProbeCall list \<Rightarrow> bool" where
  "barred [] \<longleftrightarrow> True"
| "barred (c # cs) \<longleftrightarrow> (c = ProbeClose \<longrightarrow> cs \<noteq> [] \<and> hd cs = ProbeUnbind) \<and> barred cs"

text \<open>A session is opened at most once; it is closed exactly when it is over.\<close>

definition sessions_ok :: "bool \<Rightarrow> bool \<Rightarrow> ProbeCall list \<Rightarrow> bool" where
  "sessions_ok opened live cs \<longleftrightarrow> count_list cs ProbeOpen = of_bool opened \<and> count_list cs ProbeClose = of_bool (opened \<and> \<not> live) \<and>
     count_list cs ProbeUnbind = of_bool (opened \<and> \<not> live) \<and> barred cs \<and> (live \<longrightarrow> opened)"

definition probe_inv :: "StartupProbe \<Rightarrow> bool" where
  "probe_inv p \<longleftrightarrow> sessions_ok (sp_tested p) (sp_attempted p) (sp_calls p) \<and> (sp_attempted p \<longleftrightarrow> sp_stage p = Listening) \<and>
     (sp_stage p \<in> {ProbeIdle, Waiting} \<longrightarrow> \<not> sp_tested p) \<and> sp_stage p \<notin> {Opening, Binding} \<and> (sp_stage p = Listening \<longrightarrow> sp_listens p < 10)
     \<and> (sp_tested p \<longrightarrow> sp_stage p = Listening \<or> sp_stage p \<notin> {ProbeIdle, Waiting}) \<and> (\<not> sp_tested p \<longrightarrow> sp_listens p = 0)"

lemma sessions_quiet: "sessions_ok a b cs \<Longrightarrow> c \<notin> {ProbeOpen, ProbeClose, ProbeUnbind} \<Longrightarrow> sessions_ok a b (c # cs)"
  by (auto simp: sessions_ok_def)

lemma sessions_finish: "sessions_ok True True cs \<Longrightarrow> sessions_ok True False (ProbeClose # ProbeUnbind # cs)"
  by (simp add: sessions_ok_def)

lemma sessions_open: "sessions_ok False False cs \<Longrightarrow> sessions_ok True True (ProbeOpen # cs)"
  by (simp add: sessions_ok_def)

lemma finish_fields:
  "sp_calls (probe_finish D result p) = ProbeClose # ProbeUnbind # sp_calls p" "\<not> sp_attempted (probe_finish D result p)"
  "sp_tested (probe_finish D result p) = sp_tested p" "sp_stage (probe_finish D result p) \<in> {result, CleanupFailed}"
  "sp_listens (probe_finish D result p) = sp_listens p"
  by (simp_all add: probe_finish_def probe_call_def Let_def)

lemma finish_stage [simp]: "s \<noteq> result \<Longrightarrow> s \<noteq> CleanupFailed \<Longrightarrow> sp_stage (probe_finish D result p) = s \<longleftrightarrow> False"
  by (simp add: probe_finish_def probe_call_def Let_def)

lemma finish_inv:
  "sessions_ok True True (sp_calls p) \<Longrightarrow> sp_tested p \<Longrightarrow> result \<in> {Complete, OpenFailed, BindFailed, RadioFailed, Cancelled} \<Longrightarrow> probe_inv (probe_finish D result p)"
  using finish_fields [of D result p] sessions_finish [of "sp_calls p"] by (auto simp: probe_inv_def)

lemma test_inv:
  assumes "sessions_ok False False (sp_calls p)" "sp_listens p = 0"
  shows "probe_inv (snd (probe_test D p))"
proof -
  have o: "sessions_ok True True (ProbeOpen # sp_calls p)" by (rule sessions_open [OF assms(1)])
  have b: "sessions_ok True True (ProbeBind # ProbeOpen # sp_calls p)" by (rule sessions_quiet [OF o]) simp
  have r: "sessions_ok True True (RadioReady # ProbeBind # ProbeOpen # sp_calls p)" by (rule sessions_quiet [OF b]) simp
  show ?thesis using o b r assms(2)
    by (auto simp: probe_test_def probe_call_def Let_def intro!: finish_inv) (simp add: probe_inv_def)
qed

lemma probe_inv_exec:
  assumes "probe_inv p"
  shows "probe_inv (probe_exec D op p)"
proof (cases op)
  case Arm
  then show ?thesis using assms by (auto simp: probe_arm_def probe_inv_def)
next
  case Tick
  have w: "probe_inv (snd (probe_wait D p))" if "sp_stage p = Waiting"
  proof -
    let ?p = "if sp_waits p \<noteq> - 1 then p\<lparr>sp_waits := sp_waits p + 1\<rparr> else p"
    have s: "sessions_ok False False (sp_calls p)" "sp_listens p = 0" "\<not> sp_tested p" "\<not> sp_attempted p" using assms that by (auto simp: probe_inv_def)
    have q: "sessions_ok False False (PrimaryReady # sp_calls p)" "sessions_ok False False (Capacity # PrimaryReady # sp_calls p)"
      using s(1) by (simp_all add: sessions_quiet)
    then show ?thesis using s that by (auto simp: probe_wait_def probe_call_def Let_def intro!: test_inv) (simp_all add: probe_inv_def)
  qed
  have "probe_inv (snd (probe_listen D p))" if "sp_stage p = Listening"
  proof -
    have s: "sessions_ok True True (sp_calls p)" "sp_tested p" "sp_attempted p" using assms that by (auto simp: probe_inv_def sessions_ok_def)
    have q: "sessions_ok True True (PrimaryReady # sp_calls p)" "sessions_ok True True (RadioReady # PrimaryReady # sp_calls p)"
      using s(1) by (simp_all add: sessions_quiet)
    then show ?thesis using s that by (auto simp: probe_listen_def probe_call_def Let_def intro!: finish_inv) (simp_all add: probe_inv_def)
  qed
  then show ?thesis using Tick assms w by (simp add: probe_tick_def)
next
  case Stop
  have "sessions_ok True True (sp_calls p)" "sp_tested p" if "sp_attempted p" using assms that by (auto simp: probe_inv_def sessions_ok_def)
  then show ?thesis using Stop assms by (auto simp: probe_stop_def intro: finish_inv) (auto simp: probe_inv_def)
qed

lemma probe_inv_run: "probe_inv p \<Longrightarrow> probe_inv (fold (probe_exec D) ops p)"
  by (induction ops arbitrary: p) (simp_all add: probe_inv_exec)

lemma probe_inv_start: "probe_inv StartupProbe0"
  by (simp add: probe_inv_def StartupProbe0_def sessions_ok_def)

lemma listen_progress:
  assumes "probe_inv p" "sp_stage p = Listening" "sp_stage (probe_exec D Tick p) = Listening"
  shows "unat (sp_listens (probe_exec D Tick p)) = unat (sp_listens p) + 1"
proof -
  have l: "unat (sp_listens p) < 10" using assms(1,2) by (simp add: probe_inv_def word_less_nat_alt)
  have "sp_listens (probe_exec D Tick p) = sp_listens p + 1"
    using assms(2,3) by (auto simp: probe_tick_def probe_listen_def probe_call_def Let_def split: if_splits)
  then show ?thesis using l by (simp add: unat_word_ariths)
qed

lemma tick_over: "sp_stage p \<notin> {Listening, Waiting} \<Longrightarrow> probe_exec D Tick p = p"
  by (simp add: probe_tick_def)

lemma listen_not_waiting: "sp_stage p = Listening \<Longrightarrow> sp_stage (probe_exec D Tick p) \<noteq> Waiting"
  by (simp add: probe_tick_def probe_listen_def probe_call_def Let_def)

lemma listening_ends:
  "probe_inv p \<Longrightarrow> sp_stage p \<noteq> Waiting \<Longrightarrow> sp_stage p = Listening \<Longrightarrow> 10 \<le> unat (sp_listens p) + k \<Longrightarrow> sp_stage ((probe_exec D Tick ^^ k) p) \<noteq> Listening"
proof (induction k arbitrary: p)
  case 0
  then show ?case by (simp add: probe_inv_def word_less_nat_alt)
next
  case (Suc k)
  let ?q = "probe_exec D Tick p"
  have q: "probe_inv ?q" "sp_stage ?q \<noteq> Waiting" using Suc.prems probe_inv_exec listen_not_waiting by blast+
  show ?case
  proof (cases "sp_stage ?q = Listening")
    case True
    then show ?thesis unfolding funpow_Suc_right o_apply
      using Suc.IH [OF q True] Suc.prems(4) listen_progress [OF Suc.prems(1,3) True] by (simp del: probe_exec.simps)
  next
    case False
    have "(probe_exec D Tick ^^ k) ?q = ?q" using False q(2) by (induction k) (simp_all add: tick_over del: probe_exec.simps)
    then show ?thesis unfolding funpow_Suc_right o_apply using False by (simp del: probe_exec.simps)
  qed
qed

lemma probe_inv_ticks: "probe_inv p \<Longrightarrow> probe_inv ((probe_exec D Tick ^^ k) p)"
  by (induction k) (simp_all add: probe_inv_exec del: probe_exec.simps)

lemma tested_ticks: "sp_tested p \<Longrightarrow> sp_tested ((probe_exec D Tick ^^ k) p)"
proof (induction k)
  case (Suc k)
  have "sp_tested p \<Longrightarrow> sp_tested (probe_exec D Tick p)" for p
    using finish_fields(3) [of D]
    by (auto simp: probe_tick_def probe_wait_def probe_listen_def probe_test_def probe_call_def Let_def)
  then show ?case using Suc by simp
qed simp

text \<open>
  C39: The startup probe is bounded, whatever the driver answers and whatever the order of arming, timer ticks and stops: the
  hardware is opened at most once; every opening, also a failed one, is undone by one unbind and one close in this order as
  soon as the probe is not listening; and a probe that listens is over after at most ten further ticks.
\<close>

theorem probe_bounded:
  fixes D :: probe_driver and ops :: "probe_op list"
  defines "p \<equiv> fold (probe_exec D) ops StartupProbe0"
  shows "count_list (sp_calls p) ProbeOpen \<le> 1 \<and> barred (sp_calls p) \<and>
    (sp_stage p \<noteq> Listening \<longrightarrow> count_list (sp_calls p) ProbeClose = count_list (sp_calls p) ProbeOpen) \<and>
    (sp_stage p = Listening \<longrightarrow> sp_stage ((probe_exec D Tick ^^ 10) p) \<noteq> Listening \<and> count_list (sp_calls ((probe_exec D Tick ^^ 10) p)) ProbeClose = 1)"
proof -
  have i: "probe_inv p" unfolding p_def by (rule probe_inv_run [OF probe_inv_start])
  have "sp_stage ((probe_exec D Tick ^^ 10) p) \<noteq> Listening \<and> count_list (sp_calls ((probe_exec D Tick ^^ 10) p)) ProbeClose = 1"
    if l: "sp_stage p = Listening"
  proof -
    have "sp_tested p" using i l by (simp add: probe_inv_def sessions_ok_def)
    then show ?thesis using listening_ends [OF i _ l, where k = 10 and D = D] l tested_ticks [where k = 10 and D = D and p = p] probe_inv_ticks [OF i, where k = 10 and D = D]
      by (simp add: probe_inv_def sessions_ok_def del: probe_exec.simps)
  qed
  then show ?thesis using i by (auto simp: probe_inv_def sessions_ok_def)
qed

theorem probe_bounded_witness:
  "sp_stage (fold (probe_exec (\<lambda>_. 1)) [Arm, Tick] StartupProbe0) = Listening \<and>
   count_list (sp_calls ((probe_exec (\<lambda>_. 1) Tick ^^ 10) (fold (probe_exec (\<lambda>_. 1)) [Arm, Tick] StartupProbe0))) ProbeClose = 1"
proof -
  have "sp_stage (fold (probe_exec (\<lambda>_. 1)) [Arm, Tick] StartupProbe0) = Listening"
    by (simp add: StartupProbe0_def probe_arm_def probe_tick_def probe_wait_def probe_test_def probe_call_def)
  then show ?thesis using probe_bounded [of "\<lambda>_. 1" "[Arm, Tick]"] by blast
qed

section \<open>The ownership of packets\<close>

text \<open>The packets whose ownership goes back to the system: those of an accepted batch, and each released one.\<close>

fun returned :: "FlowAdapter \<Rightarrow> FlowEvent list \<Rightarrow> FlowEvent list \<Rightarrow> nat list" where
  "returned A pre [] = []"
| "returned A pre (e # es) =
     (case e of FlowComplete ps \<Rightarrow> if fa_complete A (pre @ [e]) then ps else [] | FlowRelease p \<Rightarrow> [p] | _ \<Rightarrow> []) @ returned A (pre @ [e]) es"

lemma returned_append: "returned A pre (xs @ ys) = returned A pre xs @ returned A (pre @ xs) ys"
  by (induction xs arbitrary: pre) simp_all

lemma returned_release: "returned A pre (map FlowRelease ps) = ps"
  by (induction ps arbitrary: pre) simp_all

lemma flow_finish_returns: "\<exists>es. flow_finish A ps log = log @ es \<and> returned A log es = ps"
  by (auto simp: flow_finish_def Let_def returned_append returned_release intro: exI [of _ "FlowComplete ps # map FlowRelease ps"] exI [of _ "[FlowComplete ps]"])

text \<open>The bytes sent: those of the valid packets consumed, and at the end perhaps of the one that was refused.\<close>

fun sent :: "FlowEvent list \<Rightarrow> bytes list" where
  "sent [] = []"
| "sent (FlowSend b # es) = b # sent es"
| "sent (_ # es) = sent es"

lemma sent_append [simp]: "sent (xs @ ys) = sent xs @ sent ys"
  by (induction xs rule: sent.induct) simp_all

lemma sent_finish: "sent (flow_finish A ps log) = sent log"
proof -
  have "sent (map FlowRelease ps) = []" by (induction ps) simp_all
  then show ?thesis by (simp add: flow_finish_def Let_def)
qed

definition somes :: "'a option list \<Rightarrow> 'a list" where
  "somes xs = map the (filter (\<lambda>x. x \<noteq> None) xs)"

lemma somes_simps [simp]: "somes [] = []" "somes (None # xs) = somes xs" "somes (Some x # xs) = x # somes xs"
  by (simp_all add: somes_def)

text \<open>
  \<open>flow_done A ps batch log batch' k log'\<close>: from \<open>batch\<close> and \<open>log\<close> the loop consumed \<open>k\<close> packets of \<open>ps\<close> and ended with \<open>batch'\<close> and
  \<open>log'\<close>. Of the packets it had and took, it returned some in order and still has the others.
\<close>

definition flow_done :: "FlowAdapter \<Rightarrow> nat option list \<Rightarrow> nat list \<Rightarrow> FlowEvent list \<Rightarrow> nat list \<Rightarrow> nat \<Rightarrow> FlowEvent list \<Rightarrow> bool" where
  "flow_done A ps batch log batch' k log' \<longleftrightarrow>
     (\<exists>es. log' = log @ es \<and> k \<le> length ps \<and> batch @ somes (take k ps) = returned A log es @ batch' \<and>
       (if k < length ps
        then \<exists>p b. ps ! k = Some p \<and> fa_view A p = Some b \<and> sent es = somes (map (fa_view A) (somes (take k ps))) @ [b] \<and> \<not> fa_send A log'
        else sent es = somes (map (fa_view A) (somes ps))))"

lemma flow_done_step:
  assumes "flow_done A ps batch2 (log @ e) batch' k log'" "batch @ somes [x] = returned A log e @ batch2" "sent e = somes (map (fa_view A) (somes [x]))"
  shows "flow_done A (x # ps) batch log batch' (Suc k) log'"
proof -
  obtain es where es: "log' = (log @ e) @ es" "k \<le> length ps" "batch2 @ somes (take k ps) = returned A (log @ e) es @ batch'"
    "if k < length ps then \<exists>p b. ps ! k = Some p \<and> fa_view A p = Some b \<and> sent es = somes (map (fa_view A) (somes (take k ps))) @ [b] \<and> \<not> fa_send A log'
     else sent es = somes (map (fa_view A) (somes ps))" using assms(1) unfolding flow_done_def by blast
  have x: "somes (x # ys) = somes [x] @ somes ys" for ys by (cases x) simp_all
  have "batch @ somes (take (Suc k) (x # ps)) = returned A log (e @ es) @ batch'"
    using es(3) assms(2) by (simp add: x [of "take k ps"] returned_append del: somes_simps) (metis append_assoc)
  moreover have "if Suc k < length (x # ps) then \<exists>p b. (x # ps) ! Suc k = Some p \<and> fa_view A p = Some b \<and>
        sent (e @ es) = somes (map (fa_view A) (somes (take (Suc k) (x # ps)))) @ [b] \<and> \<not> fa_send A log'
      else sent (e @ es) = somes (map (fa_view A) (somes (x # ps)))"
  proof -
    have "somes (map (fa_view A) (somes (x # ys))) = sent e @ somes (map (fa_view A) (somes ys))" for ys
      by (simp add: x [of ys] assms(3) somes_def)
    then show ?thesis using es(4) by (auto split: if_splits)
  qed
  ultimately show ?thesis unfolding flow_done_def using es(1,2) by (intro exI [of _ "e @ es"]) simp
qed

lemma flow_loop_done:
  "length batch < 64 \<Longrightarrow> flow_loop A ps batch consumed log = (batch', n, log') \<Longrightarrow>
     length batch' < 64 \<and> consumed \<le> n \<and> flow_done A ps batch log batch' (n - consumed) log'"
proof (induction A ps batch consumed log rule: flow_loop.induct)
  case (1 A batch consumed log)
  then show ?case by (auto simp: flow_done_def)
next
  case (2 A ps batch consumed log)
  then have "length batch' < 64 \<and> consumed + 1 \<le> n \<and> flow_done A ps batch (log @ [FlowInvalid]) batch' (n - (consumed + 1)) log'" by simp
  then show ?case using flow_done_step [of A ps batch log "[FlowInvalid]" batch' "n - (consumed + 1)" log' batch None] by (auto simp: Suc_diff_Suc)
next
  case (3 A p ps batch consumed log)
  have go: ?case if e: "sent e = somes [fa_view A p]" "returned A log e = []"
    and run: "(if length (batch @ [p]) = 64 then flow_loop A ps [] (consumed + 1) (flow_finish A (batch @ [p]) (log @ e))
        else flow_loop A ps (batch @ [p]) (consumed + 1) (log @ e)) = (batch', n, log')"
    and full: "length (batch @ [p]) = 64 \<Longrightarrow> flow_loop A ps [] (consumed + 1) (flow_finish A (batch @ [p]) (log @ e)) = (batch', n, log') \<Longrightarrow>
       length batch' < 64 \<and> consumed + 1 \<le> n \<and> flow_done A ps [] (flow_finish A (batch @ [p]) (log @ e)) batch' (n - (consumed + 1)) log'"
    and more: "length (batch @ [p]) \<noteq> 64 \<Longrightarrow> flow_loop A ps (batch @ [p]) (consumed + 1) (log @ e) = (batch', n, log') \<Longrightarrow>
       length batch' < 64 \<and> consumed + 1 \<le> n \<and> flow_done A ps (batch @ [p]) (log @ e) batch' (n - (consumed + 1)) log'" for e
  proof (cases "length (batch @ [p]) = 64")
    case True
    obtain fs where fs: "flow_finish A (batch @ [p]) (log @ e) = log @ e @ fs" "returned A (log @ e) fs = batch @ [p]"
      using flow_finish_returns [of A "batch @ [p]" "log @ e"] by auto
    have "sent fs = []" using sent_finish [of A "batch @ [p]" "log @ e"] fs(1) by simp
    then show ?thesis using full [OF True] run True fs e flow_done_step [of A ps "[]" log "e @ fs" batch' "n - (consumed + 1)" log' batch "Some p"]
      by (auto simp: returned_append Suc_diff_Suc)
  next
    case False
    then show ?thesis using more [OF False] run e flow_done_step [of A ps "batch @ [p]" log e batch' "n - (consumed + 1)" log' batch "Some p"]
      by (auto simp: Suc_diff_Suc)
  qed
  show ?case
  proof (cases "fa_view A p")
    case None
    show ?thesis by (rule go [of "[FlowInvalid]"]) (use 3 None in \<open>auto simp: Let_def\<close>)
  next
    case (Some b)
    show ?thesis
    proof (cases "fa_send A (log @ [FlowSend b])")
      case True
      show ?thesis by (rule go [of "[FlowSend b]"]) (use 3 Some True in \<open>auto simp: Let_def\<close>)
    next
      case False
      then show ?thesis using 3(3,4) Some by (auto simp: Let_def flow_done_def)
    qed
  qed
qed

text \<open>The array of completed packets has room for 64.\<close>

fun batch_ok :: "FlowEvent \<Rightarrow> bool" where
  "batch_ok (FlowComplete ps) \<longleftrightarrow> ps \<noteq> [] \<and> length ps \<le> 64"
| "batch_ok _ \<longleftrightarrow> True"

lemma batch_ok_finish: "list_all batch_ok log \<Longrightarrow> ps \<noteq> [] \<Longrightarrow> length ps \<le> 64 \<Longrightarrow> list_all batch_ok (flow_finish A ps log)"
  by (auto simp: flow_finish_def Let_def list_all_iff)

lemma batch_ok_loop:
  "flow_loop A ps batch consumed log = (batch', n, log') \<Longrightarrow> length batch < 64 \<Longrightarrow> list_all batch_ok log \<Longrightarrow> list_all batch_ok log'"
proof (induction A ps batch consumed log rule: flow_loop.induct)
  case (3 A p ps batch consumed log)
  then show ?case by (auto simp: Let_def batch_ok_finish split: option.splits if_splits)
qed auto


definition sample_adapter :: FlowAdapter where
  "sample_adapter = \<lparr>fa_enabled = True, fa_view = (\<lambda>p. if p = 2 then None else Some [of_nat p]),
     fa_send = (\<lambda>log. log ! (length log - 1) \<noteq> FlowSend [4]), fa_complete = (\<lambda>log. False)\<rparr>"


text \<open>A view that passes the check lies inside its buffer, and no address computed from it wraps around.\<close>

lemma validView_bounds:
  assumes "validView buffers base capacity offset len"
  shows "unat base + unat offset + unat len < 2 ^ 64 \<and> unat offset + unat len \<le> unat capacity \<and> 14 \<le> unat len \<and> unat len \<le> 14 + data_mtu"
proof -
  have c: "(ucast offset :: u32) \<le> capacity" "len \<le> ucast (capacity - ucast offset)" "14 \<le> len" "len \<le> 14 + of_nat data_mtu"
    "base \<le> (- 1) - ucast offset" "len \<le> (- 1) - (base + ucast offset)" using assms by (simp_all add: validView_def)
  have o: "unat (ucast offset :: u32) = unat offset" "unat (ucast offset :: u64) = unat offset" by (simp_all add: unat_ucast_up)
  have top: "unat ((- 1) - x :: u64) = 2 ^ 64 - 1 - unat x" for x
    using unat_sub [of x "- 1"] unat_u64_less [of x] by (simp add: word_le_nat_alt del: unat_u64_less)
  have cap: "unat offset \<le> unat capacity" using c(1) o(1) by (simp add: word_le_nat_alt)
  have "unat (ucast (capacity - ucast offset) :: u64) = unat capacity - unat offset"
    using unat_sub [OF c(1)] o(1) by (simp add: unat_ucast_up)
  then have l: "unat len \<le> unat capacity - unat offset" using c(2) by (simp add: word_le_nat_alt)
  have b: "unat base + unat offset \<le> 2 ^ 64 - 1" using c(5) top [of "ucast offset"] o(2) unat_u16_less [of offset] by (simp add: word_le_nat_alt del: unat_u16_less)
  then have "unat (base + ucast offset) = unat base + unat offset" using o(2) by (simp add: unat_word_ariths)
  then have "unat len \<le> 2 ^ 64 - 1 - (unat base + unat offset)" using c(6) top [of "base + ucast offset"] by (simp add: word_le_nat_alt)
  moreover have "14 \<le> unat len" "unat len \<le> 14 + data_mtu" using c(3,4) by (simp_all add: word_le_nat_alt data_mtu_def)
  ultimately show ?thesis using b l cap by linarith
qed

end
