(* ===== verification/Awdl_Submit.thy ===== *)
theory Awdl_Submit
  imports Awdl_Frame Awdl_Data
begin

text \<open>
  The submission of AWDL action frames and data frames to the Linux driver
  (\<open>include/AWDL/RTWAwdlLinuxActionTx.hpp\<close>, \<open>RTWAwdlLinuxDataTx.hpp\<close>). Channels are compared by their address, so that a channel
  is a number and \<open>chan\<close> tells what it points to. The outcome of \<open>alloc_skb\<close> and the readings of the clock are arguments.
\<close>

section \<open>Definitions\<close>

datatype nl80211_band = BAND_2GHZ | BAND_5GHZ | BAND_60GHZ | BAND_6GHZ

record ieee80211_channel =
  ch_band :: nl80211_band
  ch_center_freq :: u16
  ch_flags :: u32

text \<open>\<open>IEEE80211_CHAN_DISABLED\<close>, \<open>NO_IR\<close>, \<open>RADAR\<close> and \<open>NO_OFDM\<close>.\<close>

definition CHAN_forbidden :: u32 where
  "CHAN_forbidden = push_bit 0 1 OR push_bit 1 1 OR push_bit 7 1 OR push_bit 6 1"

record linux_hw =
  hw_can_tx :: bool
  hw_conf_chan :: "nat option"

record linux_vif =
  vif_no_beacon :: bool
  vif_adhoc :: bool
  vif_addr :: bytes
  vif_chan :: "nat option"

definition TX_CTL_REQ_TX_STATUS :: u32 where "TX_CTL_REQ_TX_STATUS = push_bit 0 1"
definition TX_CTL_NO_ACK :: u32 where "TX_CTL_NO_ACK = push_bit 2 1"
definition TX_CTL_FIRST_FRAGMENT :: u32 where "TX_CTL_FIRST_FRAGMENT = push_bit 4 1"
definition TX_CTL_INJECTED :: u32 where "TX_CTL_INJECTED = push_bit 7 1"
definition TX_CTL_TX_OFFCHAN :: u32 where "TX_CTL_TX_OFFCHAN = push_bit 18 1"

text \<open>The buffer handed to the driver: its bytes and its control block.\<close>

record sk_buff =
  skb_data :: bytes
  skb_flags :: u32
  skb_band :: nl80211_band
  skb_vif :: linux_vif
  skb_rates :: "int list"
  skb_rate_count :: nat
  skb_queue :: nat

datatype skb_event = AllocSkb | FreeSkb | TxSkb sk_buff "bytes option"

datatype ActionSubmission = ActionRejected | ActionNoMemory | ActionSubmitted

definition tx_channel_ok :: "(nat \<Rightarrow> ieee80211_channel) \<Rightarrow> nat \<Rightarrow> u16 \<Rightarrow> linux_vif \<Rightarrow> bool" where
  "tx_channel_ok chan channel frequency vif \<longleftrightarrow>
     \<not> (frequency = 0 \<or> ch_center_freq (chan channel) \<noteq> frequency \<or> vif_chan vif \<noteq> Some channel \<or>
        (ch_band (chan channel) = BAND_2GHZ \<and> (frequency < 2412 \<or> frequency > 2472)) \<or>
        (ch_band (chan channel) \<noteq> BAND_2GHZ \<and> ch_band (chan channel) \<noteq> BAND_5GHZ) \<or>
        ch_flags (chan channel) AND CHAN_forbidden \<noteq> 0)"

definition tx_rates :: "nl80211_band \<Rightarrow> int list" where
  "tx_rates band = (if band = BAND_2GHZ then 4 else 0) # replicate 3 (- 1)"

definition action_addresses_ok :: "bytes \<Rightarrow> linux_vif \<Rightarrow> bool" where
  "action_addresses_ok f vif =
     (let sourceBits = foldr (OR) (vif_addr vif) 0; destinationBits = foldr (OR) (piece 4 6 f) 0; group = (f ! 4 AND 1 \<noteq> 0) in
      \<not> (sourceBits = 0 \<or> vif_addr vif ! 0 AND 1 \<noteq> 0 \<or> destinationBits = 0 \<or> piece 10 6 f \<noteq> vif_addr vif \<or>
         piece 16 6 f \<noteq> awdl_bssid \<or> (group \<and> piece 4 6 f \<noteq> replicate 6 0xff)))"

text \<open>
  The arguments of \<open>submitLinuxAction\<close> may be null; \<open>frame\<close> stands for the pointer and the length. A channel that the caller
  verified takes precedence over the configured one.
\<close>

definition submitLinuxAction ::
  "(nat \<Rightarrow> ieee80211_channel) \<Rightarrow> bool \<Rightarrow> linux_hw option \<Rightarrow> linux_vif option \<Rightarrow> bytes option \<Rightarrow> u16 \<Rightarrow> nat option \<Rightarrow> ActionSubmission \<times> skb_event list" where
  "submitLinuxAction chan allocated hw vif frame expectedFrequency verified = (case (hw, vif, frame) of
     (Some hw, Some vif, Some f) \<Rightarrow>
       (case parseFrame (Some f) of (parsed, action) \<Rightarrow>
         if \<not> hw_can_tx hw \<or> \<not> vif_no_beacon vif \<or> \<not> vif_adhoc vif \<or> length f > 4096 \<or> parsed \<noteq> ParseValid \<or>
            (ai_subtype action \<noteq> 0 \<and> ai_subtype action \<noteq> 3)
         then (ActionRejected, [])
         else (case (if verified \<noteq> None then verified else hw_conf_chan hw) of
             None \<Rightarrow> (ActionRejected, [])
           | Some channel \<Rightarrow>
               if \<not> tx_channel_ok chan channel expectedFrequency vif then (ActionRejected, [])
               else if \<not> action_addresses_ok f vif then (ActionRejected, [])
               else if \<not> allocated then (ActionNoMemory, [])
               else
                 let group = (f ! 4 AND 1 \<noteq> 0); band = ch_band (chan channel) in
                 (ActionSubmitted, [AllocSkb, TxSkb \<lparr>skb_data = f,
                    skb_flags = TX_CTL_FIRST_FRAGMENT OR TX_CTL_INJECTED OR (if group then TX_CTL_NO_ACK else TX_CTL_REQ_TX_STATUS),
                    skb_band = band, skb_vif = vif, skb_rates = tx_rates band, skb_rate_count = 1, skb_queue = 0\<rparr> None])))
   | _ \<Rightarrow> (ActionRejected, []))"

datatype DataSubmission = DataRejected | DataNoMemory | DataSubmitted

definition data_guardUs :: "nat \<Rightarrow> u64" where
  "data_guardUs len = 2048 + (of_nat len * 8 + 5) div 6"

definition data_timely :: "u64 \<Rightarrow> nat \<Rightarrow> u64 \<Rightarrow> bool" where
  "data_timely deadlineUs len now \<longleftrightarrow> deadlineUs > now \<and> deadlineUs - now \<le> 100000 \<and> deadlineUs - now > data_guardUs len"

definition data_addresses_ok :: "bytes option \<Rightarrow> View \<Rightarrow> linux_vif \<Rightarrow> bool" where
  "data_addresses_ok peer view vif =
     (let d = view_destination view in
      if d ! 0 AND 1 \<noteq> 0 then
        \<not> (peer \<noteq> None \<or> d ! 0 \<noteq> 0x33 \<or> d ! 1 \<noteq> 0x33 \<or> view_payload view ! 24 \<noteq> 0xff \<or> drop 2 d \<noteq> piece 36 4 (view_payload view))
      else
        \<not> (foldr (OR) d 0 = 0 \<or> peer \<noteq> Some d \<or> d = vif_addr vif \<or> view_payload view ! 24 = 0xff))"

text \<open>\<open>now1\<close> and \<open>now2\<close> are the readings of the clock before the allocation and before the hand-over; \<open>peer\<close> is the address of the station.\<close>

definition submitLinuxData ::
  "(nat \<Rightarrow> ieee80211_channel) \<Rightarrow> bool \<Rightarrow> linux_hw option \<Rightarrow> linux_vif option \<Rightarrow> bytes option \<Rightarrow> bytes option \<Rightarrow> u16 \<Rightarrow> nat option \<Rightarrow> u64 \<Rightarrow> (u64 \<times> u64) option
   \<Rightarrow> DataSubmission \<times> skb_event list" where
  "submitLinuxData chan allocated hw vif peer frame frequency channel deadlineUs nowUs = (case (hw, vif, frame, channel, nowUs) of
     (Some hw, Some vif, Some f, Some channel, Some (now1, now2)) \<Rightarrow>
       if \<not> hw_can_tx hw \<or> \<not> vif_no_beacon vif \<or> \<not> vif_adhoc vif \<or> length f > maximumFrame then (DataRejected, [])
       else (case DataCodec_inspect (Some f) of
           None \<Rightarrow> (DataRejected, [])
         | Some view \<Rightarrow>
             if f ! 0 \<noteq> 0x88 \<or> f ! 1 \<noteq> 0 \<or> f ! 24 \<noteq> 0 \<or> f ! 25 \<noteq> 0 \<or> view_source view \<noteq> vif_addr vif \<or>
                \<not> tx_channel_ok chan channel frequency vif \<or> deadlineUs = 0
             then (DataRejected, [])
             else if \<not> data_addresses_ok peer view vif then (DataRejected, [])
             else if \<not> data_timely deadlineUs (length f) now1 then (DataRejected, [])
             else if \<not> allocated then (DataNoMemory, [])
             else if \<not> data_timely deadlineUs (length f) now2 then (DataRejected, [AllocSkb, FreeSkb])
             else
               let group = (view_destination view ! 0 AND 1 \<noteq> 0); band = ch_band (chan channel) in
               (DataSubmitted, [AllocSkb, TxSkb \<lparr>skb_data = f,
                  skb_flags = TX_CTL_FIRST_FRAGMENT OR TX_CTL_INJECTED OR TX_CTL_TX_OFFCHAN OR (if group then TX_CTL_NO_ACK else TX_CTL_REQ_TX_STATUS),
                  skb_band = band, skb_vif = vif, skb_rates = tx_rates band, skb_rate_count = 1, skb_queue = 2\<rparr> peer]))
   | _ \<Rightarrow> (DataRejected, []))"


section \<open>What reaches the driver\<close>

text \<open>The channel is one on which this station may transmit OFDM now: 2.4 GHz channels 1 to 13, or 5 GHz, neither disabled nor passive nor radar.\<close>

definition may_transmit :: "(nat \<Rightarrow> ieee80211_channel) \<Rightarrow> nat \<Rightarrow> u16 \<Rightarrow> bool" where
  "may_transmit chan c frequency \<longleftrightarrow> ch_center_freq (chan c) = frequency \<and>
     (case ch_band (chan c) of BAND_2GHZ \<Rightarrow> 2412 \<le> frequency \<and> frequency \<le> 2472 | BAND_5GHZ \<Rightarrow> True | _ \<Rightarrow> False) \<and>
     \<not> bit (ch_flags (chan c)) 0 \<and> \<not> bit (ch_flags (chan c)) 1 \<and> \<not> bit (ch_flags (chan c)) 6 \<and> \<not> bit (ch_flags (chan c)) 7"

lemma forbidden_bits: "x AND CHAN_forbidden = 0 \<Longrightarrow> \<not> bit x 0 \<and> \<not> bit x 1 \<and> \<not> bit x 6 \<and> \<not> bit x 7"
proof -
  assume "x AND CHAN_forbidden = 0"
  then have "\<not> bit (x AND CHAN_forbidden) n" for n by simp
  from this [of 0] this [of 1] this [of 6] this [of 7] show ?thesis by (simp add: CHAN_forbidden_def bit_simps)
qed

lemma channel_may_transmit: "tx_channel_ok chan c frequency vif \<Longrightarrow> may_transmit chan c frequency \<and> vif_chan vif = Some c"
  using forbidden_bits [of "ch_flags (chan c)"] by (cases "ch_band (chan c)") (auto simp: tx_channel_ok_def may_transmit_def not_less)

lemma guard_nat: "len \<le> maximumFrame \<Longrightarrow> unat (data_guardUs len) = 2048 + (len * 8 + 5) div 6"
proof -
  assume l: "len \<le> maximumFrame"
  have "unat (of_nat len * 8 + 5 :: u64) = len * 8 + 5"
    using l by (simp add: unat_word_ariths maximumFrame_def data_mtu_def unat_of_nat)
  then have "unat ((of_nat len * 8 + 5) div 6 :: u64) = (len * 8 + 5) div 6" by (simp add: unat_div)
  moreover have "(len * 8 + 5) div 6 < 10000" using l by (simp add: maximumFrame_def data_mtu_def)
  ultimately show ?thesis by (simp add: data_guardUs_def unat_word_ariths)
qed

lemma timely_nat:
  assumes "data_timely deadline len now" "len \<le> maximumFrame"
  shows "unat now + 2048 + (len * 8 + 5) div 6 < unat deadline \<and> unat deadline \<le> unat now + 100000"
proof -
  have "now \<le> deadline" using assms(1) by (auto simp: data_timely_def)
  then have "unat (deadline - now) = unat deadline - unat now" "unat now \<le> unat deadline" by (simp_all add: unat_sub word_le_nat_alt)
  then show ?thesis using assms(1) guard_nat [OF assms(2)] by (auto simp: data_timely_def word_le_nat_alt word_less_nat_alt)
qed

lemma submit_encoded:
  assumes "DataCodec_encode (Some e) (Some out) sequence ds = Some (n, out')" "piece 6 6 e = vif_addr vif" "unicast (piece 0 6 e)" "piece 0 6 e \<noteq> vif_addr vif" "e ! 38 \<noteq> 0xff"
    and "hw_can_tx hw" "vif_no_beacon vif" "vif_adhoc vif" "tx_channel_ok chan c frequency vif" "data_timely deadline n now1" "data_timely deadline n now2"
  shows "fst (submitLinuxData chan True (Some hw) (Some vif) (Some (piece 0 6 e)) (Some (take n out')) frequency (Some c) deadline (Some (now1, now2))) = DataSubmitted"
proof -
  obtain d d' where d: "d AND 15 = 0"
    and f: "take n out' = [0x88, 0, 0, 0] @ piece 0 6 e @ piece 6 6 e @ map bssidByte [0..<6] @ [d, d'] @ [0, 0] @ encode_prefix ds @ drop 14 e"
    using encode_frame(1) [OF assms(1)] by blast
  have v: "14 \<le> length e" "length e \<le> 14 + data_mtu" "validSource (piece 6 6 e)" "ipv6 (drop 14 e)"
    using encode_frame(2) [OF assms(1)] validSource_piece [of 6 e] by (auto simp: validEthernet_def)
  have n: "n = length e + 28" "length (take n out') = n" using encode_frame(3,4) [OF assms(1)] by simp_all
  have i: "DataCodec_inspect (Some (take n out')) = Some \<lparr>view_destination = piece 0 6 e, view_source = piece 6 6 e, view_payload = drop 14 e, view_sequence = ds\<rparr>"
    unfolding f using v d by (intro inspect_encode) simp_all
  have b: "take n out' ! 0 = 0x88" "take n out' ! 1 = 0" "take n out' ! 24 = 0" "take n out' ! 25 = 0"
    using v(1) unfolding f by (simp_all add: fields nth_append)
  have l: "length (piece 0 6 e) = 6" "24 + 14 < length e" using v(1,4) by (auto simp: ipv6_def)
  then have "data_addresses_ok (Some (piece 0 6 e)) \<lparr>view_destination = piece 0 6 e, view_source = piece 6 6 e, view_payload = drop 14 e, view_sequence = ds\<rparr> vif"
    using assms(3-5) by (simp add: data_addresses_ok_def unicast_def)
  then show ?thesis using i b n assms(2,6-) v(2) by (auto simp: submitLinuxData_def maximumFrame_def data_timely_def Let_def)
qed


definition sample_channels :: "nat \<Rightarrow> ieee80211_channel" where
  "sample_channels = (\<lambda>_. \<lparr>ch_band = BAND_5GHZ, ch_center_freq = 5745, ch_flags = 0\<rparr>)"

definition sample_hw :: linux_hw where
  "sample_hw = \<lparr>hw_can_tx = True, hw_conf_chan = Some 1\<rparr>"

definition sample_vif :: linux_vif where
  "sample_vif = \<lparr>vif_no_beacon = True, vif_adhoc = True, vif_addr = [2, 0, 0, 0, 0, 9], vif_chan = Some 1\<rparr>"



section \<open>Action frames\<close>

text \<open>
  C24: Only safe action frames reach the driver. What is handed over holds exactly the given frame: a valid AWDL action of subtype 0 or 3
  from this interface with the AWDL BSSID, to one station or to all, on the channel of the interface, which the caller verified or
  which is configured, and where it may transmit; only frames to all go without acknowledgement. Nothing is allocated otherwise.
\<close>

theorem submit_action_safe:
  assumes "submitLinuxAction chan allocated (Some hw) (Some vif) (Some f) frequency verified = (r, evs)" "24 \<le> length f" "length (vif_addr vif) = 6"
  shows "(r \<noteq> ActionSubmitted \<longrightarrow> evs = []) \<and>
    (r = ActionSubmitted \<longrightarrow> (\<exists>skb c info. evs = [AllocSkb, TxSkb skb None] \<and> skb_data skb = f \<and> parseFrame (Some f) = (ParseValid, info) \<and> ai_subtype info \<in> {0, 3} \<and>
       unicast (vif_addr vif) \<and> piece 10 6 f = vif_addr vif \<and> piece 16 6 f = awdl_bssid \<and>
       (if bit (skb_flags skb) 2 then piece 4 6 f = replicate 6 0xff else unicast (piece 4 6 f)) \<and>
       vif_chan vif = Some c \<and> (verified = Some c \<or> verified = None \<and> hw_conf_chan hw = Some c) \<and> may_transmit chan c frequency \<and> skb_band skb = ch_band (chan c)))"
proof -
  obtain parsed info where pf: "parseFrame (Some f) = (parsed, info)" by (rule prod.exhaust)
  define channel where "channel = (if verified \<noteq> None then verified else hw_conf_chan hw)"
  note run = assms(1) [unfolded submitLinuxAction_def option.case prod.case pf channel_def [symmetric]]
  have "evs = []" if "r \<noteq> ActionSubmitted" using run that by (simp add: Let_def split: if_splits option.splits)
  moreover have "\<exists>skb c info. evs = [AllocSkb, TxSkb skb None] \<and> skb_data skb = f \<and> parseFrame (Some f) = (ParseValid, info) \<and> ai_subtype info \<in> {0, 3} \<and>
       unicast (vif_addr vif) \<and> piece 10 6 f = vif_addr vif \<and> piece 16 6 f = awdl_bssid \<and>
       (if bit (skb_flags skb) 2 then piece 4 6 f = replicate 6 0xff else unicast (piece 4 6 f)) \<and>
       vif_chan vif = Some c \<and> (verified = Some c \<or> verified = None \<and> hw_conf_chan hw = Some c) \<and> may_transmit chan c frequency \<and> skb_band skb = ch_band (chan c)"
    if sub: "r = ActionSubmitted"
  proof -
    have p: "parsed = ParseValid" "ai_subtype info = 0 \<or> ai_subtype info = 3" using run sub by (auto split: if_splits)
    obtain c where ch: "channel = Some c" using run sub by (auto split: if_splits option.splits)
    define skb where "skb = \<lparr>skb_data = f, skb_flags = TX_CTL_FIRST_FRAGMENT OR TX_CTL_INJECTED OR (if f ! 4 AND 1 \<noteq> 0 then TX_CTL_NO_ACK else TX_CTL_REQ_TX_STATUS),
      skb_band = ch_band (chan c), skb_vif = vif, skb_rates = tx_rates (ch_band (chan c)), skb_rate_count = 1, skb_queue = 0\<rparr>"
    have c: "tx_channel_ok chan c frequency vif" "action_addresses_ok f vif" "evs = [AllocSkb, TxSkb skb None]"
      using run sub by (simp_all add: ch Let_def skb_def split: if_splits)
    have v: "verified = Some c \<or> verified = None \<and> hw_conf_chan hw = Some c" using ch by (auto simp: channel_def split: if_splits)
    have skb: "skb_data skb = f" "skb_band skb = ch_band (chan c)" "skb_flags skb = TX_CTL_FIRST_FRAGMENT OR TX_CTL_INJECTED OR (if f ! 4 AND 1 \<noteq> 0 then TX_CTL_NO_ACK else TX_CTL_REQ_TX_STATUS)"
      by (simp_all add: skb_def)
    have flag: "bit (skb_flags skb) 2 \<longleftrightarrow> f ! 4 AND 1 \<noteq> 0"
      by (simp add: skb(3) TX_CTL_FIRST_FRAGMENT_def TX_CTL_INJECTED_def TX_CTL_NO_ACK_def TX_CTL_REQ_TX_STATUS_def bit_simps)
    have "unicast (vif_addr vif)" "piece 10 6 f = vif_addr vif" "piece 16 6 f = awdl_bssid" "if f ! 4 AND 1 \<noteq> 0 then piece 4 6 f = replicate 6 0xff else unicast (piece 4 6 f)"
      using c(2) assms(2,3) by (auto simp: action_addresses_ok_def Let_def unicast_def nth_piece)
    then show ?thesis using c v p pf skb(1,2) channel_may_transmit [OF c(1)] flag by auto
  qed
  ultimately show ?thesis by blast
qed

definition sample_action :: bytes where
  "sample_action = [0xd0, 0, 0, 0] @ [0xff, 0xff, 0xff, 0xff, 0xff, 0xff] @ [2, 0, 0, 0, 0, 9] @ awdl_bssid @ [0, 0] @ [127, 0, 0x17, 0xf2, 8, 0x10, 0, 0] @ zeros 8"

theorem submit_action_safe_witness:
  "\<exists>evs. submitLinuxAction sample_channels True (Some sample_hw) (Some sample_vif) (Some sample_action) 5745 None = (ActionSubmitted, evs) \<and>
     24 \<le> length sample_action \<and> length evs = 2"
proof -
  have "awdl_header (drop 24 sample_action)" "drop 16 (drop 24 sample_action) = encode_tlvs []"
    by (simp_all add: sample_action_def awdl_header_def zeros_def awdl_bssid_def encode_tlvs_def)
  from parseAction_encode [OF this] have p: "parseFrame (Some sample_action) = (ParseValid, action_info (drop 24 sample_action) [])" "ai_subtype (action_info (drop 24 sample_action) []) = 0"
    by (simp_all add: parseFrame_def sample_action_def awdl_bssid_def action_info_def)
  have l: "24 \<le> length sample_action" "length (vif_addr sample_vif) = 6" "length sample_action \<le> 4096" by (simp_all add: sample_action_def sample_vif_def)
  have "replicate 6 (0xff :: u8) = [0xff, 0xff, 0xff, 0xff, 0xff, 0xff]" by code_simp
  then have "action_addresses_ok sample_action sample_vif"
    by (simp add: action_addresses_ok_def sample_action_def sample_vif_def piece_def awdl_bssid_def)
  moreover have "tx_channel_ok sample_channels 1 5745 sample_vif" by (simp add: tx_channel_ok_def sample_channels_def sample_vif_def)
  ultimately have "fst (submitLinuxAction sample_channels True (Some sample_hw) (Some sample_vif) (Some sample_action) 5745 None) = ActionSubmitted"
    using p l by (simp add: submitLinuxAction_def sample_hw_def sample_vif_def Let_def)
  then obtain evs where e: "submitLinuxAction sample_channels True (Some sample_hw) (Some sample_vif) (Some sample_action) 5745 None = (ActionSubmitted, evs)"
    by (cases "submitLinuxAction sample_channels True (Some sample_hw) (Some sample_vif) (Some sample_action) 5745 None") (simp only: fst_conv)
  from conjunct2 [OF submit_action_safe [OF e l(1,2)]] obtain skb where "evs = [AllocSkb, TxSkb skb None]" by (elim impE exE conjE) (rule refl)
  then have "length evs = 2" by simp
  with e l(1) show ?thesis by blast
qed

end
