(* ===== verification/Awdl_Interface.thy ===== *)
theory Awdl_Interface
  imports Awdl_Submit Awdl_Registry
begin

text \<open>
  The secondary interface of the Linux driver (\<open>include/AWDL/RTWAwdlLinuxInterface.hpp\<close>): its creation with every way of failing, and
  its removal. The world is the kernel memory, the interfaces the hardware has added, and the registry of theory \<open>Awdl_Registry\<close>.
  What \<open>IOMallocZero\<close> and \<open>add_interface\<close> return are arguments, and so are the sizes of the two structures.
\<close>

section \<open>Definitions\<close>

record InterfaceState =
  is_vif :: ptr
  is_allocationSize :: u64
  is_txqAllocationSize :: u64
  is_hardwareAdded :: bool
  is_registered :: bool

definition InterfaceState0 :: InterfaceState where
  "InterfaceState0 = \<lparr>is_vif = None, is_allocationSize = 0, is_txqAllocationSize = 0, is_hardwareAdded = False, is_registered = False\<rparr>"

record ieee80211_txq =
  tq_vif :: nat
  tq_tid :: nat
  tq_ac :: nat

text \<open>The interface: what transmission reads of it, and what its creation adds; \<open>vif_queue\<close> is what \<open>vif_txq\<close> points to.\<close>

record iface_vif = linux_vif +
  vif_bssid :: bytes
  vif_width :: nat
  vif_txq :: ptr
  vif_queue :: "ieee80211_txq option"

record iface_hw =
  ih_add_interface :: bool
  ih_remove_interface :: bool
  ih_link_info_changed :: bool
  ih_bss_info_changed :: bool
  ih_vif_data_size :: u32
  ih_txq_data_size :: u32
  ih_conf_chan :: ptr
  ih_conf_width :: nat

datatype iface_event = HwAdd nat | HwRemove nat | LinkInfoChanged nat | BssInfoChanged nat | Unregister nat | Synchronize | Free nat

text \<open>\<open>lw_heap\<close> has the sizes of the live allocations; \<open>lw_corrupt\<close> is set by a free that does not match an allocation.\<close>

record linux_world =
  lw_heap :: "nat \<Rightarrow> u64 option"
  lw_corrupt :: bool
  lw_vifs :: "nat \<Rightarrow> iface_vif option"
  lw_hardware :: "nat set"
  lw_registry :: Registry
  lw_log :: "iface_event list"

definition IOFree :: "nat \<Rightarrow> u64 \<Rightarrow> linux_world \<Rightarrow> linux_world" where
  "IOFree p n w = w\<lparr>lw_heap := (lw_heap w)(p := None), lw_corrupt := lw_corrupt w \<or> lw_heap w p \<noteq> Some n, lw_log := lw_log w @ [Free p]\<rparr>"

definition removeLinuxInterface :: "InterfaceState \<Rightarrow> linux_world \<Rightarrow> InterfaceState \<times> linux_world" where
  "removeLinuxInterface state w = (case is_vif state of None \<Rightarrow> (state, w) | Some v \<Rightarrow>
     let w = (if is_registered state then w\<lparr>lw_registry := rtw88_remove_vif (Some v) (lw_registry w), lw_log := lw_log w @ [Unregister v]\<rparr> else w);
         w = (if is_hardwareAdded state then w\<lparr>lw_hardware := lw_hardware w - {v}, lw_log := lw_log w @ [HwRemove v]\<rparr> else w);
         w = w\<lparr>lw_log := lw_log w @ [Synchronize]\<rparr>;
         w = (case vif_txq (the (lw_vifs w v)) of None \<Rightarrow> w | Some q \<Rightarrow> IOFree q (is_txqAllocationSize state) w);
         w = IOFree v (is_allocationSize state) (w\<lparr>lw_vifs := (lw_vifs w)(v := None)\<rparr>)
     in (InterfaceState0, w))"

text \<open>The checks before anything is allocated.\<close>

definition add_interface_ok :: "u64 \<Rightarrow> u64 \<Rightarrow> iface_hw option \<Rightarrow> InterfaceState \<Rightarrow> bytes option \<Rightarrow> bytes option \<Rightarrow> bool" where
  "add_interface_ok sizeof_vif sizeof_txq hw state mac primary = (case (hw, mac, primary) of
     (Some hw, Some mac, Some primary) \<Rightarrow>
       \<not> (\<not> ih_add_interface hw \<or> \<not> ih_remove_interface hw \<or> (\<not> ih_link_info_changed hw \<and> \<not> ih_bss_info_changed hw) \<or>
          is_vif state \<noteq> None \<or> mac ! 0 AND 1 \<noteq> 0 \<or> take 6 mac = take 6 primary) \<and>
       \<not> (foldr (OR) (take 6 mac) 0 = 0 \<or> ucast (ih_vif_data_size hw) > (- 1) - sizeof_vif \<or> ucast (ih_txq_data_size hw) > (- 1) - sizeof_txq)
   | _ \<Rightarrow> False)"

definition fresh_vif :: "iface_hw \<Rightarrow> bytes \<Rightarrow> iface_vif" where
  "fresh_vif hw mac = \<lparr>vif_no_beacon = True, vif_adhoc = True, vif_addr = take 6 mac, vif_chan = ih_conf_chan hw,
     vif_bssid = awdl_bssid, vif_width = ih_conf_width hw, vif_txq = None, vif_queue = None\<rparr>"

text \<open>\<open>vif_mem\<close> and \<open>txq_mem\<close> are the addresses the two allocations return, \<open>added\<close> tells whether \<open>add_interface\<close> returned 0.\<close>

definition addLinuxInterface ::
  "u64 \<Rightarrow> u64 \<Rightarrow> ptr \<Rightarrow> ptr \<Rightarrow> bool \<Rightarrow> iface_hw option \<Rightarrow> InterfaceState \<Rightarrow> bytes option \<Rightarrow> bytes option \<Rightarrow> bool \<Rightarrow> linux_world \<Rightarrow> bool \<times> InterfaceState \<times> linux_world" where
  "addLinuxInterface sizeof_vif sizeof_txq vif_mem txq_mem added hw state mac primary needsTxq w =
     (if \<not> add_interface_ok sizeof_vif sizeof_txq hw state mac primary then (False, state, w)
      else
        let hw = the hw; mac = the mac;
            pending = InterfaceState0\<lparr>is_allocationSize := sizeof_vif + ucast (ih_vif_data_size hw), is_txqAllocationSize := sizeof_txq + ucast (ih_txq_data_size hw)\<rparr> in
        case vif_mem of None \<Rightarrow> (False, state, w) | Some v \<Rightarrow>
          let w = w\<lparr>lw_heap := (lw_heap w)(v := Some (is_allocationSize pending)), lw_vifs := (lw_vifs w)(v := Some (fresh_vif hw mac))\<rparr>;
              pending = pending\<lparr>is_vif := Some v\<rparr>;
              fail = (\<lambda>pending w. (False, state, snd (removeLinuxInterface pending w))) in
          if needsTxq \<and> txq_mem = None then fail pending w
          else
            let w = (if needsTxq then w\<lparr>lw_heap := (lw_heap w)(the txq_mem := Some (is_txqAllocationSize pending)),
                       lw_vifs := (lw_vifs w)(v := Some ((fresh_vif hw mac)\<lparr>vif_txq := txq_mem, vif_queue := Some \<lparr>tq_vif = v, tq_tid = 16, tq_ac = 2\<rparr>\<rparr>))\<rparr> else w) in
            if \<not> added then fail pending w
            else
              let w = w\<lparr>lw_hardware := insert v (lw_hardware w), lw_log := lw_log w @ [HwAdd v]\<rparr>;
                  pending = pending\<lparr>is_hardwareAdded := True\<rparr> in
              case rtw88_add_vif (Some v) (lw_registry w) of (registered, registry) \<Rightarrow>
                let w = w\<lparr>lw_registry := registry\<rparr> in
                if \<not> registered then fail pending w
                else (True, pending\<lparr>is_registered := True\<rparr>, w\<lparr>lw_log := lw_log w @ [if ih_link_info_changed hw then LinkInfoChanged v else BssInfoChanged v]\<rparr>))"


section \<open>Creation and removal cancel out\<close>

text \<open>What must be as before: memory, objects, hardware, and the registry up to the position of its entries.\<close>

definition same_world :: "linux_world \<Rightarrow> linux_world \<Rightarrow> bool" where
  "same_world w w' \<longleftrightarrow> lw_heap w' = lw_heap w \<and> lw_corrupt w' = lw_corrupt w \<and> lw_vifs w' = lw_vifs w \<and> lw_hardware w' = lw_hardware w \<and>
     reg_abs (lw_registry w') = reg_abs (lw_registry w)"

text \<open>The allocator returns memory that nothing uses.\<close>

definition fresh_mem :: "ptr \<Rightarrow> ptr \<Rightarrow> linux_world \<Rightarrow> bool" where
  "fresh_mem vif_mem txq_mem w \<longleftrightarrow> (vif_mem = None \<or> vif_mem \<noteq> txq_mem) \<and>
     (\<forall>v. vif_mem = Some v \<longrightarrow> lw_heap w v = None \<and> lw_vifs w v = None \<and> v \<notin> lw_hardware w \<and> v \<notin> sp_vifs (reg_abs (lw_registry w))) \<and>
     (\<forall>q. txq_mem = Some q \<longrightarrow> lw_heap w q = None)"

lemma remove_added_vif:
  assumes "reg_inv addr r" "v \<notin> sp_vifs (reg_abs r)" "rtw88_add_vif (Some v) r = (b, r')"
  shows "reg_abs (rtw88_remove_vif (Some v) r') = reg_abs r" "\<not> b \<longrightarrow> r' = r" "b \<longrightarrow> v \<in> sp_vifs (reg_abs r')"
proof -
  have a: "reg_inv addr r'" "(b, reg_abs r') = spec_add_vif v (reg_abs r)" using reg_add_vif [OF assms(1,3)] by simp_all
  have ok: "spec_ok addr (reg_abs r)" using assms(1) by (simp add: reg_inv_def)
  have s: "{q \<in> sp_stas (reg_abs r). fst q \<noteq> v} = sp_stas (reg_abs r)" "\<And>s. (v, s) \<notin> sp_stas (reg_abs r)" "sp_vif (reg_abs r) \<noteq> Some v"
    using ok assms(2) by (force simp: spec_ok_def)+
  have "reg_abs r' = (if b then (reg_abs r)\<lparr>sp_vifs := insert v (sp_vifs (reg_abs r))\<rparr> else reg_abs r)"
    using a(2) by (auto simp: spec_add_vif_def split: if_splits)
  then show "reg_abs (rtw88_remove_vif (Some v) r') = reg_abs r" "b \<longrightarrow> v \<in> sp_vifs (reg_abs r')"
    using reg_remove_vif [OF a(1), of v] assms(2) s by (auto simp: spec_remove_vif_def split: option.splits)
  show "\<not> b \<longrightarrow> r' = r" using assms(3) by (auto simp: rtw88_add_vif_def split: if_splits option.splits)
qed

text \<open>Taking back an interface whose memory is live, whatever part of its creation succeeded.\<close>

lemma remove_live:
  assumes "is_vif state = Some v" "lw_vifs w v = Some vif" "lw_heap w v = Some (is_allocationSize state)"
    and "\<And>q. vif_txq vif = Some q \<Longrightarrow> q \<noteq> v \<and> lw_heap w q = Some (is_txqAllocationSize state)"
    and "removeLinuxInterface state w = (state', w')"
  shows "state' = InterfaceState0 \<and> lw_heap w' = (case vif_txq vif of None \<Rightarrow> lw_heap w | Some q \<Rightarrow> (lw_heap w)(q := None))(v := None) \<and> lw_corrupt w' = lw_corrupt w \<and>
    lw_vifs w' = (lw_vifs w)(v := None) \<and> lw_hardware w' = (if is_hardwareAdded state then lw_hardware w - {v} else lw_hardware w) \<and>
    lw_registry w' = (if is_registered state then rtw88_remove_vif (Some v) (lw_registry w) else lw_registry w)"
  using assms by (cases "vif_txq vif") (auto simp: removeLinuxInterface_def IOFree_def Let_def)

lemma undo:
  assumes "is_vif state = Some v" "lw_heap w v = None" "lw_vifs w v = None" "v \<notin> lw_hardware w" "\<And>q. vif_txq vif = Some q \<Longrightarrow> q \<noteq> v \<and> lw_heap w q = None"
    and "lw_vifs w1 = (lw_vifs w)(v := Some vif)" "lw_corrupt w1 = lw_corrupt w"
    and "lw_heap w1 = (case vif_txq vif of None \<Rightarrow> (lw_heap w)(v := Some (is_allocationSize state))
          | Some q \<Rightarrow> (lw_heap w)(v := Some (is_allocationSize state), q := Some (is_txqAllocationSize state)))"
    and "lw_hardware w1 = (if is_hardwareAdded state then insert v (lw_hardware w) else lw_hardware w)"
    and "reg_abs (if is_registered state then rtw88_remove_vif (Some v) (lw_registry w1) else lw_registry w1) = reg_abs (lw_registry w)"
  shows "fst (removeLinuxInterface state w1) = InterfaceState0 \<and> same_world w (snd (removeLinuxInterface state w1))"
proof -
  obtain state' w' where r: "removeLinuxInterface state w1 = (state', w')" by (rule prod.exhaust)
  have u: "lw_vifs w1 v = Some vif" "lw_heap w1 v = Some (is_allocationSize state)" "\<And>q. vif_txq vif = Some q \<Longrightarrow> q \<noteq> v \<and> lw_heap w1 q = Some (is_txqAllocationSize state)"
    using assms(5,6,8) by (auto split: option.splits)
  note l = remove_live [OF assms(1) u r]
  have "lw_heap w' = lw_heap w" using l assms(2,5,8) by (cases "vif_txq vif") (auto simp: fun_eq_iff)
  moreover have "lw_vifs w' = lw_vifs w" using l assms(3,6) by (auto simp: fun_eq_iff)
  moreover have "lw_hardware w' = lw_hardware w" using l assms(4,9) by auto
  ultimately show ?thesis using l assms(7,10) r by (simp add: same_world_def)
qed

lemma add_sizes:
  assumes "add_interface_ok sizeof_vif sizeof_txq (Some hw) state mac primary"
  shows "unat (sizeof_vif + ucast (ih_vif_data_size hw)) = unat sizeof_vif + unat (ih_vif_data_size hw)"
    "unat (sizeof_txq + ucast (ih_txq_data_size hw)) = unat sizeof_txq + unat (ih_txq_data_size hw)"
proof -
  have top: "unat (a + ucast b) = unat a + unat b" if "ucast b \<le> (- 1) - a" for a :: u64 and b :: u32
  proof -
    have "unat ((- 1) - a) = 2 ^ 64 - 1 - unat a" using unat_sub [of a "- 1"] unat_u64_less [of a] by (simp add: word_le_nat_alt del: unat_u64_less)
    then have "unat a + unat b \<le> 2 ^ 64 - 1" using that unat_u64_less [of a] by (simp add: word_le_nat_alt unat_ucast_up del: unat_u64_less)
    then show ?thesis by (simp add: unat_word_ariths unat_ucast_up)
  qed
  show "unat (sizeof_vif + ucast (ih_vif_data_size hw)) = unat sizeof_vif + unat (ih_vif_data_size hw)"
    "unat (sizeof_txq + ucast (ih_txq_data_size hw)) = unat sizeof_txq + unat (ih_txq_data_size hw)"
    using assms by (auto simp: add_interface_ok_def not_less intro!: top split: option.splits)
qed

text \<open>
  C25: Creating and removing the secondary interface cancel out. When the creation fails, at whatever point, memory, hardware and registry
  are as before and the state is untouched. When it succeeds the interface is registered, known to the hardware, and has what
  transmission asks for, in memory whose size did not wrap around; removing it then gives every byte back with its size, and hardware and registry are as before.
\<close>

theorem interface_balance:
  assumes "reg_inv addr (lw_registry w)" "fresh_mem vif_mem txq_mem w"
    and "addLinuxInterface sizeof_vif sizeof_txq vif_mem txq_mem added hw state mac primary needsTxq w = (ok, state', w')"
  shows "(\<not> ok \<longrightarrow> state' = state \<and> same_world w w') \<and>
    (ok \<longrightarrow> (\<exists>v vif. vif_mem = Some v \<and> is_vif state' = Some v \<and> v \<in> lw_hardware w' \<and> v \<in> sp_vifs (reg_abs (lw_registry w')) \<and>
       lw_vifs w' v = Some vif \<and> vif_no_beacon vif \<and> vif_adhoc vif \<and> vif_addr vif = take 6 (the mac) \<and> vif_bssid vif = awdl_bssid \<and>
       unat (is_allocationSize state') = unat sizeof_vif + unat (ih_vif_data_size (the hw)) \<and> lw_heap w' v = Some (is_allocationSize state')) \<and>
       (case removeLinuxInterface state' w' of (state'', w'') \<Rightarrow> state'' = InterfaceState0 \<and> same_world w w''))"
proof (cases "add_interface_ok sizeof_vif sizeof_txq hw state mac primary \<and> vif_mem \<noteq> None")
  case False
  then show ?thesis using assms(3) by (auto simp: addLinuxInterface_def same_world_def Let_def split: if_splits option.splits)
next
  case True
  then obtain h m v where h: "hw = Some h" "mac = Some m" "vif_mem = Some v" and c: "add_interface_ok sizeof_vif sizeof_txq (Some h) state mac primary"
    by (auto simp: add_interface_ok_def split: option.splits)
  have f: "lw_heap w v = None" "lw_vifs w v = None" "v \<notin> lw_hardware w" "v \<notin> sp_vifs (reg_abs (lw_registry w))" "\<And>q. txq_mem = Some q \<Longrightarrow> q \<noteq> v \<and> lw_heap w q = None"
    using assms(2) h(3) by (auto simp: fresh_mem_def)
  obtain b r where r: "rtw88_add_vif (Some v) (lw_registry w) = (b, r)" by (rule prod.exhaust)
  note rr = remove_added_vif [OF assms(1) f(4) r]
  define p where "p = InterfaceState0\<lparr>is_vif := Some v, is_allocationSize := sizeof_vif + ucast (ih_vif_data_size h), is_txqAllocationSize := sizeof_txq + ucast (ih_txq_data_size h)\<rparr>"
  define vif where "vif = (if needsTxq \<and> txq_mem \<noteq> None then (fresh_vif h m)\<lparr>vif_txq := txq_mem, vif_queue := Some \<lparr>tq_vif = v, tq_tid = 16, tq_ac = 2\<rparr>\<rparr> else fresh_vif h m)"
  define w1 where "w1 = w\<lparr>lw_heap := (case vif_txq vif of None \<Rightarrow> (lw_heap w)(v := Some (is_allocationSize p))
      | Some q \<Rightarrow> (lw_heap w)(v := Some (is_allocationSize p), q := Some (is_txqAllocationSize p))), lw_vifs := (lw_vifs w)(v := Some vif)\<rparr>"
  define w2 where "w2 = w1\<lparr>lw_hardware := insert v (lw_hardware w), lw_log := lw_log w @ [HwAdd v], lw_registry := r\<rparr>"
  define w3 where "w3 = w2\<lparr>lw_log := lw_log w2 @ [if ih_link_info_changed h then LinkInfoChanged v else BssInfoChanged v]\<rparr>"
  have q: "q \<noteq> v \<and> lw_heap w q = None" if "vif_txq vif = Some q" for q using that f(5) by (auto simp: vif_def fresh_vif_def split: if_splits)
  have run: "(ok, state', w') = (if (needsTxq \<and> txq_mem = None) \<or> \<not> added then (False, state, snd (removeLinuxInterface p w1))
      else if \<not> b then (False, state, snd (removeLinuxInterface (p\<lparr>is_hardwareAdded := True\<rparr>) w2))
      else (True, p\<lparr>is_hardwareAdded := True, is_registered := True\<rparr>, w3))"
    using assms(3) c r h
    by (cases needsTxq; cases txq_mem; cases added; cases b) (simp_all add: addLinuxInterface_def Let_def p_def vif_def w1_def w2_def w3_def InterfaceState0_def fresh_vif_def)
  have u1: "same_world w (snd (removeLinuxInterface p w1))"
    by (rule conjunct2 [OF undo [where v = v and vif = vif]]) (use f(1-3) q in \<open>simp_all add: p_def w1_def InterfaceState0_def\<close>)
  have u2: "same_world w (snd (removeLinuxInterface (p\<lparr>is_hardwareAdded := True\<rparr>) w2))" if "\<not> b"
    by (rule conjunct2 [OF undo [where v = v and vif = vif]]) (use f(1-3) q rr that in \<open>simp_all add: p_def w1_def w2_def InterfaceState0_def split: option.split\<close>)
  have u3: "fst (removeLinuxInterface (p\<lparr>is_hardwareAdded := True, is_registered := True\<rparr>) w3) = InterfaceState0 \<and>
      same_world w (snd (removeLinuxInterface (p\<lparr>is_hardwareAdded := True, is_registered := True\<rparr>) w3))"
    by (rule undo [where v = v and vif = vif]) (use f(1-3) q rr in \<open>simp_all add: p_def w1_def w2_def w3_def InterfaceState0_def split: option.split\<close>)
  have "unat (is_allocationSize p) = unat sizeof_vif + unat (ih_vif_data_size h)" using add_sizes [OF c] by (simp add: p_def)
  moreover have "vif_no_beacon vif" "vif_adhoc vif" "vif_addr vif = take 6 m" "vif_bssid vif = awdl_bssid" by (simp_all add: vif_def fresh_vif_def)
  moreover have "lw_heap w3 v = Some (is_allocationSize p)" using q by (cases "vif_txq vif") (auto simp: w1_def w2_def w3_def)
  moreover have "is_vif p = Some v" "v \<in> lw_hardware w3" "lw_registry w3 = r" "lw_vifs w3 v = Some vif" by (simp_all add: p_def w1_def w2_def w3_def InterfaceState0_def)
  ultimately show ?thesis using run u1 u2 u3 rr(3) h by (auto simp: split_beta split: if_splits)
qed

definition sample_iface_hw :: iface_hw where
  "sample_iface_hw = \<lparr>ih_add_interface = True, ih_remove_interface = True, ih_link_info_changed = True, ih_bss_info_changed = False,
     ih_vif_data_size = 64, ih_txq_data_size = 32, ih_conf_chan = Some 1, ih_conf_width = 1\<rparr>"

definition sample_linux :: linux_world where
  "sample_linux = \<lparr>lw_heap = (\<lambda>_. None), lw_corrupt = False, lw_vifs = (\<lambda>_. None), lw_hardware = {}, lw_registry = sample_registry, lw_log = []\<rparr>"

theorem interface_balance_witness:
  "\<exists>state' w'. addLinuxInterface 512 128 (Some 40) (Some 50) True (Some sample_iface_hw) InterfaceState0 (Some [2, 0, 0, 0, 0, 9]) (Some [2, 0, 0, 0, 0, 1]) True sample_linux = (True, state', w') \<and>
     same_world sample_linux (snd (removeLinuxInterface state' w'))"
proof -
  obtain ok state' w' where a: "addLinuxInterface 512 128 (Some 40) (Some 50) True (Some sample_iface_hw) InterfaceState0 (Some [2, 0, 0, 0, 0, 9]) (Some [2, 0, 0, 0, 0, 1]) True sample_linux = (ok, state', w')"
    by (metis surj_pair)
  have "fst (rtw88_add_vif (Some 40) sample_registry)" by code_simp
  then have ok using a
    by (simp add: addLinuxInterface_def add_interface_ok_def sample_iface_hw_def InterfaceState0_def sample_linux_def Let_def split: prod.splits)
  moreover have "reg_inv (\<lambda>_. []) (lw_registry sample_linux)" "fresh_mem (Some 40) (Some 50) sample_linux"
    by (simp_all add: sample_linux_def sample_registry_inv fresh_mem_def) (simp add: sample_registry_def rtw_registry_reset_def reg_abs_def RTW_REGISTRY_VIFS_def)
  ultimately show ?thesis using interface_balance [OF _ _ a, of "\<lambda>_. []"] a by (auto simp: split_beta)
qed

end
