(* ===== verification/Awdl_Sound.thy ===== *)
theory Awdl_Sound
  imports Awdl_Scheduler
begin

text \<open>
  The window scheduler keeps the election state well formed, and the node's address, whatever its driver answers, provided the native
  callbacks do. Computations of the state monad that keep a property compose by rules.
\<close>

section \<open>Computations that keep a property\<close>

definition preserves :: "('s \<Rightarrow> bool) \<Rightarrow> ('s, 'a) state \<Rightarrow> bool" where
  "preserves P m \<longleftrightarrow> (\<forall>s. P s \<longrightarrow> wp m (\<lambda>_. P) s)"

lemma preserves_return : "preserves P (State_Monad.return x)" by (simp add: preserves_def wp_simps)
lemma preserves_get : "preserves P State_Monad.get" by (simp add: preserves_def wp_simps)
lemma preserves_gets : "preserves P (gets f)" by (simp add: preserves_def wp_simps)
lemma preserves_bind: "preserves P m \<Longrightarrow> (\<And>a. preserves P (f a)) \<Longrightarrow> preserves P (State_Monad.bind m f)"
  unfolding preserves_def by (auto simp: wp_simps intro: wp_mono [of m "\<lambda>_. P"])
lemma preserves_modify: "(\<And>s. P s \<Longrightarrow> P (f s)) \<Longrightarrow> preserves P (modify f)" by (simp add: preserves_def wp_simps)
lemma preserves_if: "preserves P m \<Longrightarrow> preserves P n \<Longrightarrow> preserves P (if b then m else n)" by simp
lemma preserves_unless: "preserves P m \<Longrightarrow> preserves P (unless b m)" by (simp add: preserves_def wp_simps)
lemma preserves_option: "preserves P m \<Longrightarrow> (\<And>a. preserves P (f a)) \<Longrightarrow> preserves P (case x of None \<Rightarrow> m | Some a \<Rightarrow> f a)" by (cases x) simp_all


text \<open>The scheduler keeps the election state well formed and its address, if the native callbacks do.\<close>

definition sound :: "bytes \<Rightarrow> ElectionState \<Rightarrow> bool" where
  "sound mac s \<longleftrightarrow> wf_state s \<and> es_mac s = mac"

definition sound_driver :: "bytes \<Rightarrow> window_driver \<Rightarrow> bool" where
  "sound_driver mac drv \<longleftrightarrow> (\<forall>k s. sound mac s \<longrightarrow> sound mac (da_state (drv k) s))"

lemma mac_parts [simp]:
  "es_mac (elect_reject p s) = es_mac s" "es_mac (elect_defer p s) = es_mac s" "es_mac (elect_commit same p s) = es_mac s" "es_mac (elect_acquire p s) = es_mac s"
  "es_mac (clock_correct now c s) = es_mac s" "es_mac (enterHoldover s) = es_mac s" "es_mac (holdClock u s) = es_mac s"
  "es_mac (elect_counter now s) = es_mac s" "es_mac (elect_none s) = es_mac s" "es_mac (holdControls s) = es_mac s" "es_mac (discardControls s) = es_mac s"
  by (simp_all add: elect_reject_def enterHoldover_def elect_defer_def elect_commit_def elect_acquire_def clock_correct_def
      holdClock_def elect_counter_def elect_none_def holdControls_def discardControls_def Let_def)

lemma mac_apply [simp]: "es_mac (elect_apply now p s) = es_mac s"
  by (simp add: elect_apply_def elect_slew_def Let_def)

lemma mac_elect [simp]:
  assumes "wf_state s"
  shows "es_mac (elect now s) = es_mac s"
proof (cases "es_controlsHeld s")
  case False
  have "wf_peers s" using assms by (simp add: wf_state_def)
  then show ?thesis using False by (cases rule: elect_cases [where now = now]) simp_all
qed (simp add: elect_def)

lemma mac_controls [simp]:
  "es_mac (deferControls c s) = es_mac s" "es_mac (snd (setSyncRole role a s)) = es_mac s" "es_mac (snd (setPresence v now s)) = es_mac s"
  "es_mac (clearNativeParent s) = es_mac s"
  by (simp_all add: deferControls_def setSyncRole_def setPresence_def clearNativeParent_def Let_def split: option.split)

lemma mac_setSequence [simp]: "es_mac (snd (setSequence v now s)) = es_mac s"
  by (simp add: setSequence_def Let_def)

lemma mac_commit: "es_mac (commitControls now s) = es_mac s"
  by (simp add: commitControls_def Let_def)

lemma sound_ops:
  assumes "sound mac s"
  shows "sound mac (elect now s)" "sound mac (holdClock t s)" "sound mac (holdControls s)" "sound mac (discardControls s)" "sound mac (snd (releaseControls now s))"
    "sound mac (s\<lparr>es_nativeTimelineStarted := b\<rparr>)" "sound mac (s\<lparr>es_frameCounter := c\<rparr>)" "sound mac (s\<lparr>es_dataCounter := c\<rparr>)"
proof -
  have wf: "wf_state s" and m: "es_mac s = mac" using assms by (simp_all add: sound_def)
  show "sound mac (elect now s)" "sound mac (holdClock t s)" "sound mac (holdControls s)" "sound mac (discardControls s)"
    "sound mac (s\<lparr>es_nativeTimelineStarted := b\<rparr>)" "sound mac (s\<lparr>es_frameCounter := c\<rparr>)" "sound mac (s\<lparr>es_dataCounter := c\<rparr>)"
    using wf m by (simp_all add: sound_def wf_elect wf_holdClock wf_holdControls wf_discardControls)
  have "wf_state (commitControls now (discardControls s))" if "es_controlsHeld s"
    using wf_commitControls [OF wf_discardControls [OF wf]] wf_held [OF wf that] by (simp add: discardControls_def)
  then show "sound mac (snd (releaseControls now s))"
    using wf m wf_releaseControls [OF wf, of now] wf_discardControls [OF wf] by (simp add: sound_def releaseControls_def mac_commit Let_def flip: discardControls_def)
qed


abbreviation preserves_sound :: "bytes \<Rightarrow> 'a sched \<Rightarrow> bool" where
  "preserves_sound mac \<equiv> preserves (\<lambda>s. sound mac (ws_state s))"

lemma sound_query: "preserves_sound mac (query drv f)" and sound_command: "preserves_sound mac (command drv f ev)" and sound_cancel: "preserves_sound mac (cancelTimer drv)"
  by (simp_all add: preserves_def wp_simps)

lemmas preserves_rules = preserves_return preserves_get preserves_gets preserves_bind preserves_modify preserves_if preserves_unless preserves_option sound_query sound_command sound_cancel

lemma sound_arm: "preserves_sound mac (arm drv d)" "preserves_sound mac (armAfter drv n d)"
  unfolding arm_def armAfter_def by (intro preserves_rules)+

lemma sound_dispatch: "sound_driver mac drv \<Longrightarrow> preserves_sound mac (dispatch drv f ev)"
  by (simp add: preserves_def dispatch_def stop_callback_def sound_driver_def wp_simps)

lemmas sound_calls = preserves_rules sound_arm sound_dispatch

lemma sound_closeWindow: "sound_driver mac drv \<Longrightarrow> preserves_sound mac (closeWindow drv now)"
  unfolding closeWindow_def windowEnd_def Let_def by (intro sound_calls) (auto intro: sound_ops)

lemma sound_returnHome: "preserves_sound mac (returnHome drv)"
  unfolding returnHome_def restore_def by (intro preserves_rules sound_arm) auto

lemma sound_stop: "sound_driver mac drv \<Longrightarrow> preserves_sound mac (WindowScheduler_stop drv)"
  unfolding WindowScheduler_stop_def by (intro sound_calls sound_closeWindow sound_returnHome) auto

lemma sound_halt: "sound_driver mac drv \<Longrightarrow> preserves_sound mac (halt drv)"
  unfolding halt_def by (intro sound_calls sound_stop)

lemma sound_go_home: "preserves_sound mac (go_home drv)"
  unfolding go_home_def by (intro preserves_rules sound_returnHome)

lemma sound_arm_or_stop: "sound_driver mac drv \<Longrightarrow> preserves_sound mac m \<Longrightarrow> preserves_sound mac (arm_or_stop drv m)"
  unfolding arm_or_stop_def by (intro sound_calls sound_halt)

lemmas sound_more = sound_calls sound_closeWindow sound_returnHome sound_halt sound_go_home sound_arm_or_stop

lemma sound_openWindow: "sound_driver mac drv \<Longrightarrow> preserves_sound mac (openWindow drv now)"
  unfolding openWindow_def open_window_body_def andM_def windowStart_def Let_def
  by (intro sound_more) (auto intro: sound_ops)

lemma sound_plan: "preserves_sound mac (plan_loop drv k probe)"
  by (induction k arbitrary: probe) (simp add: preserves_return, unfold plan_loop.simps andM_def, intro preserves_rules)

lemma sound_service_open: "sound_driver mac drv \<Longrightarrow> preserves_sound mac (service_open drv now)"
  unfolding service_open_def andM_def by (intro sound_more)

lemma sound_service_reserved: "sound_driver mac drv \<Longrightarrow> preserves_sound mac (service_reserved drv now)"
  unfolding service_reserved_def andM_def Let_def by (intro sound_more sound_openWindow)

lemma sound_service_reserve: "sound_driver mac drv \<Longrightarrow> preserves_sound mac (service_reserve drv now)"
  unfolding service_reserve_def service_rejected_def service_owned_def reserve_def Let_def
  by (intro sound_more sound_openWindow) (auto simp: observeCost_def Let_def)

lemma sound_service_idle: "sound_driver mac drv \<Longrightarrow> preserves_sound mac (service_idle drv now)"
  unfolding service_idle_def service_planned_def plan_def Let_def
  by (intro sound_more sound_plan sound_service_reserve) (auto intro: sound_ops)

lemma sound_service: "sound_driver mac drv \<Longrightarrow> preserves_sound mac (WindowScheduler_service drv)"
  unfolding WindowScheduler_service_def andM_def
  by (intro sound_more sound_service_open sound_service_reserved sound_service_idle)

lemma sound_start: "sound_driver mac drv \<Longrightarrow> preserves_sound mac (WindowScheduler_start drv v l)"
  unfolding WindowScheduler_start_def andM_def Let_def by (intro sound_more) auto

end
