(* ===== verification/Awdl_Backend.thy ===== *)
theory Awdl_Backend
  imports Awdl_Data Awdl_Native Awdl_Sound Awdl_Peers "HOL-Library.Sublist"
begin

text \<open>
  The transmit path of the native backend (\<open>AirportRTW/WCL/AirportRTWAwdlBackend.hpp\<close>): the queues of Ethernet packets and of directed
  action frames, the two action templates, and the service of an open window, which puts together the scheduler, the election state,
  the peer table, the action builder and the data codec. The clock and the radio's condition are answers of the scheduler's driver;
  what the hardware layer returns for a frame, and whether traffic is revoked meanwhile, is the argument \<open>radio\<close>.
  \<open>bk_event\<close>, \<open>RadioAnswer\<close>, \<open>call_radio\<close> and \<open>query_sched\<close> serve the model only: they record calls and pass answers on.
\<close>

section \<open>Definitions\<close>

subsection \<open>Channels and frequencies\<close>

definition frequencyFor :: "u8 \<Rightarrow> u16" where
  "frequencyFor channel =
     (if channel \<ge> 1 \<and> channel \<le> 13 then ucast (2407 + 5 * ucast channel :: u32)
      else if channel \<ge> 36 \<and> channel \<le> 177 then ucast (5000 + 5 * ucast channel :: u32)
      else 0)"

definition channelFor :: "u16 \<Rightarrow> u8" where
  "channelFor frequency =
     (if frequency \<ge> 2412 \<and> frequency \<le> 2472 \<and> (ucast frequency - 2407 :: u32) mod 5 = 0 then ucast ((ucast frequency - 2407 :: u32) div 5)
      else if frequency \<ge> 5180 \<and> frequency \<le> 5885 \<and> frequency mod 5 = 0 then ucast ((ucast frequency - 5000 :: u32) div 5)
      else 0)"

subsection \<open>State\<close>

text \<open>A slot of the packet queue; of its array only the bytes of the packet are kept, nothing reads the others.\<close>

record DataSlot =
  ds_queued :: u64
  ds_bytes :: bytes

record OobSlot =
  os_queued :: u64
  os_peer :: bytes
  os_action :: TxTemplate

definition dataCapacity :: nat where "dataCapacity = 64"

definition oobCapacity :: nat where "oobCapacity = 4"

text \<open>
  What the backend does outside. A transmission carries the number of answers the driver had given before it, so that the permission
  it rests on can be found.
\<close>

datatype bk_event = TxAction bytes u16 nat bool | TxData bytes u16 u64 nat bool | ResumeTransmit | ArmWindowTimer u64 u64 bool | CancelWindowTimer
  | PrepareRadio bool | ServiceWindow bool

record Backend =
  bk_sched :: WindowScheduler
  bk_peers :: NativePeers
  bk_interface :: bool
  bk_synchronize :: bool
  bk_actionMode :: u32
  bk_psf :: TxTemplate
  bk_mi :: TxTemplate
  bk_pendingAction :: TxTemplate
  bk_oob :: "OobSlot list"
  bk_oobHead :: nat
  bk_oobCount :: nat
  bk_miStart :: u64
  bk_lastMiEaw :: u16
  bk_miActive :: bool
  bk_miCounterValid :: bool
  bk_data :: "DataSlot list"
  bk_dataHead :: nat
  bk_dataCount :: nat
  bk_frame :: bytes
  bk_windowDeadline :: u64
  bk_pumpDeadline :: u64
  bk_nextPsf :: u64
  bk_lastPsfChannel :: u8
  bk_active :: bool
  bk_fault :: bool
  bk_owns :: bool
  bk_servicing :: bool
  bk_log :: "bk_event list"

abbreviation bk_state :: "Backend \<Rightarrow> ElectionState" where "bk_state b \<equiv> ws_state (bk_sched b)"

abbreviation bk_window :: "Backend \<Rightarrow> ScheduledWindow" where "bk_window b \<equiv> ws_window (bk_sched b)"

record RadioAnswer =
  ra_ok :: bool
  ra_revoke :: bool

type_synonym radio = "nat \<Rightarrow> RadioAnswer"

type_synonym 'a backend = "(Backend, 'a) state"

subsection \<open>Operations\<close>

definition bk_set_state :: "ElectionState \<Rightarrow> Backend \<Rightarrow> Backend" where
  "bk_set_state s b = b\<lparr>bk_sched := (bk_sched b)\<lparr>ws_state := s\<rparr>\<rparr>"

definition query_sched :: "'a sched \<Rightarrow> 'a backend" where
  "query_sched m = State (\<lambda>b. case run_state m (bk_sched b) of (r, s) \<Rightarrow> (r, b\<lparr>bk_sched := s\<rparr>))"

definition revokeTraffic :: "Backend \<Rightarrow> Backend" where
  "revokeTraffic b = b\<lparr>bk_active := False, bk_pumpDeadline := 0\<rparr>"

definition call_radio :: "radio \<Rightarrow> (Backend \<Rightarrow> bool \<Rightarrow> bk_event) \<Rightarrow> bool backend" where
  "call_radio radio ev = State (\<lambda>b.
     let a = radio (length (bk_log b)); b' = b\<lparr>bk_log := bk_log b @ [ev b (ra_ok a)]\<rparr> in
     (ra_ok a, if ra_revoke a then revokeTraffic b' else b'))"

definition transmitAwdlAction :: "radio \<Rightarrow> nat \<Rightarrow> u16 \<Rightarrow> bool backend" where
  "transmitAwdlAction radio n frequency = call_radio radio (\<lambda>b. TxAction (take n (bk_frame b)) frequency (ws_step (bk_sched b)))"

definition transmitAwdlData :: "radio \<Rightarrow> nat \<Rightarrow> u16 \<Rightarrow> u64 \<Rightarrow> bool backend" where
  "transmitAwdlData radio n frequency deadline = call_radio radio (\<lambda>b. TxData (take n (bk_frame b)) frequency deadline (ws_step (bk_sched b)))"

definition rearm :: "window_driver \<Rightarrow> radio \<Rightarrow> bool backend" where
  "rearm drv radio = do {
     b \<leftarrow> State_Monad.get;
     if \<not> bk_interface b then State_Monad.return False
     else
       let deadline = (if bk_pumpDeadline b \<noteq> 0 \<and> (bk_windowDeadline b = 0 \<or> bk_pumpDeadline b < bk_windowDeadline b)
                       then bk_pumpDeadline b else bk_windowDeadline b) in
       if \<not> bk_active b \<or> deadline = 0
       then do { call_radio radio (\<lambda>_ _. CancelWindowTimer); State_Monad.return True }
       else do { now \<leftarrow> query_sched (nowUs drv); call_radio radio (\<lambda>_. ArmWindowTimer deadline now) } }"

definition popOob :: "Backend \<Rightarrow> Backend" where
  "popOob b = b\<lparr>bk_oob := (bk_oob b)[bk_oobHead b := (bk_oob b ! bk_oobHead b)\<lparr>os_action := TxTemplate_clear (os_action (bk_oob b ! bk_oobHead b))\<rparr>],
     bk_oobHead := (bk_oobHead b + 1) mod oobCapacity, bk_oobCount := bk_oobCount b - 1\<rparr>"

definition popData :: "radio \<Rightarrow> unit backend" where
  "popData radio = do {
     modify (\<lambda>b. b\<lparr>bk_data := (bk_data b)[bk_dataHead b := (bk_data b ! bk_dataHead b)\<lparr>ds_bytes := []\<rparr>],
       bk_dataHead := (bk_dataHead b + 1) mod dataCapacity, bk_dataCount := bk_dataCount b - 1\<rparr>);
     here \<leftarrow> gets bk_interface;
     unless (\<not> here) (do { call_radio radio (\<lambda>_ _. ResumeTransmit); State_Monad.return () }) }"

definition clearQueues :: "Backend \<Rightarrow> Backend" where
  "clearQueues b = b\<lparr>bk_dataHead := 0, bk_dataCount := 0, bk_data := replicate dataCapacity \<lparr>ds_queued = 0, ds_bytes = []\<rparr>,
     bk_oobHead := 0, bk_oobCount := 0,
     bk_oob := map (\<lambda>slot. \<lparr>os_queued = 0, os_peer = zeros 6, os_action = TxTemplate_clear (os_action slot)\<rparr>) (bk_oob b)\<rparr>"

definition transmitEthernet :: "window_driver \<Rightarrow> radio \<Rightarrow> bytes option \<Rightarrow> bool backend" where
  "transmitEthernet drv radio ethernet = do {
     b \<leftarrow> State_Monad.get;
     if \<not> bk_active b \<or> \<not> bk_synchronize b \<or> \<not> validEthernet ethernet \<or> piece 6 6 (the ethernet) \<noteq> es_mac (bk_state b) \<or>
        bk_dataCount b = dataCapacity
     then State_Monad.return False
     else do {
       queued \<leftarrow> query_sched (nowUs drv);
       modify (\<lambda>b. b\<lparr>bk_data := (bk_data b)[(bk_dataHead b + bk_dataCount b) mod dataCapacity := \<lparr>ds_queued = queued, ds_bytes = the ethernet\<rparr>],
         bk_dataCount := bk_dataCount b + 1\<rparr>);
       now \<leftarrow> query_sched (nowUs drv);
       modify (\<lambda>b. b\<lparr>bk_pumpDeadline := now + 1\<rparr>);
       rearm drv radio;
       State_Monad.return True } }"

definition installTemplate :: "TxTemplate \<Rightarrow> Backend \<Rightarrow> bool \<times> Backend" where
  "installTemplate value b = (if \<not> NativeAction_valid (TxTemplate_tlvs value) then (False, b) else (True, b\<lparr>bk_psf := value, bk_nextPsf := 0\<rparr>))"

subsection \<open>The service of an open window\<close>

text \<open>\<open>NativeAction::build\<close> into the frame buffer: the length, if a frame was built.\<close>

definition build_action :: "TxTemplate \<Rightarrow> u64 \<Rightarrow> u8 \<Rightarrow> nat option backend" where
  "build_action native now subtype = State (\<lambda>b.
     case NativeAction_build native (Some (bk_frame b)) now (ucast now) subtype (bk_state b) of
       None \<Rightarrow> (None, b)
     | Some (n, f, s) \<Rightarrow> (Some n, bk_set_state s (b\<lparr>bk_frame := f\<rparr>)))"

definition service_psf :: "window_driver \<Rightarrow> radio \<Rightarrow> u16 \<Rightarrow> u64 \<Rightarrow> unit backend" where
  "service_psf drv radio frequency now = do {
     b \<leftarrow> State_Monad.get;
     may \<leftarrow> (if bk_actionMode b = 0 \<and> tt_used (bk_psf b) \<noteq> 0 then query_sched (canTransmit drv now False) else State_Monad.return False);
     unless (\<not> (may \<and> (bk_lastPsfChannel b \<noteq> sw_channel (bk_window b) \<or> now \<ge> bk_nextPsf b))) (do {
       built \<leftarrow> build_action (bk_psf b) now 0;
       (case built of None \<Rightarrow> State_Monad.return () | Some n \<Rightarrow> do { transmitAwdlAction radio n frequency; State_Monad.return () });
       modify (\<lambda>b. b\<lparr>bk_lastPsfChannel := sw_channel (bk_window b), bk_nextPsf := now + ucast (es_psfPeriod (bk_state b)) * 1000\<rparr>) }) }"

definition service_mi :: "window_driver \<Rightarrow> radio \<Rightarrow> u16 \<Rightarrow> u64 \<Rightarrow> unit backend" where
  "service_mi drv radio frequency now = do {
     b \<leftarrow> State_Monad.get;
     let eaw = sw_counter (bk_window b) div ucast (sw_presence (bk_window b));
     may \<leftarrow> (if bk_active b \<and> bk_miActive b \<and> now \<ge> bk_miStart b \<and> (\<not> bk_miCounterValid b \<or> bk_lastMiEaw b \<noteq> eaw)
       then query_sched (canTransmit drv now False) else State_Monad.return False);
     unless (\<not> may) (do {
       built \<leftarrow> build_action (bk_mi b) now 3;
       (case built of None \<Rightarrow> State_Monad.return () | Some n \<Rightarrow> do {
          sent \<leftarrow> transmitAwdlAction radio n frequency;
          unless (\<not> sent) (modify (\<lambda>b. b\<lparr>bk_lastMiEaw := eaw, bk_miCounterValid := True\<rparr>)) }) }) }"

text \<open>One turn of each loop, and in it the transmission of what the turn found fit: whether the loop goes on.\<close>

definition oob_send :: "window_driver \<Rightarrow> radio \<Rightarrow> u16 \<Rightarrow> OobSlot \<Rightarrow> u64 \<Rightarrow> bool backend" where
  "oob_send drv radio frequency slot now = do {
     may \<leftarrow> query_sched (canTransmit drv now False);
     if \<not> may then State_Monad.return False
     else do {
       built \<leftarrow> build_action (os_action slot) now 3;
       (case built of
          None \<Rightarrow> do { modify popOob; State_Monad.return True }
        | Some n \<Rightarrow> do {
            modify (\<lambda>b. b\<lparr>bk_frame := patch 4 (os_peer slot) (bk_frame b)\<rparr>);
            sent \<leftarrow> transmitAwdlAction radio n frequency;
            if \<not> sent then State_Monad.return False
            else do { modify popOob; State_Monad.return True } }) } }"

definition oob_turn :: "window_driver \<Rightarrow> radio \<Rightarrow> u16 \<Rightarrow> bool backend" where
  "oob_turn drv radio frequency = do {
     now \<leftarrow> query_sched (nowUs drv);
     b \<leftarrow> State_Monad.get;
     let slot = bk_oob b ! bk_oobHead b;
     (case State_find (bk_state b) (Some (os_peer slot)) of
        None \<Rightarrow> do { modify popOob; State_Monad.return True }
      | Some i \<Rightarrow>
          if now < os_queued slot \<or> now - os_queued slot > 3000000 then do { modify popOob; State_Monad.return True }
          else if Peer_channel (es_peers (bk_state b) ! i) now \<noteq> sw_channel (bk_window b) then State_Monad.return False
          else oob_send drv radio frequency slot now) }"

definition data_send :: "window_driver \<Rightarrow> radio \<Rightarrow> u16 \<Rightarrow> bytes \<Rightarrow> u64 \<Rightarrow> bool backend" where
  "data_send drv radio frequency packet now = do {
     may \<leftarrow> query_sched (canTransmit drv now (packet ! 0 AND 1 \<noteq> 0));
     if \<not> may then State_Monad.return False
     else do {
       b \<leftarrow> State_Monad.get;
       let s = bk_state b;
       modify (bk_set_state (s\<lparr>es_frameCounter := es_frameCounter s + 1\<rparr>));
       (case DataCodec_encode (Some packet) (Some (bk_frame b)) (es_frameCounter s) (es_dataCounter s) of
          None \<Rightarrow> do { popData radio; State_Monad.return True }
        | Some (n, f) \<Rightarrow> do {
            modify (\<lambda>b. b\<lparr>bk_frame := f\<rparr>);
            sent \<leftarrow> transmitAwdlData radio n frequency (sw_endUs (bk_window b));
            if \<not> sent then State_Monad.return False
            else do {
              modify (\<lambda>b. bk_set_state ((bk_state b)\<lparr>es_dataCounter := es_dataCounter (bk_state b) + 1\<rparr>) b);
              popData radio;
              State_Monad.return True } }) } }"

definition data_turn :: "window_driver \<Rightarrow> radio \<Rightarrow> u16 \<Rightarrow> bool backend" where
  "data_turn drv radio frequency = do {
     now \<leftarrow> query_sched (nowUs drv);
     b \<leftarrow> State_Monad.get;
     let slot = bk_data b ! bk_dataHead b;
     let packet = ds_bytes slot;
     let group = (packet ! 0 AND 1 \<noteq> 0);
     if now < ds_queued slot \<or> now - ds_queued slot > 3000000 then do { popData radio; State_Monad.return True }
     else if \<not> group \<and> \<not> NativePeers_authorized (Some (piece 0 6 packet)) (bk_peers b) then State_Monad.return False
     else if (case (if group then None else State_find (bk_state b) (Some (piece 0 6 packet))) of None \<Rightarrow> False
              | Some i \<Rightarrow> Peer_channel (es_peers (bk_state b) ! i) now \<noteq> sw_channel (bk_window b)) then State_Monad.return False
     else data_send drv radio frequency packet now }"

fun turns :: "nat \<Rightarrow> (Backend \<Rightarrow> nat) \<Rightarrow> bool backend \<Rightarrow> unit backend" where
  "turns 0 waiting turn = State_Monad.return ()"
| "turns (Suc budget) waiting turn = do {
     b \<leftarrow> State_Monad.get;
     unless (\<not> bk_active b \<or> waiting b = 0) (do { more \<leftarrow> turn; unless (\<not> more) (turns budget waiting turn) }) }"

definition serviceTransmit :: "window_driver \<Rightarrow> radio \<Rightarrow> unit backend" where
  "serviceTransmit drv radio = do {
     now \<leftarrow> query_sched (nowUs drv);
     frequency \<leftarrow> gets (\<lambda>b. frequencyFor (sw_channel (bk_window b)));
     service_psf drv radio frequency now;
     service_mi drv radio frequency now;
     turns 4 bk_oobCount (oob_turn drv radio frequency);
     turns 8 bk_dataCount (data_turn drv radio frequency);
     now \<leftarrow> query_sched (nowUs drv);
     modify (\<lambda>b. if sw_endUs (bk_window b) > now + 2500 then b\<lparr>bk_pumpDeadline := now + 1000\<rparr> else b) }"

subsection \<open>Directed and automatic action frames\<close>

text \<open>
  The request of the native side, by the offsets the code reads: the address at 4, the words at 12 and 16, the count at 20, the
  network at 22, and the payload.
\<close>

record OobRequest =
  oq_address :: bytes
  oq_unk3 :: u32
  oq_unk4 :: u32
  oq_count :: u16
  oq_bssid :: bytes
  oq_data_len :: nat
  oq_data :: "bytes option"

definition oob_automatic_checks :: "OobRequest \<Rightarrow> IOReturn option" where
  "oob_automatic_checks q =
     (if oq_address q \<noteq> replicate 6 255 \<or> (oq_unk4 q \<noteq> 0 \<and> oq_unk4 q \<noteq> 0xffffffff) then Some kIOReturnUnsupported
      else if oq_unk3 q > 1000000 then Some kIOReturnBadArgument
      else None)"

definition oob_directed_checks :: "u64 \<Rightarrow> OobRequest \<Rightarrow> Backend \<Rightarrow> IOReturn option" where
  "oob_directed_checks now q b =
     (if oq_count q \<noteq> 6 \<or> oq_unk3 q \<noteq> 0 \<or> oq_unk4 q \<noteq> 0 \<or> oq_bssid q \<noteq> awdl_bssid then Some kIOReturnUnsupported
      else if \<not> unicast (oq_address q) \<or> oq_address q = es_mac (bk_state b) then Some kIOReturnBadArgument
      else if \<not> bk_active b \<or> \<not> bk_synchronize b \<or> \<not> State_radioScheduleReady (bk_state b) then Some kIOReturnNotReady
      else (case State_find (bk_state b) (Some (oq_address q)) of
          None \<Rightarrow> Some kIOReturnNotFound
        | Some i \<Rightarrow>
            if now < pe_seen (es_peers (bk_state b) ! i) \<or> now - pe_seen (es_peers (bk_state b) ! i) > 3000000 then Some kIOReturnNotFound
            else if bk_oobCount b = oobCapacity then Some kIOReturnNoResources
            else None))"

text \<open>The templates are compared before the pending one replaces the other.\<close>

definition oob_store :: "window_driver \<Rightarrow> bool \<Rightarrow> OobRequest \<Rightarrow> TxTemplate \<Rightarrow> unit backend" where
  "oob_store drv automatic q pending =
     (if automatic then do {
        mi \<leftarrow> gets bk_mi;
        modify (\<lambda>b. b\<lparr>bk_mi := pending, bk_miActive := True\<rparr>);
        unless (TxTemplate_tlvs mi = TxTemplate_tlvs pending \<and> TxTemplate_tlvs mi \<noteq> None) (do {
          now \<leftarrow> query_sched (nowUs drv);
          modify (\<lambda>b. b\<lparr>bk_miStart := now + ucast (oq_unk3 q), bk_miCounterValid := False\<rparr>) }) }
      else do {
        queued \<leftarrow> query_sched (nowUs drv);
        modify (\<lambda>b. b\<lparr>bk_oob := (bk_oob b)[(bk_oobHead b + bk_oobCount b) mod oobCapacity :=
            \<lparr>os_queued = queued, os_peer = oq_address q, os_action = pending\<rparr>], bk_oobCount := bk_oobCount b + 1\<rparr>) })"

definition oob_wake :: "window_driver \<Rightarrow> radio \<Rightarrow> IOReturn backend" where
  "oob_wake drv radio = do {
     active \<leftarrow> gets bk_active;
     if \<not> active then State_Monad.return kIOReturnSuccess
     else do {
       now \<leftarrow> query_sched (nowUs drv);
       modify (\<lambda>b. b\<lparr>bk_pumpDeadline := now + 1\<rparr>);
       armed \<leftarrow> rearm drv radio;
       if armed then State_Monad.return kIOReturnSuccess
       else do { modify (\<lambda>b. b\<lparr>bk_fault := True\<rparr>); State_Monad.return kIOReturnError } } }"

definition oob_checks :: "window_driver \<Rightarrow> bool \<Rightarrow> OobRequest \<Rightarrow> IOReturn option backend" where
  "oob_checks drv automatic q = do {
     b \<leftarrow> State_Monad.get;
     if automatic then State_Monad.return (oob_automatic_checks q)
     else if oob_directed_checks 0 q b \<in> {Some kIOReturnUnsupported, Some kIOReturnBadArgument} then State_Monad.return (oob_directed_checks 0 q b)
     else do { now \<leftarrow> query_sched (nowUs drv); State_Monad.return (oob_directed_checks now q b) } }"

definition oobRequest :: "window_driver \<Rightarrow> radio \<Rightarrow> bool \<Rightarrow> OobRequest \<Rightarrow> IOReturn backend" where
  "oobRequest drv radio automatic q = do {
     b \<leftarrow> State_Monad.get;
     if \<not> bk_owns b \<or> bk_fault b then State_Monad.return kIOReturnNotReady
     else if automatic \<and> oob_automatic_checks q \<noteq> Some kIOReturnUnsupported \<and> (oq_unk4 q = 0 \<or> oq_data_len q = 0)
     then do {
       modify (\<lambda>b. b\<lparr>bk_mi := TxTemplate_clear (bk_mi b), bk_miActive := False, bk_miCounterValid := False\<rparr>);
       State_Monad.return kIOReturnSuccess }
     else do {
       refused \<leftarrow> oob_checks drv automatic q;
       case refused of Some r \<Rightarrow> State_Monad.return r
       | None \<Rightarrow>
           if \<not> NativeAction_valid (oq_data q) then State_Monad.return kIOReturnBadArgument
           else
             case TxTemplate_replaceTlvs (oq_data q) (oq_data_len q) 0x10 3 (bk_pendingAction b) of (ok, pending) \<Rightarrow>
             if \<not> ok then State_Monad.return kIOReturnBadArgument
             else do {
               oob_store drv automatic q pending;
               modify (\<lambda>b. b\<lparr>bk_pendingAction := TxTemplate_clear pending\<rparr>);
               oob_wake drv radio } } }"

subsection \<open>The timer\<close>

text \<open>
  An operation of the scheduler that may arm or cancel its timer: the backend, which is its driver, keeps the deadline. What the
  interface answers is the driver's answer.
\<close>

fun driver_deadline :: "SchedEvent \<Rightarrow> u64 \<Rightarrow> u64" where
  "driver_deadline (ArmTimer deadline now ok) _ = deadline"
| "driver_deadline CancelTimer _ = 0"
| "driver_deadline _ d = d"

definition run_sched :: "'a sched \<Rightarrow> 'a backend" where
  "run_sched m = State (\<lambda>b. case run_state m (bk_sched b) of (r, s) \<Rightarrow>
     (r, b\<lparr>bk_sched := s, bk_windowDeadline := fold driver_deadline (drop (length (ws_log (bk_sched b))) (ws_log s)) (bk_windowDeadline b)\<rparr>))"

definition startWhenAuthorized :: "window_driver \<Rightarrow> radio \<Rightarrow> bool backend" where
  "startWhenAuthorized drv radio = do {
     prepared \<leftarrow> call_radio radio (\<lambda>_. PrepareRadio);
     if \<not> prepared then do {
       now \<leftarrow> query_sched (nowUs drv);
       modify (\<lambda>b. b\<lparr>bk_pumpDeadline := now + 100000\<rparr>);
       rearm drv radio }
     else run_sched (WindowScheduler_start drv 100000 5000) }"

definition timerFired :: "window_driver \<Rightarrow> radio \<Rightarrow> unit backend" where
  "timerFired drv radio = do {
     b \<leftarrow> State_Monad.get;
     unless (\<not> bk_active b \<or> bk_servicing b) (do {
       modify (\<lambda>b. b\<lparr>bk_servicing := True, bk_windowDeadline := 0, bk_pumpDeadline := 0\<rparr>);
       unless (\<not> (bk_synchronize b \<and> ws_phase (bk_sched b) = Stopped)) (do {
         started \<leftarrow> startWhenAuthorized drv radio;
         unless started (modify (\<lambda>b. b\<lparr>bk_fault := True\<rparr>)) });
       run_sched (WindowScheduler_service drv);
       call_radio radio (\<lambda>_. ServiceWindow);
       modify (\<lambda>b. if ws_phase (bk_sched b) = Failed then b\<lparr>bk_fault := True\<rparr> else b);
       b \<leftarrow> State_Monad.get;
       unless (\<not> (bk_active b \<and> \<not> bk_fault b \<and> ws_phase (bk_sched b) = Open)) (serviceTransmit drv radio);
       b \<leftarrow> State_Monad.get;
       unless (\<not> (bk_active b \<and> bk_synchronize b \<and> \<not> bk_fault b \<and> ws_phase (bk_sched b) = Stopped)) (do {
         now \<leftarrow> query_sched (nowUs drv);
         modify (\<lambda>b. b\<lparr>bk_pumpDeadline := now + 100000\<rparr>) });
       modify (\<lambda>b. b\<lparr>bk_servicing := False\<rparr>);
       active \<leftarrow> gets bk_active;
       unless (\<not> active) (do { rearm drv radio; State_Monad.return () }) }) }"

section \<open>Channels and frequencies\<close>

lemma frequencyFor_nat:
  "unat (frequencyFor c) = (if 1 \<le> unat c \<and> unat c \<le> 13 then 2407 + 5 * unat c else if 36 \<le> unat c \<and> unat c \<le> 177 then 5000 + 5 * unat c else 0)"
  by (simp add: frequencyFor_def word_le_nat_alt unsigned_ucast_eq take_bit_eq_mod unat_word_ariths)

lemma channel_of_frequency:
  assumes "frequencyFor c \<noteq> 0"
  shows "channelFor (frequencyFor c) = c"
proof -
  define f where "f = frequencyFor c"
  have f: "unat f \<noteq> 0" "unat f = (if 1 \<le> unat c \<and> unat c \<le> 13 then 2407 + 5 * unat c else if 36 \<le> unat c \<and> unat c \<le> 177 then 5000 + 5 * unat c else 0)"
    using assms frequencyFor_nat [of c] unat_eq_zero [of "frequencyFor c"] by (simp_all only: f_def simp_thms)
  have "unat (channelFor f) = unat c"
    using f unfolding channelFor_def
    by (auto simp: word_le_nat_alt unat_mod unat_div unat_sub unsigned_ucast_eq take_bit_eq_mod unat_word_ariths unat_sub_if' word_eq_iff_unsigned unat_arith_simps split: if_splits)
  then show ?thesis by (simp add: f_def word_unat_eq_iff)
qed

section \<open>Ring buffers\<close>

definition ring :: "'a list \<Rightarrow> nat \<Rightarrow> nat \<Rightarrow> 'a list" where
  "ring xs h n = map (\<lambda>i. xs ! ((h + i) mod length xs)) [0..<n]"

lemma length_ring [simp]: "length (ring xs h n) = n" by (simp add: ring_def)

lemma mod_add_cancel:
  assumes "i < n" "n < (m :: nat)"
  shows "(h + n) mod m \<noteq> (h + i) mod m"
proof
  assume "(h + n) mod m = (h + i) mod m"
  then have "(h + n - (h + i)) mod m = 0" by (metis mod_eq_dvd_iff_nat dvd_imp_mod_0 add_le_cancel_left assms(1) less_imp_le)
  then show False using assms by simp
qed

lemma ring_push:
  assumes "n < length xs"
  shows "ring (xs[(h + n) mod length xs := x]) h (n + 1) = ring xs h n @ [x]"
proof -
  have "(h + n) mod length xs < length xs" using assms by (intro mod_less_divisor) auto
  then show ?thesis using mod_add_cancel [OF _ assms, of _ h] by (auto simp: ring_def)
qed

lemma ring_pop:
  assumes "0 < n" "n \<le> length xs" "h < length xs"
  shows "ring xs h n = xs ! h # ring (xs[h := y]) ((h + 1) mod length xs) (n - 1)"
proof -
  obtain k where k: "n = Suc k" using assms(1) by (cases n) auto
  have "((h + 1) mod length xs + i) mod length xs = (h + Suc i) mod length xs" for i by (simp add: mod_add_left_eq)
  moreover have "h \<noteq> (h + Suc i) mod length xs" if "i < k" for i
  proof -
    have "(h + 0) mod length xs = h" using assms(3) by simp
    then show ?thesis using mod_add_cancel [of 0 "Suc i" "length xs" h] that assms(2) k by simp
  qed
  ultimately have "map (\<lambda>i. xs ! ((h + Suc i) mod length xs)) [0..<k] = ring (xs[h := y]) ((h + 1) mod length xs) k"
    by (auto simp: ring_def nth_list_update_neq)
  moreover have "ring xs h n = xs ! (h mod length xs) # map (\<lambda>i. xs ! ((h + Suc i) mod length xs)) [0..<k]"
    unfolding ring_def k by (simp only: map_upt_Suc add_0_right)
  ultimately show ?thesis using assms(3) k by simp
qed

end
