(* ===== verification/Awdl_Backend_Safe.thy ===== *)
theory Awdl_Backend_Safe
  imports Awdl_Backend
begin

text \<open>
  The transmit path of the backend is safe: every frame that the service of a window puts on the air has a permission of the scheduler and is
  addressed properly, and the packet queue is served in order. The effect of each part is one relation between states, which composes.
\<close>

section \<open>What the service of a window sends\<close>

text \<open>The driver's last five answers before the moment \<open>k\<close> permit a transmission in the open window.\<close>

definition permitted :: "window_driver \<Rightarrow> WindowScheduler \<Rightarrow> bool \<Rightarrow> nat \<Rightarrow> bool" where
  "permitted drv s multicast k \<longleftrightarrow> ws_phase s = Open \<and> \<not> ws_stopRequested s \<and> 5 \<le> k \<and>
     (let w = ws_window s; observed = unat (da_now (drv (k - 2))) in
      da_channel (drv (k - 5)) = sw_channel w \<and> da_ready (drv (k - 4)) \<and> da_allowed (drv (k - 3)) (sw_channel w) \<and>
      unat (sw_actualStartUs w) + 2048 \<le> observed \<and> observed + 2048 < unat (sw_endUs w) \<and>
      (multicast \<longrightarrow> (unat (sw_counter w) div unat (sw_presence w)) mod 16 \<in> {0, 10}))"

text \<open>By what the node knows of its schedule, the station is on the window's channel.\<close>

definition listens :: "Backend \<Rightarrow> bytes \<Rightarrow> u64 \<Rightarrow> bool" where
  "listens b a now = (case State_find (bk_state b) (Some a) of None \<Rightarrow> False
     | Some i \<Rightarrow> Peer_channel (es_peers (bk_state b) ! i) now = sw_channel (bk_window b))"

definition own_action :: "bytes \<Rightarrow> bytes \<Rightarrow> bool" where
  "own_action mac f \<longleftrightarrow> fst (parseFrame (Some f)) = ParseValid \<and> f ! 30 \<in> {0, 3} \<and> piece 10 6 f = mac \<and> piece 16 6 f = awdl_bssid"

fun tx_safe :: "window_driver \<Rightarrow> Backend \<Rightarrow> bk_event \<Rightarrow> bool" where
  "tx_safe drv b (TxAction f frequency k ok) \<longleftrightarrow>
     frequency = frequencyFor (sw_channel (bk_window b)) \<and> permitted drv (bk_sched b) False k \<and> own_action (es_mac (bk_state b)) f \<and>
     (piece 4 6 f = replicate 6 0xff \<or> listens b (piece 4 6 f) (da_now (drv (k - 6))))"
| "tx_safe drv b (TxData f frequency deadline k ok) \<longleftrightarrow>
     frequency = frequencyFor (sw_channel (bk_window b)) \<and> deadline = sw_endUs (bk_window b) \<and> permitted drv (bk_sched b) (f ! 4 AND 1 \<noteq> 0) k \<and>
     piece 10 6 f = es_mac (bk_state b) \<and>
     (f ! 4 AND 1 = 0 \<longrightarrow> NativePeers_authorized (Some (piece 4 6 f)) (bk_peers b) \<and>
        (State_find (bk_state b) (Some (piece 4 6 f)) = None \<or> listens b (piece 4 6 f) (da_now (drv (k - 6)))))"
| "tx_safe drv b _ \<longleftrightarrow> True"

text \<open>The data frames the hardware layer took, and that they carry the given packets with consecutive sequence numbers.\<close>

definition sent :: "bk_event list \<Rightarrow> bytes list" where
  "sent evs = concat (map (\<lambda>e. case e of TxData f _ _ _ ok \<Rightarrow> if ok then [f] else [] | _ \<Rightarrow> []) evs)"

fun carried :: "u16 \<Rightarrow> bytes list \<Rightarrow> bytes list \<Rightarrow> bool" where
  "carried ds [] [] \<longleftrightarrow> True"
| "carried ds (f # fs) (p # ps) \<longleftrightarrow>
     DataCodec_inspect (Some f) = Some \<lparr>view_destination = piece 0 6 p, view_source = piece 6 6 p, view_payload = drop 14 p, view_sequence = ds\<rparr> \<and>
     carried (ds + 1) fs ps"
| "carried ds _ _ \<longleftrightarrow> False"

definition data_queue :: "Backend \<Rightarrow> bytes list" where
  "data_queue b = map ds_bytes (ring (bk_data b) (bk_dataHead b) (bk_dataCount b))"

text \<open>The invariant of the backend.\<close>

definition queues_ok :: "bytes \<Rightarrow> Backend \<Rightarrow> bool" where
  "queues_ok mac b \<longleftrightarrow> length (bk_data b) = dataCapacity \<and> bk_dataHead b < dataCapacity \<and> bk_dataCount b \<le> dataCapacity \<and>
     list_all (\<lambda>p. validEthernet (Some p) \<and> piece 6 6 p = mac) (data_queue b) \<and>
     length (bk_oob b) = oobCapacity \<and> bk_oobHead b < oobCapacity \<and> bk_oobCount b \<le> oobCapacity \<and>
     list_all (\<lambda>s. length (os_peer s) = 6 \<and> wf_template (os_action s)) (bk_oob b) \<and>
     wf_template (bk_psf b) \<and> wf_template (bk_mi b) \<and> wf_template (bk_pendingAction b) \<and> length (bk_frame b) = 4096"

definition backend_inv :: "bytes \<Rightarrow> Backend \<Rightarrow> bool" where
  "backend_inv mac b \<longleftrightarrow> sound mac (bk_state b) \<and> queues_ok mac b"

definition steady :: "Backend \<Rightarrow> Backend \<Rightarrow> bool" where
  "steady b b' \<longleftrightarrow> bk_peers b' = bk_peers b \<and>
     (\<exists>fc dc k. bk_sched b' = (bk_sched b)\<lparr>ws_state := (bk_state b)\<lparr>es_frameCounter := fc, es_dataCounter := dc\<rparr>, ws_step := k\<rparr>)"

definition sends :: "window_driver \<Rightarrow> bytes \<Rightarrow> Backend \<Rightarrow> Backend \<Rightarrow> bool" where
  "sends drv mac b b' \<longleftrightarrow> steady b b' \<and> backend_inv mac b' \<and>
     (\<exists>evs k ps. bk_log b' = bk_log b @ evs \<and> list_all (tx_safe drv b) evs \<and> data_queue b' = drop k (data_queue b) \<and>
        subseq ps (take k (data_queue b)) \<and> carried (es_dataCounter (bk_state b)) (sent evs) ps \<and>
        es_dataCounter (bk_state b') = es_dataCounter (bk_state b) + of_nat (length ps))"

lemma steady_trans: "steady b c \<Longrightarrow> steady c d \<Longrightarrow> steady b d"
  by (auto simp: steady_def) (intro exI, rule refl)

lemma State_find_counters [simp]: "State_find (s\<lparr>es_frameCounter := x\<rparr>) a = State_find s a" "State_find (s\<lparr>es_dataCounter := y\<rparr>) a = State_find s a"
  by (cases a; simp add: State_find_def)+

lemma steady_safe:
  assumes "steady b c"
  shows "tx_safe drv c e = tx_safe drv b e"
proof -
  from assms obtain fc dc k where s: "bk_sched c = (bk_sched b)\<lparr>ws_state := (bk_state b)\<lparr>es_frameCounter := fc, es_dataCounter := dc\<rparr>, ws_step := k\<rparr>"
    and p: "bk_peers c = bk_peers b" by (auto simp: steady_def)
  have "permitted drv (bk_sched c) m j = permitted drv (bk_sched b) m j" "listens c a now = listens b a now" for m j a now
    by (simp_all add: permitted_def listens_def s split: option.split)
  then show ?thesis by (cases e) (simp_all add: s p)
qed

lemma carried_append: "carried ds fs ps \<Longrightarrow> carried (ds + of_nat (length ps)) fs' ps' \<Longrightarrow> carried ds (fs @ fs') (ps @ ps')"
  by (induction ds fs ps rule: carried.induct) (simp_all add: algebra_simps)

lemma sent_simps [simp]: "sent [] = []" "sent (xs @ ys) = sent xs @ sent ys"
  "sent (TxData f q d k ok # es) = (if ok then f # sent es else sent es)" "sent (TxAction f q k ok # es) = sent es" "sent (ResumeTransmit # es) = sent es"
  by (simp_all add: sent_def)

lemma sends_trans:
  assumes "sends drv mac b c" "sends drv mac c d"
  shows "sends drv mac b d"
proof -
  obtain e1 k1 p1 where 1: "bk_log c = bk_log b @ e1" "list_all (tx_safe drv b) e1" "data_queue c = drop k1 (data_queue b)" "subseq p1 (take k1 (data_queue b))"
    "carried (es_dataCounter (bk_state b)) (sent e1) p1" "es_dataCounter (bk_state c) = es_dataCounter (bk_state b) + of_nat (length p1)"
    using assms(1) by (auto simp: sends_def)
  obtain e2 k2 p2 where 2: "bk_log d = bk_log c @ e2" "list_all (tx_safe drv c) e2" "data_queue d = drop k2 (data_queue c)" "subseq p2 (take k2 (data_queue c))"
    "carried (es_dataCounter (bk_state c)) (sent e2) p2" "es_dataCounter (bk_state d) = es_dataCounter (bk_state c) + of_nat (length p2)"
    using assms(2) by (auto simp: sends_def)
  have s: "steady b c" "steady c d" "backend_inv mac d" using assms by (simp_all add: sends_def)
  have "subseq (p1 @ p2) (take (k1 + k2) (data_queue b))"
    unfolding take_add using 1(3,4) 2(4) by (simp add: list_emb_append_mono)
  moreover have "carried (es_dataCounter (bk_state b)) (sent (e1 @ e2)) (p1 @ p2)" using carried_append [OF 1(5)] 1(6) 2(5) by simp
  moreover have "list_all (tx_safe drv b) (e1 @ e2)" using 1(2) 2(2) steady_safe [OF s(1)] by (auto simp: list_all_iff)
  moreover have "bk_log d = bk_log b @ (e1 @ e2)" "data_queue d = drop (k1 + k2) (data_queue b)" "es_dataCounter (bk_state d) = es_dataCounter (bk_state b) + of_nat (length (p1 @ p2))"
    using 1 2 by (simp_all add: add.commute)
  ultimately show ?thesis unfolding sends_def using steady_trans [OF s(1,2)] s(3) by blast
qed

text \<open>Steps that leave the packet queue alone.\<close>

lemma sends_quiet:
  assumes "backend_inv mac b" "queues_ok mac b'" "bk_peers b' = bk_peers b"
    and "bk_sched b' = (bk_sched b)\<lparr>ws_state := (bk_state b)\<lparr>es_frameCounter := fc\<rparr>, ws_step := k\<rparr>"
    and "data_queue b' = data_queue b" "bk_log b' = bk_log b @ evs" "list_all (tx_safe drv b) evs" "sent evs = []"
  shows "sends drv mac b b'"
proof -
  have "steady b b'" unfolding steady_def using assms(3,4) by (intro conjI exI [of _ fc] exI [of _ "es_dataCounter (bk_state b)"] exI [of _ k]) simp_all
  moreover have "backend_inv mac b'" using assms(1,2,4) by (auto simp: backend_inv_def intro: sound_ops)
  ultimately show ?thesis unfolding sends_def using assms(4-8) by (intro conjI exI [of _ evs] exI [of _ 0] exI [of _ "[]"]) simp_all
qed

lemma wp_query_sched [wp_simps]: "wp (query_sched m) Q b = wp m (\<lambda>r s. Q r (b\<lparr>bk_sched := s\<rparr>)) (bk_sched b)"
  by (simp add: query_sched_def wp_def split: prod.split)

lemma wp_call_radio [wp_simps]:
  "wp (call_radio radio ev) Q b =
     (let a = radio (length (bk_log b)); b' = b\<lparr>bk_log := bk_log b @ [ev b (ra_ok a)]\<rparr> in Q (ra_ok a) (if ra_revoke a then revokeTraffic b' else b'))"
  by (simp add: call_radio_def wp_State Let_def)

lemma in_guard_nat: "in_guard w n \<Longrightarrow> unat (sw_actualStartUs w) + 2048 \<le> unat n \<and> unat n + 2048 < unat (sw_endUs w)"
  by (auto simp: in_guard_def guardUs_def word_less_nat_alt word_le_nat_alt unat_sub not_less not_le)

lemma canTransmit_permitted:
  "wp (canTransmit drv now multicast) (\<lambda>r t. \<exists>k. t = s\<lparr>ws_step := k\<rparr> \<and> (r \<longrightarrow> k = ws_step s + 5 \<and> permitted drv s multicast k)) s"
proof -
  have "wp (canTransmit drv now multicast) (\<lambda>r t. t = s\<lparr>ws_step := ws_step t\<rparr> \<and> (r \<longrightarrow> ws_phase s = Open \<and> \<not> ws_stopRequested s \<and> ws_step t = Suc (Suc (Suc (Suc (Suc (ws_step s))))) \<and>
    (let w = ws_window s; k = ws_step s; observed = da_now (drv (k + 3)) in
      da_channel (drv k) = sw_channel w \<and> da_ready (drv (k + 1)) \<and> da_allowed (drv (k + 2)) (sw_channel w) \<and> in_guard w observed \<and>
      (multicast \<longrightarrow> (unat (sw_counter w) div unat (sw_presence w)) mod 16 \<in> {0, 10})))) s"
    unfolding canTransmit_def by (simp add: wp_simps Let_def slots_def numeral_3_eq_3 numeral_2_eq_2 not_less)
  then show ?thesis
  proof (rule wp_mono)
    fix r t
    assume *: "t = s\<lparr>ws_step := ws_step t\<rparr> \<and> (r \<longrightarrow> ws_phase s = Open \<and> \<not> ws_stopRequested s \<and> ws_step t = Suc (Suc (Suc (Suc (Suc (ws_step s))))) \<and>
      (let w = ws_window s; k = ws_step s; observed = da_now (drv (k + 3)) in
        da_channel (drv k) = sw_channel w \<and> da_ready (drv (k + 1)) \<and> da_allowed (drv (k + 2)) (sw_channel w) \<and> in_guard w observed \<and>
        (multicast \<longrightarrow> (unat (sw_counter w) div unat (sw_presence w)) mod 16 \<in> {0, 10})))"
    have "r \<longrightarrow> ws_step t = ws_step s + 5 \<and> permitted drv s multicast (ws_step t)"
      using conjunct2 [OF *] in_guard_nat [of "ws_window s" "da_now (drv (ws_step s + 3))"]
      by (auto simp: permitted_def Let_def numeral_2_eq_2 numeral_3_eq_3)
    then show "\<exists>k. t = s\<lparr>ws_step := k\<rparr> \<and> (r \<longrightarrow> k = ws_step s + 5 \<and> permitted drv s multicast k)" using * by blast
  qed
qed

lemma own_action_patch:
  assumes "own_action mac f" "length a = 6" "31 \<le> length f"
  shows "own_action mac (patch 4 a f)" "piece 4 6 (patch 4 a f) = a"
proof -
  have n: "patch 4 a f ! j = f ! j" if "j < 4 \<or> 10 \<le> j" for j using that assms(2,3) nth_patch [of 4 a f j] by auto
  have d: "drop 24 (patch 4 a f) = drop 24 f" using assms(2,3) by (simp add: patch_def)
  have p: "piece 10 6 (patch 4 a f) = piece 10 6 f" "piece 16 6 (patch 4 a f) = piece 16 6 f"
    using assms(2,3) piece_patch_other [of 4 a f] by simp_all
  have "parseFrame (Some (patch 4 a f)) = parseFrame (Some f)"
    using assms(2,3) by (simp add: parseFrame_def n d)
  then show "own_action mac (patch 4 a f)" using assms(1) n [of 30] p by (simp add: own_action_def)
  show "piece 4 6 (patch 4 a f) = a" using piece_patch_same [of 4 a f] assms(2,3) by simp
qed

definition built :: "Backend \<Rightarrow> nat \<Rightarrow> Backend \<Rightarrow> bool" where
  "built b n b' \<longleftrightarrow> (\<exists>f. b' = bk_set_state ((bk_state b)\<lparr>es_frameCounter := es_frameCounter (bk_state b) + 1\<rparr>) (b\<lparr>bk_frame := f\<rparr>) \<and> length f = 4096 \<and>
     own_action (es_mac (bk_state b)) (take n f) \<and> piece 4 6 (take n f) = replicate 6 0xff \<and> 141 \<le> n \<and> n \<le> 4096)"

lemma build_action_built:
  assumes "wf_state (bk_state b)" "wf_template t" "length (bk_frame b) = 4096"
  shows "wp (build_action t now subtype) (\<lambda>r b'. case r of None \<Rightarrow> b' = b | Some n \<Rightarrow> built b n b') b"
proof (cases "NativeAction_build t (Some (bk_frame b)) now (ucast now) subtype (bk_state b)")
  case None
  then show ?thesis by (simp add: build_action_def wp_State)
next
  case (Some r)
  then obtain n f s where r: "NativeAction_build t (Some (bk_frame b)) now (ucast now) subtype (bk_state b) = Some (n, f, s)" by (cases r) auto
  obtain tl where tl: "TxTemplate_tlvs t = Some tl" using r by (cases "TxTemplate_tlvs t") (auto simp: NativeAction_build_def NativeAction_valid_def)
  obtain ts where ts: "tl = encode_tlvs ts" "list_all tlv_ok ts" "native_ok ts" "length tl \<le> 2048"
    and b: "State_radioScheduleReady (bk_state b)" "es_epoch (bk_state b) \<le> now" "subtype = 0 \<or> subtype = 3"
      "n = 141 + length (encode_tlvs (kept ts))" "n \<le> length (bk_frame b)"
      "f = sync_frame (bk_state b) now (ucast now) (ucast now) subtype @ encode_tlvs (map (fresh (bk_state b)) (kept ts)) @ drop n (bk_frame b)"
      "s = (bk_state b)\<lparr>es_frameCounter := es_frameCounter (bk_state b) + 1\<rparr>"
    by (rule NativeAction_build_SomeD [OF assms(1) tl r assms(2)])
  let ?s = "bk_state b"
  let ?F = "sync_frame ?s now (ucast now) (ucast now) subtype" and ?x = "map (fresh ?s) (kept ts)"
  note len = wf_state_lengths [OF assms(1)]
  have lF: "length ?F = 141" using assms(1) len by (simp add: sync_frame_def sync_tlvs_def)
  have x: "length (encode_tlvs ?x) = length (encode_tlvs (kept ts))" by (rule length_fresh [OF ts(3) len(2)])
  have take: "take n f = ?F @ encode_tlvs ?x" using b(4,6) lF x by simp
  have short: "length (encode_tlvs ?x) \<le> 3979" using x length_kept [of ts] ts(1,4) by simp
  have valid: "fst (parseFrame (Some (?F @ encode_tlvs ?x))) = ParseValid"
    by (rule parse_sync_extended [OF assms(1) b(3) fresh_ok [OF ts(3,2) len(2)] short])
  have F: "take n f = [0xd0, 0, 0, 0] @ replicate 6 255 @ es_mac ?s @ awdl_bssid @ put16 (push_bit 4 (es_frameCounter ?s AND 4095)) @
      sync_envelope (ucast now) (ucast now) subtype @ encode_tlvs (sync_tlvs ?s now) @ encode_tlvs ?x"
    unfolding take by (simp add: sync_frame_def sync_header_def)
  have "own_action (es_mac ?s) (take n f)" "piece 4 6 (take n f) = replicate 6 0xff"
    using valid b(3) unfolding own_action_def take [symmetric] by (simp_all add: F fields len nth_append sync_envelope_def)
  moreover have "length f = 4096" using b(4-6) lF x assms(3) by simp
  ultimately have "built b n (bk_set_state s (b\<lparr>bk_frame := f\<rparr>))" unfolding built_def using b(4,5,7) assms(3) by (intro exI [of _ f]) simp
  then show ?thesis by (simp add: build_action_def wp_State r)
qed

lemma neutral_fields [simp]:
  "data_queue (b\<lparr>bk_lastPsfChannel := c\<rparr>) = data_queue b" "data_queue (b\<lparr>bk_nextPsf := t\<rparr>) = data_queue b" "data_queue (b\<lparr>bk_lastMiEaw := e\<rparr>) = data_queue b"
  "data_queue (b\<lparr>bk_miCounterValid := v\<rparr>) = data_queue b" "data_queue (b\<lparr>bk_pumpDeadline := t\<rparr>) = data_queue b" "data_queue (b\<lparr>bk_active := v\<rparr>) = data_queue b"
  "data_queue (b\<lparr>bk_sched := s\<rparr>) = data_queue b" "data_queue (b\<lparr>bk_frame := f\<rparr>) = data_queue b" "data_queue (b\<lparr>bk_log := l\<rparr>) = data_queue b"
  "data_queue (b\<lparr>bk_oob := os\<rparr>) = data_queue b" "data_queue (b\<lparr>bk_oobHead := n\<rparr>) = data_queue b" "data_queue (b\<lparr>bk_oobCount := n\<rparr>) = data_queue b"
  "queues_ok mac (b\<lparr>bk_lastPsfChannel := c\<rparr>) = queues_ok mac b" "queues_ok mac (b\<lparr>bk_nextPsf := t\<rparr>) = queues_ok mac b"
  "queues_ok mac (b\<lparr>bk_lastMiEaw := e\<rparr>) = queues_ok mac b" "queues_ok mac (b\<lparr>bk_miCounterValid := v\<rparr>) = queues_ok mac b"
  "queues_ok mac (b\<lparr>bk_pumpDeadline := t\<rparr>) = queues_ok mac b" "queues_ok mac (b\<lparr>bk_active := v\<rparr>) = queues_ok mac b"
  "queues_ok mac (b\<lparr>bk_sched := s\<rparr>) = queues_ok mac b" "queues_ok mac (b\<lparr>bk_log := l\<rparr>) = queues_ok mac b"
  by (simp_all add: queues_ok_def data_queue_def)

lemma sends_neutral [simp]:
  "sends drv mac b (b'\<lparr>bk_lastPsfChannel := c\<rparr>) = sends drv mac b b'" "sends drv mac b (b'\<lparr>bk_nextPsf := t\<rparr>) = sends drv mac b b'"
  "sends drv mac b (b'\<lparr>bk_lastMiEaw := e\<rparr>) = sends drv mac b b'" "sends drv mac b (b'\<lparr>bk_miCounterValid := v\<rparr>) = sends drv mac b b'"
  "sends drv mac b (b'\<lparr>bk_pumpDeadline := t\<rparr>) = sends drv mac b b'" "sends drv mac b (b'\<lparr>bk_active := v\<rparr>) = sends drv mac b b'"
  by (simp_all add: sends_def steady_def backend_inv_def)

lemma sends_revoke [simp]: "sends drv mac b (revokeTraffic b') = sends drv mac b b'"
  by (simp add: revokeTraffic_def)

lemma sends_step: "backend_inv mac b \<Longrightarrow> sends drv mac b (b\<lparr>bk_sched := (bk_sched b)\<lparr>ws_step := k\<rparr>\<rparr>)"
  by (rule sends_quiet [where fc = "es_frameCounter (bk_state b)" and k = k and evs = "[]"]) (simp_all add: backend_inv_def)

lemma sends_refl: "backend_inv mac b \<Longrightarrow> sends drv mac b b"
  using sends_step [of mac b drv "ws_step (bk_sched b)"] by simp

lemma sends_inv: "sends drv mac b b' \<Longrightarrow> backend_inv mac b'" and sends_steady: "sends drv mac b b' \<Longrightarrow> steady b b'"
  by (simp_all add: sends_def)

lemma transmit_sends:
  assumes "backend_inv mac b" "permitted drv (bk_sched b) False (ws_step (bk_sched b))" "length g = 4096" "own_action mac (take n g)"
    and "piece 4 6 (take n g) = replicate 6 0xff \<or> listens b (piece 4 6 (take n g)) (da_now (drv (ws_step (bk_sched b) - 6)))"
    and "frequency = frequencyFor (sw_channel (bk_window b))"
  shows "wp (transmitAwdlAction radio n frequency) (\<lambda>_. sends drv mac b)
    (bk_set_state ((bk_state b)\<lparr>es_frameCounter := fc\<rparr>) (b\<lparr>bk_frame := g\<rparr>))"
proof -
  have "es_mac (bk_state b) = mac" using assms(1) by (simp add: backend_inv_def sound_def)
  then have "sends drv mac b (bk_set_state ((bk_state b)\<lparr>es_frameCounter := fc\<rparr>) (b\<lparr>bk_frame := g\<rparr>)
      \<lparr>bk_log := bk_log b @ [TxAction (take n g) frequency (ws_step (bk_sched b)) ok]\<rparr>)" for ok
    using assms
    by (intro sends_quiet [where fc = fc and k = "ws_step (bk_sched b)" and evs = "[TxAction (take n g) frequency (ws_step (bk_sched b)) ok]"])
      (simp_all add: bk_set_state_def backend_inv_def queues_ok_def data_queue_def)
  then show ?thesis by (simp add: transmitAwdlAction_def wp_call_radio Let_def bk_set_state_def)
qed

lemma steady_facts:
  assumes "steady b c"
  shows "bk_window c = bk_window b" "es_peers (bk_state c) = es_peers (bk_state b)" "es_mac (bk_state c) = es_mac (bk_state b)" "bk_peers c = bk_peers b"
    "es_psfPeriod (bk_state c) = es_psfPeriod (bk_state b)" "State_find (bk_state c) a = State_find (bk_state b) a"
  using assms by (auto simp: steady_def)

text \<open>Building an action and transmitting it, before whatever comes next.\<close>

lemma send_built:
  assumes inv: "backend_inv mac c" and may: "permitted drv (bk_sched c) False (ws_step (bk_sched c))" and t: "wf_template t"
    and fr: "frequency = frequencyFor (sw_channel (bk_window c))"
    and none: "wp m0 Q c" and some: "\<And>ok d. sends drv mac c d \<Longrightarrow> wp (m ok) Q d"
  shows "wp (build_action t now subtype) (\<lambda>r. wp (case r of None \<Rightarrow> m0 | Some n \<Rightarrow> transmitAwdlAction radio n frequency \<bind> m) Q) c"
proof -
  have w: "wf_state (bk_state c)" "length (bk_frame c) = 4096" and mac: "es_mac (bk_state c) = mac" using inv by (simp_all add: backend_inv_def sound_def queues_ok_def)
  show ?thesis
  proof (rule wp_mono [OF build_action_built [OF w(1) t w(2)]])
    fix r d
    assume r: "case r of None \<Rightarrow> d = c | Some n \<Rightarrow> built c n d"
    show "wp (case r of None \<Rightarrow> m0 | Some n \<Rightarrow> transmitAwdlAction radio n frequency \<bind> m) Q d"
    proof (cases r)
      case (Some n)
      then obtain g where d: "d = bk_set_state ((bk_state c)\<lparr>es_frameCounter := es_frameCounter (bk_state c) + 1\<rparr>) (c\<lparr>bk_frame := g\<rparr>)"
        and g: "length g = 4096" "own_action mac (take n g)" "piece 4 6 (take n g) = replicate 6 0xff" using r mac by (auto simp: built_def)
      have "wp (transmitAwdlAction radio n frequency) (\<lambda>_. sends drv mac c) d"
        unfolding d using g by (intro transmit_sends [OF inv may g(1,2) _ fr]) simp
      then show ?thesis unfolding Some option.case wp_bind by (rule wp_mono) (rule some)
    qed (use r none in simp)
  qed
qed

lemma permitted_step [simp]: "permitted drv (s\<lparr>ws_step := k\<rparr>) m j = permitted drv s m j"
  by (simp add: permitted_def)

text \<open>Asking the scheduler, before whatever comes next.\<close>

lemma ask_scheduler:
  assumes inv: "backend_inv mac b"
    and refused: "\<And>k. wp (m False) Q (b\<lparr>bk_sched := (bk_sched b)\<lparr>ws_step := k\<rparr>\<rparr>)"
    and granted: "\<And>c. c = b\<lparr>bk_sched := (bk_sched b)\<lparr>ws_step := ws_step (bk_sched b) + 5\<rparr>\<rparr> \<Longrightarrow> backend_inv mac c \<Longrightarrow>
      permitted drv (bk_sched c) multicast (ws_step (bk_sched c)) \<Longrightarrow> sends drv mac b c \<Longrightarrow> wp (m True) Q c"
  shows "wp (query_sched (canTransmit drv now multicast)) (\<lambda>r. wp (m r) Q) b"
  unfolding wp_query_sched
proof (rule wp_mono [OF canTransmit_permitted], elim exE conjE)
  fix r s k
  assume s: "s = (bk_sched b)\<lparr>ws_step := k\<rparr>" and p: "r \<longrightarrow> k = ws_step (bk_sched b) + 5 \<and> permitted drv (bk_sched b) multicast k"
  show "wp (m r) Q (b\<lparr>bk_sched := s\<rparr>)"
  proof (cases r)
    case True
    let ?c = "b\<lparr>bk_sched := (bk_sched b)\<lparr>ws_step := ws_step (bk_sched b) + 5\<rparr>\<rparr>"
    have "backend_inv mac ?c" "permitted drv (bk_sched ?c) multicast (ws_step (bk_sched ?c))" using inv p True by (auto simp: backend_inv_def)
    then show ?thesis using granted [OF refl _ _ sends_step [OF inv]] p True by (simp add: s)
  qed (use refused in \<open>simp add: s\<close>)
qed

lemma service_psf_sends:
  assumes "backend_inv mac b" "frequency = frequencyFor (sw_channel (bk_window b))"
  shows "wp (service_psf drv radio frequency now) (\<lambda>_. sends drv mac b) b"
proof (cases "bk_actionMode b = 0 \<and> tt_used (bk_psf b) \<noteq> 0")
  case True
  have t: "wf_template (bk_psf b)" using assms(1) by (simp add: backend_inv_def queues_ok_def)
  show ?thesis
    unfolding service_psf_def wp_bind [of State_Monad.get] wp_get if_P [OF True] wp_bind [of "query_sched _"]
  proof (rule ask_scheduler [OF assms(1)])
    fix c
    assume c: "c = b\<lparr>bk_sched := (bk_sched b)\<lparr>ws_step := ws_step (bk_sched b) + 5\<rparr>\<rparr>" "backend_inv mac c"
      "permitted drv (bk_sched c) False (ws_step (bk_sched c))" "sends drv mac b c"
    have "frequency = frequencyFor (sw_channel (bk_window c))" using assms(2) c(1) by simp
    then show "wp (unless (\<not> (True \<and> (bk_lastPsfChannel b \<noteq> sw_channel (bk_window b) \<or> bk_nextPsf b \<le> now)))
       (do {
         built \<leftarrow> build_action (bk_psf b) now 0;
         (case built of None \<Rightarrow> State_Monad.return () | Some n \<Rightarrow> do { transmitAwdlAction radio n frequency; State_Monad.return () });
         modify (\<lambda>b. b\<lparr>bk_lastPsfChannel := sw_channel (bk_window b), bk_nextPsf := now + ucast (es_psfPeriod (bk_state b)) * 1000\<rparr>) }))
      (\<lambda>_. sends drv mac b) c"
      unfolding wp_unless wp_bind
      using c(2-4) t by (auto simp: wp_simps intro!: send_built intro: sends_trans)
  qed (use sends_step [OF assms(1)] in \<open>simp add: wp_unless\<close>)
next
  case False
  then show ?thesis using sends_refl [OF assms(1)] by (auto simp: service_psf_def wp_simps)
qed

lemma service_mi_sends:
  assumes "backend_inv mac b" "frequency = frequencyFor (sw_channel (bk_window b))"
  shows "wp (service_mi drv radio frequency now) (\<lambda>_. sends drv mac b) b"
proof -
  define eaw where "eaw = sw_counter (bk_window b) div ucast (sw_presence (bk_window b))"
  have t: "wf_template (bk_mi b)" using assms(1) by (simp add: backend_inv_def queues_ok_def)
  have send: "wp (query_sched (canTransmit drv now False)) (\<lambda>may. wp (unless (\<not> may) (do {
       built \<leftarrow> build_action (bk_mi b) now 3;
       (case built of None \<Rightarrow> State_Monad.return () | Some n \<Rightarrow> do {
          sent \<leftarrow> transmitAwdlAction radio n frequency;
          unless (\<not> sent) (modify (\<lambda>b. b\<lparr>bk_lastMiEaw := eaw, bk_miCounterValid := True\<rparr>)) }) })) (\<lambda>_. sends drv mac b)) b"
  proof (rule ask_scheduler [OF assms(1)])
    fix c
    assume c: "c = b\<lparr>bk_sched := (bk_sched b)\<lparr>ws_step := ws_step (bk_sched b) + 5\<rparr>\<rparr>" "backend_inv mac c"
      "permitted drv (bk_sched c) False (ws_step (bk_sched c))" "sends drv mac b c"
    have "frequency = frequencyFor (sw_channel (bk_window c))" using assms(2) c(1) by simp
    then show "wp (unless (\<not> True) (do {
       built \<leftarrow> build_action (bk_mi b) now 3;
       (case built of None \<Rightarrow> State_Monad.return () | Some n \<Rightarrow> do {
          sent \<leftarrow> transmitAwdlAction radio n frequency;
          unless (\<not> sent) (modify (\<lambda>b. b\<lparr>bk_lastMiEaw := eaw, bk_miCounterValid := True\<rparr>)) }) })) (\<lambda>_. sends drv mac b) c"
      unfolding wp_unless wp_bind
      using c(2-4) t by (auto simp: wp_simps intro!: send_built intro: sends_trans)
  qed (use sends_step [OF assms(1)] in \<open>simp add: wp_unless\<close>)
  show ?thesis
    unfolding service_mi_def Let_def wp_bind [of State_Monad.get] wp_get eaw_def [symmetric]
    using send sends_refl [OF assms(1)] by (simp add: wp_bind [of "if _ then _ else _"] wp_if wp_return wp_unless)
qed

lemma popOob_sends:
  assumes "backend_inv mac b"
  shows "sends drv mac b (popOob b)"
proof -
  have q: "queues_ok mac b" using assms by (simp add: backend_inv_def)
  then have "length (os_peer (bk_oob b ! bk_oobHead b)) = 6" "wf_template (os_action (bk_oob b ! bk_oobHead b))"
    by (auto simp: queues_ok_def list_all_length)
  then have "list_all (\<lambda>s. length (os_peer s) = 6 \<and> wf_template (os_action s))
      ((bk_oob b)[bk_oobHead b := (bk_oob b ! bk_oobHead b)\<lparr>os_action := TxTemplate_clear (os_action (bk_oob b ! bk_oobHead b))\<rparr>])"
    using q by (auto simp: queues_ok_def list_all_iff wf_template_clear dest!: subsetD [OF set_update_subset_insert])
  then have "queues_ok mac (popOob b)" using q by (auto simp: popOob_def queues_ok_def oobCapacity_def data_queue_def)
  then show ?thesis
    by (intro sends_quiet [OF assms, where fc = "es_frameCounter (bk_state b)" and k = "ws_step (bk_sched b)" and evs = "[]"])
      (simp_all add: popOob_def data_queue_def)
qed

lemma listens_step [simp]: "listens (b\<lparr>bk_sched := (bk_sched b)\<lparr>ws_step := k\<rparr>\<rparr>) = listens b"
  by (simp add: listens_def fun_eq_iff split: option.split)

text \<open>The same for a frame that is addressed to one station.\<close>

lemma send_patched:
  assumes inv: "backend_inv mac c" and may: "permitted drv (bk_sched c) False (ws_step (bk_sched c))" and t: "wf_template t"
    and fr: "frequency = frequencyFor (sw_channel (bk_window c))" and a: "length a = 6" "listens c a (da_now (drv (ws_step (bk_sched c) - 6)))"
    and none: "wp m0 Q c" and some: "\<And>ok d. sends drv mac c d \<Longrightarrow> wp (m ok) Q d"
  shows "wp (build_action t now subtype) (\<lambda>r. wp (case r of None \<Rightarrow> m0 | Some n \<Rightarrow>
    modify (\<lambda>b. b\<lparr>bk_frame := patch 4 a (bk_frame b)\<rparr>) \<bind> (\<lambda>_. transmitAwdlAction radio n frequency \<bind> m)) Q) c"
proof -
  have w: "wf_state (bk_state c)" "length (bk_frame c) = 4096" and mac: "es_mac (bk_state c) = mac" using inv by (simp_all add: backend_inv_def sound_def queues_ok_def)
  show ?thesis
  proof (rule wp_mono [OF build_action_built [OF w(1) t w(2)]])
    fix r d
    assume r: "case r of None \<Rightarrow> d = c | Some n \<Rightarrow> built c n d"
    show "wp (case r of None \<Rightarrow> m0 | Some n \<Rightarrow> modify (\<lambda>b. b\<lparr>bk_frame := patch 4 a (bk_frame b)\<rparr>) \<bind> (\<lambda>_. transmitAwdlAction radio n frequency \<bind> m)) Q d"
    proof (cases r)
      case (Some n)
      let ?s = "(bk_state c)\<lparr>es_frameCounter := es_frameCounter (bk_state c) + 1\<rparr>"
      from Some obtain f where d: "d = bk_set_state ?s (c\<lparr>bk_frame := f\<rparr>)"
        and f: "length f = 4096" "own_action mac (take n f)" "141 \<le> n" "n \<le> 4096" using r mac by (auto simp: built_def)
      define g where "g = patch 4 a f"
      have tg: "take n g = patch 4 a (take n f)" using f(1,3,4) a(1) by (simp add: g_def patch_def take_drop min_def)
      have g: "length g = 4096" "own_action mac (take n g)" "piece 4 6 (take n g) = a"
        using own_action_patch [OF f(2) a(1)] f a(1) by (simp_all add: tg) (simp add: g_def)
      have "wp (transmitAwdlAction radio n frequency) (\<lambda>_. sends drv mac c) (bk_set_state ?s (c\<lparr>bk_frame := g\<rparr>))"
        using a(2) by (intro transmit_sends [OF inv may g(1,2) _ fr]) (simp add: g(3))
      moreover have "d\<lparr>bk_frame := patch 4 a (bk_frame d)\<rparr> = bk_set_state ?s (c\<lparr>bk_frame := g\<rparr>)" by (simp add: d g_def bk_set_state_def)
      ultimately show ?thesis unfolding Some option.case wp_bind wp_modify by (simp only:) (erule wp_mono, rule some)
    qed (use r none in simp)
  qed
qed

lemma oob_send_sends:
  assumes inv: "backend_inv mac b" and fr: "frequency = frequencyFor (sw_channel (bk_window b))"
    and slot: "length (os_peer slot) = 6" "wf_template (os_action slot)" "listens b (os_peer slot) (da_now (drv (ws_step (bk_sched b) - 1)))"
  shows "wp (oob_send drv radio frequency slot now) (\<lambda>_. sends drv mac b) b"
  unfolding oob_send_def wp_bind [of "query_sched _"]
proof (rule ask_scheduler [OF inv], goal_cases)
  case (1 k)
  then show ?case using sends_step [OF inv] by (simp add: wp_return)
next
  case (2 c)
  have pop: "sends drv mac b (popOob d)" if "sends drv mac b d" for d using that popOob_sends [OF sends_inv [OF that]] by (rule sends_trans)
  have c: "frequency = frequencyFor (sw_channel (bk_window c))" "listens c (os_peer slot) (da_now (drv (ws_step (bk_sched c) - 6)))"
    using fr slot(3) by (simp_all add: 2(1))
  show ?case
    unfolding not_True_eq_False if_False wp_bind [of "build_action _ _ _"]
    by (rule send_patched [OF 2(2,3) slot(2) c(1) slot(1) c(2)]) (use pop sends_trans [OF 2(4)] 2(4) in \<open>auto simp: wp_simps\<close>)
qed

lemma oob_turn_sends:
  assumes inv: "backend_inv mac b" and fr: "frequency = frequencyFor (sw_channel (bk_window b))"
  shows "wp (oob_turn drv radio frequency) (\<lambda>_. sends drv mac b) b"
proof -
  define b1 where "b1 = b\<lparr>bk_sched := (bk_sched b)\<lparr>ws_step := Suc (ws_step (bk_sched b))\<rparr>\<rparr>"
  define now where "now = da_now (drv (ws_step (bk_sched b)))"
  define slot where "slot = bk_oob b ! bk_oobHead b"
  have s1: "sends drv mac b b1" unfolding b1_def by (rule sends_step [OF inv])
  have same: "bk_oob b1 ! bk_oobHead b1 = slot" "bk_state b1 = bk_state b" "bk_window b1 = bk_window b" "listens b1 = listens b" by (simp_all add: b1_def slot_def)
  have slot: "length (os_peer slot) = 6" "wf_template (os_action slot)" using inv by (auto simp: backend_inv_def queues_ok_def list_all_length slot_def)
  have pop: "sends drv mac b (popOob b1)" using s1 popOob_sends [OF sends_inv [OF s1]] by (rule sends_trans)
  have send: "wp (oob_send drv radio frequency slot now) (\<lambda>_. sends drv mac b) b1" if "listens b (os_peer slot) now"
  proof (rule wp_mono [OF oob_send_sends [OF sends_inv [OF s1] _ slot]])
    show "listens b1 (os_peer slot) (da_now (drv (ws_step (bk_sched b1) - 1)))" using that by (simp add: same) (simp add: now_def b1_def)
  qed (use fr same sends_trans [OF s1] in simp_all)
  have "wp (case State_find (bk_state b) (Some (os_peer slot)) of
        None \<Rightarrow> do { modify popOob; State_Monad.return True }
      | Some i \<Rightarrow>
          if now < os_queued slot \<or> now - os_queued slot > 3000000 then do { modify popOob; State_Monad.return True }
          else if Peer_channel (es_peers (bk_state b) ! i) now \<noteq> sw_channel (bk_window b) then State_Monad.return False
          else oob_send drv radio frequency slot now) (\<lambda>_. sends drv mac b) b1"
    using send pop s1 by (auto simp: wp_if wp_bind wp_modify wp_return listens_def split: option.split)
  then show ?thesis
    unfolding oob_turn_def wp_bind [of "query_sched _"] wp_query_sched wp_query b1_def [symmetric] now_def [symmetric] wp_bind [of State_Monad.get] wp_get Let_def same .
qed

text \<open>Taking the first packet off the queue, after nothing or after it was sent.\<close>

lemma popData_queue:
  assumes "queues_ok mac d" "bk_dataCount d \<noteq> 0"
    and e: "e = d\<lparr>bk_data := (bk_data d)[bk_dataHead d := slot], bk_dataHead := (bk_dataHead d + 1) mod dataCapacity, bk_dataCount := bk_dataCount d - 1\<rparr>"
  shows "data_queue d = ds_bytes (bk_data d ! bk_dataHead d) # data_queue e" "queues_ok mac e"
proof -
  have "ring (bk_data d) (bk_dataHead d) (bk_dataCount d) = bk_data d ! bk_dataHead d # ring (bk_data e) (bk_dataHead e) (bk_dataCount e)"
    using assms(1,2) ring_pop [of "bk_dataCount d" "bk_data d" "bk_dataHead d" slot] by (simp add: e queues_ok_def)
  then show q: "data_queue d = ds_bytes (bk_data d ! bk_dataHead d) # data_queue e" by (simp add: data_queue_def)
  have "list_all (\<lambda>p. validEthernet (Some p) \<and> piece 6 6 p = mac) (data_queue e)" using assms(1) q by (simp add: queues_ok_def)
  then show "queues_ok mac e" using assms(1) by (auto simp: e queues_ok_def dataCapacity_def)
qed

lemma popData_sends:
  assumes inv: "backend_inv mac b" and d: "queues_ok mac d" "bk_dataCount d \<noteq> 0" "data_queue d = data_queue b"
    and sched: "bk_sched d = (bk_sched b)\<lparr>ws_state := (bk_state b)\<lparr>es_frameCounter := fc, es_dataCounter := es_dataCounter (bk_state b) + of_nat (length ps)\<rparr>, ws_step := k\<rparr>"
    and same: "bk_peers d = bk_peers b" "bk_log d = bk_log b @ evs" "list_all (tx_safe drv b) evs"
    and ps: "ps = [] \<or> ps = [hd (data_queue b)]" "carried (es_dataCounter (bk_state b)) (sent evs) ps"
  shows "wp (popData radio) (\<lambda>_. sends drv mac b) d"
proof -
  define e where "e = d\<lparr>bk_data := (bk_data d)[bk_dataHead d := (bk_data d ! bk_dataHead d)\<lparr>ds_bytes := []\<rparr>],
      bk_dataHead := (bk_dataHead d + 1) mod dataCapacity, bk_dataCount := bk_dataCount d - 1\<rparr>"
  have q: "data_queue b = ds_bytes (bk_data d ! bk_dataHead d) # data_queue e" "queues_ok mac e" using popData_queue [OF d(1,2) e_def] d(3) by simp_all
  have ee: "bk_sched e = bk_sched d" "bk_peers e = bk_peers d" "bk_log e = bk_log d" by (simp_all add: e_def)
  have "subseq ps (take 1 (data_queue b))" using ps(1) q(1) by auto
  moreover have "steady b e" unfolding steady_def using sched same(1) ee by (intro conjI exI) simp_all
  moreover have "backend_inv mac e" using inv q(2) sched by (auto simp: backend_inv_def ee intro: sound_ops)
  ultimately have *: "sends drv mac b (e\<lparr>bk_log := bk_log b @ (evs @ more)\<rparr>)" if "list_all (tx_safe drv b) more" "sent more = []" for more
    unfolding sends_def using that same(3) ps(2) sched q(1)
    by (intro conjI exI [of _ "evs @ more"] exI [of _ 1] exI [of _ ps]) (simp_all add: steady_def backend_inv_def ee)
  have l: "bk_log b @ evs = bk_log e" using same(2) ee(3) by simp
  have "sends drv mac b e" using * [of "[]"] unfolding append_Nil2 l by simp
  moreover have "sends drv mac b (e\<lparr>bk_log := bk_log e @ [ResumeTransmit]\<rparr>)" using * [of "[ResumeTransmit]"] unfolding append_assoc [symmetric] l by simp
  ultimately show ?thesis
    unfolding popData_def wp_bind [of "modify _"] wp_modify e_def [symmetric] by (simp add: wp_simps Let_def)
qed

text \<open>What the codec writes for a packet.\<close>

lemma encoded_frame:
  assumes "DataCodec_encode (Some packet) (Some out) sequence ds = Some (n, f)"
  shows "length f = length out"
    and "DataCodec_inspect (Some (take n f)) = Some \<lparr>view_destination = piece 0 6 packet, view_source = piece 6 6 packet, view_payload = drop 14 packet, view_sequence = ds\<rparr>"
    and "piece 4 6 (take n f) = piece 0 6 packet" "piece 10 6 (take n f) = piece 6 6 packet" "take n f ! 4 = packet ! 0"
proof -
  obtain x x' where x: "x AND 15 = 0" and f: "take n f = [0x88, 0, 0, 0] @ piece 0 6 packet @ piece 6 6 packet @ map bssidByte [0..<6] @ [x, x'] @ [0, 0] @ encode_prefix ds @ drop 14 packet"
    using encode_frame(1) [OF assms] by blast
  have v: "14 \<le> length packet" "length packet \<le> 14 + data_mtu" "validSource (piece 6 6 packet)" "ipv6 (drop 14 packet)"
    using encode_frame(2) [OF assms] validSource_piece [of 6 packet] by (auto simp: validEthernet_def)
  show "DataCodec_inspect (Some (take n f)) = Some \<lparr>view_destination = piece 0 6 packet, view_source = piece 6 6 packet, view_payload = drop 14 packet, view_sequence = ds\<rparr>"
    unfolding f using v x by (intro inspect_encode) simp_all
  show "piece 4 6 (take n f) = piece 0 6 packet" "piece 10 6 (take n f) = piece 6 6 packet" "take n f ! 4 = packet ! 0"
    using v(1) nth_piece [of 0 6 0 packet] by (simp_all add: f fields nth_append)
  show "length f = length out" using assms v(1) by (auto simp: DataCodec_encode_def Let_def encode_prefix_def split: if_splits)
qed

lemma data_send_sends:
  assumes inv: "backend_inv mac b" and fr: "frequency = frequencyFor (sw_channel (bk_window b))" and n: "bk_dataCount b \<noteq> 0"
    and packet: "packet = hd (data_queue b)" "now = da_now (drv (ws_step (bk_sched b) - 1))"
    and unicast: "packet ! 0 AND 1 = 0 \<Longrightarrow> NativePeers_authorized (Some (piece 0 6 packet)) (bk_peers b) \<and>
        (State_find (bk_state b) (Some (piece 0 6 packet)) = None \<or> listens b (piece 0 6 packet) now)"
  shows "wp (data_send drv radio frequency packet now) (\<lambda>_. sends drv mac b) b"
  unfolding data_send_def wp_bind [of "query_sched _"]
proof (rule ask_scheduler [OF inv], goal_cases)
  case (1 k)
  then show ?case using sends_step [OF inv] by (simp add: wp_return)
next
  case (2 c)
  let ?s = "bk_state c"
  have mac: "es_mac ?s = mac" and q: "queues_ok mac c" using 2(2) by (simp_all add: backend_inv_def sound_def)
  have c: "data_queue c = data_queue b" "bk_window c = bk_window b" "bk_peers c = bk_peers b" "bk_state c = bk_state b" "bk_dataCount c \<noteq> 0"
    "ws_step (bk_sched c) - 6 = ws_step (bk_sched b) - 1" "listens c = listens b" using 2(1) n by simp_all
  define d where "d = bk_set_state (?s\<lparr>es_frameCounter := es_frameCounter ?s + 1\<rparr>) c"
  have dq: "queues_ok mac d" "data_queue d = data_queue c" "bk_dataCount d \<noteq> 0" "bk_log d = bk_log c" "bk_peers d = bk_peers c" using q c(5) by (simp_all add: d_def bk_set_state_def)
  have trans: "wp m (\<lambda>_. sends drv mac b) e" if "wp m (\<lambda>_. sends drv mac c) e" for m :: "'z backend" and e
    using that by (rule wp_mono) (rule sends_trans [OF 2(4)])
  show ?case
  proof (cases "DataCodec_encode (Some packet) (Some (bk_frame c)) (es_frameCounter ?s) (es_dataCounter ?s)")
    case None
    have "wp (popData radio) (\<lambda>_. sends drv mac c) d"
      by (rule popData_sends [OF 2(2) dq(1,3,2), where ps = "[]" and evs = "[]" and fc = "es_frameCounter ?s + 1" and k = "ws_step (bk_sched c)"]) (simp_all add: dq, simp add: d_def bk_set_state_def)
    then show ?thesis using trans None by (simp add: wp_simps wp_return [abs_def] Let_def d_def)
  next
    case (Some nf)
    then obtain n f where e: "DataCodec_encode (Some packet) (Some (bk_frame c)) (es_frameCounter ?s) (es_dataCounter ?s) = Some (n, f)" by (cases nf) auto
    have "data_queue c \<noteq> []" using c(5) by (simp add: data_queue_def flip: length_0_conv)
    then have src: "piece 6 6 packet = mac" using q hd_in_set [of "data_queue c"] by (simp add: queues_ok_def list_all_iff packet(1) c(1))
    note a = encoded_frame [OF e]
    define g where "g = d\<lparr>bk_frame := f\<rparr>"
    have lf: "length f = 4096" using a(1) q by (simp add: queues_ok_def)
    define ev where "ev = (\<lambda>ok. TxData (take n f) frequency (sw_endUs (bk_window c)) (ws_step (bk_sched c)) ok)"
    have safe: "tx_safe drv c (ev ok)" for ok
      using 2(3) fr unicast packet(2) mac by (auto simp: ev_def a c src)
    have gq: "queues_ok mac (g\<lparr>bk_log := l\<rparr>)" "data_queue (g\<lparr>bk_log := l\<rparr>) = data_queue c" for l using dq lf by (simp_all add: g_def) (simp add: queues_ok_def)
    have gs: "bk_sched (g\<lparr>bk_log := l\<rparr>) = (bk_sched c)\<lparr>ws_state := ?s\<lparr>es_frameCounter := es_frameCounter ?s + 1\<rparr>, ws_step := ws_step (bk_sched c)\<rparr>" for l
      by (simp add: g_def d_def bk_set_state_def)
    have no: "sends drv mac c (g\<lparr>bk_log := bk_log g @ [ev False]\<rparr>)"
      by (rule sends_quiet [OF 2(2) gq(1) _ gs gq(2), where evs = "[ev False]"]) (use safe dq in \<open>simp_all add: g_def ev_def\<close>)
    have yes: "wp (popData radio) (\<lambda>_. sends drv mac c) (bk_set_state ((bk_state h)\<lparr>es_dataCounter := es_dataCounter (bk_state h) + 1\<rparr>) h)"
      if h: "h = g\<lparr>bk_log := bk_log g @ [ev True]\<rparr> \<or> h = revokeTraffic (g\<lparr>bk_log := bk_log g @ [ev True]\<rparr>)" for h
    proof (rule popData_sends [OF 2(2), where ps = "[packet]" and evs = "[ev True]" and fc = "es_frameCounter ?s + 1" and k = "ws_step (bk_sched c)"])
      show "list_all (tx_safe drv c) [ev True]" "[packet] = [] \<or> [packet] = [hd (data_queue c)]" "carried (es_dataCounter ?s) (sent [ev True]) [packet]"
        using safe packet(1) c(1) a(2) by (simp_all add: ev_def)
    qed (use h dq lf in \<open>auto simp: g_def d_def bk_set_state_def revokeTraffic_def queues_ok_def data_queue_def\<close>)
    have gf: "bk_frame g = f" "ws_step (bk_sched g) = ws_step (bk_sched c)" by (simp_all add: g_def d_def bk_set_state_def)
    show ?thesis
      unfolding not_True_eq_False if_False wp_bind [of State_Monad.get] wp_get Let_def wp_bind [of "modify _"] wp_modify e option.case prod.case d_def [symmetric] g_def [symmetric]
      using trans [OF yes [OF disjI1 [OF refl]]] trans [OF yes [OF disjI2 [OF refl]]] sends_trans [OF 2(4) no]
      by (simp add: transmitAwdlData_def wp_bind wp_call_radio Let_def wp_if wp_return wp_return [abs_def] wp_modify ev_def gf)
  qed
qed

lemma data_turn_sends:
  assumes inv: "backend_inv mac b" and fr: "frequency = frequencyFor (sw_channel (bk_window b))" and n: "bk_dataCount b \<noteq> 0"
  shows "wp (data_turn drv radio frequency) (\<lambda>_. sends drv mac b) b"
proof -
  define b1 where "b1 = b\<lparr>bk_sched := (bk_sched b)\<lparr>ws_step := Suc (ws_step (bk_sched b))\<rparr>\<rparr>"
  define now where "now = da_now (drv (ws_step (bk_sched b)))"
  define slot where "slot = bk_data b ! bk_dataHead b"
  have s1: "sends drv mac b b1" unfolding b1_def by (rule sends_step [OF inv])
  note i1 = sends_inv [OF s1]
  have same: "bk_data b1 ! bk_dataHead b1 = slot" "bk_state b1 = bk_state b" "bk_window b1 = bk_window b" "bk_peers b1 = bk_peers b" "listens b1 = listens b" by (simp_all add: b1_def slot_def)
  have n1: "bk_dataCount b1 \<noteq> 0" using n by (simp add: b1_def)
  have q1: "queues_ok mac b1" using i1 by (simp add: backend_inv_def)
  have p: "ds_bytes slot = hd (data_queue b1)" using popData_queue(1) [OF q1 n1 refl, of undefined] same(1) by simp
  have "wp (popData radio) (\<lambda>_. sends drv mac b1) b1"
    by (rule popData_sends [OF i1 q1 n1 refl, where ps = "[]" and evs = "[]" and fc = "es_frameCounter (bk_state b1)" and k = "ws_step (bk_sched b1)"]) simp_all
  then have pop: "wp (popData radio) (\<lambda>_. sends drv mac b) b1" by (rule wp_mono) (rule sends_trans [OF s1])
  have send: "wp (data_send drv radio frequency (ds_bytes slot) now) (\<lambda>_. sends drv mac b) b1"
    if "ds_bytes slot ! 0 AND 1 = 0 \<Longrightarrow> NativePeers_authorized (Some (piece 0 6 (ds_bytes slot))) (bk_peers b) \<and>
        (State_find (bk_state b) (Some (piece 0 6 (ds_bytes slot))) = None \<or> listens b (piece 0 6 (ds_bytes slot)) now)"
  proof (rule wp_mono [OF data_send_sends [OF i1]])
    show "now = da_now (drv (ws_step (bk_sched b1) - 1))" by (simp add: now_def b1_def)
  qed (use fr n1 p that same sends_trans [OF s1] in simp_all)
  show ?thesis
    unfolding data_turn_def wp_bind [of "query_sched _"] wp_query_sched wp_query b1_def [symmetric] now_def [symmetric] wp_bind [of State_Monad.get] wp_get Let_def same
    using send pop s1 by (auto simp: wp_if wp_bind wp_return wp_return [abs_def] listens_def split: option.splits)
qed

lemma turns_sends:
  assumes "\<And>c. backend_inv mac c \<Longrightarrow> bk_window c = w \<Longrightarrow> waiting c \<noteq> 0 \<Longrightarrow> wp turn (\<lambda>_. sends drv mac c) c" "backend_inv mac b" "bk_window b = w"
  shows "wp (turns k waiting turn) (\<lambda>_. sends drv mac b) b"
  using assms(2,3)
proof (induction k arbitrary: b)
  case 0
  then show ?case by (simp add: wp_return sends_refl)
next
  case (Suc k)
  have "wp turn (\<lambda>more. wp (unless (\<not> more) (turns k waiting turn)) (\<lambda>_. sends drv mac b)) b" if "waiting b \<noteq> 0"
  proof (rule wp_mono [OF assms(1) [OF Suc.prems that]])
    fix more c
    assume c: "sends drv mac b c"
    have "bk_window c = w" using steady_facts(1) [OF sends_steady [OF c]] Suc.prems(2) by simp
    then have "wp (turns k waiting turn) (\<lambda>_. sends drv mac b) c"
      using Suc.IH [OF sends_inv [OF c]] by (auto elim!: wp_mono intro: sends_trans [OF c])
    then show "wp (unless (\<not> more) (turns k waiting turn)) (\<lambda>_. sends drv mac b) c" using c by (simp add: wp_unless)
  qed
  then show ?case using sends_refl [OF Suc.prems(1)] by (simp add: wp_bind wp_get wp_unless)
qed

lemma sends_then:
  assumes "\<And>c. backend_inv mac c \<Longrightarrow> bk_window c = bk_window b \<Longrightarrow> wp m (\<lambda>_. sends drv mac c) c" "sends drv mac b c"
  shows "wp m (\<lambda>_. sends drv mac b) c"
  by (rule wp_mono [OF assms(1)]) (use assms(2) sends_inv steady_facts(1) sends_steady sends_trans in blast)+

lemma serviceTransmit_sends:
  assumes "backend_inv mac b"
  shows "wp (serviceTransmit drv radio) (\<lambda>_. sends drv mac b) b"
proof -
  let ?f = "frequencyFor (sw_channel (bk_window b))"
  have step: "sends drv mac b (c\<lparr>bk_sched := (bk_sched c)\<lparr>ws_step := k\<rparr>\<rparr>)" if "sends drv mac b c" for c k
    using that sends_step [OF sends_inv [OF that]] by (rule sends_trans)
  have psf: "wp (service_psf drv radio ?f now) (\<lambda>_. sends drv mac b) c" if "sends drv mac b c" for c now
    by (intro sends_then [OF _ that] service_psf_sends) simp_all
  have mi: "wp (service_mi drv radio ?f now) (\<lambda>_. sends drv mac b) c" if "sends drv mac b c" for c now
    by (intro sends_then [OF _ that] service_mi_sends) simp_all
  have oob: "wp (turns 4 bk_oobCount (oob_turn drv radio ?f)) (\<lambda>_. sends drv mac b) c" if "sends drv mac b c" for c
    by (intro sends_then [OF _ that] turns_sends [where w = "bk_window b"] oob_turn_sends) simp_all
  have data: "wp (turns 8 bk_dataCount (data_turn drv radio ?f)) (\<lambda>_. sends drv mac b) c" if "sends drv mac b c" for c
    by (intro sends_then [OF _ that] turns_sends [where w = "bk_window b"] data_turn_sends) simp_all
  define b1 where "b1 = b\<lparr>bk_sched := (bk_sched b)\<lparr>ws_step := Suc (ws_step (bk_sched b))\<rparr>\<rparr>"
  have 1: "sends drv mac b b1" unfolding b1_def by (rule sends_step [OF assms])
  have w: "bk_window b1 = bk_window b" by (simp add: b1_def)
  have last: "wp (query_sched (nowUs drv) \<bind> (\<lambda>now. modify (\<lambda>b. if sw_endUs (bk_window b) > now + 2500 then b\<lparr>bk_pumpDeadline := now + 1000\<rparr> else b)))
      (\<lambda>_. sends drv mac b) c" if "sends drv mac b c" for c
    using step [OF that] by (simp add: wp_simps)
  show ?thesis
    unfolding serviceTransmit_def wp_bind [of "query_sched (nowUs drv)" "\<lambda>now. gets _ \<bind> _ now"] wp_query_sched wp_query b1_def [symmetric] wp_bind [of "gets _"] wp_gets w
      wp_bind [of "service_psf _ _ _ _"] wp_bind [of "service_mi _ _ _ _"] wp_bind [of "turns _ _ _"]
    by (rule wp_mono [OF psf [OF 1]], rule wp_mono [OF mi], assumption, rule wp_mono [OF oob], assumption,
        rule wp_mono [OF data], assumption, rule last)
qed

section \<open>The invariant over every history\<close>

text \<open>The calls the backend receives; peer transactions replace the peer table.\<close>

datatype bk_op = BkTransmit "bytes option" | BkTimer | BkInstall "template_op list" | BkOob bool OobRequest | BkRevoke | BkClear | BkPeers NativePeers

fun bk_exec :: "window_driver \<Rightarrow> radio \<Rightarrow> bk_op \<Rightarrow> Backend \<Rightarrow> Backend" where
  "bk_exec drv radio (BkTransmit e) b = snd (run_state (transmitEthernet drv radio e) b)"
| "bk_exec drv radio BkTimer b = snd (run_state (timerFired drv radio) b)"
| "bk_exec drv radio (BkInstall ops) b = snd (installTemplate (fold template_exec ops TxTemplate0) b)"
| "bk_exec drv radio (BkOob automatic q) b = snd (run_state (oobRequest drv radio automatic q) b)"
| "bk_exec drv radio BkRevoke b = revokeTraffic b"
| "bk_exec drv radio BkClear b = clearQueues b"
| "bk_exec drv radio (BkPeers p) b = b\<lparr>bk_peers := p\<rparr>"

text \<open>A request has an address of six bytes, and its length is that of its payload.\<close>

fun op_ok :: "bk_op \<Rightarrow> bool" where
  "op_ok (BkOob automatic q) \<longleftrightarrow> length (oq_address q) = 6 \<and> oq_data_len q = (case oq_data q of None \<Rightarrow> 0 | Some d \<Rightarrow> length d)"
| "op_ok _ \<longleftrightarrow> True"

text \<open>The backend after the interface was opened and activated.\<close>

definition backend_start :: "ElectionState \<Rightarrow> bool \<Rightarrow> u32 \<Rightarrow> Backend" where
  "backend_start s synchronize mode = \<lparr>bk_sched = WindowScheduler0 s, bk_peers = NativePeers0, bk_interface = True, bk_synchronize = synchronize,
     bk_actionMode = mode, bk_psf = TxTemplate0, bk_mi = TxTemplate0, bk_pendingAction = TxTemplate0,
     bk_oob = replicate oobCapacity \<lparr>os_queued = 0, os_peer = zeros 6, os_action = TxTemplate0\<rparr>, bk_oobHead = 0, bk_oobCount = 0,
     bk_miStart = 0, bk_lastMiEaw = 0, bk_miActive = False, bk_miCounterValid = False,
     bk_data = replicate dataCapacity \<lparr>ds_queued = 0, ds_bytes = []\<rparr>, bk_dataHead = 0, bk_dataCount = 0, bk_frame = zeros 4096,
     bk_windowDeadline = 0, bk_pumpDeadline = 0, bk_nextPsf = 0, bk_lastPsfChannel = 0, bk_active = True, bk_fault = False, bk_owns = True,
     bk_servicing = False, bk_log = []\<rparr>"

lemma backend_start_inv: "wf_state s \<Longrightarrow> backend_inv (es_mac s) (backend_start s synchronize mode)"
  by (simp add: backend_start_def backend_inv_def sound_def queues_ok_def data_queue_def ring_def WindowScheduler0_def dataCapacity_def oobCapacity_def
      wf_template0 list_all_iff)

abbreviation preserves_inv :: "bytes \<Rightarrow> 'a backend \<Rightarrow> bool" where
  "preserves_inv mac \<equiv> preserves (backend_inv mac)"

lemma preserves_wp: "preserves P m \<Longrightarrow> P s \<Longrightarrow> P (snd (run_state m s))"
  using wp_run [of m "\<lambda>_. P" s] by (simp add: preserves_def)

lemma inv_query_sched: "preserves_sound mac m \<Longrightarrow> preserves_inv mac (query_sched m)"
  unfolding preserves_def wp_query_sched by (auto simp: backend_inv_def elim!: wp_mono)

lemma inv_run_sched: "preserves_sound mac m \<Longrightarrow> preserves_inv mac (run_sched m)"
  unfolding preserves_def run_sched_def by (auto simp: wp_def backend_inv_def queues_ok_def data_queue_def split: prod.splits)

lemma inv_call_radio: "preserves_inv mac (call_radio radio ev)"
  by (simp add: preserves_def wp_call_radio Let_def revokeTraffic_def backend_inv_def)

lemma inv_rearm: "preserves_inv mac (rearm drv radio)"
  unfolding rearm_def Let_def by (intro preserves_rules inv_query_sched inv_call_radio)

lemma inv_serviceTransmit: "preserves_inv mac (serviceTransmit drv radio)"
  unfolding preserves_def by (blast intro: wp_mono [OF serviceTransmit_sends] sends_inv)

text \<open>A packet that is accepted is the last of the queue.\<close>

lemma push_data:
  assumes "queues_ok mac b" "bk_dataCount b \<noteq> dataCapacity" "validEthernet (Some e)" "piece 6 6 e = mac"
    and b': "b' = b\<lparr>bk_data := (bk_data b)[(bk_dataHead b + bk_dataCount b) mod dataCapacity := \<lparr>ds_queued = t, ds_bytes = e\<rparr>], bk_dataCount := bk_dataCount b + 1\<rparr>"
  shows "data_queue b' = data_queue b @ [e]" "queues_ok mac b'"
proof -
  have "bk_dataCount b < length (bk_data b)" "length (bk_data b) = dataCapacity" using assms(1,2) by (auto simp: queues_ok_def)
  then show q: "data_queue b' = data_queue b @ [e]" using ring_push [of "bk_dataCount b" "bk_data b" "bk_dataHead b"] by (simp add: data_queue_def b')
  have "queues_ok mac b" "bk_dataCount b + 1 \<le> dataCapacity" using assms(1,2) by (auto simp: queues_ok_def)
  then show "queues_ok mac b'" using q assms(3,4) unfolding queues_ok_def by (simp add: b')
qed

lemma transmitEthernet_queue:
  assumes "backend_inv mac b"
  shows "wp (transmitEthernet drv radio e) (\<lambda>ok c. backend_inv mac c \<and>
    (ok \<longleftrightarrow> bk_active b \<and> bk_synchronize b \<and> validEthernet e \<and> piece 6 6 (the e) = mac \<and> length (data_queue b) < dataCapacity) \<and>
    data_queue c = data_queue b @ (if ok then [the e] else [])) b"
proof -
  have mac: "es_mac (bk_state b) = mac" and q: "queues_ok mac b" using assms by (simp_all add: backend_inv_def sound_def)
  have n: "length (data_queue b) = bk_dataCount b" "bk_dataCount b \<le> dataCapacity" using q by (simp_all add: data_queue_def queues_ok_def)
  have rearm: "wp (rearm drv radio) (\<lambda>_ c. backend_inv mac c \<and> data_queue c = data_queue d) d" if "backend_inv mac d" for d
  proof (rule wp_conj)
    show "wp (rearm drv radio) (\<lambda>_. backend_inv mac) d" using inv_rearm that by (simp add: preserves_def)
    show "wp (rearm drv radio) (\<lambda>_ c. data_queue c = data_queue d) d"
      by (simp add: rearm_def wp_simps Let_def revokeTraffic_def)
  qed
  show ?thesis
  proof (cases "bk_active b \<and> bk_synchronize b \<and> validEthernet e \<and> piece 6 6 (the e) = mac \<and> bk_dataCount b \<noteq> dataCapacity")
    case False
    then show ?thesis using assms n by (auto simp: transmitEthernet_def wp_bind wp_get wp_if wp_return mac)
  next
    case True
    then obtain p where e: "e = Some p" by (cases e) (auto simp: validEthernet_def)
    define c where "c = b\<lparr>bk_sched := (bk_sched b)\<lparr>ws_step := Suc (ws_step (bk_sched b))\<rparr>,
        bk_data := (bk_data b)[(bk_dataHead b + bk_dataCount b) mod dataCapacity := \<lparr>ds_queued = da_now (drv (ws_step (bk_sched b))), ds_bytes = p\<rparr>],
        bk_dataCount := bk_dataCount b + 1\<rparr>"
    have c: "data_queue c = data_queue b @ [p]" "queues_ok mac c"
      using push_data [of mac "b\<lparr>bk_sched := (bk_sched b)\<lparr>ws_step := Suc (ws_step (bk_sched b))\<rparr>\<rparr>" p] q True e by (simp_all add: c_def)
    define d where "d = c\<lparr>bk_sched := (bk_sched c)\<lparr>ws_step := Suc (ws_step (bk_sched c))\<rparr>, bk_pumpDeadline := da_now (drv (ws_step (bk_sched c))) + 1\<rparr>"
    have d: "data_queue d = data_queue b @ [p]" "backend_inv mac d" using c assms by (simp_all add: d_def backend_inv_def) (simp add: c_def)
    have "wp (rearm drv radio) (\<lambda>_ c. backend_inv mac c \<and> data_queue c = data_queue b @ [p]) d" using rearm [OF d(2)] d(1) by simp
    moreover have "\<not> (\<not> bk_active b \<or> \<not> bk_synchronize b \<or> \<not> validEthernet e \<or> piece 6 6 (the e) \<noteq> es_mac (bk_state b) \<or> bk_dataCount b = dataCapacity)"
      using True mac by simp
    ultimately show ?thesis
      unfolding transmitEthernet_def wp_bind [of State_Monad.get] wp_get
      using True n by (simp add: wp_bind wp_query_sched wp_query wp_modify wp_return wp_return [abs_def] e) (simp add: d_def c_def)
  qed
qed

lemma inv_transmitEthernet: "preserves_inv mac (transmitEthernet drv radio e)"
  unfolding preserves_def by (blast intro: wp_mono [OF transmitEthernet_queue])

lemma inv_fields:
  assumes "backend_inv mac b"
  shows "backend_inv mac (b\<lparr>bk_pumpDeadline := t\<rparr>)" "backend_inv mac (b\<lparr>bk_windowDeadline := t\<rparr>)" "backend_inv mac (b\<lparr>bk_fault := v\<rparr>)"
    "backend_inv mac (b\<lparr>bk_servicing := v\<rparr>)" "backend_inv mac (b\<lparr>bk_peers := p\<rparr>)" "backend_inv mac (b\<lparr>bk_nextPsf := t\<rparr>)"
    "backend_inv mac (b\<lparr>bk_miActive := v\<rparr>)" "backend_inv mac (b\<lparr>bk_miCounterValid := v\<rparr>)" "backend_inv mac (b\<lparr>bk_miStart := t\<rparr>)" "backend_inv mac (revokeTraffic b)"
    "wf_template tt \<Longrightarrow> backend_inv mac (b\<lparr>bk_mi := tt\<rparr>)" "wf_template tt \<Longrightarrow> backend_inv mac (b\<lparr>bk_psf := tt\<rparr>)" "wf_template tt \<Longrightarrow> backend_inv mac (b\<lparr>bk_pendingAction := tt\<rparr>)"
  using assms by (simp_all add: backend_inv_def queues_ok_def data_queue_def revokeTraffic_def)

lemma inv_clear: "backend_inv mac b \<Longrightarrow> backend_inv mac (clearQueues b)"
  by (auto simp: clearQueues_def backend_inv_def queues_ok_def data_queue_def ring_def dataCapacity_def oobCapacity_def wf_template_clear list_all_iff)

lemma inv_install: "backend_inv mac b \<Longrightarrow> wf_template t \<Longrightarrow> backend_inv mac (snd (installTemplate t b))"
  by (simp add: installTemplate_def inv_fields)

lemma inv_push_oob:
  assumes "backend_inv mac b" "bk_oobCount b \<noteq> oobCapacity" "length a = 6" "wf_template t"
  shows "backend_inv mac (b\<lparr>bk_oob := (bk_oob b)[i := \<lparr>os_queued = n, os_peer = a, os_action = t\<rparr>], bk_oobCount := bk_oobCount b + 1\<rparr>)"
  using assms by (auto simp: backend_inv_def queues_ok_def data_queue_def list_all_iff dest!: subsetD [OF set_update_subset_insert])

lemma inv_timerFired:
  assumes "sound_driver mac drv"
  shows "preserves_inv mac (timerFired drv radio)"
  unfolding timerFired_def startWhenAuthorized_def Let_def
  by (intro preserves_rules inv_query_sched inv_run_sched inv_call_radio inv_rearm inv_serviceTransmit sound_service [OF assms] sound_start [OF assms])
    (auto intro: inv_fields)

lemma inv_oob_store:
  assumes "backend_inv mac b" "\<not> automatic \<Longrightarrow> bk_oobCount b \<noteq> oobCapacity" "length (oq_address q) = 6" "wf_template pending"
  shows "wp (oob_store drv automatic q pending) (\<lambda>_. backend_inv mac) b"
proof -
  have "backend_inv mac (b\<lparr>bk_sched := (bk_sched b)\<lparr>ws_step := k\<rparr>\<rparr>)" for k using assms(1) by (simp add: backend_inv_def)
  then show ?thesis
    using assms inv_push_oob [of mac "b\<lparr>bk_sched := (bk_sched b)\<lparr>ws_step := Suc (ws_step (bk_sched b))\<rparr>\<rparr>" "oq_address q" pending]
    by (auto simp: oob_store_def wp_simps intro!: inv_fields) (auto simp: backend_inv_def queues_ok_def data_queue_def)
qed

lemma inv_oob_wake: "preserves_inv mac (oob_wake drv radio)"
  unfolding oob_wake_def by (intro preserves_rules inv_query_sched inv_rearm) (auto intro: inv_fields)

lemma inv_oob_checks:
  "backend_inv mac b \<Longrightarrow> wp (oob_checks drv automatic q) (\<lambda>r c. backend_inv mac c \<and> bk_oobCount c = bk_oobCount b \<and>
     (r = None \<longrightarrow> automatic \<or> bk_oobCount b \<noteq> oobCapacity)) b"
  by (auto simp: oob_checks_def wp_simps backend_inv_def oob_directed_checks_def split: if_splits option.splits)

lemma inv_oobRequest:
  assumes inv: "backend_inv mac b" and ok: "op_ok (BkOob automatic q)"
  shows "wp (oobRequest drv radio automatic q) (\<lambda>_. backend_inv mac) b"
proof -
  have t: "wf_template (bk_mi b)" "wf_template (bk_pendingAction b)" using inv by (simp_all add: backend_inv_def queues_ok_def)
  obtain r pending where p: "TxTemplate_replaceTlvs (oq_data q) (oq_data_len q) 0x10 3 (bk_pendingAction b) = (r, pending)" by (rule prod.exhaust)
  then have wf: "wf_template pending" "wf_template (TxTemplate_clear pending)" using wf_replaceTlvs [OF t(2), of "oq_data q" "0x10" 3] ok by (simp_all add: wf_template_clear)
  have wake: "wp (oob_wake drv radio) (\<lambda>_. backend_inv mac) c" if "backend_inv mac c" for c using inv_oob_wake that by (simp add: preserves_def)
  have rest: "wp (oob_store drv automatic q pending \<bind> (\<lambda>_. modify (\<lambda>b. b\<lparr>bk_pendingAction := TxTemplate_clear pending\<rparr>) \<bind> (\<lambda>_. oob_wake drv radio))) (\<lambda>_. backend_inv mac) c"
    if "backend_inv mac c" "automatic \<or> bk_oobCount c \<noteq> oobCapacity" for c
    unfolding wp_bind using that ok wf by (auto simp: wp_modify intro!: wp_mono [OF inv_oob_store] wake inv_fields)
  have checked: "wp (oob_checks drv automatic q) (\<lambda>refused. wp (case refused of Some r \<Rightarrow> State_Monad.return r
       | None \<Rightarrow>
           if \<not> NativeAction_valid (oq_data q) then State_Monad.return kIOReturnBadArgument
           else if \<not> r then State_Monad.return kIOReturnBadArgument
           else oob_store drv automatic q pending \<bind> (\<lambda>_. modify (\<lambda>b. b\<lparr>bk_pendingAction := TxTemplate_clear pending\<rparr>) \<bind> (\<lambda>_. oob_wake drv radio))) (\<lambda>_. backend_inv mac)) b"
    by (rule wp_mono [OF inv_oob_checks [OF inv]]) (use rest in \<open>auto simp: wp_return wp_if split: option.split\<close>)
  show ?thesis
    unfolding oobRequest_def wp_bind [of State_Monad.get] wp_get p prod.case
    using checked inv t by (auto simp: wp_if wp_return wp_bind [of "modify _"] wp_modify wp_bind [of "oob_checks _ _ _"] wf_template_clear intro!: inv_fields)
qed

lemma inv_exec:
  assumes "sound_driver mac drv" "op_ok op" "backend_inv mac b"
  shows "backend_inv mac (bk_exec drv radio op b)"
proof (cases op)
  case (BkOob automatic q)
  then show ?thesis using wp_run [OF inv_oobRequest [OF assms(3)]] assms(2) by simp
qed (use assms inv_timerFired inv_transmitEthernet in \<open>simp_all add: preserves_wp inv_install wf_template_run wf_template0 inv_clear inv_fields\<close>)

lemma inv_history:
  "sound_driver mac drv \<Longrightarrow> list_all op_ok ops \<Longrightarrow> backend_inv mac b \<Longrightarrow> backend_inv mac (fold (bk_exec drv radio) ops b)"
  by (induction ops arbitrary: b) (simp_all add: inv_exec)

text \<open>
  C4: What the service of a window puts on the air, in every state the modelled operations reach from a started backend. Every frame goes to the frequency of the
  window's channel, and right before it the driver reported that channel, readiness, permission and a time inside the window's guards.
  An action is a valid AWDL action of this node, sent to all or to a peer that by its schedule is on the channel; data comes from this
  node, is marked with the window's end, and if it is for one station then that is authorized and, as far as its schedule is known, on the channel; data for
  a group is confined to slots 0 and 10. Packets leave the queue in order: a prefix of the queue is gone, what the hardware took are packets of that
  prefix in their order, each once, with consecutive sequence numbers. A packet accepted next is the last of the queue.
\<close>

theorem window_service_safe:
  assumes "wf_state s" "sound_driver (es_mac s) drv" "list_all op_ok ops" and b: "b = fold (bk_exec drv radio) ops (backend_start s synchronize mode)"
  shows "(case run_state (serviceTransmit drv radio) b of (_, b') \<Rightarrow> \<exists>evs k ps.
      bk_log b' = bk_log b @ evs \<and> list_all (tx_safe drv b) evs \<and> data_queue b' = drop k (data_queue b) \<and> subseq ps (take k (data_queue b)) \<and>
      carried (es_dataCounter (bk_state b)) (sent evs) ps \<and> es_dataCounter (bk_state b') = es_dataCounter (bk_state b) + of_nat (length ps)) \<and>
    (case run_state (transmitEthernet drv radio e) b of (ok, b') \<Rightarrow>
      (ok \<longleftrightarrow> bk_active b \<and> bk_synchronize b \<and> validEthernet e \<and> piece 6 6 (the e) = es_mac s \<and> length (data_queue b) < 64) \<and>
      data_queue b' = data_queue b @ (if ok then [the e] else []))"
proof -
  have inv: "backend_inv (es_mac s) b" unfolding b by (rule inv_history [OF assms(2,3) backend_start_inv [OF assms(1)]])
  show ?thesis
    using serviceTransmit_sends [OF inv, of drv radio] transmitEthernet_queue [OF inv, of drv radio e]
    by (simp add: wp_def sends_def dataCapacity_def split: prod.splits)
qed

definition sample_node :: ElectionState where
  "sample_node = snd (State_init (Some [2, 0, 0, 0, 0, 9]) sample_sequence 1000 500 True ElectionState0)"

theorem window_service_safe_witness:
  "\<exists>b'. run_state (transmitEthernet (steady_driver 70000) (\<lambda>_. \<lparr>ra_ok = True, ra_revoke = False\<rparr>) (Some sample_ethernet)) (backend_start sample_node True 0) = (True, b') \<and>
     data_queue b' = [sample_ethernet]"
proof -
  let ?d = "steady_driver 70000" and ?r = "\<lambda>_. \<lparr>ra_ok = True, ra_revoke = False\<rparr>" and ?b = "backend_start sample_node True 0"
  have "validSequence sample_sequence" "unicast [2, 0, 0, 0, 0, 9]" by code_simp+
  then have "State_init (Some [2, 0, 0, 0, 0, 9]) sample_sequence 1000 500 True ElectionState0 = (True, sample_node)"
    by (simp add: sample_node_def State_init_def)
  then have wf: "wf_state sample_node" by (rule wf_init) (simp_all add: sample_sequence_def)
  have mac: "es_mac sample_node = [2, 0, 0, 0, 0, 9]" by code_simp
  have e: "validEthernet (Some sample_ethernet)" "piece 6 6 sample_ethernet = [2, 0, 0, 0, 0, 9]" by code_simp+
  have "sound_driver (es_mac sample_node) ?d" by (simp add: sound_driver_def steady_driver_def)
  note safe = window_service_safe [OF wf this _ refl, of "[]" ?r True 0 "Some sample_ethernet"]
  have b: "bk_active ?b" "bk_synchronize ?b" "data_queue ?b = []" by (simp_all add: backend_start_def data_queue_def ring_def)
  show ?thesis using safe e b mac by (cases "run_state (transmitEthernet ?d ?r (Some sample_ethernet)) ?b") simp
qed

end
