(* ===== verification/Aes.thy ===== *)
theory Aes
  imports Prelude
begin

text \<open>
  The AES implementation of the 802.11 stack (\<open>rtw80211/openbsd/crypto/aes.c\<close>): a bitsliced, constant-time
  cipher that works on two blocks at once. A C array \<open>uint32_t q[8]\<close> is a list of eight words; a
  function that changes the array in place returns the new list.
\<close>

section \<open>Definitions\<close>

definition enc32le :: "u32 \<Rightarrow> bytes" where
  "enc32le x = [ucast x, ucast (drop_bit 8 x), ucast (drop_bit 16 x), ucast (drop_bit 24 x)]"

definition dec32le :: "bytes \<Rightarrow> u32" where
  "dec32le buf = ucast (buf ! 0) OR push_bit 8 (ucast (buf ! 1)) OR push_bit 16 (ucast (buf ! 2)) OR push_bit 24 (ucast (buf ! 3))"

definition aes_ct_bitslice_Sbox :: "u32 list \<Rightarrow> u32 list" where
  "aes_ct_bitslice_Sbox q = (let
    x0 = q ! 7; x1 = q ! 6; x2 = q ! 5; x3 = q ! 4; x4 = q ! 3; x5 = q ! 2; x6 = q ! 1; x7 = q ! 0; y14 = x3 XOR x5;
    y13 = x0 XOR x6; y9 = x0 XOR x3; y8 = x0 XOR x5; t0 = x1 XOR x2; y1 = t0 XOR x7; y4 = y1 XOR x3; y12 = y13 XOR y14;
    y2 = y1 XOR x0; y5 = y1 XOR x6; y3 = y5 XOR y8; t1 = x4 XOR y12; y15 = t1 XOR x5; y20 = t1 XOR x1; y6 = y15 XOR x7;
    y10 = y15 XOR t0; y11 = y20 XOR y9; y7 = x7 XOR y11; y17 = y10 XOR y11; y19 = y10 XOR y8; y16 = t0 XOR y11;
    y21 = y13 XOR y16; y18 = x0 XOR y16; t2 = y12 AND y15; t3 = y3 AND y6; t4 = t3 XOR t2; t5 = y4 AND x7; t6 = t5 XOR t2;
    t7 = y13 AND y16; t8 = y5 AND y1; t9 = t8 XOR t7; t10 = y2 AND y7; t11 = t10 XOR t7; t12 = y9 AND y11; t13 = y14 AND y17;
    t14 = t13 XOR t12; t15 = y8 AND y10; t16 = t15 XOR t12; t17 = t4 XOR t14; t18 = t6 XOR t16; t19 = t9 XOR t14;
    t20 = t11 XOR t16; t21 = t17 XOR y20; t22 = t18 XOR y19; t23 = t19 XOR y21; t24 = t20 XOR y18; t25 = t21 XOR t22;
    t26 = t21 AND t23; t27 = t24 XOR t26; t28 = t25 AND t27; t29 = t28 XOR t22; t30 = t23 XOR t24; t31 = t22 XOR t26;
    t32 = t31 AND t30; t33 = t32 XOR t24; t34 = t23 XOR t33; t35 = t27 XOR t33; t36 = t24 AND t35; t37 = t36 XOR t34;
    t38 = t27 XOR t36; t39 = t29 AND t38; t40 = t25 XOR t39; t41 = t40 XOR t37; t42 = t29 XOR t33; t43 = t29 XOR t40;
    t44 = t33 XOR t37; t45 = t42 XOR t41; z0 = t44 AND y15; z1 = t37 AND y6; z2 = t33 AND x7; z3 = t43 AND y16;
    z4 = t40 AND y1; z5 = t29 AND y7; z6 = t42 AND y11; z7 = t45 AND y17; z8 = t41 AND y10; z9 = t44 AND y12;
    z10 = t37 AND y3; z11 = t33 AND y4; z12 = t43 AND y13; z13 = t40 AND y5; z14 = t29 AND y2; z15 = t42 AND y9;
    z16 = t45 AND y14; z17 = t41 AND y8; t46 = z15 XOR z16; t47 = z10 XOR z11; t48 = z5 XOR z13; t49 = z9 XOR z10;
    t50 = z2 XOR z12; t51 = z2 XOR z5; t52 = z7 XOR z8; t53 = z0 XOR z3; t54 = z6 XOR z7; t55 = z16 XOR z17;
    t56 = z12 XOR t48; t57 = t50 XOR t53; t58 = z4 XOR t46; t59 = z3 XOR t54; t60 = t46 XOR t57; t61 = z14 XOR t57;
    t62 = t52 XOR t58; t63 = t49 XOR t58; t64 = z4 XOR t59; t65 = t61 XOR t62; t66 = z1 XOR t63; s0 = t59 XOR t63;
    s6 = t56 XOR NOT t62; s7 = t48 XOR NOT t60; t67 = t64 XOR t65; s3 = t53 XOR t66; s4 = t51 XOR t66; s5 = t47 XOR t65;
    s1 = t64 XOR NOT s3; s2 = t55 XOR NOT t67
   in [s7, s6, s5, s4, s3, s2, s1, s0])"

definition SWAPN :: "u32 \<Rightarrow> u32 \<Rightarrow> nat \<Rightarrow> nat \<Rightarrow> nat \<Rightarrow> u32 list \<Rightarrow> u32 list" where
  "SWAPN cl ch s x y q = (let a = q ! x; b = q ! y in
     q[x := (a AND cl) OR push_bit s (b AND cl), y := drop_bit s (a AND ch) OR (b AND ch)])"

definition SWAP2 :: "nat \<Rightarrow> nat \<Rightarrow> u32 list \<Rightarrow> u32 list" where
  "SWAP2 = SWAPN 0x55555555 0xAAAAAAAA 1"

definition SWAP4 :: "nat \<Rightarrow> nat \<Rightarrow> u32 list \<Rightarrow> u32 list" where
  "SWAP4 = SWAPN 0x33333333 0xCCCCCCCC 2"

definition SWAP8 :: "nat \<Rightarrow> nat \<Rightarrow> u32 list \<Rightarrow> u32 list" where
  "SWAP8 = SWAPN 0x0F0F0F0F 0xF0F0F0F0 4"

definition aes_ct_ortho :: "u32 list \<Rightarrow> u32 list" where
  "aes_ct_ortho q =
     (let q = SWAP2 6 7 (SWAP2 4 5 (SWAP2 2 3 (SWAP2 0 1 q)));
          q = SWAP4 5 7 (SWAP4 4 6 (SWAP4 1 3 (SWAP4 0 2 q)))
      in SWAP8 3 7 (SWAP8 2 6 (SWAP8 1 5 (SWAP8 0 4 q))))"

definition sub_word :: "u32 \<Rightarrow> u32" where
  "sub_word x = aes_ct_ortho (aes_ct_bitslice_Sbox (aes_ct_ortho (replicate 8 x))) ! 0"

definition Rcon :: bytes where
  "Rcon = [0x01, 0x02, 0x04, 0x08, 0x10, 0x20, 0x40, 0x80, 0x1B, 0x36]"

text \<open>The key schedule writes into the caller's array. The first loop copies the key, the second derives.\<close>

definition num_rounds_for :: "nat \<Rightarrow> nat" where
  "num_rounds_for key_len = (if key_len = 16 then 10 else if key_len = 24 then 12 else if key_len = 32 then 14 else 0)"

function keysched_loop :: "nat \<Rightarrow> nat \<Rightarrow> nat \<Rightarrow> nat \<Rightarrow> nat \<Rightarrow> u32 \<Rightarrow> u32 list \<Rightarrow> u32 list" where
  "keysched_loop nk nkf i j k tmp skey =
     (if i < nkf then
        let tmp = (if j = 0 then sub_word (push_bit 24 tmp OR drop_bit 8 tmp) XOR ucast (Rcon ! k)
                   else if 6 < nk \<and> j = 4 then sub_word tmp else tmp);
            tmp = tmp XOR skey ! (i - nk);
            skey = skey[i := tmp];
            j = j + 1
        in if j = nk then keysched_loop nk nkf (i + 1) 0 (k + 1) tmp skey
           else keysched_loop nk nkf (i + 1) j k tmp skey
      else skey)"
  by pat_completeness auto
termination
  by (relation "measure (\<lambda>(nk, nkf, i, j, k, tmp, skey). nkf - i)") auto

declare keysched_loop.simps [simp del]

definition aes_keysched_base :: "u32 list \<Rightarrow> bytes \<Rightarrow> nat \<Rightarrow> nat \<times> u32 list" where
  "aes_keysched_base skey key key_len =
     (let num_rounds = num_rounds_for key_len in
      if num_rounds = 0 then (0, skey)
      else let nk = key_len div 4; nkf = 4 * (num_rounds + 1);
               skey = fold (\<lambda>i skey. skey[i := dec32le (drop (4 * i) key)]) [0..<nk] skey
           in (num_rounds, keysched_loop nk nkf nk 0 0 (skey ! (nk - 1)) skey))"

definition compress_key :: "nat \<Rightarrow> u32 list \<Rightarrow> u32 list \<Rightarrow> u32 list" where
  "compress_key u skey comp_skey =
     (let q = aes_ct_ortho [skey ! (4 * u), skey ! (4 * u), skey ! (4 * u + 1), skey ! (4 * u + 1),
                skey ! (4 * u + 2), skey ! (4 * u + 2), skey ! (4 * u + 3), skey ! (4 * u + 3)]
      in comp_skey[4 * u := (q ! 0 AND 0x55555555) OR (q ! 1 AND 0xAAAAAAAA),
           4 * u + 1 := (q ! 2 AND 0x55555555) OR (q ! 3 AND 0xAAAAAAAA),
           4 * u + 2 := (q ! 4 AND 0x55555555) OR (q ! 5 AND 0xAAAAAAAA),
           4 * u + 3 := (q ! 6 AND 0x55555555) OR (q ! 7 AND 0xAAAAAAAA)])"

text \<open>The local array of the schedule is uninitialised in the source: \<open>stack\<close> is what it holds.\<close>

definition aes_ct_keysched :: "u32 list \<Rightarrow> u32 list \<Rightarrow> bytes \<Rightarrow> nat \<Rightarrow> nat \<times> u32 list" where
  "aes_ct_keysched stack comp_skey key key_len =
     (case aes_keysched_base stack key key_len of
        (num_rounds, skey) \<Rightarrow> (num_rounds, fold (\<lambda>u. compress_key u skey) [0..<num_rounds + 1] comp_skey))"

definition aes_ct_skey_expand :: "u32 list \<Rightarrow> nat \<Rightarrow> u32 list \<Rightarrow> u32 list" where
  "aes_ct_skey_expand skey num_rounds comp_skey =
     fold (\<lambda>u skey. let x = comp_skey ! u AND 0x55555555; y = comp_skey ! u AND 0xAAAAAAAA in
             skey[2 * u := x OR push_bit 1 x, 2 * u + 1 := y OR drop_bit 1 y])
       [0..<4 * (num_rounds + 1)] skey"

definition add_round_key :: "u32 list \<Rightarrow> u32 list \<Rightarrow> u32 list" where
  "add_round_key q sk = map (\<lambda>i. q ! i XOR sk ! i) [0..<8]"

definition shift_rows :: "u32 list \<Rightarrow> u32 list" where
  "shift_rows q = map (\<lambda>x. (x AND 0x000000FF)
     OR drop_bit 2 (x AND 0x0000FC00) OR push_bit 6 (x AND 0x00000300)
     OR drop_bit 4 (x AND 0x00F00000) OR push_bit 4 (x AND 0x000F0000)
     OR drop_bit 6 (x AND 0xC0000000) OR push_bit 2 (x AND 0x3F000000)) q"

definition rotr16 :: "u32 \<Rightarrow> u32" where
  "rotr16 x = push_bit 16 x OR drop_bit 16 x"

definition mix_columns :: "u32 list \<Rightarrow> u32 list" where
  "mix_columns q = (let
    q0 = q ! 0; q1 = q ! 1; q2 = q ! 2; q3 = q ! 3; q4 = q ! 4; q5 = q ! 5; q6 = q ! 6; q7 = q ! 7;
    r0 = drop_bit 8 q0 OR push_bit 24 q0; r1 = drop_bit 8 q1 OR push_bit 24 q1; r2 = drop_bit 8 q2 OR push_bit 24 q2;
    r3 = drop_bit 8 q3 OR push_bit 24 q3; r4 = drop_bit 8 q4 OR push_bit 24 q4; r5 = drop_bit 8 q5 OR push_bit 24 q5;
    r6 = drop_bit 8 q6 OR push_bit 24 q6; r7 = drop_bit 8 q7 OR push_bit 24 q7
   in [
    q7 XOR r7 XOR r0 XOR rotr16 (q0 XOR r0),
    q0 XOR r0 XOR q7 XOR r7 XOR r1 XOR rotr16 (q1 XOR r1),
    q1 XOR r1 XOR r2 XOR rotr16 (q2 XOR r2),
    q2 XOR r2 XOR q7 XOR r7 XOR r3 XOR rotr16 (q3 XOR r3),
    q3 XOR r3 XOR q7 XOR r7 XOR r4 XOR rotr16 (q4 XOR r4),
    q4 XOR r4 XOR r5 XOR rotr16 (q5 XOR r5),
    q5 XOR r5 XOR r6 XOR rotr16 (q6 XOR r6),
    q6 XOR r6 XOR r7 XOR rotr16 (q7 XOR r7)])"

text \<open>The rounds \<open>u\<close>, \<open>u + 1\<close>, \<dots> below \<open>num_rounds\<close> of the encryption loop.\<close>

function encrypt_rounds :: "nat \<Rightarrow> u32 list \<Rightarrow> nat \<Rightarrow> u32 list \<Rightarrow> u32 list" where
  "encrypt_rounds num_rounds skey u q =
     (if u < num_rounds
      then encrypt_rounds num_rounds skey (u + 1) (add_round_key (mix_columns (shift_rows (aes_ct_bitslice_Sbox q))) (drop (8 * u) skey))
      else q)"
  by pat_completeness auto
termination
  by (relation "measure (\<lambda>(num_rounds, skey, u, q). num_rounds - u)") auto

declare encrypt_rounds.simps [simp del]

definition aes_ct_bitslice_encrypt :: "nat \<Rightarrow> u32 list \<Rightarrow> u32 list \<Rightarrow> u32 list" where
  "aes_ct_bitslice_encrypt num_rounds skey q =
     add_round_key (shift_rows (aes_ct_bitslice_Sbox (encrypt_rounds num_rounds skey 1 (add_round_key q skey)))) (drop (8 * num_rounds) skey)"

definition inv_affine :: "u32 list \<Rightarrow> u32 list" where
  "inv_affine q = (let
    q0 = NOT (q ! 0); q1 = NOT (q ! 1); q2 = q ! 2; q3 = q ! 3; q4 = q ! 4; q5 = NOT (q ! 5); q6 = NOT (q ! 6); q7 = q ! 7
   in [q2 XOR q5 XOR q7, q3 XOR q6 XOR q0, q4 XOR q7 XOR q1, q5 XOR q0 XOR q2, q6 XOR q1 XOR q3, q7 XOR q2 XOR q4, q0 XOR q3 XOR q5, q1 XOR q4 XOR q6])"

definition aes_ct_bitslice_invSbox :: "u32 list \<Rightarrow> u32 list" where
  "aes_ct_bitslice_invSbox q = inv_affine (aes_ct_bitslice_Sbox (inv_affine q))"

definition inv_shift_rows :: "u32 list \<Rightarrow> u32 list" where
  "inv_shift_rows q = map (\<lambda>x. (x AND 0x000000FF)
     OR push_bit 2 (x AND 0x00003F00) OR drop_bit 6 (x AND 0x0000C000)
     OR push_bit 4 (x AND 0x000F0000) OR drop_bit 4 (x AND 0x00F00000)
     OR push_bit 6 (x AND 0x03000000) OR drop_bit 2 (x AND 0xFC000000)) q"

definition inv_mix_columns :: "u32 list \<Rightarrow> u32 list" where
  "inv_mix_columns q = (let
    q0 = q ! 0; q1 = q ! 1; q2 = q ! 2; q3 = q ! 3; q4 = q ! 4; q5 = q ! 5; q6 = q ! 6; q7 = q ! 7;
    r0 = drop_bit 8 q0 OR push_bit 24 q0; r1 = drop_bit 8 q1 OR push_bit 24 q1; r2 = drop_bit 8 q2 OR push_bit 24 q2;
    r3 = drop_bit 8 q3 OR push_bit 24 q3; r4 = drop_bit 8 q4 OR push_bit 24 q4; r5 = drop_bit 8 q5 OR push_bit 24 q5;
    r6 = drop_bit 8 q6 OR push_bit 24 q6; r7 = drop_bit 8 q7 OR push_bit 24 q7
   in [
    q5 XOR q6 XOR q7 XOR r0 XOR r5 XOR r7 XOR rotr16 (q0 XOR q5 XOR q6 XOR r0 XOR r5),
    q0 XOR q5 XOR r0 XOR r1 XOR r5 XOR r6 XOR r7 XOR rotr16 (q1 XOR q5 XOR q7 XOR r1 XOR r5 XOR r6),
    q0 XOR q1 XOR q6 XOR r1 XOR r2 XOR r6 XOR r7 XOR rotr16 (q0 XOR q2 XOR q6 XOR r2 XOR r6 XOR r7),
    q0 XOR q1 XOR q2 XOR q5 XOR q6 XOR r0 XOR r2 XOR r3 XOR r5 XOR rotr16 (q0 XOR q1 XOR q3 XOR q5 XOR q6 XOR q7 XOR r0 XOR r3 XOR r5 XOR r7),
    q1 XOR q2 XOR q3 XOR q5 XOR r1 XOR r3 XOR r4 XOR r5 XOR r6 XOR r7 XOR rotr16 (q1 XOR q2 XOR q4 XOR q5 XOR q7 XOR r1 XOR r4 XOR r5 XOR r6),
    q2 XOR q3 XOR q4 XOR q6 XOR r2 XOR r4 XOR r5 XOR r6 XOR r7 XOR rotr16 (q2 XOR q3 XOR q5 XOR q6 XOR r2 XOR r5 XOR r6 XOR r7),
    q3 XOR q4 XOR q5 XOR q7 XOR r3 XOR r5 XOR r6 XOR r7 XOR rotr16 (q3 XOR q4 XOR q6 XOR q7 XOR r3 XOR r6 XOR r7),
    q4 XOR q5 XOR q6 XOR r4 XOR r6 XOR r7 XOR rotr16 (q4 XOR q5 XOR q7 XOR r4 XOR r7)])"

text \<open>The loop of the decryption runs \<open>u\<close> down to 1.\<close>

fun decrypt_rounds :: "u32 list \<Rightarrow> nat \<Rightarrow> u32 list \<Rightarrow> u32 list" where
  "decrypt_rounds skey 0 q = q"
| "decrypt_rounds skey (Suc u) q =
     decrypt_rounds skey u (inv_mix_columns (add_round_key (aes_ct_bitslice_invSbox (inv_shift_rows q)) (drop (8 * Suc u) skey)))"

definition aes_ct_bitslice_decrypt :: "nat \<Rightarrow> u32 list \<Rightarrow> u32 list \<Rightarrow> u32 list" where
  "aes_ct_bitslice_decrypt num_rounds skey q =
     add_round_key (aes_ct_bitslice_invSbox (inv_shift_rows (decrypt_rounds skey (num_rounds - 1) (add_round_key q (drop (8 * num_rounds) skey))))) skey"

record AES_CTX =
  aes_sk :: "u32 list"
  aes_sk_exp :: "u32 list"
  aes_num_rounds :: nat

text \<open>\<open>AES_Setkey\<close> takes the length as an \<open>int\<close>, which becomes a \<open>size_t\<close> in the schedule.\<close>

definition AES_Setkey :: "u32 list \<Rightarrow> AES_CTX \<Rightarrow> bytes \<Rightarrow> int \<Rightarrow> int \<times> AES_CTX" where
  "AES_Setkey stack ctx key len =
     (case aes_ct_keysched stack (aes_sk ctx) key (nat (len mod 2 ^ 64)) of
        (num_rounds, sk) \<Rightarrow>
          let ctx = ctx\<lparr>aes_sk := sk, aes_num_rounds := num_rounds\<rparr> in
          if num_rounds = 0 then (-1, ctx)
          else (0, ctx\<lparr>aes_sk_exp := aes_ct_skey_expand (aes_sk_exp ctx) num_rounds sk\<rparr>))"

text \<open>Loading one or two blocks into the eight words, and storing them.\<close>

definition load_blocks :: "bytes \<Rightarrow> nat \<Rightarrow> u32 list" where
  "load_blocks src num_blocks =
     (if 1 < num_blocks
      then [dec32le src, dec32le (drop 16 src), dec32le (drop 4 src), dec32le (drop 20 src),
            dec32le (drop 8 src), dec32le (drop 24 src), dec32le (drop 12 src), dec32le (drop 28 src)]
      else [dec32le src, 0, dec32le (drop 4 src), 0, dec32le (drop 8 src), 0, dec32le (drop 12 src), 0])"

definition store_blocks :: "u32 list \<Rightarrow> nat \<Rightarrow> bytes" where
  "store_blocks q num_blocks =
     enc32le (q ! 0) @ enc32le (q ! 2) @ enc32le (q ! 4) @ enc32le (q ! 6) @
     (if 1 < num_blocks then enc32le (q ! 1) @ enc32le (q ! 3) @ enc32le (q ! 5) @ enc32le (q ! 7) else [])"

text \<open>
  The bytes written to \<open>dst\<close>. Each pass reads its blocks before it writes them, so the result is the
  same when \<open>dst\<close> is \<open>src\<close>.
\<close>

function AES_Encrypt_ECB :: "AES_CTX \<Rightarrow> bytes \<Rightarrow> nat \<Rightarrow> bytes" where
  "AES_Encrypt_ECB ctx src num_blocks =
     (if num_blocks = 0 then []
      else let out = store_blocks (aes_ct_ortho (aes_ct_bitslice_encrypt (aes_num_rounds ctx) (aes_sk_exp ctx)
                       (aes_ct_ortho (load_blocks src num_blocks)))) num_blocks
           in if 1 < num_blocks then out @ AES_Encrypt_ECB ctx (drop 32 src) (num_blocks - 2) else out)"
  by pat_completeness auto
termination
  by (relation "measure (\<lambda>(ctx, src, num_blocks). num_blocks)") auto

function AES_Decrypt_ECB :: "AES_CTX \<Rightarrow> bytes \<Rightarrow> nat \<Rightarrow> bytes" where
  "AES_Decrypt_ECB ctx src num_blocks =
     (if num_blocks = 0 then []
      else let out = store_blocks (aes_ct_ortho (aes_ct_bitslice_decrypt (aes_num_rounds ctx) (aes_sk_exp ctx)
                       (aes_ct_ortho (load_blocks src num_blocks)))) num_blocks
           in if 1 < num_blocks then out @ AES_Decrypt_ECB ctx (drop 32 src) (num_blocks - 2) else out)"
  by pat_completeness auto
termination
  by (relation "measure (\<lambda>(ctx, src, num_blocks). num_blocks)") auto

declare AES_Encrypt_ECB.simps [simp del] AES_Decrypt_ECB.simps [simp del]

definition AES_Encrypt :: "AES_CTX \<Rightarrow> bytes \<Rightarrow> bytes" where
  "AES_Encrypt ctx src = AES_Encrypt_ECB ctx src 1"

definition AES_Decrypt :: "AES_CTX \<Rightarrow> bytes \<Rightarrow> bytes" where
  "AES_Decrypt ctx src = AES_Decrypt_ECB ctx src 1"

end
