(* ===== verification/Aes_Spec.thy ===== *)
theory Aes_Spec
  imports Prelude
begin

text \<open>
  The Advanced Encryption Standard as FIPS 197 states it: the state is a list of 16 bytes, read column
  by column.
\<close>

section \<open>The field\<close>

definition xtime :: "u8 \<Rightarrow> u8" where
  "xtime b = push_bit 1 b XOR (if bit b 7 then 0x1b else 0)"

text \<open>The substitution tables of the standard (its figures 7 and 14).\<close>

definition sbox_table :: bytes where
  "sbox_table = [
    0x63, 0x7c, 0x77, 0x7b, 0xf2, 0x6b, 0x6f, 0xc5, 0x30, 0x01, 0x67, 0x2b, 0xfe, 0xd7, 0xab, 0x76,
    0xca, 0x82, 0xc9, 0x7d, 0xfa, 0x59, 0x47, 0xf0, 0xad, 0xd4, 0xa2, 0xaf, 0x9c, 0xa4, 0x72, 0xc0,
    0xb7, 0xfd, 0x93, 0x26, 0x36, 0x3f, 0xf7, 0xcc, 0x34, 0xa5, 0xe5, 0xf1, 0x71, 0xd8, 0x31, 0x15,
    0x04, 0xc7, 0x23, 0xc3, 0x18, 0x96, 0x05, 0x9a, 0x07, 0x12, 0x80, 0xe2, 0xeb, 0x27, 0xb2, 0x75,
    0x09, 0x83, 0x2c, 0x1a, 0x1b, 0x6e, 0x5a, 0xa0, 0x52, 0x3b, 0xd6, 0xb3, 0x29, 0xe3, 0x2f, 0x84,
    0x53, 0xd1, 0x00, 0xed, 0x20, 0xfc, 0xb1, 0x5b, 0x6a, 0xcb, 0xbe, 0x39, 0x4a, 0x4c, 0x58, 0xcf,
    0xd0, 0xef, 0xaa, 0xfb, 0x43, 0x4d, 0x33, 0x85, 0x45, 0xf9, 0x02, 0x7f, 0x50, 0x3c, 0x9f, 0xa8,
    0x51, 0xa3, 0x40, 0x8f, 0x92, 0x9d, 0x38, 0xf5, 0xbc, 0xb6, 0xda, 0x21, 0x10, 0xff, 0xf3, 0xd2,
    0xcd, 0x0c, 0x13, 0xec, 0x5f, 0x97, 0x44, 0x17, 0xc4, 0xa7, 0x7e, 0x3d, 0x64, 0x5d, 0x19, 0x73,
    0x60, 0x81, 0x4f, 0xdc, 0x22, 0x2a, 0x90, 0x88, 0x46, 0xee, 0xb8, 0x14, 0xde, 0x5e, 0x0b, 0xdb,
    0xe0, 0x32, 0x3a, 0x0a, 0x49, 0x06, 0x24, 0x5c, 0xc2, 0xd3, 0xac, 0x62, 0x91, 0x95, 0xe4, 0x79,
    0xe7, 0xc8, 0x37, 0x6d, 0x8d, 0xd5, 0x4e, 0xa9, 0x6c, 0x56, 0xf4, 0xea, 0x65, 0x7a, 0xae, 0x08,
    0xba, 0x78, 0x25, 0x2e, 0x1c, 0xa6, 0xb4, 0xc6, 0xe8, 0xdd, 0x74, 0x1f, 0x4b, 0xbd, 0x8b, 0x8a,
    0x70, 0x3e, 0xb5, 0x66, 0x48, 0x03, 0xf6, 0x0e, 0x61, 0x35, 0x57, 0xb9, 0x86, 0xc1, 0x1d, 0x9e,
    0xe1, 0xf8, 0x98, 0x11, 0x69, 0xd9, 0x8e, 0x94, 0x9b, 0x1e, 0x87, 0xe9, 0xce, 0x55, 0x28, 0xdf,
    0x8c, 0xa1, 0x89, 0x0d, 0xbf, 0xe6, 0x42, 0x68, 0x41, 0x99, 0x2d, 0x0f, 0xb0, 0x54, 0xbb, 0x16]"

definition inv_sbox_table :: bytes where
  "inv_sbox_table = [
    0x52, 0x09, 0x6a, 0xd5, 0x30, 0x36, 0xa5, 0x38, 0xbf, 0x40, 0xa3, 0x9e, 0x81, 0xf3, 0xd7, 0xfb,
    0x7c, 0xe3, 0x39, 0x82, 0x9b, 0x2f, 0xff, 0x87, 0x34, 0x8e, 0x43, 0x44, 0xc4, 0xde, 0xe9, 0xcb,
    0x54, 0x7b, 0x94, 0x32, 0xa6, 0xc2, 0x23, 0x3d, 0xee, 0x4c, 0x95, 0x0b, 0x42, 0xfa, 0xc3, 0x4e,
    0x08, 0x2e, 0xa1, 0x66, 0x28, 0xd9, 0x24, 0xb2, 0x76, 0x5b, 0xa2, 0x49, 0x6d, 0x8b, 0xd1, 0x25,
    0x72, 0xf8, 0xf6, 0x64, 0x86, 0x68, 0x98, 0x16, 0xd4, 0xa4, 0x5c, 0xcc, 0x5d, 0x65, 0xb6, 0x92,
    0x6c, 0x70, 0x48, 0x50, 0xfd, 0xed, 0xb9, 0xda, 0x5e, 0x15, 0x46, 0x57, 0xa7, 0x8d, 0x9d, 0x84,
    0x90, 0xd8, 0xab, 0x00, 0x8c, 0xbc, 0xd3, 0x0a, 0xf7, 0xe4, 0x58, 0x05, 0xb8, 0xb3, 0x45, 0x06,
    0xd0, 0x2c, 0x1e, 0x8f, 0xca, 0x3f, 0x0f, 0x02, 0xc1, 0xaf, 0xbd, 0x03, 0x01, 0x13, 0x8a, 0x6b,
    0x3a, 0x91, 0x11, 0x41, 0x4f, 0x67, 0xdc, 0xea, 0x97, 0xf2, 0xcf, 0xce, 0xf0, 0xb4, 0xe6, 0x73,
    0x96, 0xac, 0x74, 0x22, 0xe7, 0xad, 0x35, 0x85, 0xe2, 0xf9, 0x37, 0xe8, 0x1c, 0x75, 0xdf, 0x6e,
    0x47, 0xf1, 0x1a, 0x71, 0x1d, 0x29, 0xc5, 0x89, 0x6f, 0xb7, 0x62, 0x0e, 0xaa, 0x18, 0xbe, 0x1b,
    0xfc, 0x56, 0x3e, 0x4b, 0xc6, 0xd2, 0x79, 0x20, 0x9a, 0xdb, 0xc0, 0xfe, 0x78, 0xcd, 0x5a, 0xf4,
    0x1f, 0xdd, 0xa8, 0x33, 0x88, 0x07, 0xc7, 0x31, 0xb1, 0x12, 0x10, 0x59, 0x27, 0x80, 0xec, 0x5f,
    0x60, 0x51, 0x7f, 0xa9, 0x19, 0xb5, 0x4a, 0x0d, 0x2d, 0xe5, 0x7a, 0x9f, 0x93, 0xc9, 0x9c, 0xef,
    0xa0, 0xe0, 0x3b, 0x4d, 0xae, 0x2a, 0xf5, 0xb0, 0xc8, 0xeb, 0xbb, 0x3c, 0x83, 0x53, 0x99, 0x61,
    0x17, 0x2b, 0x04, 0x7e, 0xba, 0x77, 0xd6, 0x26, 0xe1, 0x69, 0x14, 0x63, 0x55, 0x21, 0x0c, 0x7d]"

definition fips_sbox :: "u8 \<Rightarrow> u8" where
  "fips_sbox x = sbox_table ! unat x"

definition fips_inv_sbox :: "u8 \<Rightarrow> u8" where
  "fips_inv_sbox x = inv_sbox_table ! unat x"

section \<open>The cipher\<close>

text \<open>Byte \<open>4 * c + r\<close> of the state stands in row \<open>r\<close> and column \<open>c\<close>.\<close>

definition fips_sub_bytes :: "bytes \<Rightarrow> bytes" where
  "fips_sub_bytes = map fips_sbox"

definition fips_shift_rows :: "bytes \<Rightarrow> bytes" where
  "fips_shift_rows s = map (\<lambda>k. s ! (4 * ((k div 4 + k mod 4) mod 4) + k mod 4)) [0..<16]"

definition column_byte :: "bytes \<Rightarrow> nat \<Rightarrow> nat \<Rightarrow> u8" where
  "column_byte s k i = s ! (4 * (k div 4) + (k mod 4 + i) mod 4)"

definition fips_mix_columns :: "bytes \<Rightarrow> bytes" where
  "fips_mix_columns s = map (\<lambda>k. let a = column_byte s k in
     xtime (a 0) XOR (xtime (a 1) XOR a 1) XOR a 2 XOR a 3) [0..<16]"

definition fips_add_round_key :: "bytes \<Rightarrow> bytes \<Rightarrow> bytes" where
  "fips_add_round_key s k = map2 (XOR) s k"

definition fips_inv_sub_bytes :: "bytes \<Rightarrow> bytes" where
  "fips_inv_sub_bytes = map fips_inv_sbox"

definition fips_inv_shift_rows :: "bytes \<Rightarrow> bytes" where
  "fips_inv_shift_rows s = map (\<lambda>k. s ! (4 * ((k div 4 + 4 - k mod 4) mod 4) + k mod 4)) [0..<16]"

definition gf_mul9 :: "u8 \<Rightarrow> u8" where "gf_mul9 b = xtime (xtime (xtime b)) XOR b"
definition gf_mulb :: "u8 \<Rightarrow> u8" where "gf_mulb b = xtime (xtime (xtime b)) XOR xtime b XOR b"
definition gf_muld :: "u8 \<Rightarrow> u8" where "gf_muld b = xtime (xtime (xtime b)) XOR xtime (xtime b) XOR b"
definition gf_mule :: "u8 \<Rightarrow> u8" where "gf_mule b = xtime (xtime (xtime b)) XOR xtime (xtime b) XOR xtime b"

definition fips_inv_mix_columns :: "bytes \<Rightarrow> bytes" where
  "fips_inv_mix_columns s = map (\<lambda>k. let a = column_byte s k in
     gf_mule (a 0) XOR gf_mulb (a 1) XOR gf_muld (a 2) XOR gf_mul9 (a 3)) [0..<16]"

definition fips_round :: "(nat \<Rightarrow> bytes) \<Rightarrow> nat \<Rightarrow> bytes \<Rightarrow> bytes" where
  "fips_round rk u s = fips_add_round_key (fips_mix_columns (fips_shift_rows (fips_sub_bytes s))) (rk u)"

definition fips_inv_round :: "(nat \<Rightarrow> bytes) \<Rightarrow> nat \<Rightarrow> bytes \<Rightarrow> bytes" where
  "fips_inv_round rk u s = fips_inv_mix_columns (fips_add_round_key (fips_inv_sub_bytes (fips_inv_shift_rows s)) (rk u))"

definition fips_cipher :: "nat \<Rightarrow> (nat \<Rightarrow> bytes) \<Rightarrow> bytes \<Rightarrow> bytes" where
  "fips_cipher nr rk s =
     fips_add_round_key (fips_shift_rows (fips_sub_bytes (fold (fips_round rk) [1..<nr] (fips_add_round_key s (rk 0))))) (rk nr)"

definition fips_inv_cipher :: "nat \<Rightarrow> (nat \<Rightarrow> bytes) \<Rightarrow> bytes \<Rightarrow> bytes" where
  "fips_inv_cipher nr rk s =
     fips_add_round_key (fips_inv_sub_bytes (fips_inv_shift_rows (fold (fips_inv_round rk) (rev [1..<nr]) (fips_add_round_key s (rk nr))))) (rk 0)"

section \<open>The key expansion\<close>

primrec fips_rcon :: "nat \<Rightarrow> u8" where
  "fips_rcon 0 = 1"
| "fips_rcon (Suc i) = xtime (fips_rcon i)"

text \<open>The words of the expansion, as lists of four bytes, for a key of \<open>nk\<close> words.\<close>

function fips_word :: "bytes \<Rightarrow> nat \<Rightarrow> nat \<Rightarrow> bytes" where
  "fips_word key nk i =
     (if i < nk \<or> nk = 0 then take 4 (drop (4 * i) key)
      else let t = fips_word key nk (i - 1) in
        map2 (XOR) (fips_word key nk (i - nk))
          (if i mod nk = 0 then map2 (XOR) (map fips_sbox (rotate1 t)) [fips_rcon (i div nk - 1), 0, 0, 0]
           else if 6 < nk \<and> i mod nk = 4 then map fips_sbox t else t))"
  by pat_completeness auto
termination
  by (relation "measure (\<lambda>(key, nk, i). i)") auto

declare fips_word.simps [simp del]

definition fips_round_key :: "bytes \<Rightarrow> nat \<Rightarrow> bytes" where
  "fips_round_key key u = concat (map (fips_word key (length key div 4)) [4 * u..<4 * u + 4])"

section \<open>Decryption inverts encryption\<close>

lemma sbox_tables_inverse: "map (\<lambda>b. inv_sbox_table ! unat b) sbox_table = map of_nat [0..<256]"
  by (simp add: sbox_table_def inv_sbox_table_def upt_rec)

lemma length_sbox_table [simp]: "length sbox_table = 256"
  by (simp add: sbox_table_def)

lemma fips_inv_sbox_sbox [simp]: "fips_inv_sbox (fips_sbox b) = b"
proof -
  have "map (\<lambda>b. inv_sbox_table ! unat b) sbox_table ! unat b = (map of_nat [0..<256] :: bytes) ! unat b"
    by (simp only: sbox_tables_inverse)
  then show ?thesis by (simp add: fips_sbox_def fips_inv_sbox_def)
qed

lemma xtime_xor: "xtime (a XOR b) = xtime a XOR xtime b"
  by (cases "bit a 7"; cases "bit b 7") (simp_all add: xtime_def push_bit_xor bit_xor_iff ac_simps)

lemma fips_inv_sub_bytes_sub [simp]: "fips_inv_sub_bytes (fips_sub_bytes s) = s"
  by (simp add: fips_inv_sub_bytes_def fips_sub_bytes_def comp_def)

lemma fips_lengths [simp]:
  "length (fips_sub_bytes s) = length s" "length (fips_shift_rows s) = 16" "length (fips_mix_columns s) = 16"
  "length (fips_inv_sub_bytes s) = length s" "length (fips_inv_shift_rows s) = 16" "length (fips_inv_mix_columns s) = 16"
  "length (fips_add_round_key s k) = min (length s) (length k)"
  by (simp_all add: fips_sub_bytes_def fips_shift_rows_def fips_mix_columns_def fips_inv_sub_bytes_def fips_inv_shift_rows_def
      fips_inv_mix_columns_def fips_add_round_key_def)

lemma fips_add_round_key_twice [simp]: "length s = length k \<Longrightarrow> fips_add_round_key (fips_add_round_key s k) k = s"
  by (rule nth_equalityI) (simp_all add: fips_add_round_key_def xor.assoc)

lemma length_16_cases:
  assumes "length s = 16"
  obtains a0 a1 a2 a3 a4 a5 a6 a7 a8 a9 a10 a11 a12 a13 a14 a15
  where "s = [a0, a1, a2, a3, a4, a5, a6, a7, a8, a9, a10, a11, a12, a13, a14, a15]"
  using assms by (auto simp: numeral_eq_Suc length_Suc_conv)

lemma upt_16: "[0..<16] = [0, 1, 2, 3, 4, 5, 6, 7, 8, 9, 10, 11, 12, 13, 14, 15 :: nat]"
  by (simp add: upt_rec)

lemma fips_inv_shift_rows_shift [simp]: "length s = 16 \<Longrightarrow> fips_inv_shift_rows (fips_shift_rows s) = s"
  by (erule length_16_cases) (simp add: fips_inv_shift_rows_def fips_shift_rows_def upt_16)


lemma mix_inverse:
  fixes a0 a1 a2 a3 :: u8
  defines "m0 \<equiv> xtime a0 XOR (xtime a1 XOR a1) XOR a2 XOR a3" and "m1 \<equiv> xtime a1 XOR (xtime a2 XOR a2) XOR a3 XOR a0"
    and "m2 \<equiv> xtime a2 XOR (xtime a3 XOR a3) XOR a0 XOR a1" and "m3 \<equiv> xtime a3 XOR (xtime a0 XOR a0) XOR a1 XOR a2"
  shows "gf_mule m0 XOR gf_mulb m1 XOR gf_muld m2 XOR gf_mul9 m3 = a0"
  unfolding m0_def m1_def m2_def m3_def gf_mule_def gf_mulb_def gf_muld_def gf_mul9_def
  by (simp add: xtime_xor ac_simps)

lemma fips_inv_mix_columns_mix [simp]: "length s = 16 \<Longrightarrow> fips_inv_mix_columns (fips_mix_columns s) = s"
  by (erule length_16_cases) (simp add: fips_inv_mix_columns_def fips_mix_columns_def upt_16 column_byte_def mix_inverse)

lemma length_fips_rounds: "\<forall>u. length (rk u) = 16 \<Longrightarrow> length s = 16 \<Longrightarrow> length (fold (fips_round rk) us s) = 16"
  by (induction us arbitrary: s) (simp_all add: fips_round_def)

lemma fips_rounds_inverse:
  assumes "\<forall>u. length (rk u) = 16" "length s = 16"
  shows "fold (fips_inv_round rk) (rev us) (fips_shift_rows (fips_sub_bytes (fold (fips_round rk) us s))) = fips_shift_rows (fips_sub_bytes s)"
  using assms
proof (induction us rule: rev_induct)
  case (snoc u us)
  then show ?case using length_fips_rounds [of rk s us] by (simp add: fips_inv_round_def fips_round_def)
qed simp

lemma fips_inv_cipher_cipher:
  assumes "\<forall>u. length (rk u) = 16" "length s = 16"
  shows "fips_inv_cipher nr rk (fips_cipher nr rk s) = s"
  using assms fips_rounds_inverse [OF assms(1), of "fips_add_round_key s (rk 0)" "[1..<nr]"]
  by (simp add: fips_cipher_def fips_inv_cipher_def)

lemma length_fips_cipher: "\<forall>u. length (rk u) = 16 \<Longrightarrow> length s = 16 \<Longrightarrow> length (fips_cipher nr rk s) = 16"
  using length_fips_rounds [of rk "fips_add_round_key s (rk 0)" "[1..<nr]"] by (simp add: fips_cipher_def)

end
