(* ===== verification/Aes_Bits.thy ===== *)
theory Aes_Bits
  imports Aes Aes_Spec
begin

text \<open>
  The bitslice representation of \<open>crypto/aes.c\<close>, bit by bit: each step of the bitsliced cipher is read
  as an operation on the bytes that stand at one rank of the eight words.
\<close>

section \<open>Ranks\<close>

definition rank_byte :: "u32 list \<Rightarrow> nat \<Rightarrow> u8" where
  "rank_byte q n = horner_sum of_bool 2 (map (\<lambda>w. bit w n) q)"

lemma bit_rank_byte: "length q = 8 \<Longrightarrow> bit (rank_byte q n) i \<longleftrightarrow> i < 8 \<and> bit (q ! i) n"
  by (auto simp: rank_byte_def bit_horner_sum_bit_word_iff)

lemma rank_byte_eqI: "length q = 8 \<Longrightarrow> (\<And>i. i < 8 \<Longrightarrow> bit (q ! i) n = bit b i) \<Longrightarrow> rank_byte q n = b"
  by (rule bit_word_eqI) (simp add: bit_rank_byte)

lemma rank_byte_cong: "length q = 8 \<Longrightarrow> length q' = 8 \<Longrightarrow> (\<And>i. i < 8 \<Longrightarrow> bit (q ! i) n = bit (q' ! i) m) \<Longrightarrow> rank_byte q n = rank_byte q' m"
  by (rule rank_byte_eqI) (simp_all add: bit_rank_byte)

section \<open>Circuits\<close>

definition same_bit :: "nat \<Rightarrow> nat \<Rightarrow> u32 \<Rightarrow> u32 \<Rightarrow> bool" where
  "same_bit n m x y \<longleftrightarrow> bit x n = bit y m"

lemma same_bit_ops:
  "same_bit n m x x' \<Longrightarrow> same_bit n m y y' \<Longrightarrow> same_bit n m (x XOR y) (x' XOR y')"
  "same_bit n m x x' \<Longrightarrow> same_bit n m y y' \<Longrightarrow> same_bit n m (x AND y) (x' AND y')"
  by (simp_all add: same_bit_def bit_simps)

lemma same_bit_not: "n < 32 \<Longrightarrow> m < 32 \<Longrightarrow> same_bit n m x x' \<Longrightarrow> same_bit n m (NOT x) (NOT x')"
  by (simp add: same_bit_def bit_simps)

lemma same_bit_Let:
  "same_bit n m a b \<Longrightarrow> (\<And>x y. same_bit n m x y \<Longrightarrow> list_all2 (same_bit n m) (F x) (G y)) \<Longrightarrow>
   list_all2 (same_bit n m) (Let a F) (Let b G)"
  by (simp add: Let_def)

text \<open>Eight calls with these words run through all 256 bytes: rank \<open>m\<close> of the \<open>j\<close>-th holds \<open>32 * j + m\<close>.\<close>

definition sample_words :: "u32 list list" where
  "sample_words = [
    [0xaaaaaaaa, 0xcccccccc, 0xf0f0f0f0, 0xff00ff00, 0xffff0000, 0x0, 0x0, 0x0],
    [0xaaaaaaaa, 0xcccccccc, 0xf0f0f0f0, 0xff00ff00, 0xffff0000, 0xffffffff, 0x0, 0x0],
    [0xaaaaaaaa, 0xcccccccc, 0xf0f0f0f0, 0xff00ff00, 0xffff0000, 0x0, 0xffffffff, 0x0],
    [0xaaaaaaaa, 0xcccccccc, 0xf0f0f0f0, 0xff00ff00, 0xffff0000, 0xffffffff, 0xffffffff, 0x0],
    [0xaaaaaaaa, 0xcccccccc, 0xf0f0f0f0, 0xff00ff00, 0xffff0000, 0x0, 0x0, 0xffffffff],
    [0xaaaaaaaa, 0xcccccccc, 0xf0f0f0f0, 0xff00ff00, 0xffff0000, 0xffffffff, 0x0, 0xffffffff],
    [0xaaaaaaaa, 0xcccccccc, 0xf0f0f0f0, 0xff00ff00, 0xffff0000, 0x0, 0xffffffff, 0xffffffff],
    [0xaaaaaaaa, 0xcccccccc, 0xf0f0f0f0, 0xff00ff00, 0xffff0000, 0xffffffff, 0xffffffff, 0xffffffff]]"

lemma length_sample_words: "length sample_words = 8" "j < 8 \<Longrightarrow> length (sample_words ! j) = 8"
proof -
  show l: "length sample_words = 8" by (simp add: sample_words_def)
  have "list_all (\<lambda>q. length q = 8) sample_words" by (simp add: sample_words_def)
  then show "j < 8 \<Longrightarrow> length (sample_words ! j) = 8" using l by (simp add: list_all_length)
qed

lemma sample_words_ranks: "concat (map (\<lambda>q. map (rank_byte q) [0..<32]) sample_words) = map of_nat [0..<256]"
  by (simp add: sample_words_def upt_32 rank_byte_def upt_rec [of _ 256])

lemma concat_nth: "\<forall>xs \<in> set xss. length xs = c \<Longrightarrow> j < length xss \<Longrightarrow> m < c \<Longrightarrow> concat xss ! (c * j + m) = xss ! j ! m"
proof (induction xss arbitrary: j)
  case (Cons xs xss)
  then show ?case by (cases j) (auto simp: nth_append)
qed simp

lemma sample_rank: "j < 8 \<Longrightarrow> m < 32 \<Longrightarrow> rank_byte (sample_words ! j) m = of_nat (32 * j + m)"
  using concat_nth [of "map (\<lambda>q. map (rank_byte q) [0..<32]) sample_words" 32 j m]
  unfolding sample_words_ranks by (auto simp: length_sample_words)

text \<open>
  A circuit of bitwise operations computes the same function of a byte at every rank. The locale takes
  a circuit whose output bits depend only on the input bits at the same rank, and its results on the eight sample
  calls; it then computes the table read off those results.
\<close>

locale bitsliced =
  fixes circuit :: "u32 list \<Rightarrow> u32 list" and table :: bytes
  assumes local_bits: "n < 32 \<Longrightarrow> m < 32 \<Longrightarrow> (\<And>i. i < 8 \<Longrightarrow> same_bit n m (q ! i) (q' ! i)) \<Longrightarrow> list_all2 (same_bit n m) (circuit q) (circuit q')"
    and length_circuit: "length (circuit q) = 8"
    and samples: "concat (map (\<lambda>q. map (rank_byte q) [0..<32]) (map circuit sample_words)) = table"
begin

lemma sample_result: "j < 8 \<Longrightarrow> m < 32 \<Longrightarrow> rank_byte (circuit (sample_words ! j)) m = table ! (32 * j + m)"
  using concat_nth [of "map (\<lambda>q. map (rank_byte q) [0..<32]) (map circuit sample_words)" 32 j m]
  unfolding samples by (auto simp: length_sample_words)

lemma rank_byte_circuit:
  assumes "length q = 8" "n < 32"
  shows "rank_byte (circuit q) n = table ! unat (rank_byte q n)"
proof -
  define b where "b = rank_byte q n"
  define j where "j = unat b div 32"
  define m where "m = unat b mod 32"
  have j: "j < 8" "m < 32" "32 * j + m = unat b" using unat_u8_less [of b] by (auto simp: j_def m_def less_mult_imp_div_less)
  let ?q = "sample_words ! j"
  have "rank_byte ?q m = b" using sample_rank [OF j(1,2)] j(3) by simp
  then have "bit (q ! i) n = bit (?q ! i) m" if "i < 8" for i
    using bit_rank_byte [OF assms(1), of n i] bit_rank_byte [OF length_sample_words(2) [OF j(1)], of m i] that by (simp add: b_def)
  then have s: "list_all2 (same_bit n m) (circuit q) (circuit ?q)"
    using local_bits [OF assms(2) j(2)] by (simp add: same_bit_def)
  have "rank_byte (circuit q) n = rank_byte (circuit ?q) m"
    by (rule rank_byte_cong) (use list_all2_nthD [OF s] in \<open>auto simp: same_bit_def length_circuit\<close>)
  then show ?thesis using sample_result [OF j(1,2)] j(3) by (simp add: b_def)
qed

end

section \<open>The S-box\<close>

lemma Sbox_local:
  assumes "n < 32" "m < 32" "\<And>i. i < 8 \<Longrightarrow> same_bit n m (q ! i) (q' ! i)"
  shows "list_all2 (same_bit n m) (aes_ct_bitslice_Sbox q) (aes_ct_bitslice_Sbox q')"
proof -
  have q: "same_bit n m (q ! 0) (q' ! 0)" "same_bit n m (q ! 1) (q' ! 1)" "same_bit n m (q ! 2) (q' ! 2)"
    "same_bit n m (q ! 3) (q' ! 3)" "same_bit n m (q ! 4) (q' ! 4)" "same_bit n m (q ! 5) (q' ! 5)"
    "same_bit n m (q ! 6) (q' ! 6)" "same_bit n m (q ! 7) (q' ! 7)" using assms(3) by simp_all
  show ?thesis
    unfolding aes_ct_bitslice_Sbox_def
    by (intro same_bit_Let same_bit_ops same_bit_not [OF assms(1,2)] list.rel_intros q) assumption+
qed

lemma length_Let: "(\<And>x. length (F x) = k) \<Longrightarrow> length (Let a F) = k"
  by (simp add: Let_def)

lemma length_Sbox [simp]: "length (aes_ct_bitslice_Sbox q) = 8"
  unfolding aes_ct_bitslice_Sbox_def by (intro length_Let) simp


definition sample_results :: "u32 list list" where
  "sample_results = [
    [0x96c6eed, 0x4c53fc7d, 0x3b48b4c6, 0x193d586a, 0x52b8b11e, 0x6d98dd7f, 0xc2fdb4ff, 0xbf977090],
    [0xb14ede67, 0x7bae007d, 0xa16387fb, 0x109020a2, 0xc2b0f977, 0xf8045f7b, 0x980a3cc2, 0x5caa2ec7],
    [0x8acb7a13, 0x97816f7a, 0xa428c424, 0xffa8527d, 0x4ce30f58, 0xd787aa4, 0xf3ab2560, 0x866aac82],
    [0x68ab4bfa, 0xe61a4c5e, 0x23a869a2, 0x2568ea2e, 0xf7f17a49, 0x6bc2aa4e, 0xe4851b3b, 0xe7bac28f],
    [0xc006eab5, 0xf33486b4, 0x3b0c3ffb, 0xf6ac6c1b, 0xbc48ecb4, 0x6319e08, 0xb30db559, 0x96ca0329],
    [0x10bdb210, 0x6a450b2e, 0x577d64e0, 0xe9da849c, 0x2624b286, 0x7d8dcc47, 0x3f6bcb91, 0x4cb37701],
    [0x6f247a04, 0x94ead8a9, 0xd6ce2efc, 0xc892fb1b, 0xce472e53, 0xb4f256f, 0x25591782, 0xb844e3e1],
    [0x4f1ead39, 0xc8709740, 0xac39b6c0, 0x4e9ddb76, 0xf210a3ae, 0x54b24813, 0x21e0b833, 0x52379de7]]"

definition inverse_results :: "u32 list list" where
  "inverse_results = [
    [0xc4f6f54a, 0xa6faed25, 0x3be14968, 0xe2758986, 0x2155e9b9, 0x4167a5f4, 0xfc43e20d, 0xf2dafd48],
    [0xfa244cc2, 0x278af97a, 0x914a8795, 0x3a33ab82, 0x43a0248f, 0x95de21da, 0x5b28f323, 0x64a46534],
    [0x7a703000, 0x1d80c095, 0xff317f9c, 0x61f51c62, 0x4bdad5c7, 0x1073622f, 0xdbf3d2f, 0xf0f0cb56],
    [0xbf686944, 0xeafca1c4, 0x66ecb30, 0xc67e14b6, 0x24253563, 0x86223324, 0x81114742, 0x47193377],
    [0x66f0853e, 0xc519cfb1, 0xf4f76d70, 0xda220cd1, 0x7645b347, 0xaf7ef2a1, 0xeb14def8, 0x4bb37fc2],
    [0x224883fb, 0x4b3edf05, 0xa8174b51, 0x7b4df9b4, 0xdb67e21e, 0x98c5572a, 0xfe7b054b, 0xaf3152c2],
    [0xbbbe99eb, 0x9c449269, 0xcba4d063, 0xeddcc817, 0x5c368f8b, 0x872d518c, 0xa647c842, 0xfa286156],
    [0xbb23f64c, 0x8fb3634, 0xd4ed0858, 0xc21a4f3c, 0x94796cc4, 0xabba8ef7, 0x9b68a34a, 0x15057d3]]"

lemma Sbox_samples: "map aes_ct_bitslice_Sbox sample_words = sample_results"
  by (simp add: sample_words_def sample_results_def aes_ct_bitslice_Sbox_def Let_def cong: let_weak_cong)

lemma sample_results_ranks: "concat (map (\<lambda>q. map (rank_byte q) [0..<32]) sample_results) = sbox_table"
  by (simp add: sample_results_def upt_32 rank_byte_def sbox_table_def)

lemma length_inv_affine [simp]: "length (inv_affine q) = 8"
  by (simp add: inv_affine_def Let_def)

lemma inv_affine_local:
  assumes "n < 32" "m < 32" "\<And>i. i < 8 \<Longrightarrow> same_bit n m (q ! i) (q' ! i)"
  shows "list_all2 (same_bit n m) (inv_affine q) (inv_affine q')"
  using assms(3) unfolding inv_affine_def Let_def
  by (intro same_bit_ops same_bit_not [OF assms(1,2)] list.rel_intros) simp_all

lemma invSbox_local:
  assumes "n < 32" "m < 32" "\<And>i. i < 8 \<Longrightarrow> same_bit n m (q ! i) (q' ! i)"
  shows "list_all2 (same_bit n m) (aes_ct_bitslice_invSbox q) (aes_ct_bitslice_invSbox q')"
proof -
  note local = inv_affine_local [OF assms(1,2)] Sbox_local [OF assms(1,2)]
  have "same_bit n m (inv_affine q ! i) (inv_affine q' ! i)" if "i < 8" for i
    using list_all2_nthD [OF local(1) [OF assms(3)]] that by simp
  from list_all2_nthD [OF local(2) [OF this]] show ?thesis
    unfolding aes_ct_bitslice_invSbox_def by (intro local(1)) simp_all
qed

lemma invSbox_samples: "map aes_ct_bitslice_invSbox sample_words = inverse_results"
  by (simp add: sample_words_def inverse_results_def aes_ct_bitslice_invSbox_def inv_affine_def aes_ct_bitslice_Sbox_def Let_def cong: let_weak_cong)

lemma inverse_results_ranks: "concat (map (\<lambda>q. map (rank_byte q) [0..<32]) inverse_results) = inv_sbox_table"
  by (simp add: inverse_results_def upt_32 rank_byte_def inv_sbox_table_def)

interpretation sbox: bitsliced aes_ct_bitslice_Sbox sbox_table
  by unfold_locales (simp_all add: Sbox_local Sbox_samples sample_results_ranks del: map_map)

interpretation inv_sbox: bitsliced aes_ct_bitslice_invSbox inv_sbox_table
  by unfold_locales (simp_all add: invSbox_local invSbox_samples inverse_results_ranks aes_ct_bitslice_invSbox_def [THEN arg_cong [of _ _ length]] del: map_map)

lemmas rank_byte_Sbox = sbox.rank_byte_circuit [folded fips_sbox_def]
lemmas rank_byte_invSbox = inv_sbox.rank_byte_circuit [folded fips_inv_sbox_def]

section \<open>Orthogonalization\<close>

lemma length_8_cases:
  assumes "length q = 8"
  obtains q0 q1 q2 q3 q4 q5 q6 q7 where "q = [q0, q1, q2, q3, q4, q5, q6, q7]"
  using assms by (auto simp: numeral_eq_Suc length_Suc_conv)

lemma length_ortho [simp]: "length (aes_ct_ortho q) = length q"
  by (simp add: aes_ct_ortho_def SWAP2_def SWAP4_def SWAP8_def SWAPN_def Let_def)

lemma upt_8: "[0..<8] = [0, 1, 2, 3, 4, 5, 6, 7 :: nat]"
  by (simp add: upt_rec)

lemma upt_4: "[0..<4] = [0, 1, 2, 3 :: nat]"
  by (simp add: upt_rec)

lemma ortho_table:
  assumes "length q = 8"
  shows "map (\<lambda>k. map (bit (aes_ct_ortho q ! k)) [0..<32]) [0..<8] =
    map (\<lambda>k. concat (map (\<lambda>i. map (\<lambda>j. bit (q ! j) (8 * i + k)) [0..<8]) [0..<4])) [0..<8]"
  using assms
  by (elim length_8_cases)
    (simp add: aes_ct_ortho_def SWAP2_def SWAP4_def SWAP8_def SWAPN_def Let_def upt_32 upt_8 upt_4 bit_and_iff bit_or_iff bit_push_bit_iff bit_drop_bit_eq numeral_3_eq_3 [symmetric]
      del: push_bit_Suc cong: let_weak_cong)


lemma bit_ortho:
  assumes "length q = 8" "k < 8" "n < 32"
  shows "bit (aes_ct_ortho q ! k) n = bit (q ! (n mod 8)) (8 * (n div 8) + k)"
proof -
  have n: "n mod 8 < 8" "n div 8 < 4" "8 * (n div 8) + n mod 8 = n" using assms(3) by auto
  have "map (bit (aes_ct_ortho q ! k)) [0..<32] = concat (map (\<lambda>i. map (\<lambda>j. bit (q ! j) (8 * i + k)) [0..<8]) [0..<4])"
    using arg_cong [OF ortho_table [OF assms(1)], of "\<lambda>xs. xs ! k"] assms(2) by simp
  from arg_cong [OF this, of "\<lambda>xs. xs ! n"] show ?thesis
    using assms(3) n concat_nth [of "map (\<lambda>i. map (\<lambda>j. bit (q ! j) (8 * i + k)) [0..<8]) [0..<4]" 8 "n div 8" "n mod 8"]
    by simp
qed

lemma ortho_involution:
  assumes "length q = 8"
  shows "aes_ct_ortho (aes_ct_ortho q) = q"
proof (rule nth_equalityI)
  fix k assume k: "k < length (aes_ct_ortho (aes_ct_ortho q))"
  show "aes_ct_ortho (aes_ct_ortho q) ! k = q ! k"
  proof (rule bit_word_eqI)
    fix n assume "n < LENGTH(32)"
    then have "n < 32" "n div 8 \<le> 3" by auto
    then have n: "n < 32" "8 * (n div 8) + k < 32" "n mod 8 < 8" using k assms by simp_all
    show "bit (aes_ct_ortho (aes_ct_ortho q) ! k) n = bit (q ! k) n"
      using bit_ortho [of "aes_ct_ortho q" k n] bit_ortho [OF assms n(3,2)] k assms n(1) by (simp add: mod_add_eq div_add1_eq)
  qed
qed simp

end
