(* ===== verification/Aes_Blocks.thy ===== *)
theory Aes_Blocks
  imports Aes_Bits
begin

text \<open>
  The bitsliced cipher of \<open>crypto/aes.c\<close> implements FIPS 197: each of its steps is read as the step of
  the standard on the two blocks that the eight words hold.
\<close>

section \<open>Blocks\<close>

text \<open>
  The two blocks of a bitsliced state: byte \<open>t\<close> of the block with parity \<open>p\<close> stands at this rank.
\<close>

definition rank_of :: "nat \<Rightarrow> nat \<Rightarrow> nat" where
  "rank_of p t = 8 * (t mod 4) + 2 * (t div 4) + p"

definition block_at :: "nat \<Rightarrow> u32 list \<Rightarrow> bytes" where
  "block_at p q = map (\<lambda>t. rank_byte q (rank_of p t)) [0..<16]"

lemma rank_of_less: "p < 2 \<Longrightarrow> t < 16 \<Longrightarrow> rank_of p t < 32"
  using less_mult_imp_div_less [of t 4 4] mod_less_divisor [of 4 t] unfolding rank_of_def by linarith

lemma length_block_at [simp]: "length (block_at p q) = 16"
  by (simp add: block_at_def)

lemma nth_block_at: "t < 16 \<Longrightarrow> block_at p q ! t = rank_byte q (rank_of p t)"
  by (simp add: block_at_def)

lemma block_at_Sbox: "length q = 8 \<Longrightarrow> p < 2 \<Longrightarrow> block_at p (aes_ct_bitslice_Sbox q) = fips_sub_bytes (block_at p q)"
  by (simp add: block_at_def fips_sub_bytes_def rank_byte_Sbox rank_of_less)

lemma length_invSbox [simp]: "length (aes_ct_bitslice_invSbox q) = 8"
  by (rule inv_sbox.length_circuit)

lemma block_at_invSbox: "length q = 8 \<Longrightarrow> p < 2 \<Longrightarrow> block_at p (aes_ct_bitslice_invSbox q) = fips_inv_sub_bytes (block_at p q)"
  by (simp add: block_at_def fips_inv_sub_bytes_def rank_byte_invSbox rank_of_less)

lemma length_add_round_key [simp]: "length (add_round_key q sk) = 8"
  by (simp add: add_round_key_def)

lemma block_at_add_round_key:
  assumes "length q = 8" "8 \<le> length sk"
  shows "block_at p (add_round_key q sk) = fips_add_round_key (block_at p q) (block_at p (take 8 sk))"
proof (rule nth_equalityI)
  fix t assume "t < length (block_at p (add_round_key q sk))"
  moreover have "rank_byte (add_round_key q sk) n = rank_byte q n XOR rank_byte (take 8 sk) n" for n
    by (rule rank_byte_eqI) (use assms in \<open>simp_all add: bit_xor_iff bit_rank_byte add_round_key_def\<close>)
  ultimately show "block_at p (add_round_key q sk) ! t = fips_add_round_key (block_at p q) (block_at p (take 8 sk)) ! t"
    by (simp add: fips_add_round_key_def nth_block_at)
qed simp


section \<open>Rows and columns\<close>

definition row_shift :: "u32 \<Rightarrow> u32" where
  "row_shift x = (x AND 0x000000FF)
     OR drop_bit 2 (x AND 0x0000FC00) OR push_bit 6 (x AND 0x00000300)
     OR drop_bit 4 (x AND 0x00F00000) OR push_bit 4 (x AND 0x000F0000)
     OR drop_bit 6 (x AND 0xC0000000) OR push_bit 2 (x AND 0x3F000000)"

definition inv_row_shift :: "u32 \<Rightarrow> u32" where
  "inv_row_shift x = (x AND 0x000000FF)
     OR push_bit 2 (x AND 0x00003F00) OR drop_bit 6 (x AND 0x0000C000)
     OR push_bit 4 (x AND 0x000F0000) OR drop_bit 4 (x AND 0x00F00000)
     OR push_bit 6 (x AND 0x03000000) OR drop_bit 2 (x AND 0xFC000000)"

lemma row_shift_table:
  "map (bit (row_shift x)) [0..<32] = map (\<lambda>n. bit x (8 * (n div 8) + (n mod 8 + 2 * (n div 8)) mod 8)) [0..<32]"
  by (simp add: row_shift_def upt_32 bit_and_iff bit_or_iff bit_push_bit_iff bit_drop_bit_eq numeral_2_eq_2 [symmetric])

lemma inv_row_shift_table:
  "map (bit (inv_row_shift x)) [0..<32] = map (\<lambda>n. bit x (8 * (n div 8) + (n mod 8 + 8 - 2 * (n div 8)) mod 8)) [0..<32]"
  by (simp add: inv_row_shift_def upt_32 bit_and_iff bit_or_iff bit_push_bit_iff bit_drop_bit_eq numeral_2_eq_2 [symmetric])

lemma bit_row_shift:
  assumes "n < 32"
  shows "bit (row_shift x) n = bit x (8 * (n div 8) + (n mod 8 + 2 * (n div 8)) mod 8)"
    "bit (inv_row_shift x) n = bit x (8 * (n div 8) + (n mod 8 + 8 - 2 * (n div 8)) mod 8)"
  using assms arg_cong [OF row_shift_table, of "\<lambda>xs. xs ! n" x] arg_cong [OF inv_row_shift_table, of "\<lambda>xs. xs ! n" x] by simp_all

lemma length_shift_rows [simp]: "length (shift_rows q) = length q" "length (inv_shift_rows q) = length q"
  by (simp_all add: shift_rows_def inv_shift_rows_def)

lemma rank_of_parts:
  assumes "p < 2" "t < 16"
  shows "rank_of p t div 8 = t mod 4" "rank_of p t mod 8 = 2 * (t div 4) + p"
  using assms less_mult_imp_div_less [of t 4 4] by (simp_all add: rank_of_def add.assoc)

lemma rank_byte_map:
  assumes "length q = 8" "\<And>x. bit (f x) n = bit x m"
  shows "rank_byte (map f q) n = rank_byte q m"
  by (rule rank_byte_cong) (use assms in auto)

lemma block_at_shift_rows:
  assumes "length q = 8" "p < 2"
  shows "block_at p (shift_rows q) = fips_shift_rows (block_at p q)" "block_at p (inv_shift_rows q) = fips_inv_shift_rows (block_at p q)"
proof -
  have s: "shift_rows q = map row_shift q" "inv_shift_rows q = map inv_row_shift q"
    by (simp_all add: shift_rows_def inv_shift_rows_def row_shift_def inv_row_shift_def)
  have k: "8 * (t mod 4) + (2 * (t div 4) + p + 2 * (t mod 4)) mod 8 = rank_of p (4 * ((t div 4 + t mod 4) mod 4) + t mod 4)"
    "8 * (t mod 4) + (2 * (t div 4) + p + 8 - 2 * (t mod 4)) mod 8 = rank_of p (4 * ((t div 4 + 4 - t mod 4) mod 4) + t mod 4)" if "t \<in> set [0..<16]" for t
    using that assms(2) unfolding upt_16 rank_of_def by (auto simp: less_2_cases_iff)
  have i: "4 * (u mod 4) + t mod 4 < 16" for u t :: nat
    using mod_less_divisor [of 4 u] mod_less_divisor [of 4 t] by linarith
  show "block_at p (shift_rows q) = fips_shift_rows (block_at p q)"
    unfolding s fips_shift_rows_def block_at_def
    by (intro map_cong refl) (use assms in \<open>simp add: rank_byte_map [OF _ bit_row_shift(1)] rank_of_less rank_of_parts k i\<close>)
  show "block_at p (inv_shift_rows q) = fips_inv_shift_rows (block_at p q)"
    unfolding s fips_inv_shift_rows_def block_at_def
    by (intro map_cong refl) (use assms in \<open>simp add: rank_byte_map [OF _ bit_row_shift(2)] rank_of_less rank_of_parts k i\<close>)
qed

lemma bit_rotations:
  assumes "n < 32"
  shows "bit (drop_bit 8 w OR push_bit 24 w) n = bit (w :: u32) ((n + 8) mod 32)" "bit (rotr16 w) n = bit w ((n + 16) mod 32)"
  using assms by (auto simp: rotr16_def bit_simps mod_if not_less add.commute dest: bit_imp_le_length)

lemma less_8_cases: "i < 8 \<Longrightarrow> i \<in> {0, 1, 2, 3, 4, 5, 6, 7 :: nat}"
  using upt_8 atLeastLessThan_upt [of 0 8] by (metis atLeastLessThan_iff list.set(1,2) zero_le)

lemma bit_xtime: "bit (xtime b) 0 = bit b 7" "bit (xtime b) (Suc 0) = (bit b 0 \<noteq> bit b 7)" "bit (xtime b) 2 = bit b 1"
  "bit (xtime b) 3 = (bit b 2 \<noteq> bit b 7)" "bit (xtime b) 4 = (bit b 3 \<noteq> bit b 7)" "bit (xtime b) 5 = bit b 4"
  "bit (xtime b) 6 = bit b 5" "bit (xtime b) 7 = bit b 6"
  by (simp_all add: xtime_def bit_xor_iff bit_push_bit_iff del: push_bit_Suc)

text \<open>
  The columns as word equations: \<open>slice_xtime\<close> multiplies by \<open>x\<close> at every rank, \<open>slice_xor\<close> adds, and the
  words rotated by 8, 16 and 24 bits hold the bytes of the next rows.
\<close>

definition slice_xor :: "u32 list \<Rightarrow> u32 list \<Rightarrow> u32 list" where
  "slice_xor q r = map2 (XOR) q r"

definition slice_xtime :: "u32 list \<Rightarrow> u32 list" where
  "slice_xtime q = [q ! 7, q ! 0 XOR q ! 7, q ! 1, q ! 2 XOR q ! 7, q ! 3 XOR q ! 7, q ! 4, q ! 5, q ! 6]"

definition rotr8 :: "u32 \<Rightarrow> u32" where
  "rotr8 w = drop_bit 8 w OR push_bit 24 w"

lemma length_slices [simp]: "length q = 8 \<Longrightarrow> length r = 8 \<Longrightarrow> length (slice_xor q r) = 8" "length (slice_xtime q) = 8"
  by (simp_all add: slice_xor_def slice_xtime_def)

lemma rank_byte_slices:
  "length q = 8 \<Longrightarrow> length r = 8 \<Longrightarrow> rank_byte (slice_xor q r) n = rank_byte q n XOR rank_byte r n"
  "length q = 8 \<Longrightarrow> rank_byte (slice_xtime q) n = xtime (rank_byte q n)"
proof -
  assume q: "length q = 8"
  show "rank_byte (slice_xor q r) n = rank_byte q n XOR rank_byte r n" if "length r = 8"
    by (rule rank_byte_eqI) (use q that in \<open>simp_all add: slice_xor_def bit_xor_iff bit_rank_byte\<close>)
  show "rank_byte (slice_xtime q) n = xtime (rank_byte q n)"
  proof (rule rank_byte_eqI)
    fix i :: nat assume "i < 8"
    from less_8_cases [OF this] q show "bit (slice_xtime q ! i) n = bit (xtime (rank_byte q n)) i"
      by (elim insertE emptyE) (simp_all add: slice_xtime_def bit_xor_iff bit_xtime bit_rank_byte)
  qed simp
qed

lemma rank_byte_rotations:
  assumes "length q = 8" "n < 32"
  shows "rank_byte (map rotr8 q) n = rank_byte q ((n + 8) mod 32)" "rank_byte (map rotr16 q) n = rank_byte q ((n + 16) mod 32)"
    "rank_byte (map (rotr16 \<circ> rotr8) q) n = rank_byte q ((n + 24) mod 32)"
proof -
  show "rank_byte (map rotr8 q) n = rank_byte q ((n + 8) mod 32)" "rank_byte (map rotr16 q) n = rank_byte q ((n + 16) mod 32)"
    by (rule rank_byte_map; use assms in \<open>simp add: rotr8_def bit_rotations\<close>)+
  show "rank_byte (map (rotr16 \<circ> rotr8) q) n = rank_byte q ((n + 24) mod 32)"
    by (rule rank_byte_map) (use assms in \<open>simp_all add: rotr8_def bit_rotations mod_simps add.commute\<close>)
qed

lemma bit_rotr8: "n < 32 \<Longrightarrow> bit (rotr8 w) n = bit w ((n + 8) mod 32)"
  by (simp add: rotr8_def bit_rotations)

lemma rotr_xor: "rotr16 (a XOR b) = rotr16 a XOR rotr16 b" "rotr8 (a XOR b) = rotr8 a XOR rotr8 b"
  by (rule bit_word_eqI; simp add: bit_xor_iff bit_rotations(2) bit_rotr8)+

definition column_words :: "u32 list \<Rightarrow> nat \<Rightarrow> u32 list" where
  "column_words q i = (if i = 0 then q else if i = 1 then map rotr8 q else if i = 2 then map rotr16 q else map (rotr16 \<circ> rotr8) q)"

lemma mix_columns_slices:
  assumes "length q = 8"
  shows "mix_columns q = (let a = column_words q in
    slice_xor (slice_xor (slice_xtime (a 0)) (slice_xor (slice_xtime (a 1)) (a 1))) (slice_xor (a 2) (a 3)))"
  using assms unfolding mix_columns_def Let_def rotr8_def [symmetric]
  by (elim length_8_cases) (simp add: column_words_def slice_xor_def slice_xtime_def rotr_xor xor.assoc xor.commute xor.left_commute)


lemma inv_mix_columns_slices:
  assumes "length q = 8"
  shows "inv_mix_columns q = (let a = column_words q; x = slice_xtime; p = slice_xor in
    p (p (p (x (x (x (a 0)))) (p (x (x (a 0))) (x (a 0)))) (p (x (x (x (a 1)))) (p (x (a 1)) (a 1))))
      (p (p (x (x (x (a 2)))) (p (x (x (a 2))) (a 2))) (p (x (x (x (a 3)))) (a 3))))"
  using assms unfolding inv_mix_columns_def Let_def rotr8_def [symmetric]
  by (elim length_8_cases) (simp add: column_words_def slice_xor_def slice_xtime_def rotr_xor xor.assoc xor.commute xor.left_commute)

lemma length_column_words [simp]: "length (column_words q i) = length q"
  by (simp add: column_words_def)

lemma rank_byte_column_words:
  assumes "length q = 8" "n < 32"
  shows "rank_byte (column_words q 0) n = rank_byte q n" "rank_byte (column_words q 1) n = rank_byte q ((n + 8) mod 32)"
    "rank_byte (column_words q 2) n = rank_byte q ((n + 16) mod 32)" "rank_byte (column_words q 3) n = rank_byte q ((n + 24) mod 32)"
  using rank_byte_rotations [OF assms] by (simp_all add: column_words_def)

lemma rank_byte_columns:
  assumes "length q = 8" and b: "rank_byte (column_words q 0) n = b0" "rank_byte (column_words q 1) n = b1"
    "rank_byte (column_words q 2) n = b2" "rank_byte (column_words q 3) n = b3"
  shows "rank_byte (mix_columns q) n = xtime b0 XOR (xtime b1 XOR b1) XOR b2 XOR b3"
    "rank_byte (inv_mix_columns q) n = gf_mule b0 XOR gf_mulb b1 XOR gf_muld b2 XOR gf_mul9 b3"
  unfolding mix_columns_slices [OF assms(1)] inv_mix_columns_slices [OF assms(1)] Let_def gf_mule_def gf_mulb_def gf_muld_def gf_mul9_def
  using assms(1) by (simp_all add: rank_byte_slices b [simplified] xor.assoc)

lemma length_mix_columns [simp]: "length (mix_columns q) = 8" "length (inv_mix_columns q) = 8"
  by (simp_all add: mix_columns_def inv_mix_columns_def Let_def)

lemma mod_32_parts: "y < 8 \<Longrightarrow> (8 * x + y) mod 32 = 8 * (x mod 4) + (y :: nat)"
  using mod_mult2_eq [of "8 * x + y" 8 4] by simp

lemma rank_of_column:
  assumes "p < 2" "t < 16"
  shows "(rank_of p t + 8 * i) mod 32 = rank_of p (4 * (t div 4) + (t mod 4 + i) mod 4)"
proof -
  have y: "2 * (t div 4) + p < 8" using assms less_mult_imp_div_less [of t 4 4] by simp
  have "rank_of p t + 8 * i = 8 * (t mod 4 + i) + (2 * (t div 4) + p)" by (simp add: rank_of_def)
  also have "\<dots> mod 32 = 8 * ((t mod 4 + i) mod 4) + (2 * (t div 4) + p)" by (rule mod_32_parts [OF y])
  finally show ?thesis by (simp add: rank_of_def)
qed

lemma block_at_mix_columns:
  assumes "length q = 8" "p < 2"
  shows "block_at p (mix_columns q) = fips_mix_columns (block_at p q)" "block_at p (inv_mix_columns q) = fips_inv_mix_columns (block_at p q)"
proof -
  have c: "rank_byte (column_words q i) (rank_of p t) = column_byte (block_at p q) t i" if "t < 16" "i \<in> {0, 1, 2, 3}" for t i
  proof -
    have "4 * (t div 4) + (t mod 4 + i) mod 4 < 16"
      using less_mult_imp_div_less [of t 4 4] mod_less_divisor [of 4 "t mod 4 + i"] that(1) by linarith
    moreover have "rank_byte (column_words q i) (rank_of p t) = rank_byte q ((rank_of p t + 8 * i) mod 32)"
      using that(2) rank_byte_column_words [OF assms(1) rank_of_less [OF assms(2) that(1)]] rank_of_less [OF assms(2) that(1)] by auto
    ultimately show ?thesis by (simp add: column_byte_def nth_block_at rank_of_column [OF assms(2) that(1)])
  qed
  note r = rank_byte_columns [OF assms(1) c c c c]
  show "block_at p (mix_columns q) = fips_mix_columns (block_at p q)"
    unfolding fips_mix_columns_def by (rule nth_equalityI) (simp_all add: nth_block_at r Let_def)
  show "block_at p (inv_mix_columns q) = fips_inv_mix_columns (block_at p q)"
    unfolding fips_inv_mix_columns_def by (rule nth_equalityI) (simp_all add: nth_block_at r Let_def)
qed


section \<open>The cipher\<close>

text \<open>The round keys that an expanded key holds for one parity.\<close>

definition sliced_key :: "nat \<Rightarrow> u32 list \<Rightarrow> nat \<Rightarrow> bytes" where
  "sliced_key p skey u = block_at p (take 8 (drop (8 * u) skey))"

lemma length_sliced_key [simp]: "length (sliced_key p skey u) = 16"
  by (simp add: sliced_key_def)

lemma block_at_round_key:
  "length q = 8 \<Longrightarrow> 8 * Suc u \<le> length skey \<Longrightarrow> block_at p (add_round_key q (drop (8 * u) skey)) = fips_add_round_key (block_at p q) (sliced_key p skey u)"
  by (simp add: block_at_add_round_key sliced_key_def)

lemma block_at_encrypt_rounds:
  assumes "p < 2" "8 * Suc num_rounds \<le> length skey" "length q = 8"
  shows "length (encrypt_rounds num_rounds skey u q) = 8"
    "block_at p (encrypt_rounds num_rounds skey u q) = fold (fips_round (sliced_key p skey)) [u..<num_rounds] (block_at p q)"
  using assms(3)
proof (induction "num_rounds - u" arbitrary: u q)
  case (Suc k)
  { case 1 then show ?case using Suc by (subst encrypt_rounds.simps) simp }
  { case 2
    moreover have "u < num_rounds" "8 * Suc u \<le> length skey" using assms(2) Suc(3) by simp_all
    ultimately show ?case using Suc assms(1)
      by (subst encrypt_rounds.simps) (simp add: upt_conv_Cons fips_round_def block_at_round_key block_at_mix_columns block_at_shift_rows block_at_Sbox) }
qed (simp_all add: encrypt_rounds.simps)

lemma block_at_encrypt:
  assumes "p < 2" "8 * Suc num_rounds \<le> length skey" "length q = 8"
  shows "block_at p (aes_ct_bitslice_encrypt num_rounds skey q) = fips_cipher num_rounds (sliced_key p skey) (block_at p q)"
proof -
  have "block_at p (add_round_key q skey) = fips_add_round_key (block_at p q) (sliced_key p skey 0)"
    using block_at_round_key [of q 0 skey p] assms by simp
  then show ?thesis
    unfolding aes_ct_bitslice_encrypt_def fips_cipher_def using assms
    by (simp add: block_at_round_key block_at_shift_rows block_at_Sbox block_at_encrypt_rounds)
qed

lemma block_at_decrypt_rounds:
  assumes "p < 2" "8 * Suc u \<le> length skey" "length q = 8"
  shows "length (decrypt_rounds skey u q) = 8"
    "block_at p (decrypt_rounds skey u q) = fold (fips_inv_round (sliced_key p skey)) (rev [1..<Suc u]) (block_at p q)"
  using assms(2,3)
proof (induction u arbitrary: q)
  case (Suc u)
  { case 1 then show ?case using Suc by simp }
  { case 2 then show ?case using Suc assms(1)
      by (simp add: fips_inv_round_def block_at_round_key [of _ "Suc u", simplified] block_at_mix_columns block_at_shift_rows block_at_invSbox) }
qed simp_all

lemma block_at_decrypt:
  assumes "p < 2" "0 < num_rounds" "8 * Suc num_rounds \<le> length skey" "length q = 8"
  shows "block_at p (aes_ct_bitslice_decrypt num_rounds skey q) = fips_inv_cipher num_rounds (sliced_key p skey) (block_at p q)"
proof -
  let ?q = "decrypt_rounds skey (num_rounds - 1) (add_round_key q (drop (8 * num_rounds) skey))"
  have r: "length ?q = 8" "block_at p ?q = fold (fips_inv_round (sliced_key p skey)) (rev [1..<num_rounds]) (block_at p (add_round_key q (drop (8 * num_rounds) skey)))"
    using block_at_decrypt_rounds [OF assms(1), of "num_rounds - 1" skey] assms by simp_all
  have "block_at p (add_round_key x skey) = fips_add_round_key (block_at p x) (sliced_key p skey 0)" if "length x = 8" for x
    using block_at_round_key [of x 0 skey p] assms(3) that by simp
  with r show ?thesis
    unfolding aes_ct_bitslice_decrypt_def fips_inv_cipher_def using assms
    by (simp add: block_at_round_key block_at_shift_rows block_at_invSbox)
qed

end
