(* ===== verification/Aes_Correct.thy ===== *)
theory Aes_Correct
  imports Aes_Blocks
begin

text \<open>
  The key schedule and the entry points of \<open>crypto/aes.c\<close>: with a key set by \<open>AES_Setkey\<close> the cipher is
  the one of FIPS 197, and decryption inverts encryption.
\<close>

section \<open>Words and bytes\<close>

lemma length_enc32le [simp]: "length (enc32le x) = 4"
  by (simp add: enc32le_def)

lemma less_4_cases: "r < 4 \<Longrightarrow> r \<in> {0, 1, 2, 3 :: nat}"
  by auto

lemma bit_enc32le: "r < 4 \<Longrightarrow> bit (enc32le x ! r) i \<longleftrightarrow> i < 8 \<and> bit x (8 * r + i)"
  by (drule less_4_cases) (elim insertE emptyE; simp add: enc32le_def bit_unsigned_iff bit_drop_bit_eq)

lemma bit_dec32le: "r < 4 \<Longrightarrow> i < 8 \<Longrightarrow> bit (dec32le p) (8 * r + i) = bit (p ! r) i"
  by (drule less_4_cases) (elim insertE emptyE; auto simp: dec32le_def bit_simps dest: bit_imp_le_length)

lemma enc32le_eqI: "length bs = 4 \<Longrightarrow> (\<And>r i. r < 4 \<Longrightarrow> i < 8 \<Longrightarrow> bit x (8 * r + i) = bit (bs ! r) i) \<Longrightarrow> enc32le x = bs"
  by (rule nth_equalityI; (rule bit_word_eqI)?) (simp_all add: bit_enc32le)

lemma enc32le_inject: "enc32le x = enc32le y \<Longrightarrow> x = y"
proof (rule bit_word_eqI)
  fix n assume "enc32le x = enc32le y" "n < LENGTH(32)"
  then show "bit x n = bit y n" using bit_enc32le [of "n div 8" x "n mod 8"] bit_enc32le [of "n div 8" y "n mod 8"] by simp
qed

lemma enc32le_dec32le: "4 \<le> length p \<Longrightarrow> enc32le (dec32le p) = take 4 p"
  by (rule enc32le_eqI) (simp_all add: bit_dec32le)

lemma enc32le_xor: "enc32le (x XOR y) = map2 (XOR) (enc32le x) (enc32le y)"
  by (simp add: enc32le_def unsigned_xor_eq drop_bit_xor)

lemma enc32le_rotate: "enc32le (push_bit 24 x OR drop_bit 8 x) = rotate1 (enc32le x)"
proof (rule enc32le_eqI)
  fix r i :: nat assume "r < 4" "i < 8"
  from less_4_cases [OF this(1)] this(2) show "bit (push_bit 24 x OR drop_bit 8 x) (8 * r + i) = bit (rotate1 (enc32le x) ! r) i"
    by (elim insertE emptyE) (auto simp: enc32le_def bit_simps dest: bit_imp_le_length)
qed simp

lemma enc32le_ortho:
  assumes "length q = 8" "k < 8"
  shows "enc32le (aes_ct_ortho q ! k) = map (\<lambda>r. rank_byte q (8 * r + k)) [0..<4]"
proof (rule nth_equalityI)
  fix r assume "r < length (enc32le (aes_ct_ortho q ! k))"
  then have r: "r < 4" by simp
  show "enc32le (aes_ct_ortho q ! k) ! r = map (\<lambda>r. rank_byte q (8 * r + k)) [0..<4] ! r"
  proof (rule bit_word_eqI)
    fix i assume "i < LENGTH(8)"
    then show "bit (enc32le (aes_ct_ortho q ! k) ! r) i = bit (map (\<lambda>r. rank_byte q (8 * r + k)) [0..<4] ! r) i"
      using r assms by (simp add: bit_enc32le bit_rank_byte bit_ortho)
  qed
qed simp

lemma rank_byte_ortho: "length q = 8 \<Longrightarrow> k < 8 \<Longrightarrow> r < 4 \<Longrightarrow> rank_byte (aes_ct_ortho q) (8 * r + k) = enc32le (q ! k) ! r"
  using enc32le_ortho [of "aes_ct_ortho q" k] by (simp add: ortho_involution)

lemma block_at_ortho:
  assumes "length q = 8" "p < 2"
  shows "block_at p (aes_ct_ortho q) = enc32le (q ! p) @ enc32le (q ! (2 + p)) @ enc32le (q ! (4 + p)) @ enc32le (q ! (6 + p))"
proof (rule nth_equalityI)
  fix t assume "t < length (block_at p (aes_ct_ortho q))"
  then have t: "t < 16" "t \<in> set [0..<16]" by simp_all
  have "rank_of p t = 8 * (t mod 4) + (2 * (t div 4) + p)" "2 * (t div 4) + p < 8"
    using assms(2) less_mult_imp_div_less [of t 4 4] t(1) by (simp_all add: rank_of_def)
  then have "block_at p (aes_ct_ortho q) ! t = enc32le (q ! (2 * (t div 4) + p)) ! (t mod 4)"
    using assms(1) t(1) by (simp add: nth_block_at rank_byte_ortho)
  with t(2) show "block_at p (aes_ct_ortho q) ! t = (enc32le (q ! p) @ enc32le (q ! (2 + p)) @ enc32le (q ! (4 + p)) @ enc32le (q ! (6 + p))) ! t"
    unfolding upt_16 by (auto simp: nth_append)
qed simp

lemma enc32le_sub_word: "enc32le (sub_word x) = map fips_sbox (enc32le x)"
proof -
  let ?q = "aes_ct_ortho (replicate 8 x)"
  have "enc32le (sub_word x) = map (\<lambda>r. rank_byte (aes_ct_bitslice_Sbox ?q) (8 * r + 0)) [0..<4]"
    unfolding sub_word_def by (rule enc32le_ortho) simp_all
  also have "\<dots> = map (\<lambda>r. fips_sbox (enc32le x ! r)) [0..<4]"
    using rank_byte_ortho [of "replicate 8 x" 0] by (intro map_cong refl) (simp add: rank_byte_Sbox)
  also have "\<dots> = map fips_sbox (enc32le x)" by (rule nth_equalityI) simp_all
  finally show ?thesis .
qed


section \<open>Whole messages\<close>

lemma store_blocks_ortho:
  assumes "length q = 8"
  shows "store_blocks (aes_ct_ortho q) n = block_at 0 q @ (if 1 < n then block_at 1 q else [])"
  using block_at_ortho [of "aes_ct_ortho q" 0] block_at_ortho [of "aes_ct_ortho q" 1] assms
  by (simp add: store_blocks_def ortho_involution)

lemma length_load_blocks [simp]: "length (load_blocks src n) = 8"
  by (simp add: load_blocks_def)

lemma take_16_words: "16 \<le> length p \<Longrightarrow> take 4 p @ take 4 (drop 4 p) @ take 4 (drop 8 p) @ take 4 (drop 12 p) = take 16 p"
  using take_add [of 4 4 p] take_add [of 8 4 p] take_add [of 12 4 p] by simp

lemma block_at_load:
  "16 \<le> length src \<Longrightarrow> (1 < n \<Longrightarrow> 32 \<le> length src) \<Longrightarrow> block_at 0 (aes_ct_ortho (load_blocks src n)) = take 16 src"
  "1 < n \<Longrightarrow> 32 \<le> length src \<Longrightarrow> block_at (Suc 0) (aes_ct_ortho (load_blocks src n)) = take 16 (drop 16 src)"
  using take_16_words [of src] take_16_words [of "drop 16 src"]
  by (simp_all add: block_at_ortho, simp_all add: load_blocks_def enc32le_dec32le)

definition ecb :: "(bytes \<Rightarrow> bytes) \<Rightarrow> bytes \<Rightarrow> nat \<Rightarrow> bytes" where
  "ecb f src n = concat (map (\<lambda>i. f (piece (16 * i) 16 src)) [0..<n])"

lemma ecb_Suc: "ecb f src (Suc n) = f (take 16 src) @ ecb f (drop 16 src) n"
  by (simp add: ecb_def upt_conv_Cons map_Suc_upt [symmetric] piece_def comp_def add.commute del: upt_Suc)

text \<open>Both directions walk over the message two blocks at a time.\<close>

lemma two_block_walk:
  assumes "\<And>src. walk src 0 = []" "\<And>src. 16 \<le> length src \<Longrightarrow> walk src 1 = f (take 16 src)"
    and "\<And>src n. 32 \<le> length src \<Longrightarrow> walk src (Suc (Suc n)) = f (take 16 src) @ f (take 16 (drop 16 src)) @ walk (drop 32 src) n"
  shows "16 * n \<le> length src \<Longrightarrow> walk src n = ecb f src n"
proof (induction n arbitrary: src rule: induct_nat_012)
  case 0
  then show ?case by (simp add: assms(1) ecb_def)
next
  case 1
  then show ?case using assms(2) [of src] by (simp add: ecb_Suc, simp add: ecb_def)
next
  case (ge2 n)
  then show ?case using assms(3) [of src n] by (simp add: ecb_Suc)
qed

text \<open>A context whose key is set: the two parities hold the same round keys.\<close>

definition ready_ctx :: "AES_CTX \<Rightarrow> bool" where
  "ready_ctx ctx \<longleftrightarrow> 0 < aes_num_rounds ctx \<and> 8 * Suc (aes_num_rounds ctx) \<le> length (aes_sk_exp ctx) \<and>
     (\<forall>u \<le> aes_num_rounds ctx. sliced_key 1 (aes_sk_exp ctx) u = sliced_key 0 (aes_sk_exp ctx) u)"

definition ctx_key :: "AES_CTX \<Rightarrow> nat \<Rightarrow> bytes" where
  "ctx_key ctx = sliced_key 0 (aes_sk_exp ctx)"

lemma fips_cipher_cong:
  assumes "\<And>u. u \<le> nr \<Longrightarrow> rk u = rk' u"
  shows "fips_cipher nr rk s = fips_cipher nr rk' s" "fips_inv_cipher nr rk s = fips_inv_cipher nr rk' s"
proof -
  have steps: "fold (fips_round rk) us s = fold (fips_round rk') us s" "fold (fips_inv_round rk) us s = fold (fips_inv_round rk') us s"
    if "set us \<subseteq> {..nr}" for us s
    using that by (induction us arbitrary: s) (auto simp: fips_round_def fips_inv_round_def assms)
  have sub: "set [1..<nr] \<subseteq> {..nr}" by auto
  show "fips_cipher nr rk s = fips_cipher nr rk' s" "fips_inv_cipher nr rk s = fips_inv_cipher nr rk' s"
    using steps(1) [of "[1..<nr]", OF sub] steps(2) [of "rev [1..<nr]", unfolded set_rev, OF sub] by (simp_all add: fips_cipher_def fips_inv_cipher_def assms)
qed

lemma length_bitslice [simp]: "length (aes_ct_bitslice_encrypt nr skey q) = 8" "length (aes_ct_bitslice_decrypt nr skey q) = 8"
  by (simp_all add: aes_ct_bitslice_encrypt_def aes_ct_bitslice_decrypt_def)

lemma ready_block:
  assumes "ready_ctx ctx" "p < 2" "length q = 8"
  shows "block_at p (aes_ct_bitslice_encrypt (aes_num_rounds ctx) (aes_sk_exp ctx) q) = fips_cipher (aes_num_rounds ctx) (ctx_key ctx) (block_at p q)"
    "block_at p (aes_ct_bitslice_decrypt (aes_num_rounds ctx) (aes_sk_exp ctx) q) = fips_inv_cipher (aes_num_rounds ctx) (ctx_key ctx) (block_at p q)"
proof -
  have "sliced_key p (aes_sk_exp ctx) u = ctx_key ctx u" if "u \<le> aes_num_rounds ctx" for u
    using assms(1,2) that by (auto simp: ready_ctx_def ctx_key_def less_2_cases_iff)
  note c = fips_cipher_cong [of "aes_num_rounds ctx", OF this]
  show "block_at p (aes_ct_bitslice_encrypt (aes_num_rounds ctx) (aes_sk_exp ctx) q) = fips_cipher (aes_num_rounds ctx) (ctx_key ctx) (block_at p q)"
    "block_at p (aes_ct_bitslice_decrypt (aes_num_rounds ctx) (aes_sk_exp ctx) q) = fips_inv_cipher (aes_num_rounds ctx) (ctx_key ctx) (block_at p q)"
    using assms by (simp_all add: ready_ctx_def block_at_encrypt block_at_decrypt c)
qed

lemma AES_ECB_eq:
  assumes "ready_ctx ctx" "16 * n \<le> length src"
  shows "AES_Encrypt_ECB ctx src n = ecb (fips_cipher (aes_num_rounds ctx) (ctx_key ctx)) src n"
    "AES_Decrypt_ECB ctx src n = ecb (fips_inv_cipher (aes_num_rounds ctx) (ctx_key ctx)) src n"
proof -
  note step = store_blocks_ortho ready_block [OF assms(1)] block_at_load Let_def
  show "AES_Encrypt_ECB ctx src n = ecb (fips_cipher (aes_num_rounds ctx) (ctx_key ctx)) src n"
    by (rule two_block_walk [OF _ _ _ assms(2)]; (subst AES_Encrypt_ECB.simps, simp add: step))
  show "AES_Decrypt_ECB ctx src n = ecb (fips_inv_cipher (aes_num_rounds ctx) (ctx_key ctx)) src n"
    by (rule two_block_walk [OF _ _ _ assms(2)]; (subst AES_Decrypt_ECB.simps, simp add: step))
qed

lemma length_ecb: "(\<And>s. length s = 16 \<Longrightarrow> length (f s) = 16) \<Longrightarrow> 16 * n \<le> length src \<Longrightarrow> length (ecb f src n) = 16 * n"
  by (induction n arbitrary: src) (simp_all add: ecb_Suc, simp add: ecb_def)

lemma ecb_inverse:
  assumes "\<And>s. length s = 16 \<Longrightarrow> length (f s) = 16 \<and> g (f s) = s"
  shows "length src = 16 * n \<Longrightarrow> ecb g (ecb f src n) n = src"
proof (induction n arbitrary: src)
  case 0
  then show ?case by (simp add: ecb_def)
next
  case (Suc n)
  then show ?case using assms [of "take 16 src"] by (simp add: ecb_Suc)
qed

lemma AES_Decrypt_Encrypt:
  assumes "ready_ctx ctx" "length src = 16 * n"
  shows "AES_Decrypt_ECB ctx (AES_Encrypt_ECB ctx src n) n = src"
proof -
  have k: "\<forall>u. length (ctx_key ctx u) = 16" by (simp add: ctx_key_def)
  let ?f = "fips_cipher (aes_num_rounds ctx) (ctx_key ctx)"
  have f: "length (?f s) = 16 \<and> fips_inv_cipher (aes_num_rounds ctx) (ctx_key ctx) (?f s) = s" if "length s = 16" for s
    using that by (simp add: length_fips_cipher [OF k] fips_inv_cipher_cipher [OF k])
  then have "length (ecb ?f src n) = 16 * n" using assms(2) by (intro length_ecb) auto
  then show ?thesis using assms ecb_inverse [of ?f, OF f assms(2)] by (simp add: AES_ECB_eq)
qed

section \<open>The key schedule\<close>

lemma fips_rcon_numeral: "fips_rcon (numeral n) = xtime (fips_rcon (pred_numeral n))"
  by (simp add: numeral_eq_Suc)

lemma xtime_powers: "xtime 1 = 2" "xtime 2 = 4" "xtime 4 = 8" "xtime 8 = 16" "xtime 16 = 32" "xtime 32 = 64" "xtime 64 = 128"
  "xtime 128 = 0x1b" "xtime 0x1b = 0x36"
  by (simp_all add: xtime_def)

lemma Rcon_fips: "k < 10 \<Longrightarrow> Rcon ! k = fips_rcon k"
proof -
  have "map fips_rcon [0..<10] = Rcon" by (simp add: upt_rec fips_rcon_numeral xtime_powers Rcon_def)
  then show "Rcon ! k = fips_rcon k" if "k < 10" using that by (metis add_0 diff_zero length_upt nth_map nth_upt)
qed

text \<open>The words already written are the first \<open>i\<close> words of the key expansion.\<close>

definition expanded :: "bytes \<Rightarrow> nat \<Rightarrow> nat \<Rightarrow> u32 list \<Rightarrow> bool" where
  "expanded key nk i skey \<longleftrightarrow> (\<forall>m < i. enc32le (skey ! m) = fips_word key nk m)"

lemma expanded_step:
  assumes "expanded key nk i skey" "0 < nk" "nk \<le> i" "i < length skey" "i div nk \<le> 10"
    and tmp: "tmp = (if i mod nk = 0 then sub_word (push_bit 24 (skey ! (i - 1)) OR drop_bit 8 (skey ! (i - 1))) XOR ucast (Rcon ! (i div nk - 1))
       else if 6 < nk \<and> i mod nk = 4 then sub_word (skey ! (i - 1)) else skey ! (i - 1)) XOR skey ! (i - nk)"
  shows "expanded key nk (Suc i) (skey[i := tmp])"
proof -
  have e: "enc32le (skey ! (i - 1)) = fips_word key nk (i - 1)" "enc32le (skey ! (i - nk)) = fips_word key nk (i - nk)"
    using assms(1-3) by (simp_all add: expanded_def)
  have "0 < i div nk" using assms(2,3) by (simp add: div_greater_zero_iff)
  then have r: "Rcon ! (i div nk - 1) = fips_rcon (i div nk - 1)" using assms(5) by (intro Rcon_fips) simp
  have c: "enc32le (ucast (b :: u8)) = [b, 0, 0, 0]" for b
    by (rule enc32le_eqI) (auto dest!: less_4_cases dest: bit_imp_le_length simp: bit_simps)
  have sym: "map2 (XOR) a b = map2 (XOR) b (a :: bytes)" for a b
    by (rule nth_equalityI) (auto simp: xor.commute)
  have "enc32le tmp = fips_word key nk i"
    using assms(2,3) unfolding tmp by (subst fips_word.simps) (simp add: enc32le_xor enc32le_sub_word enc32le_rotate e [simplified] r [simplified] c Let_def sym)
  then show ?thesis using assms(1,4) by (auto simp: expanded_def less_Suc_eq nth_list_update)
qed


lemma keysched_loop_expands:
  assumes "0 < nk" "nkf \<le> length skey" "(nkf - 1) div nk \<le> 10"
    and "expanded key nk i skey" "nk \<le> i" "i \<le> nkf" "j = i mod nk" "k = i div nk - 1" "tmp = skey ! (i - 1)"
  shows "length (keysched_loop nk nkf i j k tmp skey) = length skey \<and> expanded key nk nkf (keysched_loop nk nkf i j k tmp skey)"
  using assms(2-)
proof (induction "nkf - i" arbitrary: i j k tmp skey)
  case 0
  then show ?case by (subst (1 2) keysched_loop.simps) simp
next
  case (Suc d)
  let ?t = "(if j = 0 then sub_word (push_bit 24 tmp OR drop_bit 8 tmp) XOR ucast (Rcon ! k) else if 6 < nk \<and> j = 4 then sub_word tmp else tmp) XOR skey ! (i - nk)"
  have i: "i < nkf" using Suc(2) by simp
  have "i div nk \<le> (nkf - 1) div nk" using i by (intro div_le_mono) simp
  then have e: "expanded key nk (Suc i) (skey[i := ?t])"
    using Suc(3-) i assms(1) by (intro expanded_step) simp_all
  have j: "Suc i mod nk = (if Suc j = nk then 0 else Suc j)" "Suc i div nk - 1 = (if Suc j = nk then Suc k else k)"
    using Suc(6-9) assms(1) div_greater_zero_iff [of i nk] by (auto simp: mod_Suc div_Suc)
  have IH: "length (keysched_loop nk nkf (Suc i) j' k' ?t (skey[i := ?t])) = length (skey[i := ?t]) \<and>
      expanded key nk nkf (keysched_loop nk nkf (Suc i) j' k' ?t (skey[i := ?t]))" if "j' = Suc i mod nk" "k' = Suc i div nk - 1" for j' k'
    using Suc(1) [of "Suc i" "skey[i := ?t]" j' k' ?t] Suc(2-) i e that by simp
  show ?case
    using i IH [of 0 "Suc k"] IH [of "Suc j" k] j by (subst (1 2) keysched_loop.simps) (simp add: Let_def)
qed

lemma load_key:
  assumes "4 * nk \<le> length key" "nk \<le> length skey"
  shows "length (fold (\<lambda>i skey. skey[i := dec32le (drop (4 * i) key)]) [0..<nk] skey) = length skey \<and>
    expanded key nk nk (fold (\<lambda>i skey. skey[i := dec32le (drop (4 * i) key)]) [0..<nk] skey)"
proof -
  have "length (fold (\<lambda>i skey. skey[i := dec32le (drop (4 * i) key)]) [0..<n] skey) = length skey \<and>
    (\<forall>m < n. fold (\<lambda>i skey. skey[i := dec32le (drop (4 * i) key)]) [0..<n] skey ! m = dec32le (drop (4 * m) key))" if "n \<le> nk" for n
    using that assms(2) by (induction n) (auto simp: nth_list_update less_Suc_eq)
  from this [OF order_refl] show ?thesis using assms(1) by (auto simp: expanded_def enc32le_dec32le fips_word.simps)
qed

lemma num_rounds_cases:
  assumes "num_rounds_for n \<noteq> 0"
  obtains "n = 16" "num_rounds_for n = 10" | "n = 24" "num_rounds_for n = 12" | "n = 32" "num_rounds_for n = 14"
  using assms by (auto simp: num_rounds_for_def split: if_splits)

lemma aes_keysched_base_expands:
  assumes "num_rounds_for (length key) \<noteq> 0" "length skey = 60"
  defines "nr \<equiv> num_rounds_for (length key)"
  shows "\<exists>sk. aes_keysched_base skey key (length key) = (nr, sk) \<and> length sk = 60 \<and> expanded key (length key div 4) (4 * (nr + 1)) sk"
proof -
  let ?nk = "length key div 4"
  have n: "0 < ?nk" "4 * ?nk \<le> length key" "?nk \<le> 60" "4 * (nr + 1) \<le> 60" "(4 * (nr + 1) - 1) div ?nk \<le> 10" "?nk \<le> 4 * (nr + 1)"
    using assms(1) by (cases rule: num_rounds_cases; simp add: nr_def)+
  define sk where "sk = fold (\<lambda>i skey. skey[i := dec32le (drop (4 * i) key)]) [0..<?nk] skey"
  have s: "length sk = 60" "expanded key ?nk ?nk sk" using load_key [of ?nk key skey] n assms(2) by (simp_all add: sk_def)
  have "length (keysched_loop ?nk (4 * (nr + 1)) ?nk 0 0 (sk ! (?nk - 1)) sk) = length sk \<and>
      expanded key ?nk (4 * (nr + 1)) (keysched_loop ?nk (4 * (nr + 1)) ?nk 0 0 (sk ! (?nk - 1)) sk)"
    using n s by (intro keysched_loop_expands) simp_all
  then show ?thesis using assms(1) s(1) by (simp add: aes_keysched_base_def Let_def nr_def [symmetric] sk_def [symmetric])
qed


text \<open>The bitsliced form of round key \<open>u\<close>: every word twice, one for each parity.\<close>

definition key_slice :: "u32 list \<Rightarrow> nat \<Rightarrow> u32 list" where
  "key_slice skey u = aes_ct_ortho [skey ! (4 * u), skey ! (4 * u), skey ! (4 * u + 1), skey ! (4 * u + 1),
     skey ! (4 * u + 2), skey ! (4 * u + 2), skey ! (4 * u + 3), skey ! (4 * u + 3)]"

lemma length_key_slice [simp]: "length (key_slice skey u) = 8"
  by (simp add: key_slice_def)

definition fold_parity :: "u32 \<Rightarrow> u32 \<Rightarrow> u32" where
  "fold_parity x y = (x AND 0x55555555) OR (y AND 0xAAAAAAAA)"

lemma even_odd_masks: "n < 32 \<Longrightarrow> bit (0x55555555 :: u32) n = even n" "n < 32 \<Longrightarrow> bit (0xAAAAAAAA :: u32) n = odd n"
proof -
  have "map (bit (0x55555555 :: u32)) [0..<32] = map even [0..<32]" "map (bit (0xAAAAAAAA :: u32)) [0..<32] = map odd [0..<32]"
    by (simp_all add: upt_32)
  then show "n < 32 \<Longrightarrow> bit (0x55555555 :: u32) n = even n" "n < 32 \<Longrightarrow> bit (0xAAAAAAAA :: u32) n = odd n"
    by (simp_all only: map_eq_conv) simp_all
qed

lemma key_slice_parity:
  assumes "i < 8" "n < 32" "even n"
  shows "bit (key_slice skey u ! i) (Suc n) = bit (key_slice skey u ! i) n"
proof -
  have "even (n mod 8)" using assms(3) by (simp add: dvd_mod)
  then have m: "n mod 8 \<in> {0, 2, 4, 6}" using less_8_cases [of "n mod 8"] by auto
  then have n: "Suc n div 8 = n div 8" "Suc n mod 8 = Suc (n mod 8)" by (auto simp: mod_Suc div_Suc)
  have "n \<noteq> 31" using assms(3) by auto
  then have "Suc n < 32" using assms(2) by simp
  then have "bit (key_slice skey u ! i) (Suc n) = bit ([skey ! (4 * u), skey ! (4 * u), skey ! (4 * u + 1), skey ! (4 * u + 1),
     skey ! (4 * u + 2), skey ! (4 * u + 2), skey ! (4 * u + 3), skey ! (4 * u + 3)] ! Suc (n mod 8)) (8 * (n div 8) + i)"
    unfolding key_slice_def using assms(1) n by (subst bit_ortho) simp_all
  also have "\<dots> = bit (key_slice skey u ! i) n"
    unfolding key_slice_def using assms(1,2) m by (subst bit_ortho) auto
  finally show ?thesis .
qed

lemma unfold_parity:
  assumes "\<And>n. n < 32 \<Longrightarrow> even n \<Longrightarrow> bit a (Suc n) = bit a n" "\<And>n. n < 32 \<Longrightarrow> even n \<Longrightarrow> bit b (Suc n) = bit b n"
  shows "fold_parity a b AND 0x55555555 OR push_bit 1 (fold_parity a b AND 0x55555555) = a"
    "fold_parity a b AND 0xAAAAAAAA OR drop_bit 1 (fold_parity a b AND 0xAAAAAAAA) = b"
proof -
  have f: "bit (fold_parity a b AND 0x55555555) n = (even n \<and> bit a n)" "bit (fold_parity a b AND 0xAAAAAAAA) n = (odd n \<and> bit b n)" for n
    by (cases "n < 32"; simp only: fold_parity_def bit_and_iff bit_or_iff even_odd_masks; auto dest: bit_imp_le_length)+
  show "fold_parity a b AND 0x55555555 OR push_bit 1 (fold_parity a b AND 0x55555555) = a"
  proof (rule bit_word_eqI)
    fix n assume n: "n < LENGTH(32)"
    show "bit (fold_parity a b AND 0x55555555 OR push_bit 1 (fold_parity a b AND 0x55555555)) n = bit a n"
      using assms(1) [of "n - 1"] n by (simp only: bit_or_iff bit_push_bit_iff f) (cases n; auto)
  qed
  show "fold_parity a b AND 0xAAAAAAAA OR drop_bit 1 (fold_parity a b AND 0xAAAAAAAA) = b"
  proof (rule bit_word_eqI)
    fix n assume n: "n < LENGTH(32)"
    show "bit (fold_parity a b AND 0xAAAAAAAA OR drop_bit 1 (fold_parity a b AND 0xAAAAAAAA)) n = bit b n"
      using assms(2) [of n] n by (simp only: bit_or_iff bit_drop_bit_eq comp_def f) auto
  qed
qed

lemma compress_keys:
  "4 * n \<le> length ck \<Longrightarrow> length (fold (\<lambda>u. compress_key u skey) [0..<n] ck) = length ck \<and>
   (\<forall>u < n. \<forall>c < 4. fold (\<lambda>u. compress_key u skey) [0..<n] ck ! (4 * u + c) = fold_parity (key_slice skey u ! (2 * c)) (key_slice skey u ! Suc (2 * c)))"
proof (induction n)
  case (Suc n)
  let ?f = "fold (\<lambda>u. compress_key u skey) [0..<n] ck"
  have IH: "length ?f = length ck" "\<And>u c. u < n \<Longrightarrow> c < 4 \<Longrightarrow> ?f ! (4 * u + c) = fold_parity (key_slice skey u ! (2 * c)) (key_slice skey u ! Suc (2 * c))"
    using Suc by simp_all
  have k: "compress_key n skey ?f = ?f[4 * n := fold_parity (key_slice skey n ! 0) (key_slice skey n ! 1), 4 * n + 1 := fold_parity (key_slice skey n ! 2) (key_slice skey n ! 3),
      4 * n + 2 := fold_parity (key_slice skey n ! 4) (key_slice skey n ! 5), 4 * n + 3 := fold_parity (key_slice skey n ! 6) (key_slice skey n ! 7)]"
    by (simp add: compress_key_def key_slice_def fold_parity_def Let_def)
  have "compress_key n skey ?f ! (4 * u + c) = fold_parity (key_slice skey u ! (2 * c)) (key_slice skey u ! Suc (2 * c))" if "u < Suc n" "c < 4" for u c
  proof (cases "u = n")
    case True
    from less_4_cases [OF that(2)] show ?thesis using Suc(2) IH(1) unfolding k True by (elim insertE emptyE) (simp_all add: nth_list_update)
  next
    case False
    then have "u < n" using that(1) by simp
    then have "4 * u + c < 4 * n" using that(2) by linarith
    then show ?thesis unfolding k using IH(2) [OF \<open>u < n\<close> that(2)] by simp
  qed
  then show ?case using IH(1) k by simp
qed simp

lemma pair_writes:
  "2 * n \<le> length ek \<Longrightarrow> length (fold (\<lambda>u s. s[2 * u := g u, 2 * u + 1 := h u]) [0..<n] ek) = length ek \<and>
    (\<forall>m < n. fold (\<lambda>u s. s[2 * u := g u, 2 * u + 1 := h u]) [0..<n] ek ! (2 * m) = g m \<and>
      fold (\<lambda>u s. s[2 * u := g u, 2 * u + 1 := h u]) [0..<n] ek ! Suc (2 * m) = h m)"
  by (induction n) (auto simp: nth_list_update less_Suc_eq)

lemma expand_keys:
  assumes "8 * Suc nr \<le> length ek"
  shows "length (aes_ct_skey_expand ek nr ck) = length ek"
    "m < 4 * Suc nr \<Longrightarrow> aes_ct_skey_expand ek nr ck ! (2 * m) = (ck ! m AND 0x55555555 OR push_bit 1 (ck ! m AND 0x55555555))"
    "m < 4 * Suc nr \<Longrightarrow> aes_ct_skey_expand ek nr ck ! Suc (2 * m) = (ck ! m AND 0xAAAAAAAA OR drop_bit 1 (ck ! m AND 0xAAAAAAAA))"
  unfolding aes_ct_skey_expand_def Let_def using assms
    pair_writes [of "4 * (nr + 1)" ek "\<lambda>u. ck ! u AND 0x55555555 OR push_bit 1 (ck ! u AND 0x55555555)" "\<lambda>u. ck ! u AND 0xAAAAAAAA OR drop_bit 1 (ck ! u AND 0xAAAAAAAA)"]
  by (simp_all only: mult_Suc_right Suc_eq_plus1 [symmetric] mult.assoc [symmetric]) auto

lemma setkey_slices:
  assumes "4 * Suc nr \<le> length ck" "8 * Suc nr \<le> length ek" "u \<le> nr"
  shows "take 8 (drop (8 * u) (aes_ct_skey_expand ek nr (fold (\<lambda>u. compress_key u skey) [0..<nr + 1] ck))) = key_slice skey u"
proof (rule nth_equalityI)
  let ?ck = "fold (\<lambda>u. compress_key u skey) [0..<nr + 1] ck" and ?ek = "aes_ct_skey_expand ek nr (fold (\<lambda>u. compress_key u skey) [0..<nr + 1] ck)"
  note c = compress_keys [of "nr + 1" ck skey]
  note e = expand_keys [OF assms(2), where ck = ?ck]
  show "length (take 8 (drop (8 * u) ?ek)) = length (key_slice skey u)" using e(1) assms(2,3) by simp
  fix i assume "i < length (take 8 (drop (8 * u) ?ek))"
  then have i: "i < 8" by simp
  define d where "d = i div 2"
  have d: "d < 4" "4 * u + d < 4 * Suc nr" "i = 2 * d \<or> i = Suc (2 * d)" using i assms(3) by (auto simp: d_def)
  let ?a = "key_slice skey u ! (2 * d)" and ?b = "key_slice skey u ! Suc (2 * d)"
  have "?ck ! (4 * u + d) = fold_parity ?a ?b" using c assms(1,3) d(1) by simp
  moreover have "bit ?a (Suc n) = bit ?a n" "bit ?b (Suc n) = bit ?b n" if "n < 32" "even n" for n
    using d(1) by (simp_all add: key_slice_parity that)
  ultimately have "?ek ! (2 * (4 * u + d)) = ?a" "?ek ! Suc (2 * (4 * u + d)) = ?b" using e(2,3) [OF d(2)] unfold_parity [of ?a ?b] by (simp_all only:)
  then show "take 8 (drop (8 * u) ?ek) ! i = key_slice skey u ! i" using d(3) i e(1) assms(2,3) by (auto simp: algebra_simps)
qed


lemma key_slice_words:
  assumes "expanded key nk (4 * Suc nr) skey" "u \<le> nr" "p < 2"
  shows "block_at p (key_slice skey u) = concat (map (fips_word key nk) [4 * u..<4 * u + 4])"
proof -
  have "enc32le (skey ! (4 * u + m)) = fips_word key nk (4 * u + m)" if "m < 4" for m using assms(1,2) that by (simp add: expanded_def)
  from this [of 0] this [of 1] this [of 2] this [of 3]
  have w: "enc32le (skey ! (4 * u)) = fips_word key nk (4 * u)" "enc32le (skey ! (4 * u + 1)) = fips_word key nk (4 * u + 1)"
    "enc32le (skey ! (4 * u + 2)) = fips_word key nk (4 * u + 2)" "enc32le (skey ! (4 * u + 3)) = fips_word key nk (4 * u + 3)" by simp_all
  have u: "[4 * u..<4 * u + 4] = [4 * u, 4 * u + 1, 4 * u + 2, 4 * u + 3]" by (simp add: upt_rec)
  have "p = 0 \<or> p = 1" using assms(3) by auto
  then show ?thesis unfolding key_slice_def u by (auto simp: block_at_ortho w [simplified])
qed

text \<open>A caller's context: its arrays have the sizes the source declares.\<close>

definition sized_ctx :: "AES_CTX \<Rightarrow> bool" where
  "sized_ctx ctx \<longleftrightarrow> length (aes_sk ctx) = 60 \<and> length (aes_sk_exp ctx) = 120"

lemma AES_Setkey_ready:
  assumes "length stack = 60" "sized_ctx ctx" "length key \<in> {16, 24, 32}"
  shows "\<exists>ctx'. AES_Setkey stack ctx key (int (length key)) = (0, ctx') \<and> ready_ctx ctx' \<and> aes_num_rounds ctx' = length key div 4 + 6 \<and>
    (\<forall>u \<le> aes_num_rounds ctx'. ctx_key ctx' u = fips_round_key key u)"
proof -
  define nr where "nr = num_rounds_for (length key)"
  have nr: "nr \<noteq> 0" "nr = length key div 4 + 6" "4 * Suc nr \<le> 60" "8 * Suc nr \<le> 120" "int (length key) mod 2 ^ 64 = int (length key)"
    using assms(3) by (auto simp: nr_def num_rounds_for_def)
  obtain sk where sk: "aes_keysched_base stack key (length key) = (nr, sk)" "expanded key (length key div 4) (4 * Suc nr) sk"
    using aes_keysched_base_expands [of key stack] nr(1) assms(1) by (auto simp: nr_def)
  define ck where "ck = fold (\<lambda>u. compress_key u sk) [0..<nr + 1] (aes_sk ctx)"
  let ?ctx = "ctx\<lparr>aes_sk := ck, aes_num_rounds := nr, aes_sk_exp := aes_ct_skey_expand (aes_sk_exp ctx) nr ck\<rparr>"
  have "AES_Setkey stack ctx key (int (length key)) = (0, ?ctx)"
    using sk(1) nr(1,5) by (simp add: AES_Setkey_def aes_ct_keysched_def ck_def Let_def)
  moreover have sliced: "sliced_key p (aes_sk_exp ?ctx) u = fips_round_key key u" if "u \<le> nr" "p < 2" for p u
    using setkey_slices [of nr "aes_sk ctx" "aes_sk_exp ctx" u sk] nr assms(2) that key_slice_words [OF sk(2) that]
    by (simp add: sliced_key_def ck_def sized_ctx_def fips_round_key_def)
  then have "ready_ctx ?ctx"
    using expand_keys(1) [of nr "aes_sk_exp ctx" ck] nr assms(2) by (simp add: ready_ctx_def sized_ctx_def)
  moreover have "\<forall>u \<le> nr. ctx_key ?ctx u = fips_round_key key u" using sliced by (simp add: ctx_key_def)
  ultimately show ?thesis using nr(2) by (intro exI [of _ ?ctx]) simp
qed

definition sample_ctx :: AES_CTX where
  "sample_ctx = \<lparr>aes_sk = replicate 60 0, aes_sk_exp = replicate 120 0, aes_num_rounds = 0\<rparr>"

text \<open>The example of the standard's appendix C.1.\<close>

definition sample_key :: bytes where
  "sample_key = [0x00, 0x01, 0x02, 0x03, 0x04, 0x05, 0x06, 0x07, 0x08, 0x09, 0x0a, 0x0b, 0x0c, 0x0d, 0x0e, 0x0f]"

definition sample_text :: bytes where
  "sample_text = [0x00, 0x11, 0x22, 0x33, 0x44, 0x55, 0x66, 0x77, 0x88, 0x99, 0xaa, 0xbb, 0xcc, 0xdd, 0xee, 0xff]"

section \<open>The properties\<close>

text \<open>
  C30: with a key of 16, 24 or 32 bytes set, encryption of any number of blocks is the cipher of FIPS 197
  (table S-box, rows, columns and the key expansion of the standard) on every block, and decryption is
  the inverse cipher, whatever the uninitialised memory of the key schedule held.
\<close>

theorem AES_implements_FIPS197:
  assumes "length stack = 60" "sized_ctx ctx" "length key \<in> {16, 24, 32}" "AES_Setkey stack ctx key (int (length key)) = (r, ctx')"
    and "16 * n \<le> length src"
  shows "r = 0 \<and> AES_Encrypt_ECB ctx' src n = ecb (fips_cipher (length key div 4 + 6) (fips_round_key key)) src n \<and>
    AES_Decrypt_ECB ctx' src n = ecb (fips_inv_cipher (length key div 4 + 6) (fips_round_key key)) src n"
proof -
  obtain c where c: "AES_Setkey stack ctx key (int (length key)) = (0, c)" "ready_ctx c" "aes_num_rounds c = length key div 4 + 6"
    "\<forall>u \<le> aes_num_rounds c. ctx_key c u = fips_round_key key u" using AES_Setkey_ready [OF assms(1-3)] by blast
  then have "r = 0" "ctx' = c" using assms(4) by simp_all
  then show ?thesis
    using AES_ECB_eq [OF c(2) assms(5)] fips_cipher_cong [of "aes_num_rounds c" "ctx_key c" "fips_round_key key"] c(3,4) by (simp add: ecb_def)
qed

theorem AES_implements_FIPS197_witness:
  "\<exists>c. AES_Setkey (replicate 60 7) sample_ctx sample_key 16 = (0, c) \<and>
     AES_Encrypt_ECB c sample_text 1 = ecb (fips_cipher 10 (fips_round_key sample_key)) sample_text 1"
  using AES_implements_FIPS197 [of "replicate 60 7" sample_ctx sample_key "fst (AES_Setkey (replicate 60 7) sample_ctx sample_key 16)"
      "snd (AES_Setkey (replicate 60 7) sample_ctx sample_key 16)" 1 sample_text]
  by (intro exI [of _ "snd (AES_Setkey (replicate 60 7) sample_ctx sample_key 16)"])
    (simp add: sized_ctx_def sample_ctx_def sample_key_def sample_text_def prod_eq_iff)

text \<open>
  Decryption inverts encryption: for every key of a legal length and every message of whole
  blocks, decrypting the encrypted message gives the message back.
\<close>

theorem AES_round_trip:
  assumes "length stack = 60" "sized_ctx ctx" "length key \<in> {16, 24, 32}" "AES_Setkey stack ctx key (int (length key)) = (0, ctx')"
    and "length src = 16 * n"
  shows "AES_Decrypt_ECB ctx' (AES_Encrypt_ECB ctx' src n) n = src"
  using AES_Setkey_ready [OF assms(1-3)] AES_Decrypt_Encrypt [OF _ assms(5), of ctx'] assms(4) by auto

theorem AES_round_trip_witness:
  "\<exists>c. AES_Setkey (replicate 60 7) sample_ctx sample_key 16 = (0, c) \<and> AES_Decrypt_ECB c (AES_Encrypt_ECB c sample_text 1) 1 = sample_text"
proof -
  have s: "length (replicate 60 (7 :: u32)) = 60" "sized_ctx sample_ctx" "length sample_key \<in> {16, 24, 32}" "length sample_text = 16 * 1"
    by (simp_all add: sized_ctx_def sample_ctx_def sample_key_def sample_text_def)
  obtain c where "AES_Setkey (replicate 60 7) sample_ctx sample_key (int (length sample_key)) = (0, c)" using AES_Setkey_ready [OF s(1-3)] by blast
  with AES_round_trip [OF s(1-3) this s(4)] show ?thesis by (auto simp: sample_key_def)
qed

text \<open>
  C31: every other key length is refused: \<open>AES_Setkey\<close> returns -1, leaves the context without rounds and
  does not touch the expanded key.
\<close>

theorem AES_Setkey_rejects:
  assumes "- (2 ^ 31) \<le> len" "len < 2 ^ 31"
  shows "fst (AES_Setkey stack ctx key len) = (if len \<in> {16, 24, 32} then 0 else -1) \<and>
    (len \<notin> {16, 24, 32} \<longrightarrow> aes_num_rounds (snd (AES_Setkey stack ctx key len)) = 0 \<and>
      aes_sk_exp (snd (AES_Setkey stack ctx key len)) = aes_sk_exp ctx)"
proof -
  have "nat (len mod 2 ^ 64) = k \<longleftrightarrow> len = int k" if "k < 2 ^ 31" for k
  proof (cases "0 \<le> len")
    case False
    then have "len mod 2 ^ 64 = len + 2 ^ 64" using assms(1) by (subst mod_add_self2 [symmetric], intro mod_pos_pos_trivial) simp_all
    then show ?thesis using False assms(1) that by simp
  qed (use assms(2) that in auto)
  then have n: "num_rounds_for (nat (len mod 2 ^ 64)) = (if len = 16 then 10 else if len = 24 then 12 else if len = 32 then 14 else 0)"
    by (simp add: num_rounds_for_def)
  then show ?thesis
    by (simp add: AES_Setkey_def aes_ct_keysched_def aes_keysched_base_def Let_def split: prod.split)
qed

theorem AES_Setkey_rejects_witness: "fst (AES_Setkey (replicate 60 7) sample_ctx sample_key 15) = -1"
  using AES_Setkey_rejects [of 15 "replicate 60 7" sample_ctx sample_key] by simp

end
