(* ===== verification/Key_Wrap.thy ===== *)
theory Key_Wrap
  imports Aes_Correct
begin

text \<open>
  The AES key wrap of RFC 3394 (\<open>rtw80211/openbsd/crypto/key_wrap.c\<close>). The steps take the block cipher as
  an argument; the routines of the source use the AES of theory \<open>Aes\<close>.
\<close>

section \<open>Definitions\<close>

definition key_wrap_IV :: bytes where
  "key_wrap_IV = replicate 8 0xa6"

definition htobe64 :: "u64 \<Rightarrow> bytes" where
  "htobe64 t = [ucast (drop_bit 56 t), ucast (drop_bit 48 t), ucast (drop_bit 40 t), ucast (drop_bit 32 t),
     ucast (drop_bit 24 t), ucast (drop_bit 16 t), ucast (drop_bit 8 t), ucast t]"

definition xor_bytes :: "bytes \<Rightarrow> bytes \<Rightarrow> bytes" where
  "xor_bytes = map2 (XOR)"

text \<open>One step of the inner loop: \<open>C\<close> holds \<open>A\<close> in its first eight bytes and \<open>R[i]\<close> at \<open>8 * i\<close>.\<close>

definition wrap_step :: "(bytes \<Rightarrow> bytes) \<Rightarrow> nat \<Rightarrow> u64 \<Rightarrow> bytes \<Rightarrow> bytes" where
  "wrap_step enc i t C =
     (let B = enc (take 8 C @ piece (8 * i) 8 C) in
      patch (8 * i) (drop 8 B) (patch 0 (xor_bytes (take 8 B) (htobe64 t)) C))"

definition wrap_round :: "(bytes \<Rightarrow> bytes) \<Rightarrow> nat \<Rightarrow> u64 \<times> bytes \<Rightarrow> u64 \<times> bytes" where
  "wrap_round enc n = fold (\<lambda>i (t, C). (t + 1, wrap_step enc i t C)) [1..<n + 1]"

definition aes_key_wrap :: "AES_CTX \<Rightarrow> bytes \<Rightarrow> nat \<Rightarrow> bytes" where
  "aes_key_wrap ctx P n = snd (fold (\<lambda>j. wrap_round (AES_Encrypt ctx) n) [0..<6] (1, key_wrap_IV @ take (8 * n) P))"

text \<open>Unwrapping keeps \<open>A\<close> apart; \<open>R[i]\<close> is at \<open>8 * (i - 1)\<close> of \<open>P\<close>.\<close>

definition unwrap_step :: "(bytes \<Rightarrow> bytes) \<Rightarrow> nat \<Rightarrow> u64 \<Rightarrow> bytes \<times> bytes \<Rightarrow> bytes \<times> bytes" where
  "unwrap_step dec i t = (\<lambda>(A, P).
     let B = dec (xor_bytes A (htobe64 t) @ piece (8 * (i - 1)) 8 P) in
     (take 8 B, patch (8 * (i - 1)) (drop 8 B) P))"

definition unwrap_round :: "(bytes \<Rightarrow> bytes) \<Rightarrow> nat \<Rightarrow> u64 \<times> bytes \<times> bytes \<Rightarrow> u64 \<times> bytes \<times> bytes" where
  "unwrap_round dec n = fold (\<lambda>i (t, AP). (t - 1, unwrap_step dec i t AP)) (rev [1..<n + 1])"

text \<open>The result is 0 when the recovered initial value is right; the output buffer is written in any case.\<close>

definition aes_key_unwrap :: "AES_CTX \<Rightarrow> bytes \<Rightarrow> nat \<Rightarrow> int \<times> bytes" where
  "aes_key_unwrap ctx C n =
     (case fold (\<lambda>j. unwrap_round (AES_Decrypt ctx) n) [0..<6] (6 * of_nat n, take 8 C, piece 8 (8 * n) C) of
        (t, A, P) \<Rightarrow> (if A = key_wrap_IV then 0 else 1, P))"

definition aes_key_wrap_set_key :: "u32 list \<Rightarrow> AES_CTX \<Rightarrow> bytes \<Rightarrow> int \<Rightarrow> AES_CTX" where
  "aes_key_wrap_set_key stack ctx K K_len = snd (AES_Setkey stack ctx K K_len)"

definition aes_key_wrap_set_key_wrap_only :: "u32 list \<Rightarrow> AES_CTX \<Rightarrow> bytes \<Rightarrow> int \<Rightarrow> AES_CTX" where
  "aes_key_wrap_set_key_wrap_only stack ctx K K_len = snd (AES_Setkey stack ctx K K_len)"

section \<open>Unwrapping inverts wrapping\<close>

lemma patch_back: "i + length bs \<le> length p \<Longrightarrow> patch i (piece i (length bs) p) (patch i bs p) = p"
  by (rule nth_equalityI) (auto simp: nth_patch nth_piece)

text \<open>A sequence of steps, and the steps of one round from the counter \<open>t\<close> on.\<close>

definition wrap_all :: "(bytes \<Rightarrow> bytes) \<Rightarrow> (nat \<times> u64) list \<Rightarrow> bytes \<Rightarrow> bytes" where
  "wrap_all f = fold (\<lambda>(i, t). wrap_step f i t)"

definition unwrap_all :: "(bytes \<Rightarrow> bytes) \<Rightarrow> (nat \<times> u64) list \<Rightarrow> bytes \<times> bytes \<Rightarrow> bytes \<times> bytes" where
  "unwrap_all g its = fold (\<lambda>(i, t). unwrap_step g i t) (rev its)"

definition round_steps :: "nat \<Rightarrow> u64 \<Rightarrow> (nat \<times> u64) list" where
  "round_steps n t = map (\<lambda>i. (Suc i, t + of_nat i)) [0..<n]"

lemma round_steps_Suc: "round_steps (Suc n) t = round_steps n t @ [(Suc n, t + of_nat n)]"
  by (simp add: round_steps_def)

lemma wrap_all_append: "wrap_all f (xs @ ys) C = wrap_all f ys (wrap_all f xs C)" "unwrap_all g (xs @ ys) AP = unwrap_all g xs (unwrap_all g ys AP)"
  by (simp_all add: wrap_all_def unwrap_all_def)

lemma wrap_round_eq: "wrap_round f n (t, C) = (t + of_nat n, wrap_all f (round_steps n t) C)"
  by (induction n) (simp_all add: wrap_round_def wrap_all_def round_steps_Suc, simp_all add: round_steps_def)

lemma unwrap_round_eq: "unwrap_round g n (t, AP) = (t - of_nat n, unwrap_all g (round_steps n (t - of_nat n + 1)) AP)"
proof (induction n arbitrary: t AP)
  case (Suc n)
  have "unwrap_round g (Suc n) (t, AP) = unwrap_round g n (t - 1, unwrap_step g (Suc n) t AP)" by (simp add: unwrap_round_def)
  then show ?case using Suc [of "t - 1"] by (simp add: unwrap_all_def round_steps_Suc algebra_simps)
qed (simp add: unwrap_round_def unwrap_all_def round_steps_def)

definition key_steps :: "nat \<Rightarrow> (nat \<times> u64) list" where
  "key_steps n = concat (map (\<lambda>j. round_steps n (1 + of_nat n * of_nat j)) [0..<6])"

lemma upt_6: "[0..<6] = [0, 1, 2, 3, 4, 5 :: nat]"
  by (simp add: upt_rec)

lemma wrap_rounds_eq: "snd (fold (\<lambda>j. wrap_round f n) [0..<6] (1, C)) = wrap_all f (key_steps n) C"
  by (simp add: upt_6 key_steps_def wrap_round_eq wrap_all_append algebra_simps)

lemma unwrap_rounds_eq: "snd (fold (\<lambda>j. unwrap_round g n) [0..<6] (6 * of_nat n, AP)) = unwrap_all g (key_steps n) AP"
  by (simp add: upt_6 key_steps_def unwrap_round_eq wrap_all_append algebra_simps)

text \<open>
  A block cipher: keyed injections of the 16-byte blocks, with their inverses. The two ends have
  contexts of their own; they are paired when both hold the same key.
\<close>

locale block_cipher =
  fixes enc dec :: "'c \<Rightarrow> bytes \<Rightarrow> bytes" and paired :: "'c \<Rightarrow> 'c \<Rightarrow> bool"
  assumes length_enc: "paired c d \<Longrightarrow> length s = 16 \<Longrightarrow> length (enc c s) = 16"
    and dec_enc: "paired c d \<Longrightarrow> length s = 16 \<Longrightarrow> dec d (enc c s) = s"
begin

lemma length_wrap_step: "paired c d \<Longrightarrow> 8 * i + 8 \<le> length C \<Longrightarrow> 1 \<le> i \<Longrightarrow> length (wrap_step (enc c) i t C) = length C"
  by (simp add: wrap_step_def Let_def length_enc xor_bytes_def htobe64_def)

lemma unwrap_wrap_step:
  assumes "paired c d" "8 * i + 8 \<le> length C" "1 \<le> i"
  shows "unwrap_step (dec d) i t (take 8 (wrap_step (enc c) i t C), drop 8 (wrap_step (enc c) i t C)) = (take 8 C, drop 8 C)"
proof -
  define B where "B = enc c (take 8 C @ piece (8 * i) 8 C)"
  have s: "length (take 8 C @ piece (8 * i) 8 C) = 16" using assms(2) by simp
  have B: "length B = 16" "dec d B = take 8 C @ piece (8 * i) 8 C" using s assms(1) by (simp_all add: B_def length_enc dec_enc)
  define M where "M = xor_bytes (take 8 B) (htobe64 t)"
  have M: "length M = 8" "xor_bytes M (htobe64 t) = take 8 B"
    using B(1) by (auto simp: M_def xor_bytes_def htobe64_def xor.assoc intro!: nth_equalityI)
  have w: "wrap_step (enc c) i t C = patch (8 * i) (drop 8 B) (patch 0 M C)" by (simp add: wrap_step_def Let_def B_def M_def)
  have h: "take 8 (wrap_step (enc c) i t C) = M" "drop 8 (wrap_step (enc c) i t C) = patch (8 * (i - 1)) (drop 8 B) (drop 8 C)"
    unfolding w patch_def using M(1) B(1) assms(2,3) by (simp_all add: min_def drop_take algebra_simps)
  have i: "8 * (i - 1) + length (drop 8 B) \<le> length (drop 8 C)" using B(1) assms(2,3) by simp
  have "piece (8 * i) 8 C = piece (8 * (i - 1)) (length (drop 8 B)) (drop 8 C)" using B(1) assms(2,3) by (simp add: piece_def algebra_simps)
  then show ?thesis
    unfolding unwrap_step_def h using M(2) B piece_patch_same [OF i] patch_back [OF i] assms(2) by (simp add: Let_def)
qed


lemma unwrap_wrap_all:
  assumes "paired c d" "\<forall>(i, t) \<in> set its. 1 \<le> i \<and> 8 * i + 8 \<le> length C"
  shows "length (wrap_all (enc c) its C) = length C \<and>
    unwrap_all (dec d) its (take 8 (wrap_all (enc c) its C), drop 8 (wrap_all (enc c) its C)) = (take 8 C, drop 8 C)"
  using assms(2)
proof (induction its rule: rev_induct)
  case (snoc x its)
  obtain i t where x: "x = (i, t)" by fastforce
  let ?C = "wrap_all (enc c) its C"
  have "length ?C = length C" "1 \<le> i" "8 * i + 8 \<le> length ?C" using snoc x by auto
  then show ?case using snoc x unwrap_wrap_step [OF assms(1), of i ?C t] length_wrap_step [OF assms(1), of i ?C t] by (auto simp: wrap_all_def unwrap_all_def)
qed (simp add: wrap_all_def unwrap_all_def)

end

text \<open>The AES of the source is one, for contexts with the same round keys.\<close>

definition same_key :: "AES_CTX \<Rightarrow> AES_CTX \<Rightarrow> bool" where
  "same_key c d \<longleftrightarrow> ready_ctx c \<and> ready_ctx d \<and> aes_num_rounds d = aes_num_rounds c \<and> (\<forall>u \<le> aes_num_rounds c. ctx_key c u = ctx_key d u)"

interpretation aes: block_cipher AES_Encrypt AES_Decrypt same_key
proof
  fix c d s assume "same_key c d" and s: "length (s :: bytes) = 16"
  then have c: "ready_ctx c" "length s = 16" and d: "ready_ctx d" "aes_num_rounds d = aes_num_rounds c" "\<And>u. u \<le> aes_num_rounds c \<Longrightarrow> ctx_key c u = ctx_key d u"
    by (simp_all add: same_key_def)
  show len: "length (AES_Encrypt c s) = 16"
    using AES_ECB_eq(1) [OF c(1), of 1 s] c(2) length_fips_cipher [of "ctx_key c" s "aes_num_rounds c"]
    by (simp add: AES_Encrypt_def ecb_def piece_def ctx_key_def)
  then have "AES_Decrypt d (AES_Encrypt c s) = AES_Decrypt c (AES_Encrypt c s)"
    using AES_ECB_eq(2) [OF d(1), of 1 "AES_Encrypt c s"] AES_ECB_eq(2) [OF c(1), of 1 "AES_Encrypt c s"]
      fips_cipher_cong(2) [of "aes_num_rounds c", OF d(3)] d(2) by (simp add: AES_Decrypt_def ecb_def)
  then show "AES_Decrypt d (AES_Encrypt c s) = s"
    using AES_Decrypt_Encrypt [OF c(1), of s 1] c(2) by (simp add: AES_Encrypt_def AES_Decrypt_def)
qed

lemma key_steps_range: "(i, t) \<in> set (key_steps n) \<Longrightarrow> 1 \<le> i \<and> i \<le> n"
  by (auto simp: key_steps_def round_steps_def)

lemma length_key_wrap_IV [simp]: "length key_wrap_IV = 8"
  by (simp add: key_wrap_IV_def)

lemma key_wrap_ready:
  assumes "same_key ctx ctx'" "8 * n \<le> length P"
  shows "length (aes_key_wrap ctx P n) = 8 * n + 8 \<and> aes_key_unwrap ctx' (aes_key_wrap ctx P n) n = (0, take (8 * n) P)"
proof -
  let ?C = "key_wrap_IV @ take (8 * n) P"
  have w: "aes_key_wrap ctx P n = wrap_all (AES_Encrypt ctx) (key_steps n) ?C" by (simp add: aes_key_wrap_def wrap_rounds_eq)
  have "\<forall>(i, t) \<in> set (key_steps n). 1 \<le> i \<and> 8 * i + 8 \<le> length ?C" using assms(2) by (auto dest!: key_steps_range)
  note r = aes.unwrap_wrap_all [OF assms(1) this, folded w]
  have len: "length (aes_key_wrap ctx P n) = 8 * n + 8" using r assms(2) by simp
  obtain t A Q where f: "fold (\<lambda>j. unwrap_round (AES_Decrypt ctx') n) [0..<6]
      (6 * of_nat n, take 8 (aes_key_wrap ctx P n), drop 8 (aes_key_wrap ctx P n)) = (t, A, Q)" by (rule prod_cases3)
  have "(A, Q) = (take 8 ?C, drop 8 ?C)" using r arg_cong [OF f, of snd] by (simp add: unwrap_rounds_eq)
  then show ?thesis using f len by (simp add: aes_key_unwrap_def piece_def)
qed

text \<open>
  C32: unwrapping a wrapped key with the same 16, 24 or 32 byte key encryption key succeeds and gives
  back the \<open>n\<close> blocks of eight bytes that were wrapped.
\<close>

theorem key_wrap_round_trip:
  assumes "length stack = 60" "length stack' = 60" "sized_ctx ctx" "sized_ctx ctx'" "length K \<in> {16, 24, 32}" "length P = 8 * n"
  shows "aes_key_unwrap (aes_key_wrap_set_key stack' ctx' K (int (length K)))
    (aes_key_wrap (aes_key_wrap_set_key_wrap_only stack ctx K (int (length K))) P n) n = (0, P)"
proof -
  obtain c where c: "AES_Setkey stack ctx K (int (length K)) = (0, c)" "ready_ctx c" "aes_num_rounds c = length K div 4 + 6" "\<forall>u \<le> aes_num_rounds c. ctx_key c u = fips_round_key K u"
    using AES_Setkey_ready [OF assms(1,3,5)] by blast
  obtain d where d: "AES_Setkey stack' ctx' K (int (length K)) = (0, d)" "ready_ctx d" "aes_num_rounds d = length K div 4 + 6" "\<forall>u \<le> aes_num_rounds d. ctx_key d u = fips_round_key K u"
    using AES_Setkey_ready [OF assms(2,4,5)] by blast
  have "same_key c d" using c d by (simp add: same_key_def)
  from key_wrap_ready [OF this, of n P] assms(6) c(1) d(1) show ?thesis
    by (simp add: aes_key_wrap_set_key_def aes_key_wrap_set_key_wrap_only_def)
qed

theorem key_wrap_round_trip_witness:
  "aes_key_unwrap (aes_key_wrap_set_key (replicate 60 3) sample_ctx sample_key 16)
     (aes_key_wrap (aes_key_wrap_set_key_wrap_only (replicate 60 7) sample_ctx sample_key 16) sample_text 2) 2 = (0, sample_text)"
  using key_wrap_round_trip [of "replicate 60 7" "replicate 60 3" sample_ctx sample_ctx sample_key sample_text 2]
  by (simp add: sized_ctx_def sample_ctx_def sample_key_def sample_text_def)

end
