(* ===== verification/Arc4.thy ===== *)
theory Arc4
  imports Prelude "HOL-Library.Multiset"
begin

text \<open>
  The ARC4 stream cipher (\<open>rtw80211/openbsd/crypto/arc4.c\<close>) and the Michael message integrity code
  (\<open>crypto/michael.c\<close>) that TKIP uses.
\<close>

section \<open>ARC4\<close>

record rc4_ctx =
  rc4_x :: u8
  rc4_y :: u8
  rc4_state :: bytes

definition RC4SWAP :: "u8 \<Rightarrow> u8 \<Rightarrow> bytes \<Rightarrow> bytes" where
  "RC4SWAP x y state = (let t = state ! unat x in state[unat x := state ! unat y, unat y := t])"

definition keysetup_step :: "bytes \<Rightarrow> nat \<Rightarrow> nat \<Rightarrow> u8 \<times> u8 \<times> bytes \<Rightarrow> u8 \<times> u8 \<times> bytes" where
  "keysetup_step key klen i = (\<lambda>(x, y, state).
     let y = key ! unat x + state ! i + y in
     (of_nat ((unat x + 1) mod klen), y, RC4SWAP (of_nat i) y state))"

definition rc4_keysetup :: "bytes \<Rightarrow> nat \<Rightarrow> rc4_ctx" where
  "rc4_keysetup key klen =
     (case fold (keysetup_step key klen) [0..<256] (0, 0, map of_nat [0..<256]) of
        (x, y, state) \<Rightarrow> \<lparr>rc4_x = 0, rc4_y = 0, rc4_state = state\<rparr>)"

text \<open>One step of the generator, shared by the three loops, and the byte it makes.\<close>

definition rc4_step :: "rc4_ctx \<Rightarrow> rc4_ctx" where
  "rc4_step ctx =
     (let x = rc4_x ctx + 1; y = rc4_state ctx ! unat x + rc4_y ctx in
      \<lparr>rc4_x = x, rc4_y = y, rc4_state = RC4SWAP x y (rc4_state ctx)\<rparr>)"

definition rc4_byte :: "rc4_ctx \<Rightarrow> u8" where
  "rc4_byte ctx = rc4_state ctx ! unat (rc4_state ctx ! unat (rc4_x ctx) + rc4_state ctx ! unat (rc4_y ctx))"

fun rc4_crypt :: "rc4_ctx \<Rightarrow> bytes \<Rightarrow> rc4_ctx \<times> bytes" where
  "rc4_crypt ctx [] = (ctx, [])"
| "rc4_crypt ctx (b # src) =
     (let ctx = rc4_step ctx; (ctx', dst) = rc4_crypt ctx src in (ctx', (b XOR rc4_byte ctx) # dst))"

fun rc4_getbytes :: "rc4_ctx \<Rightarrow> nat \<Rightarrow> rc4_ctx \<times> bytes" where
  "rc4_getbytes ctx 0 = (ctx, [])"
| "rc4_getbytes ctx (Suc len) =
     (let ctx = rc4_step ctx; (ctx', dst) = rc4_getbytes ctx len in (ctx', rc4_byte ctx # dst))"

fun rc4_skip :: "rc4_ctx \<Rightarrow> nat \<Rightarrow> rc4_ctx" where
  "rc4_skip ctx 0 = ctx"
| "rc4_skip ctx (Suc len) = rc4_skip (rc4_step ctx) len"

subsection \<open>The state is a permutation\<close>

definition rc4_permutation :: "bytes \<Rightarrow> bool" where
  "rc4_permutation state \<longleftrightarrow> mset state = mset (map of_nat [0..<256])"

lemma rc4_permutationD: "rc4_permutation state \<Longrightarrow> length state = 256 \<and> distinct state"
proof -
  assume p: "rc4_permutation state"
  have "distinct (map of_nat [0..<256] :: bytes)" by (auto simp: distinct_map inj_on_def unat_of_nat dest: arg_cong [of _ _ unat])
  then show ?thesis using p mset_eq_length [of state "map of_nat [0..<256]"] mset_eq_imp_distinct_iff [of state "map of_nat [0..<256]"]
    by (simp add: rc4_permutation_def)
qed

lemma RC4SWAP_permutation: "rc4_permutation state \<Longrightarrow> rc4_permutation (RC4SWAP x y state)"
  using rc4_permutationD [of state] mset_swap [of "unat y" state "unat x"]
  by (simp add: rc4_permutation_def RC4SWAP_def Let_def)


lemma rc4_keysetup_permutation: "rc4_permutation (rc4_state (rc4_keysetup key klen))"
proof -
  have "rc4_permutation (snd (snd (fold (keysetup_step key klen) is s)))" if "rc4_permutation (snd (snd s))" for "is" s
    using that by (induction "is" arbitrary: s) (auto simp: keysetup_step_def Let_def RC4SWAP_permutation split: prod.splits)
  from this [of "(0, 0, map of_nat [0..<256])" "[0..<256]"] show ?thesis
    by (auto simp: rc4_keysetup_def rc4_permutation_def split: prod.splits)
qed

lemma rc4_step_permutation: "rc4_permutation (rc4_state ctx) \<Longrightarrow> rc4_permutation (rc4_state (rc4_step ctx))"
  by (simp add: rc4_step_def Let_def RC4SWAP_permutation)

lemma rc4_skip_permutation: "rc4_permutation (rc4_state ctx) \<Longrightarrow> rc4_permutation (rc4_state (rc4_skip ctx n))"
  by (induction n arbitrary: ctx) (simp_all add: rc4_step_permutation)

subsection \<open>The key stream\<close>

lemma rc4_getbytes_skip: "fst (rc4_getbytes ctx n) = rc4_skip ctx n"
  by (induction n arbitrary: ctx) (simp_all add: Let_def split: prod.split, metis fst_conv)

lemma length_rc4_getbytes: "length (snd (rc4_getbytes ctx n)) = n"
  by (induction n arbitrary: ctx) (simp_all add: Let_def split: prod.split, metis snd_conv)

lemma rc4_crypt_stream: "rc4_crypt ctx src = (rc4_skip ctx (length src), map2 (XOR) src (snd (rc4_getbytes ctx (length src))))"
  by (induction ctx src rule: rc4_crypt.induct) (auto simp: Let_def split: prod.split)

lemma rc4_crypt_involution: "snd (rc4_crypt ctx (snd (rc4_crypt ctx src))) = src"
  by (rule nth_equalityI) (simp_all add: rc4_crypt_stream length_rc4_getbytes xor.assoc)

lemma length_rc4_crypt [simp]: "length (snd (rc4_crypt ctx src)) = length src"
  by (simp add: rc4_crypt_stream length_rc4_getbytes)

lemma rc4_getbytes_append:
  "snd (rc4_getbytes ctx (m + n)) = snd (rc4_getbytes ctx m) @ snd (rc4_getbytes (rc4_skip ctx m) n)"
  by (induction m arbitrary: ctx) (simp_all add: Let_def split: prod.split, metis snd_conv)

lemma rc4_skip_add: "rc4_skip ctx (m + n) = rc4_skip (rc4_skip ctx m) n"
  by (induction m arbitrary: ctx) simp_all

lemma rc4_crypt_append:
  "snd (rc4_crypt ctx (a @ b)) = snd (rc4_crypt ctx a) @ snd (rc4_crypt (fst (rc4_crypt ctx a)) b)"
  by (simp add: rc4_crypt_stream rc4_getbytes_append length_rc4_getbytes)

text \<open>Histories of calls on one context.\<close>

datatype rc4_op = Rc4Crypt bytes | Rc4GetBytes nat | Rc4Skip nat

fun rc4_exec :: "rc4_op \<Rightarrow> rc4_ctx \<Rightarrow> rc4_ctx" where
  "rc4_exec (Rc4Crypt src) ctx = fst (rc4_crypt ctx src)"
| "rc4_exec (Rc4GetBytes n) ctx = fst (rc4_getbytes ctx n)"
| "rc4_exec (Rc4Skip n) ctx = rc4_skip ctx n"

text \<open>
  C33: from key setup on, after every history of calls, the state of the generator is a permutation of
  the 256 bytes: the array keeps its size and every value occurs in it exactly once.
\<close>

theorem rc4_state_type: "rc4_permutation (rc4_state (fold rc4_exec ops (rc4_keysetup key klen)))"
proof -
  have "rc4_permutation (rc4_state (fold rc4_exec ops ctx))" if "rc4_permutation (rc4_state ctx)" for ctx
    using that
  proof (induction ops arbitrary: ctx)
    case (Cons op ops)
    then show ?case by (cases op) (auto simp: rc4_crypt_stream rc4_getbytes_skip rc4_skip_permutation)
  qed simp
  then show ?thesis using rc4_keysetup_permutation by blast
qed

section \<open>Michael\<close>

record MICHAEL_CTX =
  michael_key0 :: u32
  michael_key1 :: u32
  michael_l :: u32
  michael_r :: u32
  michael_state :: u32
  michael_count :: nat

definition ROL :: "nat \<Rightarrow> u32 \<Rightarrow> u32" where
  "ROL n x = push_bit n x OR drop_bit (32 - n) x"

definition ROR :: "nat \<Rightarrow> u32 \<Rightarrow> u32" where
  "ROR n x = drop_bit n x OR push_bit (32 - n) x"

definition XSWAP :: "u32 \<Rightarrow> u32" where
  "XSWAP x = drop_bit 8 (x AND 0xff00ff00) OR push_bit 8 (x AND 0x00ff00ff)"

definition MICHAEL_BLOCK :: "u32 \<times> u32 \<Rightarrow> u32 \<times> u32" where
  "MICHAEL_BLOCK = (\<lambda>(l, r).
     let r = r XOR ROL 17 l; l = l + r;
         r = r XOR XSWAP l; l = l + r;
         r = r XOR ROL 3 l; l = l + r;
         r = r XOR ROR 2 l; l = l + r
     in (l, r))"

definition michael_init :: MICHAEL_CTX where
  "michael_init = \<lparr>michael_key0 = 0, michael_key1 = 0, michael_l = 0, michael_r = 0, michael_state = 0, michael_count = 0\<rparr>"

definition michael_byte :: "u8 \<Rightarrow> MICHAEL_CTX \<Rightarrow> MICHAEL_CTX" where
  "michael_byte b ctx =
     (let state = michael_state ctx OR push_bit (8 * michael_count ctx) (ucast b); count = michael_count ctx + 1 in
      if count \<ge> 4 then
        case MICHAEL_BLOCK (michael_l ctx XOR state, michael_r ctx) of
          (l, r) \<Rightarrow> ctx\<lparr>michael_l := l, michael_r := r, michael_state := 0, michael_count := 0\<rparr>
      else ctx\<lparr>michael_state := state, michael_count := count\<rparr>)"

definition michael_update :: "bytes \<Rightarrow> MICHAEL_CTX \<Rightarrow> MICHAEL_CTX" where
  "michael_update data ctx = fold michael_byte data ctx"

definition michael_final :: "MICHAEL_CTX \<Rightarrow> bytes" where
  "michael_final ctx =
     (let ctx = michael_update [0x5a, 0, 0, 0, 0, 0, 0, 0] ctx in put32 (michael_l ctx) @ put32 (michael_r ctx))"

definition michael_key :: "bytes \<Rightarrow> MICHAEL_CTX \<Rightarrow> MICHAEL_CTX" where
  "michael_key key ctx = ctx\<lparr>michael_l := le32 key 0, michael_key0 := le32 key 0, michael_r := le32 key 4, michael_key1 := le32 key 4\<rparr>"


subsection \<open>Michael as the standard states it\<close>

text \<open>
  IEEE 802.11 defines the code over 32-bit little-endian words: the message is followed by 0x5a and by
  four to seven zero bytes up to a multiple of four, and each word goes through the block function.
\<close>

fun words_le :: "bytes \<Rightarrow> u32 list" where
  "words_le (a # b # c # d # p) = (ucast a OR push_bit 8 (ucast b) OR push_bit 16 (ucast c) OR push_bit 24 (ucast d)) # words_le p"
| "words_le _ = []"

definition michael_spec :: "bytes \<Rightarrow> bytes \<Rightarrow> bytes" where
  "michael_spec key M =
     (let padded = M @ [0x5a] @ zeros (4 + (3 - length M mod 4)) in
      case fold (\<lambda>w (l, r). MICHAEL_BLOCK (l XOR w, r)) (words_le padded) (le32 key 0, le32 key 4) of
        (l, r) \<Rightarrow> put32 l @ put32 r)"

definition michael_lr :: "MICHAEL_CTX \<Rightarrow> u32 \<times> u32" where
  "michael_lr ctx = (michael_l ctx, michael_r ctx)"

definition michael_fresh :: "MICHAEL_CTX \<Rightarrow> bool" where
  "michael_fresh ctx \<longleftrightarrow> michael_state ctx = 0 \<and> michael_count ctx = 0"

lemma michael_word:
  assumes "michael_fresh ctx"
  shows "michael_fresh (michael_update [a, b, c, d] ctx) \<and> michael_lr (michael_update [a, b, c, d] ctx) =
    MICHAEL_BLOCK (michael_l ctx XOR (ucast a OR push_bit 8 (ucast b) OR push_bit 16 (ucast c) OR push_bit 24 (ucast d)), michael_r ctx)"
  using assms by (simp add: michael_update_def michael_byte_def michael_fresh_def michael_lr_def Let_def or.assoc split: prod.split)

lemma michael_short: "michael_fresh ctx \<Longrightarrow> length p < 4 \<Longrightarrow> michael_lr (michael_update p ctx) = michael_lr ctx"
  by (cases p; cases "tl p"; cases "tl (tl p)"; cases "tl (tl (tl p))")
    (auto simp: michael_update_def michael_byte_def michael_fresh_def michael_lr_def Let_def)

lemma michael_update_append: "michael_update (p @ q) ctx = michael_update q (michael_update p ctx)"
  by (simp add: michael_update_def)

lemma michael_words:
  "michael_fresh ctx \<Longrightarrow> michael_lr (michael_update p ctx) = fold (\<lambda>w (l, r). MICHAEL_BLOCK (l XOR w, r)) (words_le p) (michael_lr ctx)"
proof (induction p arbitrary: ctx rule: words_le.induct)
  case (1 a b c d p)
  have "michael_update (a # b # c # d # p) ctx = michael_update p (michael_update [a, b, c, d] ctx)"
    using michael_update_append [of "[a, b, c, d]" p ctx] by simp
  then show ?case using 1 michael_word [OF 1(2), of a b c d] by (simp add: michael_lr_def)
qed (simp_all add: michael_short)

lemma words_le_ignore: "length p mod 4 = 0 \<Longrightarrow> length q < 4 \<Longrightarrow> words_le (p @ q) = words_le p"
proof (induction p rule: words_le.induct)
  case "2_1"
  then show ?case by (cases q; cases "tl q"; cases "tl (tl q)"; cases "tl (tl (tl q))") auto
qed auto

lemma zeros_7: "zeros 7 = [0, 0, 0, 0, 0, 0, 0]"
  by (simp add: zeros_def numeral_eq_Suc)


end
