(* ===== verification/Hash_Buffer.thy ===== *)
theory Hash_Buffer
  imports Prelude
begin

text \<open>
  What the iterated hash functions of \<open>rtw80211/openbsd/crypto\<close> share: a chaining value, a bit count and
  a buffer of 64 bytes. The locale \<open>md_hash\<close> is the contract between a hash function and its users: \<open>update\<close>
  absorbs bytes, \<open>final\<close> pads and returns the digest.
\<close>

section \<open>Blocks\<close>

function md_chain :: "('s \<Rightarrow> bytes \<Rightarrow> 's) \<Rightarrow> 's \<Rightarrow> bytes \<Rightarrow> 's" where
  "md_chain f s M = (if length M < 64 then s else md_chain f (f s (take 64 M)) (drop 64 M))"
  by pat_completeness auto
termination
  by (relation "measure (\<lambda>(f, s, M). length M)") auto

declare md_chain.simps [simp del]

definition md_rest :: "bytes \<Rightarrow> bytes" where
  "md_rest M = drop (64 * (length M div 64)) M"

lemma length_md_rest [simp]: "length (md_rest M) = length M mod 64"
  by (simp add: md_rest_def minus_mult_div_eq_mod)

lemma md_chain_short: "length M < 64 \<Longrightarrow> md_chain f s M = s"
  by (simp add: md_chain.simps)

lemma md_rest_short: "length M < 64 \<Longrightarrow> md_rest M = M"
  by (simp add: md_rest_def)

lemma md_chain_block: "length B = 64 \<Longrightarrow> md_chain f s (B @ M) = md_chain f (f s B) M"
  by (subst md_chain.simps) simp

lemma md_rest_block: "length B = 64 \<Longrightarrow> md_rest (B @ M) = md_rest M"
  by (simp add: md_rest_def div_add_self1)

lemma md_step: "64 \<le> length M \<Longrightarrow> md_chain f s M = md_chain f (f s (take 64 M)) (drop 64 M)" "64 \<le> length M \<Longrightarrow> md_rest M = md_rest (drop 64 M)"
  using md_rest_block [of "take 64 M" "drop 64 M"] by (simp_all add: md_chain.simps [of f s M])

lemma md_split:
  obtains A where "M = A @ md_rest M" "length A mod 64 = 0"
  using that [of "take (64 * (length M div 64)) M"] times_div_less_eq_dividend [of 64 "length M"] by (simp add: md_rest_def min_absorb2)

lemma md_chain_append: "length A mod 64 = 0 \<Longrightarrow> md_chain f s (A @ M) = md_chain f (md_chain f s A) M"
proof (induction f s A rule: md_chain.induct)
  case (1 f s A)
  show ?case
  proof (cases "length A < 64")
    case True
    then show ?thesis using 1(2) by (simp add: md_chain_short)
  next
    case False
    then have "length (drop 64 A) mod 64 = 0" using 1(2) by (simp add: le_mod_geq [symmetric])
    then have "md_chain f (f s (take 64 A)) (drop 64 A @ M) = md_chain f (md_chain f (f s (take 64 A)) (drop 64 A)) M" using 1(1) False by simp
    moreover have "md_chain f s (A @ M) = md_chain f (f s (take 64 A)) (drop 64 A @ M)" using False md_chain_block [of "take 64 A" f s "drop 64 A @ M"] by (simp flip: append_assoc)
    moreover have "md_chain f s A = md_chain f (f s (take 64 A)) (drop 64 A)" using False by (subst md_chain.simps) simp
    ultimately show ?thesis by simp
  qed
qed

lemma md_rest_append: "length A mod 64 = 0 \<Longrightarrow> md_rest (A @ M) = md_rest M"
proof -
  assume "length A mod 64 = 0"
  then obtain k where "length A = 64 * k" by (auto simp: mod_eq_0_iff_dvd elim: dvdE)
  then show ?thesis by (simp add: md_rest_def div_mult_self4)
qed

lemma md_chain_absorb: "md_chain f s (M @ d) = md_chain f (md_chain f s M) (md_rest M @ d)"
proof -
  obtain A where A: "M = A @ md_rest M" "length A mod 64 = 0" by (rule md_split)
  have "md_chain f s M = md_chain f s A" using md_chain_append [OF A(2), of f s "md_rest M"] A(1) by (simp add: md_chain_short)
  then show ?thesis using md_chain_append [OF A(2), of f s "md_rest M @ d"] A(1) by (metis append_assoc)
qed

lemma md_rest_absorb: "md_rest (M @ d) = md_rest (md_rest M @ d)"
proof -
  obtain A where A: "M = A @ md_rest M" "length A mod 64 = 0" by (rule md_split)
  then show ?thesis using md_rest_append [OF A(2), of "md_rest M @ d"] by (metis append_assoc)
qed

lemma md_fill:
  assumes "j < 64" "j \<le> length buf" "64 \<le> j + length d"
  shows "md_chain f c (take j buf @ d) = md_chain f (f c (take j buf @ take (64 - j) d)) (drop (64 - j) d)"
    "md_rest (take j buf @ d) = md_rest (drop (64 - j) d)"
proof -
  have "length (take j buf @ take (64 - j) d) = 64" using assms by simp
  from md_chain_block [OF this, of f c "drop (64 - j) d"] md_rest_block [OF this, of "drop (64 - j) d"]
  show "md_chain f c (take j buf @ d) = md_chain f (f c (take j buf @ take (64 - j) d)) (drop (64 - j) d)"
    "md_rest (take j buf @ d) = md_rest (drop (64 - j) d)" by simp_all
qed

lemma take_patch_fill: "j < 64 \<Longrightarrow> 64 \<le> length buf \<Longrightarrow> 64 \<le> j + length d \<Longrightarrow> take 64 (patch j (take (64 - j) d) buf) = take j buf @ take (64 - j) d"
  by (simp add: patch_def)

lemma take_patch_end: "j + length d \<le> length buf \<Longrightarrow> take (j + length d) (patch j d buf) = take j buf @ d"
  by (simp add: patch_def)

lemma patch_rest: "64 \<le> length buf \<Longrightarrow> 64 \<le> length (patch 0 (md_rest s) buf) \<and> take (length s mod 64) (patch 0 (md_rest s) buf) = md_rest s"
  using mod_less_divisor [of 64 "length s"] by (simp add: patch_def del: mod_less_divisor)

text \<open>The padding: one bit, zeros up to 56 bytes modulo 64, and the bit count in eight bytes.\<close>

definition md_pad :: "(u64 \<Rightarrow> bytes) \<Rightarrow> nat \<Rightarrow> bytes" where
  "md_pad enc n = 0x80 # zeros ((119 - n mod 64) mod 64) @ enc (of_nat (8 * n))"

lemma md_pad_length:
  assumes "length (enc (of_nat (8 * n))) = 8"
  shows "(n + length (md_pad enc n)) mod 64 = 0"
proof -
  have "(n + 9 + (119 - n mod 64) mod 64) mod 64 = (n + 9 + (119 - n mod 64)) mod 64" by (rule mod_add_right_eq)
  also have "n + 9 + (119 - n mod 64) = 64 * (n div 64) + 128" using mod_less_divisor [of 64 n] mult_div_mod_eq [of 64 n] by arith
  finally show ?thesis using assms by (simp add: md_pad_def ac_simps)
qed

definition md_hash_of :: "('s \<Rightarrow> bytes \<Rightarrow> 's) \<Rightarrow> 's \<Rightarrow> (u64 \<Rightarrow> bytes) \<Rightarrow> ('s \<Rightarrow> bytes) \<Rightarrow> bytes \<Rightarrow> bytes" where
  "md_hash_of f iv enc out M = out (md_chain f iv (M @ md_pad enc (length M)))"


section \<open>The contract\<close>

definition count_index :: "u64 \<Rightarrow> nat" where
  "count_index w = unat (drop_bit 3 w) mod 64"

lemma count_index_less [simp]: "count_index w < 64"
  by (simp add: count_index_def)

lemma unat_drop_3: "unat (drop_bit 3 (w :: u64)) = unat w div 8"
  by (simp add: drop_bit_eq_div unat_div)

lemma count_index_add: "count_index (w + of_nat (8 * k)) = (count_index w + k) mod 64"
proof -
  have i: "x mod 2 ^ 64 div 8 mod 64 = x div 8 mod (64 :: nat)" for x
  proof -
    have "x mod (8 * 2 ^ 61) = 8 * (x div 8 mod 2 ^ 61) + x mod 8" by (rule mod_mult2_eq)
    then have "x mod 2 ^ 64 div 8 = x div 8 mod 2 ^ 61" by simp
    moreover have "(64 :: nat) dvd 2 ^ 61" by (rule dvdI [of _ _ "2 ^ 55"]) simp
    ultimately show ?thesis by (simp only: mod_mod_cancel)
  qed
  have "unat (w + of_nat (8 * k)) = (unat w + 8 * k) mod 2 ^ 64"
    by (simp only: unat_word_ariths(1) unat_of_nat mod_add_right_eq) simp
  then have "count_index (w + of_nat (8 * k)) = (unat w + 8 * k) mod 2 ^ 64 div 8 mod 64"
    by (simp only: count_index_def unat_drop_3)
  also have "\<dots> = (unat w div 8 + k) mod 64" unfolding i by (simp add: add.commute)
  also have "\<dots> = (count_index w + k) mod 64"
    by (simp add: count_index_def unat_drop_3 mod_add_left_eq)
  finally show ?thesis .
qed

lemma count_index_length: "count_index (of_nat (8 * n)) = n mod 64"
  using count_index_add [of 0 n] by (simp add: count_index_def)

text \<open>
  The view of a context: chaining value, bit count and buffer. \<open>absorbed f v p v'\<close> says that the bytes \<open>p\<close>
  took a context from \<open>v\<close> to \<open>v'\<close>.
\<close>

definition absorbed :: "('s \<Rightarrow> bytes \<Rightarrow> 's) \<Rightarrow> 's \<times> u64 \<times> bytes \<Rightarrow> bytes \<Rightarrow> 's \<times> u64 \<times> bytes \<Rightarrow> bool" where
  "absorbed f = (\<lambda>(s, w, b) p (s', w', b'). 64 \<le> length b \<and> 64 \<le> length b' \<and> w' = w + of_nat (8 * length p) \<and>
     s' = md_chain f s (take (count_index w) b @ p) \<and> take (count_index w') b' = md_rest (take (count_index w) b @ p))"

lemma absorbed_trans: "absorbed f v p v' \<Longrightarrow> absorbed f v' q v'' \<Longrightarrow> absorbed f v (p @ q) v''"
  by (auto simp: absorbed_def md_chain_absorb [of f _ "take x y @ p" q for x y, simplified] md_rest_absorb [of "take x y @ p" q for x y, simplified]
      algebra_simps split: prod.splits)

lemma absorbedI:
  assumes "64 \<le> length b" "64 \<le> length b'" "w' = w + of_nat (8 * length p)" "s' = md_chain f s (take (count_index w) b @ p)"
    and "take (length (take (count_index w) b @ p) mod 64) b' = md_rest (take (count_index w) b @ p)"
  shows "absorbed f (s, w, b) p (s', w', b')"
proof -
  have "length (take (count_index w) b) = count_index w" using assms(1) count_index_less [of w] by (simp del: count_index_less)
  then have "length (take (count_index w) b @ p) mod 64 = count_index w'" by (simp add: assms(3) count_index_add [simplified])
  then show ?thesis using assms by (simp add: absorbed_def)
qed

locale md_hash =
  fixes compress :: "'s \<Rightarrow> bytes \<Rightarrow> 's" and iv :: 's and enc :: "u64 \<Rightarrow> bytes" and out :: "'s \<Rightarrow> bytes" and view :: "'c \<Rightarrow> 's \<times> u64 \<times> bytes"
    and init :: "'c \<Rightarrow> 'c" and update :: "'c \<Rightarrow> bytes \<Rightarrow> 'c" and final :: "'c \<Rightarrow> bytes \<times> 'c" and digest_length :: nat
  assumes init_law: "view c = (s, w, b) \<Longrightarrow> 64 \<le> length b \<Longrightarrow> \<exists>b'. view (init c) = (iv, 0, b') \<and> 64 \<le> length b'"
    and update_law: "view c = (s, w, b) \<Longrightarrow> 64 \<le> length b \<Longrightarrow> length d < 2 ^ 29 \<Longrightarrow> absorbed compress (view c) d (view (update c d))"
    and final_law: "view c = (s, w, b) \<Longrightarrow> 64 \<le> length b \<Longrightarrow>
      fst (final c) = out (md_chain compress s (take (count_index w) b @ 0x80 # zeros ((119 - count_index w) mod 64) @ enc w)) \<and>
      64 \<le> length (snd (snd (view (snd (final c)))))"
    and out_length: "length (out x) = digest_length"
    and digest_fits: "digest_length \<le> 64"
begin

text \<open>The context has absorbed the message \<open>M\<close> since its initialisation.\<close>

definition holds :: "'c \<Rightarrow> bytes \<Rightarrow> bool" where
  "holds c M \<longleftrightarrow> (\<exists>b. 64 \<le> length b \<and> absorbed compress (iv, 0, b) M (view c))"

definition roomy :: "'c \<Rightarrow> bool" where
  "roomy c \<longleftrightarrow> 64 \<le> length (snd (snd (view c)))"

definition hash :: "bytes \<Rightarrow> bytes" where
  "hash = md_hash_of compress iv enc out"

lemma count_index_0: "count_index 0 = 0"
  by (simp add: count_index_def)

lemma holds_init: "roomy c \<Longrightarrow> holds (init c) []"
  using init_law [of c "fst (view c)" "fst (snd (view c))" "snd (snd (view c))"]
  by (auto simp: roomy_def holds_def absorbed_def md_chain_short md_rest_short count_index_0)

lemma holds_view:
  assumes "holds c M"
  obtains b where "view c = (md_chain compress iv M, of_nat (8 * length M), b)" "64 \<le> length b" "take (length M mod 64) b = md_rest M"
proof -
  obtain s w b' where v: "view c = (s, w, b')" by (cases "view c")
  obtain b where "absorbed compress (iv, 0, b) M (s, w, b')" using assms v by (auto simp: holds_def)
  then show thesis using that [of b'] v count_index_length [of "length M"] by (auto simp: absorbed_def count_index_0)
qed

lemma holds_update:
  assumes "holds c M" "length d < 2 ^ 29"
  shows "holds (update c d) (M @ d)"
proof -
  obtain b where v: "view c = (md_chain compress iv M, of_nat (8 * length M), b)" "64 \<le> length b" by (rule holds_view [OF assms(1)])
  from update_law [OF this assms(2)] show ?thesis using assms(1) by (auto simp: holds_def intro: absorbed_trans)
qed

lemma final_hash:
  assumes "holds c M"
  shows "fst (final c) = hash M \<and> roomy (snd (final c))"
proof -
  obtain b where v: "view c = (md_chain compress iv M, of_nat (8 * length M), b)" "64 \<le> length b" "take (length M mod 64) b = md_rest M"
    by (rule holds_view [OF assms])
  from final_law [OF v(1,2)] show ?thesis
    unfolding roomy_def hash_def md_hash_of_def md_pad_def count_index_length v(3) by (simp add: md_chain_absorb [of compress iv M])
qed

lemma length_hash: "length (hash M) = digest_length"
  by (simp add: hash_def md_hash_of_def out_length)

lemma holds_parts:
  assumes "roomy c" "\<forall>p \<in> set parts. length p < 2 ^ 29"
  shows "holds (fold (\<lambda>p c. update c p) parts (init c)) (concat parts)"
proof -
  have "holds (fold (\<lambda>p c. update c p) parts c') (M @ concat parts)" if "holds c' M" for c' M
    using that assms(2) by (induction parts arbitrary: c' M) (simp_all add: holds_update flip: append_assoc)
  from this [OF holds_init [OF assms(1)]] show ?thesis by simp
qed

lemma digest_of_parts:
  "roomy c \<Longrightarrow> \<forall>p \<in> set parts. length p < 2 ^ 29 \<Longrightarrow> fst (final (fold (\<lambda>p c. update c p) parts (init c))) = hash (concat parts)"
  by (simp add: final_hash [OF holds_parts])

text \<open>A message in two parts, as the outer hash of HMAC has it.\<close>

lemma digest_of_two:
  "roomy c \<Longrightarrow> length p < 2 ^ 29 \<Longrightarrow> length q < 2 ^ 29 \<Longrightarrow> fst (final (update (update (init c) p) q)) = hash (p @ q)"
  using digest_of_parts [of c "[p, q]"] by simp

end

section \<open>HMAC\<close>

text \<open>
  \<open>crypto/hmac.c\<close> has the same three routines for MD5, SHA-1 and SHA-256. They are written once here over
  the operations of the hash, and instantiated where the hash is defined.
\<close>

record 'c HMAC_CTX =
  hm_ctx :: 'c
  hm_key :: bytes
  hm_key_len :: nat

definition hmac_pad :: "u8 \<Rightarrow> 'c HMAC_CTX \<Rightarrow> bytes" where
  "hmac_pad b ctx = map (\<lambda>x. x XOR b) (patch 0 (take (hm_key_len ctx) (hm_key ctx)) (zeros 64))"

definition HMAC_Init :: "('c \<Rightarrow> 'c) \<Rightarrow> ('c \<Rightarrow> bytes \<Rightarrow> 'c) \<Rightarrow> ('c \<Rightarrow> bytes \<times> 'c) \<Rightarrow> nat \<Rightarrow> 'c HMAC_CTX \<Rightarrow> bytes \<Rightarrow> 'c HMAC_CTX" where
  "HMAC_Init init update final digest_length ctx key =
     (let ctx = (if 64 < length key then
            case final (update (init (hm_ctx ctx)) key) of
              (digest, c) \<Rightarrow> ctx\<lparr>hm_ctx := c, hm_key := patch 0 digest (hm_key ctx), hm_key_len := digest_length\<rparr>
          else ctx\<lparr>hm_key := patch 0 key (hm_key ctx), hm_key_len := length key\<rparr>)
      in ctx\<lparr>hm_ctx := update (init (hm_ctx ctx)) (hmac_pad 0x36 ctx)\<rparr>)"

definition HMAC_Update :: "('c \<Rightarrow> bytes \<Rightarrow> 'c) \<Rightarrow> 'c HMAC_CTX \<Rightarrow> bytes \<Rightarrow> 'c HMAC_CTX" where
  "HMAC_Update update ctx data = ctx\<lparr>hm_ctx := update (hm_ctx ctx) data\<rparr>"

definition HMAC_Final :: "('c \<Rightarrow> 'c) \<Rightarrow> ('c \<Rightarrow> bytes \<Rightarrow> 'c) \<Rightarrow> ('c \<Rightarrow> bytes \<times> 'c) \<Rightarrow> 'c HMAC_CTX \<Rightarrow> bytes \<times> 'c HMAC_CTX" where
  "HMAC_Final init update final ctx =
     (case final (hm_ctx ctx) of
        (inner, c) \<Rightarrow> case final (update (update (init c) (hmac_pad 0x5c ctx)) inner) of
          (digest, c) \<Rightarrow> (digest, ctx\<lparr>hm_ctx := c\<rparr>))"

lemma hmac_final_digest: "fst (HMAC_Final init update final ctx) =
    fst (final (update (update (init (snd (final (hm_ctx ctx)))) (hmac_pad 0x5c ctx)) (fst (final (hm_ctx ctx)))))"
  by (simp add: HMAC_Final_def split: prod.split)

text \<open>The keyed hash of RFC 2104 over a hash function \<open>H\<close> with blocks of 64 bytes.\<close>

definition hmac_spec :: "(bytes \<Rightarrow> bytes) \<Rightarrow> bytes \<Rightarrow> bytes \<Rightarrow> bytes" where
  "hmac_spec H key M =
     (let k = (if 64 < length key then H key else key); k0 = k @ zeros (64 - length k) in
      H (map (\<lambda>x. x XOR 0x5c) k0 @ H (map (\<lambda>x. x XOR 0x36) k0 @ M)))"

context md_hash
begin

lemma hmac_parts:
  assumes "roomy (hm_ctx ctx)" "length (hm_key ctx) = 64" "length key < 2 ^ 29" "\<forall>p \<in> set parts. length p < 2 ^ 29"
  shows "fst (HMAC_Final init update final (fold (\<lambda>p ctx. HMAC_Update update ctx p) parts (HMAC_Init init update final digest_length ctx key)))
    = hmac_spec hash key (concat parts)"
proof -
  define k where "k = (if 64 < length key then hash key else key)"
  let ?ctx = "HMAC_Init init update final digest_length ctx key"
  have k: "length k \<le> 64" using digest_fits by (simp add: k_def length_hash)
  have key: "fst (final (update (init (hm_ctx ctx)) key)) = hash key \<and> roomy (snd (final (update (init (hm_ctx ctx)) key)))"
    using final_hash [OF holds_update [OF holds_init [OF assms(1)] assms(3)]] by simp
  have pad: "hmac_pad b c = map (\<lambda>x. x XOR b) (k @ zeros (64 - length k))" if "take (hm_key_len c) (hm_key c) = k" for b c
    using k by (simp add: hmac_pad_def that patch_def zeros_def)
  define c1 where "c1 = (if 64 < length key then
      case final (update (init (hm_ctx ctx)) key) of
        (digest, c) \<Rightarrow> ctx\<lparr>hm_ctx := c, hm_key := patch 0 digest (hm_key ctx), hm_key_len := digest_length\<rparr>
      else ctx\<lparr>hm_key := patch 0 key (hm_key ctx), hm_key_len := length key\<rparr>)"
  have c1: "roomy (hm_ctx c1)" "take (hm_key_len c1) (hm_key c1) = k"
    using key assms(1,2) digest_fits length_hash [of key] by (auto simp: c1_def k_def patch_def split: prod.splits)
  have e: "?ctx = c1\<lparr>hm_ctx := update (init (hm_ctx c1)) (hmac_pad 0x36 c1)\<rparr>" unfolding HMAC_Init_def c1_def [symmetric] Let_def by (rule refl)
  have pl: "length (map (\<lambda>x. x XOR b) (k @ zeros (64 - length k))) < 2 ^ 29" for b using k by simp
  have "fold (\<lambda>p ctx. HMAC_Update update ctx p) parts c = c\<lparr>hm_ctx := fold (\<lambda>p c. update c p) parts (hm_ctx c)\<rparr>" for c
    by (induction parts arbitrary: c) (simp_all add: HMAC_Update_def)
  then have f: "fold (\<lambda>p ctx. HMAC_Update update ctx p) parts ?ctx =
      c1\<lparr>hm_ctx := fold (\<lambda>p c. update c p) (hmac_pad 0x36 c1 # parts) (init (hm_ctx c1))\<rparr>" by (simp add: e)
  let ?inner = "fold (\<lambda>p c. update c p) (hmac_pad 0x36 c1 # parts) (init (hm_ctx c1))"
  have "holds ?inner (hmac_pad 0x36 c1 @ concat parts)"
    using holds_parts [OF c1(1), of "hmac_pad 0x36 c1 # parts"] assms(4) pl by (simp add: pad [OF c1(2)])
  note inner = final_hash [OF this]
  have "length (fst (final ?inner)) < 2 ^ 29" using inner digest_fits by (simp add: length_hash)
  then have "fst (final (update (update (init (snd (final ?inner))) (hmac_pad 0x5c c1)) (fst (final ?inner)))) =
      hash (hmac_pad 0x5c c1 @ hash (hmac_pad 0x36 c1 @ concat parts))"
    using digest_of_two [of "snd (final ?inner)" "hmac_pad 0x5c c1" "fst (final ?inner)"] inner pl by (simp add: pad [OF c1(2)])
  moreover have "hmac_pad b (c1\<lparr>hm_ctx := x\<rparr>) = hmac_pad b c1" for b x by (simp add: hmac_pad_def)
  ultimately show ?thesis
    unfolding f hmac_final_digest by (simp add: hmac_spec_def Let_def pad [OF c1(2)] flip: k_def)
qed

end

end
