(* ===== verification/Sha1.thy ===== *)
theory Sha1
  imports Hash_Buffer
begin

text \<open>
  SHA-1 (\<open>rtw80211/openbsd/crypto/sha1.c\<close>), HMAC-SHA1 and the key derivation built on it
  (\<open>crypto/hmac.c\<close>, \<open>crypto/sha1-pbkdf2.c\<close>). The block is read into sixteen words in place and expanded there;
  the machine is little-endian.
\<close>

section \<open>The count\<close>

lemma unat_take_6: "unat (take_bit 6 (drop_bit 3 w :: u64)) = count_index w"
  by (simp add: count_index_def take_bit_eq_mod unat_mod)

lemma count_and_63: "unat (drop_bit 3 w AND 63 :: u64) = count_index w"
proof -
  have "(63 :: u64) = mask 6" by (simp add: mask_eq_exp_minus_1)
  then show ?thesis using unat_take_6 [of w] by (simp add: take_bit_eq_mask)
qed

section \<open>Definitions\<close>

definition rol :: "u32 \<Rightarrow> nat \<Rightarrow> u32" where
  "rol v bits = push_bit bits v OR drop_bit (32 - bits) v"

definition blk0 :: "nat \<Rightarrow> u32 list \<Rightarrow> u32 \<times> u32 list" where
  "blk0 i l = (let v = (rol (l ! i) 24 AND 0xFF00FF00) OR (rol (l ! i) 8 AND 0x00FF00FF) in (v, l[i := v]))"

definition blk :: "nat \<Rightarrow> u32 list \<Rightarrow> u32 \<times> u32 list" where
  "blk i l = (let v = rol (l ! ((i + 13) mod 16) XOR l ! ((i + 8) mod 16) XOR l ! ((i + 2) mod 16) XOR l ! (i mod 16)) 1
     in (v, l[i mod 16 := v]))"

text \<open>Each round macro changes \<open>z\<close>, \<open>w\<close> and the block.\<close>

definition SHA1_R0 :: "u32 \<Rightarrow> u32 \<Rightarrow> u32 \<Rightarrow> u32 \<Rightarrow> u32 \<Rightarrow> nat \<Rightarrow> u32 list \<Rightarrow> u32 \<times> u32 \<times> u32 list" where
  "SHA1_R0 v w x y z i l = (case blk0 i l of (b, l) \<Rightarrow> (z + (((w AND (x XOR y)) XOR y) + b + 0x5A827999 + rol v 5), rol w 30, l))"

definition SHA1_R1 :: "u32 \<Rightarrow> u32 \<Rightarrow> u32 \<Rightarrow> u32 \<Rightarrow> u32 \<Rightarrow> nat \<Rightarrow> u32 list \<Rightarrow> u32 \<times> u32 \<times> u32 list" where
  "SHA1_R1 v w x y z i l = (case blk i l of (b, l) \<Rightarrow> (z + (((w AND (x XOR y)) XOR y) + b + 0x5A827999 + rol v 5), rol w 30, l))"

definition SHA1_R2 :: "u32 \<Rightarrow> u32 \<Rightarrow> u32 \<Rightarrow> u32 \<Rightarrow> u32 \<Rightarrow> nat \<Rightarrow> u32 list \<Rightarrow> u32 \<times> u32 \<times> u32 list" where
  "SHA1_R2 v w x y z i l = (case blk i l of (b, l) \<Rightarrow> (z + ((w XOR x XOR y) + b + 0x6ED9EBA1 + rol v 5), rol w 30, l))"

definition SHA1_R3 :: "u32 \<Rightarrow> u32 \<Rightarrow> u32 \<Rightarrow> u32 \<Rightarrow> u32 \<Rightarrow> nat \<Rightarrow> u32 list \<Rightarrow> u32 \<times> u32 \<times> u32 list" where
  "SHA1_R3 v w x y z i l = (case blk i l of (b, l) \<Rightarrow> (z + ((((w OR x) AND y) OR (w AND x)) + b + 0x8F1BBCDC + rol v 5), rol w 30, l))"

definition SHA1_R4 :: "u32 \<Rightarrow> u32 \<Rightarrow> u32 \<Rightarrow> u32 \<Rightarrow> u32 \<Rightarrow> nat \<Rightarrow> u32 list \<Rightarrow> u32 \<times> u32 \<times> u32 list" where
  "SHA1_R4 v w x y z i l = (case blk i l of (b, l) \<Rightarrow> (z + ((w XOR x XOR y) + b + 0xCA62C1D6 + rol v 5), rol w 30, l))"

definition SHA1_rounds :: "u32 \<Rightarrow> u32 \<Rightarrow> u32 \<Rightarrow> u32 \<Rightarrow> u32 \<Rightarrow> u32 list \<Rightarrow> u32 \<times> u32 \<times> u32 \<times> u32 \<times> u32 \<times> u32 list" where
  "SHA1_rounds a b c d e l = (let
    (e, b, l) = SHA1_R0 a b c d e 0 l; (d, a, l) = SHA1_R0 e a b c d 1 l; (c, e, l) = SHA1_R0 d e a b c 2 l; (b, d, l) = SHA1_R0 c d e a b 3 l;
    (a, c, l) = SHA1_R0 b c d e a 4 l; (e, b, l) = SHA1_R0 a b c d e 5 l; (d, a, l) = SHA1_R0 e a b c d 6 l; (c, e, l) = SHA1_R0 d e a b c 7 l;
    (b, d, l) = SHA1_R0 c d e a b 8 l; (a, c, l) = SHA1_R0 b c d e a 9 l; (e, b, l) = SHA1_R0 a b c d e 10 l; (d, a, l) = SHA1_R0 e a b c d 11 l;
    (c, e, l) = SHA1_R0 d e a b c 12 l; (b, d, l) = SHA1_R0 c d e a b 13 l; (a, c, l) = SHA1_R0 b c d e a 14 l; (e, b, l) = SHA1_R0 a b c d e 15 l;
    (d, a, l) = SHA1_R1 e a b c d 16 l; (c, e, l) = SHA1_R1 d e a b c 17 l; (b, d, l) = SHA1_R1 c d e a b 18 l; (a, c, l) = SHA1_R1 b c d e a 19 l;
    (e, b, l) = SHA1_R2 a b c d e 20 l; (d, a, l) = SHA1_R2 e a b c d 21 l; (c, e, l) = SHA1_R2 d e a b c 22 l; (b, d, l) = SHA1_R2 c d e a b 23 l;
    (a, c, l) = SHA1_R2 b c d e a 24 l; (e, b, l) = SHA1_R2 a b c d e 25 l; (d, a, l) = SHA1_R2 e a b c d 26 l; (c, e, l) = SHA1_R2 d e a b c 27 l;
    (b, d, l) = SHA1_R2 c d e a b 28 l; (a, c, l) = SHA1_R2 b c d e a 29 l; (e, b, l) = SHA1_R2 a b c d e 30 l; (d, a, l) = SHA1_R2 e a b c d 31 l;
    (c, e, l) = SHA1_R2 d e a b c 32 l; (b, d, l) = SHA1_R2 c d e a b 33 l; (a, c, l) = SHA1_R2 b c d e a 34 l; (e, b, l) = SHA1_R2 a b c d e 35 l;
    (d, a, l) = SHA1_R2 e a b c d 36 l; (c, e, l) = SHA1_R2 d e a b c 37 l; (b, d, l) = SHA1_R2 c d e a b 38 l; (a, c, l) = SHA1_R2 b c d e a 39 l;
    (e, b, l) = SHA1_R3 a b c d e 40 l; (d, a, l) = SHA1_R3 e a b c d 41 l; (c, e, l) = SHA1_R3 d e a b c 42 l; (b, d, l) = SHA1_R3 c d e a b 43 l;
    (a, c, l) = SHA1_R3 b c d e a 44 l; (e, b, l) = SHA1_R3 a b c d e 45 l; (d, a, l) = SHA1_R3 e a b c d 46 l; (c, e, l) = SHA1_R3 d e a b c 47 l;
    (b, d, l) = SHA1_R3 c d e a b 48 l; (a, c, l) = SHA1_R3 b c d e a 49 l; (e, b, l) = SHA1_R3 a b c d e 50 l; (d, a, l) = SHA1_R3 e a b c d 51 l;
    (c, e, l) = SHA1_R3 d e a b c 52 l; (b, d, l) = SHA1_R3 c d e a b 53 l; (a, c, l) = SHA1_R3 b c d e a 54 l; (e, b, l) = SHA1_R3 a b c d e 55 l;
    (d, a, l) = SHA1_R3 e a b c d 56 l; (c, e, l) = SHA1_R3 d e a b c 57 l; (b, d, l) = SHA1_R3 c d e a b 58 l; (a, c, l) = SHA1_R3 b c d e a 59 l;
    (e, b, l) = SHA1_R4 a b c d e 60 l; (d, a, l) = SHA1_R4 e a b c d 61 l; (c, e, l) = SHA1_R4 d e a b c 62 l; (b, d, l) = SHA1_R4 c d e a b 63 l;
    (a, c, l) = SHA1_R4 b c d e a 64 l; (e, b, l) = SHA1_R4 a b c d e 65 l; (d, a, l) = SHA1_R4 e a b c d 66 l; (c, e, l) = SHA1_R4 d e a b c 67 l;
    (b, d, l) = SHA1_R4 c d e a b 68 l; (a, c, l) = SHA1_R4 b c d e a 69 l; (e, b, l) = SHA1_R4 a b c d e 70 l; (d, a, l) = SHA1_R4 e a b c d 71 l;
    (c, e, l) = SHA1_R4 d e a b c 72 l; (b, d, l) = SHA1_R4 c d e a b 73 l; (a, c, l) = SHA1_R4 b c d e a 74 l; (e, b, l) = SHA1_R4 a b c d e 75 l;
    (d, a, l) = SHA1_R4 e a b c d 76 l; (c, e, l) = SHA1_R4 d e a b c 77 l; (b, d, l) = SHA1_R4 c d e a b 78 l; (a, c, l) = SHA1_R4 b c d e a 79 l
   in (a, b, c, d, e, l))"

definition SHA1Transform :: "u32 list \<Rightarrow> bytes \<Rightarrow> u32 list" where
  "SHA1Transform state buffer =
     (case SHA1_rounds (state ! 0) (state ! 1) (state ! 2) (state ! 3) (state ! 4) (map (\<lambda>i. le32 buffer (4 * i)) [0..<16]) of
        (a, b, c, d, e, l) \<Rightarrow> [state ! 0 + a, state ! 1 + b, state ! 2 + c, state ! 3 + d, state ! 4 + e])"


record SHA1_CTX =
  sha1_state :: "u32 list"
  sha1_count :: u64
  sha1_buffer :: bytes

definition SHA1Init :: "SHA1_CTX \<Rightarrow> SHA1_CTX" where
  "SHA1Init context = context\<lparr>sha1_count := 0, sha1_state := [0x67452301, 0xEFCDAB89, 0x98BADCFE, 0x10325476, 0xC3D2E1F0]\<rparr>"

function sha1_blocks :: "u32 list \<Rightarrow> bytes \<Rightarrow> nat \<Rightarrow> u32 list \<times> nat" where
  "sha1_blocks state data i =
     (if i + 63 < length data then sha1_blocks (SHA1Transform state (drop i data)) data (i + 64) else (state, i))"
  by pat_completeness auto
termination
  by (relation "measure (\<lambda>(state, data, i). length data - i)") auto

declare sha1_blocks.simps [simp del]

text \<open>
  The length is an \<open>unsigned int\<close>: the shift of the bit count is made in 32 bits. Messages stay clear of \<open>2 ^ 32 - 64\<close>
  bytes, so that \<open>j + len\<close> itself does not wrap.
\<close>

definition SHA1Update :: "SHA1_CTX \<Rightarrow> bytes \<Rightarrow> SHA1_CTX" where
  "SHA1Update context data =
     (let len = length data; j = unat (drop_bit 3 (sha1_count context) AND 63);
          context = context\<lparr>sha1_count := sha1_count context + ucast (push_bit 3 (of_nat len :: u32))\<rparr> in
      if j + len > 63 then
        let buffer = patch j (take (64 - j) data) (sha1_buffer context);
            (state, i) = sha1_blocks (SHA1Transform (sha1_state context) buffer) data (64 - j)
        in context\<lparr>sha1_state := state, sha1_buffer := patch 0 (drop i data) buffer\<rparr>
      else context\<lparr>sha1_buffer := patch j data (sha1_buffer context)\<rparr>)"

lemma SHA1Update_count [simp]: "sha1_count (SHA1Update context data) = sha1_count context + ucast (push_bit 3 (of_nat (length data) :: u32))"
  by (simp add: SHA1Update_def Let_def split: prod.split)

text \<open>The padding loop of \<open>SHA1Final\<close>: one zero byte at a time until the count stands at 56 modulo 64 bytes.\<close>

lemma count_504: "w AND 504 = 448 \<longleftrightarrow> count_index w = 56"
proof -
  let ?i = "take_bit 6 (drop_bit 3 w)"
  have m: "(504 :: u64) = push_bit 3 (mask 6)" by (simp add: mask_eq_exp_minus_1)
  have "bit (504 :: u64) n \<longleftrightarrow> 3 \<le> n \<and> n - 3 < 6" if "n < 64" for n unfolding m using that by (auto simp: bit_simps)
  then have a: "w AND 504 = push_bit 3 ?i" by (auto intro!: bit_word_eqI simp: bit_and_iff bit_push_bit_iff bit_take_bit_iff bit_drop_bit_eq)
  have "drop_bit 3 (push_bit 3 ?i) = ?i" by (auto intro!: bit_word_eqI simp: bit_simps)
  moreover have "push_bit 3 (56 :: u64) = 448" "drop_bit 3 (448 :: u64) = 56" by simp_all
  ultimately have "push_bit 3 ?i = 448 \<longleftrightarrow> ?i = 56" by metis
  also have "\<dots> \<longleftrightarrow> count_index w = 56" unfolding word_unat_eq_iff unat_take_6 by simp
  finally show ?thesis using a by simp
qed

lemma count_index_next: "count_index (w + 8) = (if count_index w = 63 then 0 else count_index w + 1)"
  using count_index_add [of w 1] by (simp add: mod_Suc)

lemma count_index_step:
  assumes "count_index w \<noteq> 56"
  shows "(120 - count_index w) mod 64 = Suc ((120 - count_index (w + 8)) mod 64)"
proof -
  define c where "c = count_index w"
  have c: "c < 64" "c \<noteq> 56" "count_index (w + 8) = (if c = 63 then 0 else c + 1)"
    using assms by (auto simp: c_def count_index_next)
  consider "c < 56" | "56 < c" "c < 63" | "c = 63" using c(1,2) by linarith
  then show ?thesis using c(3) unfolding c_def [symmetric] by cases (auto simp: mod_if)
qed

lemma count_index_pad: "(120 - count_index (w + 8)) mod 64 = (119 - count_index w) mod 64"
  using count_index_less [of w] by (simp add: count_index_next del: count_index_less)

function sha1_pad_zeros :: "SHA1_CTX \<Rightarrow> SHA1_CTX" where
  "sha1_pad_zeros context = (if sha1_count context AND 504 \<noteq> 448 then sha1_pad_zeros (SHA1Update context [0]) else context)"
  by pat_completeness auto
termination
  by (relation "measure (\<lambda>context. (120 - count_index (sha1_count context)) mod 64)") (auto simp: count_504 count_index_step)

declare sha1_pad_zeros.simps [simp del]

definition sha1_be :: "u64 \<Rightarrow> bytes" where
  "sha1_be count = map (\<lambda>i. ucast (drop_bit ((7 - i) * 8) count AND 255)) [0..<8]"

definition sha1_digest :: "u32 list \<Rightarrow> bytes" where
  "sha1_digest state = map (\<lambda>i. ucast (drop_bit ((3 - i mod 4) * 8) (state ! (i div 4)) AND 255)) [0..<20]"

definition SHA1Final :: "SHA1_CTX \<Rightarrow> bytes \<times> SHA1_CTX" where
  "SHA1Final context =
     (let finalcount = sha1_be (sha1_count context);
          context = SHA1Update (sha1_pad_zeros (SHA1Update context [0x80])) finalcount
      in (sha1_digest (sha1_state context), \<lparr>sha1_state = replicate 5 0, sha1_count = 0, sha1_buffer = zeros 64\<rparr>))"


section \<open>The hash\<close>

lemma SHA1Transform_take: "64 \<le> length p \<Longrightarrow> SHA1Transform s p = SHA1Transform s (take 64 p)"
proof -
  assume p: "64 \<le> length p"
  have "map (\<lambda>i. le32 p (4 * i)) [0..<16] = map (\<lambda>i. le32 (take 64 p) (4 * i)) [0..<16]"
    using p by (intro map_cong refl) (simp add: le32_def le16_def)
  then show ?thesis by (simp only: SHA1Transform_def)
qed

lemma sha1_blocks_eq:
  "i \<le> length data \<Longrightarrow> \<exists>k. sha1_blocks s data i = (md_chain SHA1Transform s (drop i data), k) \<and> drop k data = md_rest (drop i data)"
proof (induction s data i rule: sha1_blocks.induct)
  case (1 s data i)
  show ?case
  proof (cases "i + 63 < length data")
    case True
    then have "md_chain SHA1Transform s (drop i data) = md_chain SHA1Transform (SHA1Transform s (drop i data)) (drop (i + 64) data)"
      "md_rest (drop i data) = md_rest (drop (i + 64) data)"
      using md_step(1) [of "drop i data" SHA1Transform s] md_step(2) [of "drop i data"] by (simp_all add: SHA1Transform_take [of "drop i data"] add.commute)
    then show ?thesis using 1 True by (subst sha1_blocks.simps) simp
  next
    case False
    then show ?thesis by (subst sha1_blocks.simps) (simp add: md_chain_short md_rest_short)
  qed
qed

lemma push_3_length: "n < 2 ^ 29 \<Longrightarrow> (ucast (push_bit 3 (of_nat n :: u32)) :: u64) = of_nat (8 * n)"
proof -
  assume n: "n < 2 ^ 29"
  have "unat (push_bit 3 (of_nat n :: u32)) = 8 * n"
    using n by (simp add: push_bit_eq_mult unat_word_ariths(2) unat_of_nat)
  then show ?thesis using n by (simp add: word_unat_eq_iff unat_ucast_up unat_word_ariths(2) unat_of_nat)
qed

lemma SHA1Update_law:
  assumes "64 \<le> length (sha1_buffer c)" "length d < 2 ^ 29" "s = take (count_index (sha1_count c)) (sha1_buffer c) @ d"
  shows "sha1_state (SHA1Update c d) = md_chain SHA1Transform (sha1_state c) s \<and> sha1_count (SHA1Update c d) = sha1_count c + of_nat (8 * length d) \<and>
    64 \<le> length (sha1_buffer (SHA1Update c d)) \<and> take (length s mod 64) (sha1_buffer (SHA1Update c d)) = md_rest s"
proof -
  define j where "j = count_index (sha1_count c)"
  have j: "j < 64" "unat (drop_bit 3 (sha1_count c) AND 63) = j" by (simp_all add: j_def count_and_63)
  have n: "sha1_count (SHA1Update c d) = sha1_count c + of_nat (8 * length d)" using push_3_length [OF assms(2)] by simp
  show ?thesis
  proof (cases "j + length d > 63")
    case True
    let ?b = "patch j (take (64 - j) d) (sha1_buffer c)"
    have jb: "j \<le> length (sha1_buffer c)" "64 \<le> j + length d" using assms(1) j(1) True by simp_all
    obtain k where k: "sha1_blocks (SHA1Transform (sha1_state c) ?b) d (64 - j) = (md_chain SHA1Transform (SHA1Transform (sha1_state c) ?b) (drop (64 - j) d), k)"
      "drop k d = md_rest (drop (64 - j) d)" using sha1_blocks_eq [of "64 - j" d] True j(1) by fastforce
    have b: "length ?b = length (sha1_buffer c)" "take 64 ?b = take j (sha1_buffer c) @ take (64 - j) d"
      using take_patch_fill [of j "sha1_buffer c" d] assms(1) j(1) True by simp_all
    have u: "sha1_state (SHA1Update c d) = md_chain SHA1Transform (SHA1Transform (sha1_state c) ?b) (drop (64 - j) d)" "sha1_buffer (SHA1Update c d) = patch 0 (drop k d) ?b"
      unfolding SHA1Update_def Let_def j(2) using True k(1) by simp_all
    have m: "md_chain SHA1Transform (sha1_state c) s = sha1_state (SHA1Update c d)" "md_rest s = drop k d"
      using md_fill [of j "sha1_buffer c" d] jb assms j(1) True b SHA1Transform_take [of ?b "sha1_state c"] u(1) k(2) by (simp_all add: j_def)
    show ?thesis using n m(1) u(2) patch_rest [of ?b s] b(1) assms(1) by (simp add: m(2))
  next
    case False
    have "SHA1Update c d = c\<lparr>sha1_count := sha1_count c + ucast (push_bit 3 (of_nat (length d) :: u32)), sha1_buffer := patch j d (sha1_buffer c)\<rparr>"
      unfolding SHA1Update_def Let_def j(2) using False by simp
    moreover have "length s = j + length d" using assms(1,3) j(1) by (simp flip: j_def)
    ultimately show ?thesis using n False assms(1,3) j_def take_patch_end [of j d "sha1_buffer c"] by (simp add: md_chain_short md_rest_short)
  qed
qed

definition sha1_view :: "SHA1_CTX \<Rightarrow> u32 list \<times> u64 \<times> bytes" where
  "sha1_view c = (sha1_state c, sha1_count c, sha1_buffer c)"

lemma SHA1Update_absorbed: "64 \<le> length (sha1_buffer c) \<Longrightarrow> length d < 2 ^ 29 \<Longrightarrow> absorbed SHA1Transform (sha1_view c) d (sha1_view (SHA1Update c d))"
  unfolding sha1_view_def using SHA1Update_law [OF _ _ refl, of c d] by (intro absorbedI) simp_all

lemma absorbed_roomy: "absorbed SHA1Transform (sha1_view c) p (sha1_view c') \<Longrightarrow> 64 \<le> length (sha1_buffer c')"
  by (simp add: absorbed_def sha1_view_def)

lemma sha1_pad_zeros_absorbed:
  "64 \<le> length (sha1_buffer c) \<Longrightarrow>
     absorbed SHA1Transform (sha1_view c) (zeros ((120 - count_index (sha1_count c)) mod 64)) (sha1_view (sha1_pad_zeros c))"
proof (induction c rule: sha1_pad_zeros.induct)
  case (1 c)
  show ?case
  proof (cases "count_index (sha1_count c) = 56")
    case True
    then show ?thesis using 1(2)
      by (subst sha1_pad_zeros.simps) (simp add: count_504 absorbed_def sha1_view_def md_chain_short md_rest_short zeros_def)
  next
    case False
    have u: "absorbed SHA1Transform (sha1_view c) [0] (sha1_view (SHA1Update c [0]))" using SHA1Update_absorbed [OF 1(2), of "[0]"] by simp
    have n: "sha1_count (SHA1Update c [0]) = sha1_count c + 8" by simp
    have "absorbed SHA1Transform (sha1_view (SHA1Update c [0])) (zeros ((120 - count_index (sha1_count c + 8)) mod 64)) (sha1_view (sha1_pad_zeros (SHA1Update c [0])))"
      using 1(1) [OF _ absorbed_roomy [OF u]] False by (simp add: count_504)
    from absorbed_trans [OF u this] show ?thesis
      using False by (subst sha1_pad_zeros.simps) (simp add: count_504 count_index_step zeros_def)
  qed
qed

lemma SHA1Final_law:
  assumes "64 \<le> length (sha1_buffer c)"
  shows "fst (SHA1Final c) = sha1_digest (md_chain SHA1Transform (sha1_state c) (take (count_index (sha1_count c)) (sha1_buffer c)
      @ 0x80 # zeros ((119 - count_index (sha1_count c)) mod 64) @ sha1_be (sha1_count c)))"
proof -
  let ?u = "SHA1Update c [0x80]"
  let ?z = "sha1_pad_zeros ?u"
  have u: "absorbed SHA1Transform (sha1_view c) [0x80] (sha1_view ?u)" using SHA1Update_absorbed [OF assms] by simp
  have "absorbed SHA1Transform (sha1_view ?u) (zeros ((119 - count_index (sha1_count c)) mod 64)) (sha1_view ?z)"
    using sha1_pad_zeros_absorbed [OF absorbed_roomy [OF u]] by (simp add: count_index_pad)
  note z = absorbed_trans [OF u this]
  have "absorbed SHA1Transform (sha1_view ?z) (sha1_be (sha1_count c)) (sha1_view (SHA1Update ?z (sha1_be (sha1_count c))))"
    using SHA1Update_absorbed [OF absorbed_roomy [OF z]] by (simp add: sha1_be_def)
  from absorbed_trans [OF z this] show ?thesis by (simp add: absorbed_def sha1_view_def SHA1Final_def)
qed

definition sha1_iv :: "u32 list" where
  "sha1_iv = [0x67452301, 0xEFCDAB89, 0x98BADCFE, 0x10325476, 0xC3D2E1F0]"

interpretation sha1: md_hash SHA1Transform sha1_iv sha1_be sha1_digest sha1_view SHA1Init SHA1Update SHA1Final 20
proof
  show "\<exists>b'. sha1_view (SHA1Init c) = (sha1_iv, 0, b') \<and> 64 \<le> length b'" if "sha1_view c = (s, w, b)" "64 \<le> length b" for c s w b
    using that by (simp add: sha1_view_def SHA1Init_def sha1_iv_def)
  show "absorbed SHA1Transform (sha1_view c) d (sha1_view (SHA1Update c d))" if "sha1_view c = (s, w, b)" "64 \<le> length b" "length d < 2 ^ 29" for c s w b d
    using that SHA1Update_absorbed [of c d] by (simp add: sha1_view_def)
  show "fst (SHA1Final c) = sha1_digest (md_chain SHA1Transform s (take (count_index w) b @ 0x80 # zeros ((119 - count_index w) mod 64) @ sha1_be w)) \<and>
      64 \<le> length (snd (snd (sha1_view (snd (SHA1Final c)))))" if "sha1_view c = (s, w, b)" "64 \<le> length b" for c s w b
    using that SHA1Final_law [of c] by (simp add: sha1_view_def) (simp add: SHA1Final_def)
qed (simp_all add: sha1_digest_def)

lemma sha1_pad_zeros_count: "count_index (sha1_count (sha1_pad_zeros c)) = 56"
proof (induction c rule: sha1_pad_zeros.induct)
  case (1 c)
  then show ?case by (cases "count_index (sha1_count c) = 56") (simp_all add: sha1_pad_zeros.simps [of c] count_504)
qed

lemma sha1_pad_zeros_steps: "sha1_pad_zeros c = ((\<lambda>c. SHA1Update c [0]) ^^ ((120 - count_index (sha1_count c)) mod 64)) c"
proof (induction c rule: sha1_pad_zeros.induct)
  case (1 c)
  have n: "sha1_count (SHA1Update c [0]) = sha1_count c + 8" by simp
  show ?case
  proof (cases "count_index (sha1_count c) = 56")
    case True
    then show ?thesis by (simp add: sha1_pad_zeros.simps [of c] count_504)
  next
    case False
    then have "sha1_pad_zeros c = sha1_pad_zeros (SHA1Update c [0])" by (simp add: sha1_pad_zeros.simps [of c] count_504)
    also have "\<dots> = ((\<lambda>c. SHA1Update c [0]) ^^ ((120 - count_index (sha1_count c + 8)) mod 64)) (SHA1Update c [0])" using 1 False by (simp add: n count_504)
    also have "\<dots> = ((\<lambda>c. SHA1Update c [0]) ^^ ((120 - count_index (sha1_count c)) mod 64)) c"
      unfolding count_index_step [OF False] funpow_Suc_right by simp
    finally show ?thesis .
  qed
qed

text \<open>
  C35: The padding loop of \<open>SHA1Final\<close> ends for every context: it appends exactly \<open>(120 - i) mod 64\<close> zero bytes, where \<open>i\<close> is the
  fill of the buffer, at most 63 of them, and leaves room for exactly the eight bytes of the bit count.
\<close>

theorem sha1_padding_terminates:
  "sha1_pad_zeros c = ((\<lambda>c. SHA1Update c [0]) ^^ ((120 - count_index (sha1_count c)) mod 64)) c \<and>
   count_index (sha1_count (sha1_pad_zeros c)) = 56"
  using sha1_pad_zeros_steps sha1_pad_zeros_count by blast

end
