(* ===== verification/Sha1_Rounds.thy ===== *)
theory Sha1_Rounds
  imports Sha1
begin

text \<open>
  The eighty unrolled rounds of \<open>SHA1Transform\<close> (\<open>rtw80211/openbsd/crypto/sha1.c\<close>), whose message schedule lives in a
  ring of sixteen words, against the loop of FIPS 180 over the full schedule.
\<close>

section \<open>FIPS 180\<close>

fun sha1_word :: "bytes \<Rightarrow> nat \<Rightarrow> u32" where
  "sha1_word M t = (if t < 16 then be32 M (4 * t)
     else rol (sha1_word M (t - 3) XOR sha1_word M (t - 8) XOR sha1_word M (t - 14) XOR sha1_word M (t - 16)) 1)"

declare sha1_word.simps [simp del]

definition sha1_f :: "nat \<Rightarrow> u32 \<Rightarrow> u32 \<Rightarrow> u32 \<Rightarrow> u32" where
  "sha1_f t x y z =
     (if t < 20 then (x AND y) XOR (NOT x AND z)
      else if 40 \<le> t \<and> t < 60 then (x AND y) XOR (x AND z) XOR (y AND z)
      else x XOR y XOR z)"

definition sha1_K :: "nat \<Rightarrow> u32" where
  "sha1_K t = (if t < 20 then 0x5a827999 else if t < 40 then 0x6ed9eba1 else if t < 60 then 0x8f1bbcdc else 0xca62c1d6)"

definition sha1_step :: "bytes \<Rightarrow> nat \<Rightarrow> u32 \<times> u32 \<times> u32 \<times> u32 \<times> u32 \<Rightarrow> u32 \<times> u32 \<times> u32 \<times> u32 \<times> u32" where
  "sha1_step M t = (\<lambda>(a, b, c, d, e). (rol a 5 + sha1_f t b c d + e + sha1_K t + sha1_word M t, a, rol b 30, c, d))"

definition sha1_compress :: "u32 list \<Rightarrow> bytes \<Rightarrow> u32 list" where
  "sha1_compress H M =
     (case fold (sha1_step M) [0..<80] (H ! 0, H ! 1, H ! 2, H ! 3, H ! 4) of
        (a, b, c, d, e) \<Rightarrow> [H ! 0 + a, H ! 1 + b, H ! 2 + c, H ! 3 + d, H ! 4 + e])"

definition sha1_spec :: "bytes \<Rightarrow> bytes" where
  "sha1_spec = md_hash_of sha1_compress sha1_iv sha1_be sha1_digest"


section \<open>Round functions\<close>

lemma u8_beyond: "8 \<le> k \<Longrightarrow> bit (x :: u8) k = False"
  using bit_imp_le_length [of x k] by auto

lemma swap_be32: "(rol (le32 p i) 24 AND 0xFF00FF00) OR (rol (le32 p i) 8 AND 0x00FF00FF) = be32 p i"
proof (rule bit_word_eqI)
  fix n
  assume "n < LENGTH(32)"
  then have "n \<in> set [0..<32]" by simp
  then show "bit ((rol (le32 p i) 24 AND 0xFF00FF00) OR (rol (le32 p i) 8 AND 0x00FF00FF)) n = bit (be32 p i) n"
    unfolding upt_32 set_simps insert_iff empty_iff by (elim disjE) (simp_all add: rol_def le32_def le16_def be32_def bit_simps numeral_3_eq_3 u8_beyond)
qed

lemma choose_eq: "((w AND (x XOR y)) XOR y) = ((w AND x) XOR (NOT w AND y) :: u32)"
  by (rule bit_word_eqI) (auto simp: bit_simps)

lemma majority_eq: "(((w OR x) AND y) OR (w AND x)) = ((w AND x) XOR (w AND y) XOR (x AND y) :: u32)"
  by (rule bit_word_eqI) (auto simp: bit_simps)

section \<open>The ring\<close>

definition ring :: "bytes \<Rightarrow> nat \<Rightarrow> u32 list \<Rightarrow> bool" where
  "ring M i l \<longleftrightarrow> length l = 16 \<and> (\<forall>t < i. i \<le> t + 16 \<longrightarrow> l ! (t mod 16) = sha1_word M t) \<and> (\<forall>t. i \<le> t \<and> t < 16 \<longrightarrow> l ! t = le32 M (4 * t))"

lemma ring_start: "ring M 0 (map (\<lambda>i. le32 M (4 * i)) [0..<16])"
  by (simp add: ring_def)

lemma blk0_ring: "ring M i l \<Longrightarrow> i < 16 \<Longrightarrow> \<exists>l'. blk0 i l = (sha1_word M i, l') \<and> ring M (Suc i) l'"
  by (auto simp: ring_def blk0_def Let_def swap_be32 sha1_word.simps [of M i] nth_list_update less_Suc_eq)

lemma blk_ring:
  assumes "ring M i l" "16 \<le> i"
  shows "\<exists>l'. blk i l = (sha1_word M i, l') \<and> ring M (Suc i) l'"
proof -
  have l: "length l = 16" "\<And>t. t < i \<Longrightarrow> i \<le> t + 16 \<Longrightarrow> l ! (t mod 16) = sha1_word M t" using assms(1) by (auto simp: ring_def)
  have at: "l ! ((i + k) mod 16) = sha1_word M (i + k - 16)" if "k < 16" for k
    using l(2) [of "i + k - 16"] that assms(2) mod_add_self2 [of "i + k - 16" 16] by simp
  have "blk i l = (sha1_word M i, l[i mod 16 := sha1_word M i])"
    using at [of 13] at [of 8] at [of 2] at [of 0] assms(2) by (simp add: blk_def Let_def sha1_word.simps [of M i])
  moreover have "ring M (Suc i) (l[i mod 16 := sha1_word M i])"
  proof -
    have "(l[i mod 16 := sha1_word M i]) ! (t mod 16) = sha1_word M t" if "t < Suc i" "Suc i \<le> t + 16" for t
    proof (cases "t = i")
      case False
      then have "t mod 16 \<noteq> i mod 16" using that mod_eq_dvd_iff_nat [of t i 16] by (auto dest!: dvd_imp_le)
      then show ?thesis using l that False by simp
    qed (simp add: l(1))
    moreover have "\<not> (Suc i \<le> t \<and> t < 16)" for t using assms(2) by simp
    ultimately show ?thesis using l(1) unfolding ring_def by auto
  qed
  ultimately show ?thesis by blast
qed

text \<open>\<open>ends X s\<close>: the unrolled code ends with the working variables \<open>s\<close>, whatever it leaves in the ring.\<close>

definition ends :: "u32 \<times> u32 \<times> u32 \<times> u32 \<times> u32 \<times> u32 list \<Rightarrow> u32 \<times> u32 \<times> u32 \<times> u32 \<times> u32 \<Rightarrow> bool" where
  "ends = (\<lambda>(a, b, c, d, e, l) s. s = (a, b, c, d, e))"

lemma R_step:
  assumes "\<exists>l'. R = (z + (f + sha1_word M i + k + rol v 5), rol w 30, l') \<and> ring M (Suc i) l'" "f = sha1_f i w x y" "k = sha1_K i"
    and "\<And>z w l. ring M (Suc i) l \<Longrightarrow> ends (G z w l) (fold (sha1_step M) is (z, v, w, x, y))"
  shows "ends (let (z, w, l) = R in G z w l) (fold (sha1_step M) (i # is) (v, w, x, y, z))"
proof -
  obtain l' where l: "R = (z + (f + sha1_word M i + k + rol v 5), rol w 30, l')" "ring M (Suc i) l'" using assms(1) by blast
  have "sha1_step M i (v, w, x, y, z) = (z + (f + sha1_word M i + k + rol v 5), v, rol w 30, x, y)"
    by (simp add: sha1_step_def assms(2,3) ac_simps)
  then show ?thesis using assms(4) [OF l(2)] by (simp add: l(1))
qed

lemma R0_step:
  assumes "ring M i l" "i < 16" "\<And>z w l. ring M (Suc i) l \<Longrightarrow> ends (G z w l) (fold (sha1_step M) is (z, v, w, x, y))"
  shows "ends (let (z, w, l) = SHA1_R0 v w x y z i l in G z w l) (fold (sha1_step M) (i # is) (v, w, x, y, z))"
  by (rule R_step [OF _ _ _ assms(3)]) (use blk0_ring [of M i l] assms(1,2) in \<open>auto simp: SHA1_R0_def sha1_K_def sha1_f_def choose_eq\<close>)

lemma R1_step:
  assumes "ring M i l" "16 \<le> i \<and> i < 20" "\<And>z w l. ring M (Suc i) l \<Longrightarrow> ends (G z w l) (fold (sha1_step M) is (z, v, w, x, y))"
  shows "ends (let (z, w, l) = SHA1_R1 v w x y z i l in G z w l) (fold (sha1_step M) (i # is) (v, w, x, y, z))"
  by (rule R_step [OF _ _ _ assms(3)]) (use blk_ring [of M i l] assms(1,2) in \<open>auto simp: SHA1_R1_def sha1_K_def sha1_f_def choose_eq\<close>)

lemma R2_step:
  assumes "ring M i l" "20 \<le> i \<and> i < 40" "\<And>z w l. ring M (Suc i) l \<Longrightarrow> ends (G z w l) (fold (sha1_step M) is (z, v, w, x, y))"
  shows "ends (let (z, w, l) = SHA1_R2 v w x y z i l in G z w l) (fold (sha1_step M) (i # is) (v, w, x, y, z))"
  by (rule R_step [OF _ _ _ assms(3)]) (use blk_ring [of M i l] assms(1,2) in \<open>auto simp: SHA1_R2_def sha1_K_def sha1_f_def \<close>)

lemma R3_step:
  assumes "ring M i l" "40 \<le> i \<and> i < 60" "\<And>z w l. ring M (Suc i) l \<Longrightarrow> ends (G z w l) (fold (sha1_step M) is (z, v, w, x, y))"
  shows "ends (let (z, w, l) = SHA1_R3 v w x y z i l in G z w l) (fold (sha1_step M) (i # is) (v, w, x, y, z))"
  by (rule R_step [OF _ _ _ assms(3)]) (use blk_ring [of M i l] assms(1,2) in \<open>auto simp: SHA1_R3_def sha1_K_def sha1_f_def majority_eq\<close>)

lemma R4_step:
  assumes "ring M i l" "60 \<le> i" "\<And>z w l. ring M (Suc i) l \<Longrightarrow> ends (G z w l) (fold (sha1_step M) is (z, v, w, x, y))"
  shows "ends (let (z, w, l) = SHA1_R4 v w x y z i l in G z w l) (fold (sha1_step M) (i # is) (v, w, x, y, z))"
  by (rule R_step [OF _ _ _ assms(3)]) (use blk_ring [of M i l] assms(1,2) in \<open>auto simp: SHA1_R4_def sha1_K_def sha1_f_def \<close>)

lemma ends_refl: "ends (a, b, c, d, e, l) (fold f [] (a, b, c, d, e))"
  by (simp add: ends_def)

lemma upt_80: "[0..<80] = [0, 1, 2, 3, 4, 5, 6, 7, 8, 9, 10, 11, 12, 13, 14, 15, 16, 17, 18, 19, 20, 21, 22, 23, 24, 25, 26, 27, 28, 29, 30, 31, 32, 33, 34, 35, 36, 37, 38, 39, 40, 41, 42, 43, 44, 45, 46, 47, 48, 49, 50, 51, 52, 53, 54, 55, 56, 57, 58, 59, 60, 61, 62, 63, 64, 65, 66, 67, 68, 69, 70, 71, 72, 73, 74, 75, 76, 77, 78, 79]"
  by code_simp

lemma SHA1_rounds_loop: "ring M 0 l \<Longrightarrow> ends (SHA1_rounds a b c d e l) (fold (sha1_step M) [0..<80] (a, b, c, d, e))"
  unfolding SHA1_rounds_def upt_80
  apply (rule R0_step, assumption, simp)
  apply (rule R0_step, simp, simp)
  apply (rule R0_step, simp add: numeral_2_eq_2, simp)
  apply (rule R0_step, simp, simp)+
  apply (rule R1_step, simp, simp)+
  apply (rule R2_step, simp, simp)+
  apply (rule R3_step, simp, simp)+
  apply (rule R4_step, simp, simp)+
  apply (rule ends_refl)
  done

lemma SHA1Transform_eq: "SHA1Transform H M = sha1_compress H M"
proof -
  obtain a b c d e l where r: "SHA1_rounds (H ! 0) (H ! 1) (H ! 2) (H ! 3) (H ! 4) (map (\<lambda>i. le32 M (4 * i)) [0..<16]) = (a, b, c, d, e, l)"
    by (metis surj_pair)
  then show ?thesis using SHA1_rounds_loop [OF ring_start, where M = M and a = "H ! 0" and b = "H ! 1" and c = "H ! 2" and d = "H ! 3" and e = "H ! 4"]
    by (simp add: SHA1Transform_def sha1_compress_def ends_def del: upt.simps upt_rec_numeral)
qed

end
