(* ===== verification/Pbkdf2.thy ===== *)
theory Pbkdf2
  imports Sha1_Rounds
begin

text \<open>
  SHA-1 as a whole, HMAC-SHA1 (\<open>rtw80211/openbsd/crypto/hmac.c\<close>) and the derivation of a pre-shared key from a pass
  phrase (\<open>crypto/sha1-pbkdf2.c\<close>).
\<close>

section \<open>SHA-1\<close>

lemma sha1_hash: "sha1.hash = sha1_spec"
proof -
  have "SHA1Transform = sha1_compress" by (intro ext) (rule SHA1Transform_eq)
  then show ?thesis unfolding sha1.hash_def sha1_spec_def by simp
qed

lemma sha1_roomy: "sha1.roomy c \<longleftrightarrow> 64 \<le> length (sha1_buffer c)"
  by (simp add: sha1.roomy_def sha1_view_def)

section \<open>Definitions\<close>

type_synonym HMAC_SHA1_CTX = "SHA1_CTX HMAC_CTX"

definition HMAC_SHA1_Init :: "HMAC_SHA1_CTX \<Rightarrow> bytes \<Rightarrow> HMAC_SHA1_CTX" where
  "HMAC_SHA1_Init = HMAC_Init SHA1Init SHA1Update SHA1Final 20"

definition HMAC_SHA1_Update :: "HMAC_SHA1_CTX \<Rightarrow> bytes \<Rightarrow> HMAC_SHA1_CTX" where
  "HMAC_SHA1_Update = HMAC_Update SHA1Update"

definition HMAC_SHA1_Final :: "HMAC_SHA1_CTX \<Rightarrow> bytes \<times> HMAC_SHA1_CTX" where
  "HMAC_SHA1_Final = HMAC_Final SHA1Init SHA1Update SHA1Final"

text \<open>
  The context is an uninitialised local variable; \<open>stack\<close> is what it holds. These routines always return 0, so that only the
  bytes they write are modelled.
\<close>

definition openssl_hmac_vector :: "HMAC_SHA1_CTX \<Rightarrow> bytes \<Rightarrow> bytes list \<Rightarrow> bytes" where
  "openssl_hmac_vector stack key addr = fst (HMAC_SHA1_Final (fold (\<lambda>p ctx. HMAC_SHA1_Update ctx p) addr (HMAC_SHA1_Init stack key)))"

definition hmac_sha1_vector :: "HMAC_SHA1_CTX \<Rightarrow> bytes \<Rightarrow> bytes list \<Rightarrow> bytes" where
  "hmac_sha1_vector stack key addr = openssl_hmac_vector stack key addr"

definition hmac_sha1 :: "HMAC_SHA1_CTX \<Rightarrow> bytes \<Rightarrow> bytes \<Rightarrow> bytes" where
  "hmac_sha1 stack key data = hmac_sha1_vector stack key [data]"

definition pbkdf2_step :: "HMAC_SHA1_CTX \<Rightarrow> bytes \<Rightarrow> bytes \<times> bytes \<Rightarrow> bytes \<times> bytes" where
  "pbkdf2_step stack passphrase = (\<lambda>(tmp, digest). let tmp2 = hmac_sha1 stack passphrase tmp in (tmp2, map2 (XOR) digest tmp2))"

definition pbkdf2_sha1_f :: "HMAC_SHA1_CTX \<Rightarrow> bytes \<Rightarrow> bytes \<Rightarrow> int \<Rightarrow> u32 \<Rightarrow> bytes" where
  "pbkdf2_sha1_f stack passphrase ssid iterations count =
     (let count_buf = map (\<lambda>s. ucast (drop_bit s count AND 0xff)) [24, 16, 8, 0];
          tmp = hmac_sha1_vector stack passphrase [ssid, count_buf]
      in snd ((pbkdf2_step stack passphrase ^^ nat (iterations - 1)) (tmp, tmp)))"

function pbkdf2_loop :: "HMAC_SHA1_CTX \<Rightarrow> bytes \<Rightarrow> bytes \<Rightarrow> int \<Rightarrow> u32 \<Rightarrow> nat \<Rightarrow> bytes" where
  "pbkdf2_loop stack passphrase ssid iterations count left =
     (if left > 0 then
        let count = count + 1; digest = pbkdf2_sha1_f stack passphrase ssid iterations count; plen = (if left > 20 then 20 else left)
        in take plen digest @ pbkdf2_loop stack passphrase ssid iterations count (left - plen)
      else [])"
  by pat_completeness auto
termination
  by (relation "measure (\<lambda>(stack, passphrase, ssid, iterations, count, left). left)") auto

declare pbkdf2_loop.simps [simp del]

definition pbkdf2_sha1 :: "HMAC_SHA1_CTX \<Rightarrow> bytes \<Rightarrow> bytes \<Rightarrow> int \<Rightarrow> nat \<Rightarrow> bytes" where
  "pbkdf2_sha1 stack passphrase ssid iterations buflen = pbkdf2_loop stack passphrase ssid iterations 0 buflen"


section \<open>RFC 2104\<close>

definition hmac_stack :: "HMAC_SHA1_CTX \<Rightarrow> bool" where
  "hmac_stack stack \<longleftrightarrow> length (sha1_buffer (hm_ctx stack)) = 64 \<and> length (hm_key stack) = 64"

lemma hmac_sha1_vector_spec:
  "hmac_stack stack \<Longrightarrow> length key < 2 ^ 29 \<Longrightarrow> \<forall>p \<in> set addr. length p < 2 ^ 29 \<Longrightarrow> hmac_sha1_vector stack key addr = hmac_spec sha1_spec key (concat addr)"
  unfolding hmac_sha1_vector_def openssl_hmac_vector_def HMAC_SHA1_Init_def HMAC_SHA1_Update_def HMAC_SHA1_Final_def sha1_hash [symmetric]
  by (rule sha1.hmac_parts) (simp_all add: hmac_stack_def sha1_roomy)

lemma length_hmac: "length (hmac_spec sha1_spec key M) = 20"
  using sha1.length_hash by (simp add: hmac_spec_def Let_def sha1_hash)

lemma hmac_sha1_spec: "hmac_stack stack \<Longrightarrow> length key < 2 ^ 29 \<Longrightarrow> length M < 2 ^ 29 \<Longrightarrow> hmac_sha1 stack key M = hmac_spec sha1_spec key M"
  using hmac_sha1_vector_spec [of stack key "[M]"] by (simp add: hmac_sha1_def)

section \<open>RFC 8018\<close>

text \<open>\<open>T i = U 1 XOR ... XOR U c\<close>, where \<open>U 1 = PRF P (S || i)\<close> and each further \<open>U\<close> is the keyed hash of the one before.\<close>

primrec pbkdf2_U :: "(bytes \<Rightarrow> bytes) \<Rightarrow> bytes \<Rightarrow> nat \<Rightarrow> bytes" where
  "pbkdf2_U prf salt 0 = prf salt"
| "pbkdf2_U prf salt (Suc k) = prf (pbkdf2_U prf salt k)"

primrec xor_all :: "(nat \<Rightarrow> bytes) \<Rightarrow> nat \<Rightarrow> bytes" where
  "xor_all U 0 = U 0"
| "xor_all U (Suc k) = map2 (XOR) (xor_all U k) (U (Suc k))"

definition pbkdf2_T :: "(bytes \<Rightarrow> bytes) \<Rightarrow> bytes \<Rightarrow> nat \<Rightarrow> nat \<Rightarrow> bytes" where
  "pbkdf2_T prf salt c i = xor_all (pbkdf2_U prf (salt @ put32be (of_nat i))) (c - 1)"

definition pbkdf2_spec :: "(bytes \<Rightarrow> bytes) \<Rightarrow> bytes \<Rightarrow> nat \<Rightarrow> nat \<Rightarrow> bytes" where
  "pbkdf2_spec prf salt c n = take n (concat (map (pbkdf2_T prf salt c) [1..<n div 20 + 2]))"

lemma pbkdf2_steps:
  assumes "hmac_stack stack" "length P < 2 ^ 29" "prf = hmac_spec sha1_spec P"
  shows "(pbkdf2_step stack P ^^ k) (prf S, prf S) = (pbkdf2_U prf S k, xor_all (pbkdf2_U prf S) k)"
proof (induction k)
  case (Suc k)
  have "length (pbkdf2_U prf S k) < 2 ^ 29" by (cases k) (simp_all add: assms(3) length_hmac)
  then show ?case using Suc hmac_sha1_spec [OF assms(1,2)] by (simp add: pbkdf2_step_def Let_def assms(3))
qed simp

lemma length_xor_all: "(\<And>k. length (U k) = n) \<Longrightarrow> length (xor_all U k) = n"
  by (induction k) simp_all

lemma length_pbkdf2_T: "length (pbkdf2_T (hmac_spec sha1_spec P) salt c i) = 20"
proof -
  have "length (pbkdf2_U (hmac_spec sha1_spec P) S k) = 20" for S k by (cases k) (simp_all add: length_hmac)
  then show ?thesis unfolding pbkdf2_T_def by (rule length_xor_all)
qed

lemma low_byte: "(ucast (x AND 0xff :: u32) :: u8) = ucast x"
proof -
  have "x AND 0xff = take_bit 8 x" by (simp add: take_bit_eq_mask mask_eq_exp_minus_1)
  then show ?thesis by (auto intro!: bit_word_eqI simp: bit_simps)
qed

lemma pbkdf2_block:
  assumes "hmac_stack stack" "length P < 2 ^ 29" "length ssid < 2 ^ 29"
  shows "pbkdf2_sha1_f stack P ssid iterations (of_nat i) = pbkdf2_T (hmac_spec sha1_spec P) ssid (nat iterations) i"
proof -
  have b: "map (\<lambda>s. ucast (drop_bit s (of_nat i :: u32) AND 0xff)) [24, 16, 8, 0] = put32be (of_nat i)"
    by (simp add: put32be_def low_byte)
  have "nat iterations - 1 = nat (iterations - 1)" by linarith
  then show ?thesis using pbkdf2_steps [OF assms(1,2) refl, of _ "ssid @ put32be (of_nat i)"] hmac_sha1_vector_spec [OF assms(1,2), of "[ssid, put32be (of_nat i)]"] assms(3)
    unfolding pbkdf2_sha1_f_def pbkdf2_T_def b Let_def by simp
qed

lemma pbkdf2_loop_spec:
  fixes iterations :: int
  assumes "hmac_stack stack" "length P < 2 ^ 29" "length ssid < 2 ^ 29"
  defines "T \<equiv> pbkdf2_T (hmac_spec sha1_spec P) ssid (nat iterations)"
  shows "pbkdf2_loop stack P ssid iterations (of_nat k) n = take n (concat (map T [Suc k..<Suc k + (n div 20 + 1)]))"
proof (induction n arbitrary: k rule: less_induct)
  case (less n)
  have b: "pbkdf2_sha1_f stack P ssid iterations (of_nat k + 1) = T (Suc k)"
    using pbkdf2_block [OF assms(1-3), of iterations "Suc k"] by (simp add: T_def add.commute)
  have l: "length (T i) = 20" for i by (simp add: T_def length_pbkdf2_T)
  consider "n = 0" | "0 < n" "n \<le> 20" | "20 < n" by linarith
  then show ?case
  proof cases
    case 1
    then show ?thesis by (simp add: pbkdf2_loop.simps)
  next
    case 2
    then have "pbkdf2_loop stack P ssid iterations (of_nat k) n = take n (T (Suc k))"
      by (subst pbkdf2_loop.simps) (simp add: b Let_def pbkdf2_loop.simps [of _ _ _ _ _ 0])
    then show ?thesis using 2 l by (simp add: upt_conv_Cons del: upt_Suc)
  next
    case 3
    have "pbkdf2_loop stack P ssid iterations (of_nat (Suc k)) (n - 20) = take (n - 20) (concat (map T [Suc (Suc k)..<Suc (Suc k) + ((n - 20) div 20 + 1)]))"
      using 3 by (intro less) simp
    moreover have "pbkdf2_loop stack P ssid iterations (of_nat k) n = T (Suc k) @ pbkdf2_loop stack P ssid iterations (of_nat (Suc k)) (n - 20)"
      using 3 l by (subst pbkdf2_loop.simps) (simp add: b add.commute [of 1] Let_def)
    moreover have "n div 20 = (n - 20) div 20 + 1" using 3 le_div_geq [of 20 n] by simp
    then have "[Suc k..<Suc k + (n div 20 + 1)] = Suc k # [Suc (Suc k)..<Suc (Suc k) + ((n - 20) div 20 + 1)]" by (simp add: upt_conv_Cons del: upt_Suc)
    ultimately show ?thesis using 3 l by (simp del: upt_Suc of_nat_Suc)
  qed
qed


definition sample_hmac :: HMAC_SHA1_CTX where
  "sample_hmac = \<lparr>hm_ctx = \<lparr>sha1_state = replicate 5 1, sha1_count = 7, sha1_buffer = replicate 64 9\<rparr>, hm_key = replicate 64 3, hm_key_len = 5\<rparr>"


end
