(* ===== verification/Spec2Isabelle.thy ===== *)
theory Spec2Isabelle
  imports Awdl_Clock Awdl_Data Awdl_Replay Awdl_TxGate Awdl_Coordinator Awdl_Election_Rank Awdl_Wire
    Awdl_Native Awdl_Registry Awdl_DataReceive Awdl_Scheduler Awdl_Receive Awdl_Probe Awdl_Interface Awdl_Backend_Safe Key_Wrap Arc4 Pbkdf2
begin

text \<open>
  Verification of the AWDL engine of the AirportRTW driver, of its transmit path to the hardware layer, and of the
  cryptographic primitives under the key handling of its 802.11 stack. All paths are relative to \<open>src/\<close>.

  \<^bold>\<open>The program.\<close> AWDL nodes advertise a channel sequence and a clock, elect a master whose clock they follow, and meet in
  availability windows. A received frame passes the receive registration, is parsed, and updates the election; data passes the
  codec, the peer table and the duplicate filter. The window scheduler asks the election for the next window and reserves the
  radio; in an open window the native backend sends advertisements, directed actions and queued packets, which the submission
  routines hand to the Linux driver.

  \<^bold>\<open>Conventions\<close> (theory \<open>Prelude\<close>). Machine integers are words of their width. A pointer with a length is a \<open>bytes option\<close>, where
  \<open>None\<close> is the null pointer. Out-parameters are results. A structure is a record and a method a function on it, or a computation
  in the state monad where calls go outside. Code behind an interface (a driver, the hardware layer, a sink) is an argument that
  answers each call; a log field, read by no operation but to index that argument, records the calls.

  \<^bold>\<open>Wire formats and clocks\<close> (\<open>include/AWDL\<close>).
  \<^item> \<open>Awdl_Frame\<close> (\<open>RTWAwdlFrame.hpp\<close>): the parser accepts exactly complete TLVs after an envelope.
  \<^item> \<open>Awdl_Sync\<close> (\<open>RTWAwdlSync.hpp\<close>): what the synchronization decoder accepts is well formed.
  \<^item> \<open>Awdl_Clock\<close> (\<open>RTWAwdlClock.hpp\<close>): 32-bit timestamps are extended correctly when samples are less than \<open>2 ^ 31\<close> apart.
  \<^item> \<open>Awdl_Data\<close> (\<open>RTWAwdlData.hpp\<close>): the codec's round trip and the completeness of the aggregate reader.
  \<^item> \<open>Awdl_Native\<close> (\<open>RTWAwdlTxTemplate.hpp\<close>, \<open>RTWAwdlNativeAction.hpp\<close>, \<open>RTWAwdlNativeEvents.hpp\<close>, \<open>RTWAwdlNativeRxMetadata.hpp\<close>).

  \<^bold>\<open>Election\<close> (\<open>RTWAwdlElection.hpp\<close>). \<open>Awdl_Election\<close> has the operations, \<open>Awdl_Election_Inv\<close> the invariant that all of them keep,
  \<open>Awdl_Election_Rank\<close> what the election decides, \<open>Awdl_Wire\<close> the transmitted frame and its round trip to a receiver.

  \<^bold>\<open>Concurrency and ownership.\<close> \<open>Awdl_TxGate\<close> (atomic accesses of producers and owner, as a step relation), \<open>Awdl_Coordinator\<close> (radio
  leases), \<open>Awdl_Registry\<close> (\<open>RTWMac80211Registry.h\<close>, refined to sets), \<open>Awdl_Receive\<close> (registration barrier, observer, filter),
  \<open>Awdl_Probe\<close> (startup probe and packet ownership), \<open>Awdl_Interface\<close> (memory and hardware balance of the secondary interface).

  \<^bold>\<open>Data, windows and transmission.\<close> \<open>Awdl_Replay\<close> refines the 64-entry filter to one that remembers everything; \<open>Awdl_Peers\<close>
  (\<open>AirportRTW/WCL/AirportRTWAwdlPeers.hpp\<close>) keeps the peer table equal to the hardware's peers under re-entrant calls;
  \<open>Awdl_DataReceive\<close> composes codec, table and filter; \<open>Awdl_Scheduler\<close> has the scheduler and \<open>Awdl_Sound\<close> its effect on the
  election state; \<open>Awdl_Submit\<close> the submission routines. \<open>Awdl_Backend\<close> models the transmit path and the timer of
  \<open>AirportRTW/WCL/AirportRTWAwdlBackend.hpp\<close>, and \<open>Awdl_Backend_Safe\<close> shows that all it sends is permitted, properly addressed and in order.
  This theory follows an advertisement from the sender's election through the driver to the receiver's.

  \<^bold>\<open>Cryptography\<close> (\<open>rtw80211/openbsd/crypto\<close>). \<open>Aes\<close> is the bitsliced code, \<open>Aes_Spec\<close> FIPS 197, and \<open>Aes_Bits\<close>, \<open>Aes_Blocks\<close> and
  \<open>Aes_Correct\<close> show that they agree; \<open>Key_Wrap\<close> is RFC 3394; \<open>Arc4\<close> has RC4 and Michael; \<open>Hash_Buffer\<close>, \<open>Sha1\<close>, \<open>Sha1_Rounds\<close> and
  \<open>Pbkdf2\<close> lead from the compression function to the derived key.

  \<^bold>\<open>Interfaces.\<close> \<open>bitsliced\<close> (substitution circuits), \<open>block_cipher\<close> (AES for key wrap), \<open>md_hash\<close> (SHA-1 for HMAC), \<open>peer_gate\<close>
  (the peer table for data reception) and \<open>station_registry\<close> are locales, each interpreted on the model of the code.

  \<^bold>\<open>Bounds.\<close> Loops are structural recursions, or terminate by a measure. The loops of the backend's service carry the budgets 4 and
  8 of the code, and its queues the capacities 4 and 64.

  \<^bold>\<open>Simplifications.\<close> In the backend, the timer calls that its scheduler makes are answered by the scheduler's driver: the deadline is
  kept, the call of the interface is not logged a second time. Traffic may be revoked during any outside call, which allows more
  than the code. A run of the backend begins with a started one, as opening and activation are not modelled. SHA-1 is modelled
  for a little-endian machine.

  \<^bold>\<open>Not modelled.\<close>
  \<^item> Of the backend: opening, activation, closing, settings, advertiser requests and the observation of received actions; and
    \<open>AirportRTWAwdlRuntime.hpp\<close>, the request machine in front of them. This is plain code that could be modelled in the same way.
  \<^item> The interface, data path and controller classes of \<open>AirportRTW\<close>: glue to objects of the operating system.
  \<^item> The hardware layers under \<open>rtw\<close>: vendored drivers, register tables and firmware. They appear as arguments.
  \<^item> The rest of \<open>rtw80211/openbsd/net80211\<close>, over network buffers and shared nodes; SAE, over vendored curve arithmetic; the
    ciphers and hashes not named above, with HMAC over MD5 and SHA-256.
  \<^item> Kernel compatibility code, SDK headers, scripts, tools and tests.
\<close>

section \<open>Across the components\<close>

lemma sync_frame_fields:
  assumes "transmittable s now" "subtype = 0 \<or> subtype = 3"
    and f_def: "f = sync_frame s now phyTime targetTime subtype"
  shows "length f = 141" "f ! 4 AND 1 \<noteq> 0" "piece 4 6 f = replicate 6 0xff" "piece 10 6 f = es_mac s" "piece 16 6 f = awdl_bssid" "unicast (es_mac s)"
    "\<exists>info. parseFrame (Some f) = (ParseValid, info) \<and> ai_subtype info = subtype"
proof -
  have wf: "wf_state s" using assms(1) by (simp add: transmittable_def)
  note len = wf_state_lengths [OF wf]
  let ?b = "sync_envelope phyTime targetTime subtype @ encode_tlvs (sync_tlvs s now)"
  have f: "f = [0xd0, 0, 0, 0] @ replicate 6 255 @ es_mac s @ awdl_bssid @ put16 (push_bit 4 (es_frameCounter s AND 4095)) @ ?b"
    by (simp add: f_def sync_frame_def sync_header_def)
  show l: "length f = 141" using wf by (simp add: f_def sync_frame_def sync_tlvs_def)
  show p4: "piece 4 6 f = replicate 6 0xff" and "piece 10 6 f = es_mac s" "piece 16 6 f = awdl_bssid" by (simp_all add: f fields len)
  then show "f ! 4 AND 1 \<noteq> 0" using nth_piece [of 0 6 4 f] l by simp
  show "unicast (es_mac s)" using wf by (simp add: wf_state_def wf_own_def addr_def)
  have "fst (parseFrame (Some f)) = ParseValid" using parse_sync_frame [OF assms(1,2), of phyTime targetTime] by (auto simp: parseAdvertisement_def f_def split: if_splits)
  then obtain info where info: "parseFrame (Some f) = (ParseValid, info)" by (cases "parseFrame (Some f)") auto
  then have "parseAction (Some (drop 24 f)) = (ParseValid, info)" by (auto simp: parseFrame_def split: if_splits)
  then have "ai_subtype info = drop 24 f ! 6" using parseAction_ValidD by (fastforce simp: action_info_def)
  also have "\<dots> = subtype" using l by (simp add: f len fields nth_append sync_envelope_def)
  finally show "\<exists>info. parseFrame (Some f) = (ParseValid, info) \<and> ai_subtype info = subtype" using info by blast
qed

text \<open>
  C3: An advertisement on its whole way, through the election of the sender, the driver and the registration of the receiver: whenever the
  schedule is ready, what \<open>buildSynchronization\<close> writes is accepted by \<open>submitLinuxAction\<close> on every permitted channel and handed to the driver unchanged and
  without a request for acknowledgement; every other station with an open registration hands it to its owner as an action; and the owner reads from it the schedule and the clock of the sender.
\<close>

theorem advertisement_reaches_peer:
  assumes "wf_state s" "1 \<le> es_psfPeriod s" "es_psfPeriod s \<le> 4096" "State_radioScheduleReady s" "es_epoch s \<le> now" "subtype \<in> {0, 3}" "141 \<le> length out"
    and "hw_can_tx hw" "vif_no_beacon vif" "vif_adhoc vif" "vif_addr vif = es_mac s" "tx_channel_ok chan c frequency vif"
    and "rr_lock r" "rr_enabled r" "rr_owner r = Some n" "rr_handler r = Some h" "rr_localAddress r \<noteq> es_mac s"
  shows "\<exists>f s' skb. buildSynchronization (Some out) now phyTime targetTime subtype s = Some (141, f, s') \<and>
    submitLinuxAction chan True (Some hw) (Some vif) (Some (take 141 f)) frequency (Some c) = (ActionSubmitted, [AllocSkb, TxSkb skb None]) \<and>
    skb_data skb = take 141 f \<and> bit (skb_flags skb) 2 \<and>
    dispatchReceiver r (Some (skb_data skb)) m = (True, Some (h, n, skb_data skb, m\<lparr>rm_kind := KindAction\<rparr>)) \<and>
    parseAdvertisement (Some (skb_data skb)) = Some (advertised s now)"
proof -
  have t: "transmittable s now" and sub: "subtype = 0 \<or> subtype = 3" using assms(1-6) by (auto simp: transmittable_def)
  define f where "f = sync_frame s now phyTime targetTime subtype"
  note ff = sync_frame_fields [OF t sub f_def]
  obtain info where info: "parseFrame (Some f) = (ParseValid, info)" "ai_subtype info = subtype" using ff(7) by blast
  have b: "buildSynchronization (Some out) now phyTime targetTime subtype s = Some (141, f @ drop 141 out, s\<lparr>es_frameCounter := es_frameCounter s + 1\<rparr>)"
    using assms(4-7) sub by (simp add: buildSynchronization_eq [OF assms(1)] f_def not_less)
  define skb where "skb = \<lparr>skb_data = f, skb_flags = TX_CTL_FIRST_FRAGMENT OR TX_CTL_INJECTED OR TX_CTL_NO_ACK, skb_band = ch_band (chan c), skb_vif = vif,
    skb_rates = tx_rates (ch_band (chan c)), skb_rate_count = 1, skb_queue = 0\<rparr>"
  have len: "length (es_mac s) = 6" by (rule wf_state_lengths [OF assms(1)])
  have "foldr (OR) (replicate 6 0xff) 0 \<noteq> (0 :: u8)" by code_simp
  then have a: "action_addresses_ok f vif"
    using ff(3-6) assms(11) len by (simp add: action_addresses_ok_def unicast_def)
  have "submitLinuxAction chan True (Some hw) (Some vif) (Some f) frequency (Some c) = (ActionSubmitted, [AllocSkb, TxSkb skb None])"
    using a assms(8-10,12) info sub ff(1,2) by (auto simp: submitLinuxAction_def skb_def Let_def)
  moreover have "bit (skb_flags skb) 2" by (simp add: skb_def TX_CTL_FIRST_FRAGMENT_def TX_CTL_INJECTED_def TX_CTL_NO_ACK_def bit_simps)
  moreover have "dispatch_kind (rr_localAddress r) f = Some KindAction"
    using ff(2,4-6) len info sub assms(17) ff(1) nth_piece [of 0 6 10 f] by (auto simp: dispatch_kind_def unicast_def)
  then have "dispatchReceiver r (Some f) m = (True, Some (h, n, f, m\<lparr>rm_kind := KindAction\<rparr>))"
    using assms(13-16) ff(1) by (simp add: dispatchReceiver_def dispatch_enters_def dispatch_locked_def maximumAggregateFrame_def)
  moreover have "parseAdvertisement (Some f) = Some (advertised s now)" unfolding f_def by (rule parse_sync_frame [OF t sub])
  ultimately show ?thesis using b ff(1) by (intro exI [of _ "f @ drop 141 out"] exI [of _ skb]) (simp add: skb_def)
qed

theorem advertisement_reaches_peer_witness:
  "\<exists>f s' skb. buildSynchronization (Some (zeros 200)) 5000 7 9 0 (sample_state\<lparr>es_psfPeriod := 110\<rparr>) = Some (141, f, s') \<and>
    submitLinuxAction sample_channels True (Some sample_hw) (Some (sample_vif\<lparr>vif_addr := [2, 0, 0, 0, 0, 1]\<rparr>)) (Some (take 141 f)) 5745 (Some 1) =
      (ActionSubmitted, [AllocSkb, TxSkb skb None]) \<and>
    fst (dispatchReceiver sample_registration (Some (skb_data skb)) sample_metadata)"
proof -
  let ?s = "sample_state\<lparr>es_psfPeriod := 110\<rparr>" and ?v = "sample_vif\<lparr>vif_addr := [2, 0, 0, 0, 0, 1]\<rparr>"
  have s: "wf_state ?s" "1 \<le> es_psfPeriod ?s" "es_psfPeriod ?s \<le> 4096" "es_epoch ?s \<le> 5000"
    using sample_transmittable(1) by (simp_all add: transmittable_def)
  have v: "hw_can_tx sample_hw" "vif_no_beacon ?v" "vif_adhoc ?v" "tx_channel_ok sample_channels 1 5745 ?v"
    by (simp_all add: sample_hw_def sample_vif_def tx_channel_ok_def sample_channels_def)
  have "es_mac sample_state = [2, 0, 0, 0, 0, 1]" by code_simp
  then have a: "vif_addr ?v = es_mac ?s" "rr_localAddress sample_registration \<noteq> es_mac ?s" by (simp_all add: sample_registration_def sample_local_def)
  have r: "rr_lock sample_registration" "rr_enabled sample_registration" "rr_owner sample_registration = Some 7" "rr_handler sample_registration = Some 1"
    by (simp_all add: sample_registration_def)
  have b: "0 \<in> {0, 3 :: u8}" "141 \<le> length (zeros 200)" by simp_all
  from advertisement_reaches_peer [OF s(1-3) sample_transmittable(2) s(4) b v(1-3) a(1) v(4) r a(2), of 7 9 sample_metadata]
  show ?thesis by (metis fst_conv)
qed

end
